(* ===== verification/Prelude.thy ===== *)
theory Prelude
  imports Main "HOL-Library.Multiset" "HOL-Library.Code_Target_Nat"
begin

text \<open>
  Shared vocabulary of the development.  Fallible C++ code returns a value of type
  \<^typ>\<open>'e + 'a\<close> whose left summand is the exception that was thrown; the functions below
  sequence such computations.  The theory also models the few pieces of the C++ standard library
  the program relies on everywhere: the character classes of \<^verbatim>\<open><cctype>\<close> in the C locale, the
  decimal rendering of unsigned and signed integers (\<^verbatim>\<open>std::to_string\<close>, \<^verbatim>\<open>operator<<\<close>) and
  the range of \<^verbatim>\<open>int64_t\<close> and \<^verbatim>\<open>size_t\<close>.
\<close>

section \<open>Collections of rewrite rules\<close>

named_theorems char_class_simps \<open>definitions of the character classes\<close>
named_theorems result_splits \<open>case splits for results of fallible computations\<close>

section \<open>Exceptions and results\<close>

text \<open>
  The exceptions the program throws, with their message, and the undefined behaviours of C++ that
  its code can run into (signed overflow, a read past the end of a vector).
  \<open>OutOfFuel\<close> is no behaviour of the program: it marks an exhausted recursion bound of the model,
  and every entry point is shown never to produce it.
\<close>

datatype error =
    RuntimeError string
  | LogicError string
  | InvalidArgument string
  | OutOfRange string
  | UndefinedBehaviour string
  | OutOfFuel

type_synonym 'a result = "error + 'a"

definition rbind :: "'a result \<Rightarrow> ('a \<Rightarrow> 'b result) \<Rightarrow> 'b result" where
  "rbind r f = (case r of Inl e \<Rightarrow> Inl e | Inr x \<Rightarrow> f x)"

lemma rbind_simps [simp]:
  "rbind (Inl e) f = Inl e"
  "rbind (Inr x) f = f x"
  by (simp_all add: rbind_def)

lemma rbind_eq_Inr [simp]: "rbind r f = Inr y \<longleftrightarrow> (\<exists>x. r = Inr x \<and> f x = Inr y)"
  by (cases r) auto

lemma Inr_eq_rbind [simp]: "Inr y = rbind r f \<longleftrightarrow> (\<exists>x. r = Inr x \<and> f x = Inr y)"
  by (cases r) auto

lemma rbind_eq_Inl: "rbind r f = Inl e \<longleftrightarrow> r = Inl e \<or> (\<exists>x. r = Inr x \<and> f x = Inl e)"
  by (cases r) auto

lemma rbind_cong [fundef_cong]:
  assumes "r = r'" and "\<And>x. r' = Inr x \<Longrightarrow> f x = f' x"
  shows "rbind r f = rbind r' f'"
  using assms by (cases r') auto

lemma rbind_split [split]:
  "P (rbind r f) \<longleftrightarrow> (\<forall>e. r = Inl e \<longrightarrow> P (Inl e)) \<and> (\<forall>x. r = Inr x \<longrightarrow> P (f x))"
  by (cases r) auto

lemma rbind_assoc: "rbind (rbind r f) g = rbind r (\<lambda>x. rbind (f x) g)"
  by (cases r) auto

text \<open>Mapping a fallible function over a list stops at the first exception, as the loop does.\<close>

fun rmap :: "('a \<Rightarrow> 'b result) \<Rightarrow> 'a list \<Rightarrow> 'b list result" where
  "rmap f [] = Inr []"
| "rmap f (x # xs) = rbind (f x) (\<lambda>y. rbind (rmap f xs) (\<lambda>ys. Inr (y # ys)))"

lemma rmap_length: "rmap f xs = Inr ys \<Longrightarrow> length ys = length xs"
  by (induction xs arbitrary: ys) auto

lemma rmap_Inr_iff: "rmap f xs = Inr ys \<longleftrightarrow> list_all2 (\<lambda>x y. f x = Inr y) xs ys"
  by (induction xs arbitrary: ys) (auto simp: list_all2_Cons1)

lemma rmap_member: "rmap f xs = Inr ys \<Longrightarrow> y \<in> set ys \<Longrightarrow> \<exists>x \<in> set xs. f x = Inr y"
  by (induction xs arbitrary: ys) auto

lemma rmap_cong [fundef_cong]:
  assumes "xs = ys" and "\<And>x. x \<in> set ys \<Longrightarrow> f x = g x"
  shows "rmap f xs = rmap g ys"
  using assms(2) unfolding assms(1) by (induction ys) auto

lemma rmap_pure: "(\<And>x. x \<in> set xs \<Longrightarrow> f x = Inr (g x)) \<Longrightarrow> rmap f xs = Inr (map g xs)"
  by (induction xs) auto

lemma rmap_append:
  "rmap f (xs @ ys) = rbind (rmap f xs) (\<lambda>us. rbind (rmap f ys) (\<lambda>vs. Inr (us @ vs)))"
proof (induction xs)
  case Nil
  then show ?case by (cases "rmap f ys") simp_all
next
  case (Cons x xs)
  then show ?case by (cases "f x"; cases "rmap f xs"; cases "rmap f ys") simp_all
qed

text \<open>A loop that updates an accumulator and stops at the first exception.\<close>

fun rfold :: "('a \<Rightarrow> 'b \<Rightarrow> 'a result) \<Rightarrow> 'a \<Rightarrow> 'b list \<Rightarrow> 'a result" where
  "rfold f acc [] = Inr acc"
| "rfold f acc (x # xs) = rbind (f acc x) (\<lambda>acc. rfold f acc xs)"

lemma rfold_append_list: "rfold f acc (xs @ ys) = rbind (rfold f acc xs) (\<lambda>a. rfold f a ys)"
proof (induction xs arbitrary: acc)
  case (Cons x xs)
  then show ?case by (cases "f acc x") simp_all
qed simp

lemma rfold_snoc: "rfold f acc (xs @ [x]) = rbind (rfold f acc xs) (\<lambda>a. f a x)"
  by (cases "rfold f acc xs"; cases "f (projr (rfold f acc xs)) x") (simp_all add: rfold_append_list)

text \<open>An invariant of the body is an invariant of the loop.\<close>

lemma rfold_invariant:
  assumes "rfold f acc xs = Inr out" "P acc"
    and "\<And>a b x. x \<in> set xs \<Longrightarrow> f a x = Inr b \<Longrightarrow> P a \<Longrightarrow> P b"
  shows "P out"
  using assms by (induction xs arbitrary: acc) auto

text \<open>
  An entry that one round of a loop writes, and no later round removes, is there at the end; \<open>I\<close> is an
  invariant of the loop.
\<close>

lemma rfold_reaches:
  assumes "rfold f acc xs = Inr out" "x \<in> set xs" "I acc"
    and "\<And>a b y. y \<in> set xs \<Longrightarrow> f a y = Inr b \<Longrightarrow> I a \<Longrightarrow> I b \<and> (P a \<longrightarrow> P b)"
    and "\<And>a b. f a x = Inr b \<Longrightarrow> I a \<Longrightarrow> P b"
  shows "P out"
proof -
  obtain ys zs where xs: "xs = ys @ x # zs" using assms(2) by (auto simp: in_set_conv_decomp)
  obtain a b where a: "rfold f acc ys = Inr a" and b: "f a x = Inr b" and out: "rfold f b zs = Inr out"
    using assms(1) unfolding xs by (auto simp: rfold_append_list)
  have "I a" by (rule rfold_invariant [where P = I, OF a assms(3)]) (use assms(4) xs in auto)
  with b have "I b \<and> P b" using assms(4,5) xs by auto
  then have "I out \<and> P out"
    by (rule rfold_invariant [OF out, where P = "\<lambda>a. I a \<and> P a"]) (use assms(4) xs in auto)
  then show ?thesis ..
qed

section \<open>Integer ranges\<close>

definition int64_min :: int where "int64_min = - (2 ^ 63)"
definition int64_max :: int where "int64_max = 2 ^ 63 - 1"
definition size_max :: nat where "size_max = 2 ^ 64 - 1"

definition in_int64 :: "int \<Rightarrow> bool" where
  "in_int64 i \<longleftrightarrow> int64_min \<le> i \<and> i \<le> int64_max"

text \<open>Signed arithmetic whose exact result leaves the range is undefined behaviour in C++.\<close>

definition checked_int64 :: "int \<Rightarrow> int result" where
  "checked_int64 i = (if in_int64 i then Inr i else Inl (UndefinedBehaviour ''signed overflow''))"

lemma checked_int64_Inr [simp]: "checked_int64 i = Inr j \<longleftrightarrow> in_int64 i \<and> j = i"
  by (auto simp: checked_int64_def)

text \<open>Unsigned arithmetic wraps around.\<close>

definition wrap64 :: "nat \<Rightarrow> nat" where
  "wrap64 n = n mod 2 ^ 64"

lemma wrap64_le: "wrap64 n \<le> size_max"
proof -
  have "n mod 2 ^ 64 < (2 ^ 64 :: nat)" by simp
  then show ?thesis unfolding wrap64_def size_max_def by linarith
qed

lemma wrap64_id: "n \<le> size_max \<Longrightarrow> wrap64 n = n"
  by (simp add: wrap64_def size_max_def)

section \<open>Characters\<close>

abbreviation code :: "char \<Rightarrow> nat" where "code c \<equiv> of_char c"

definition isspace :: "char \<Rightarrow> bool" where
  "isspace c \<longleftrightarrow> code c = 32 \<or> (9 \<le> code c \<and> code c \<le> 13)"

definition isdigit :: "char \<Rightarrow> bool" where
  "isdigit c \<longleftrightarrow> 48 \<le> code c \<and> code c \<le> 57"

definition isupper :: "char \<Rightarrow> bool" where
  "isupper c \<longleftrightarrow> 65 \<le> code c \<and> code c \<le> 90"

definition islower :: "char \<Rightarrow> bool" where
  "islower c \<longleftrightarrow> 97 \<le> code c \<and> code c \<le> 122"

definition isalpha :: "char \<Rightarrow> bool" where
  "isalpha c \<longleftrightarrow> isupper c \<or> islower c"

definition isalnum :: "char \<Rightarrow> bool" where
  "isalnum c \<longleftrightarrow> isalpha c \<or> isdigit c"

definition toupper :: "char \<Rightarrow> char" where
  "toupper c = (if islower c then char_of (code c - 32) else c)"

lemmas [char_class_simps] =
  isspace_def isdigit_def isupper_def islower_def isalpha_def isalnum_def

definition to_upper :: "string \<Rightarrow> string" where
  "to_upper s = map toupper s"

lemma toupper_idem [simp]: "toupper (toupper c) = toupper c"
  by (auto simp: toupper_def islower_def)

lemma to_upper_idem [simp]: "to_upper (to_upper s) = to_upper s"
  by (simp add: to_upper_def comp_def)

section \<open>Decimal numbers\<close>

text \<open>Digits are computed on \<^typ>\<open>int\<close>, whose numerals are binary, so that closed terms evaluate.\<close>

definition digit_char :: "int \<Rightarrow> char" where
  "digit_char d = char_of (48 + nat d)"

definition digit_val :: "char \<Rightarrow> int" where
  "digit_val c = int (code c) - 48"

function show_dec :: "int \<Rightarrow> string" where
  "show_dec i = (if i < 10 then [digit_char i] else show_dec (i div 10) @ [digit_char (i mod 10)])"
  by pat_completeness auto
termination
  by (relation "measure nat") auto

declare show_dec.simps [simp del]

definition show_nat :: "nat \<Rightarrow> string" where
  "show_nat n = show_dec (int n)"

definition show_int :: "int \<Rightarrow> string" where
  "show_int i = (if i < 0 then CHR ''-'' # show_dec (- i) else show_dec i)"

definition read_dec :: "string \<Rightarrow> int" where
  "read_dec s = foldl (\<lambda>n c. 10 * n + digit_val c) 0 s"

lemma code_digit_char [simp]: "0 \<le> d \<Longrightarrow> d < 10 \<Longrightarrow> code (digit_char d) = 48 + nat d"
  by (simp add: digit_char_def)

lemma digit_val_digit_char [simp]: "0 \<le> d \<Longrightarrow> d < 10 \<Longrightarrow> digit_val (digit_char d) = d"
  by (simp add: digit_val_def)

lemma isdigit_digit_char [simp]: "0 \<le> d \<Longrightarrow> d < 10 \<Longrightarrow> isdigit (digit_char d)"
  by (simp add: isdigit_def)

lemma show_dec_digits: "0 \<le> i \<Longrightarrow> \<forall>c \<in> set (show_dec i). isdigit c"
proof (induction i rule: show_dec.induct)
  case (1 i)
  show ?case
  proof (cases "i < 10")
    case True
    with "1.prems" show ?thesis by (subst show_dec.simps) simp
  next
    case False
    with "1.IH" show ?thesis by (subst show_dec.simps) simp
  qed
qed

lemma show_dec_not_Nil [simp]: "show_dec i \<noteq> []"
  by (subst show_dec.simps) simp

lemma read_dec_snoc: "read_dec (s @ [c]) = 10 * read_dec s + digit_val c"
  by (simp add: read_dec_def)

lemma read_dec_show_dec [simp]: "0 \<le> i \<Longrightarrow> read_dec (show_dec i) = i"
proof (induction i rule: show_dec.induct)
  case (1 i)
  show ?case
  proof (cases "i < 10")
    case True
    with "1.prems" show ?thesis by (subst show_dec.simps) (simp add: read_dec_def)
  next
    case False
    with "1.IH" have "read_dec (show_dec (i div 10)) = i div 10" by simp
    with False show ?thesis by (subst show_dec.simps) (simp add: read_dec_snoc)
  qed
qed

lemma show_dec_inject: "0 \<le> i \<Longrightarrow> 0 \<le> j \<Longrightarrow> show_dec i = show_dec j \<longleftrightarrow> i = j"
  by (metis read_dec_show_dec)

lemma show_nat_inject [simp]: "show_nat m = show_nat n \<longleftrightarrow> m = n"
  by (simp add: show_nat_def show_dec_inject)

text \<open>A digit never starts a signed rendering, so the rendering of \<^verbatim>\<open>int64_t\<close> is injective.\<close>

lemma show_dec_no_minus: "0 \<le> i \<Longrightarrow> CHR ''-'' # s \<noteq> show_dec i"
proof
  assume "0 \<le> i" and "CHR ''-'' # s = show_dec i"
  then have "CHR ''-'' \<in> set (show_dec i)" by (metis list.set_intros(1))
  then have "isdigit (CHR ''-'')" using show_dec_digits \<open>0 \<le> i\<close> by blast
  then show False by (simp add: isdigit_def)
qed

lemma show_int_inject [simp]: "show_int i = show_int j \<longleftrightarrow> i = j"
proof (cases "i < 0"; cases "j < 0")
  assume "i < 0" and "\<not> j < 0"
  then show ?thesis using show_dec_no_minus [of j "show_dec (- i)"] by (auto simp: show_int_def)
next
  assume "\<not> i < 0" and "j < 0"
  then show ?thesis using show_dec_no_minus [of i "show_dec (- j)"] by (auto simp: show_int_def)
qed (auto simp: show_int_def show_dec_inject)

section \<open>Options\<close>

lemma pred_option_code [code]: "pred_option P None = True" "pred_option P (Some x) = P x"
  by simp_all

section \<open>Lists\<close>

lemma takeWhile_append_stop:
  "(\<And>x. x \<in> set xs \<Longrightarrow> P x) \<Longrightarrow> (ys = [] \<or> \<not> P (hd ys)) \<Longrightarrow> takeWhile P (xs @ ys) = xs"
  by (cases ys) (simp_all add: takeWhile_append)

lemma dropWhile_append_stop:
  "(\<And>x. x \<in> set xs \<Longrightarrow> P x) \<Longrightarrow> (ys = [] \<or> \<not> P (hd ys)) \<Longrightarrow> dropWhile P (xs @ ys) = ys"
  by (cases ys) (simp_all add: dropWhile_append)

text \<open>The index of the first element with a property.\<close>

fun position :: "('a \<Rightarrow> bool) \<Rightarrow> 'a list \<Rightarrow> nat option" where
  "position P [] = None"
| "position P (x # xs) = (if P x then Some 0 else map_option Suc (position P xs))"

lemma position_Some: "position P xs = Some i \<Longrightarrow> i < length xs \<and> P (xs ! i) \<and> (\<forall>j < i. \<not> P (xs ! j))"
  by (induction xs arbitrary: i) (auto split: if_splits simp: less_Suc_eq_0_disj)

lemma position_None: "position P xs = None \<longleftrightarrow> (\<forall>x \<in> set xs. \<not> P x)"
  by (induction xs) auto

lemma position_append:
  "position P (xs @ ys) =
     (case position P xs of Some i \<Rightarrow> Some i | None \<Rightarrow> map_option (\<lambda>i. length xs + i) (position P ys))"
  by (induction xs) (cases "position P ys"; auto split: option.splits)+

text \<open>Joining strings with a separator, as the printing loops do.\<close>

fun join_with :: "'a list \<Rightarrow> 'a list list \<Rightarrow> 'a list" where
  "join_with sep [] = []"
| "join_with sep [x] = x"
| "join_with sep (x # y # xs) = x @ sep @ join_with sep (y # xs)"

lemma length_join_member: "x \<in> set xs \<Longrightarrow> length x \<le> length (join_with sep xs)"
  by (induction sep xs rule: join_with.induct) auto

lemma join_with_Cons: "xs \<noteq> [] \<Longrightarrow> join_with sep (x # xs) = x @ sep @ join_with sep xs"
  by (cases xs) auto

end
