(* ===== verification/Doubles.thy ===== *)
theory Doubles
  imports Prelude Complex_Main
begin

text \<open>
  The C++ type \<^verbatim>\<open>double\<close> as IEEE 754 binary64 with the default rounding mode (round to nearest,
  ties to even).  A finite value is a sign bit and an exact rational magnitude; every arithmetic
  operation computes the exact rational result and rounds it.  Signed zeros, infinities and NaN are
  values (the payload and the sign of a NaN are not represented).  The theory also models the two
  renderings of a double the program uses: \<^verbatim>\<open>operator<<\<close> with the default precision, that is
  \<^verbatim>\<open>printf\<close>'s \<^verbatim>\<open>%g\<close>, and \<^verbatim>\<open>std::to_string\<close>, that is \<^verbatim>\<open>%f\<close>.
\<close>

section \<open>Rounding\<close>

datatype double = NaN | Inf bool | Fin bool rat

text \<open>\<open>bpow b k\<close> is \<open>b\<^sup>k\<close>; \<open>ilog b m\<close> is the largest \<open>k\<close> with \<open>b\<^sup>k \<le> m\<close>, for a positive rational \<open>m\<close>.\<close>

definition bpow :: "int \<Rightarrow> int \<Rightarrow> rat" where
  "bpow b k = (if 0 \<le> k then of_int (b ^ nat k) else 1 / of_int (b ^ nat (- k)))"

function num_digits :: "int \<Rightarrow> int \<Rightarrow> int" where
  "num_digits b n = (if b \<le> 1 \<or> n < b then 1 else 1 + num_digits b (n div b))"
  by pat_completeness auto
termination
  by (relation "measure (\<lambda>(b, n). nat n)") (auto simp: int_div_less_self)

declare num_digits.simps [simp del]

definition ilog :: "int \<Rightarrow> rat \<Rightarrow> int" where
  "ilog b m =
     (let (p, q) = quotient_of m; k = num_digits b p - num_digits b q
      in if bpow b k \<le> m then k else k - 1)"

text \<open>Round to the nearest integer, ties to even.\<close>

definition rne :: "rat \<Rightarrow> int" where
  "rne x =
     (let f = \<lfloor>x\<rfloor>; d = x - of_int f
      in if d < 1 / 2 then f else if 1 / 2 < d then f + 1 else if even f then f else f + 1)"

text \<open>The exponent of the unit in the last place of a magnitude, subnormals included.\<close>

definition ulp_exp :: "rat \<Rightarrow> int" where
  "ulp_exp m = max (ilog 2 m) (- 1022) - 52"

definition round_mag :: "rat \<Rightarrow> rat" where
  "round_mag m = (if m \<le> 0 then 0 else of_int (rne (m / bpow 2 (ulp_exp m))) * bpow 2 (ulp_exp m))"

text \<open>Magnitudes of \<open>2\<^sup>1\<^sup>0\<^sup>2\<^sup>4\<close> and more overflow.\<close>

definition too_big :: "rat \<Rightarrow> bool" where
  "too_big m \<longleftrightarrow> 0 < m \<and> 1024 \<le> ilog 2 m"

definition round_double :: "bool \<Rightarrow> rat \<Rightarrow> double" where
  "round_double s m = (let r = round_mag m in if too_big r then Inf s else Fin s r)"

section \<open>Values\<close>

fun is_double :: "double \<Rightarrow> bool" where
  "is_double NaN = True"
| "is_double (Inf s) = True"
| "is_double (Fin s m) = (0 \<le> m \<and> round_mag m = m \<and> \<not> too_big m)"

definition signed :: "bool \<Rightarrow> rat \<Rightarrow> rat" where
  "signed s m = (if s then - m else m)"

text \<open>The double nearest to an exact rational, and \<^verbatim>\<open>static_cast<double>\<close> of an integer.\<close>

definition double_of_rat :: "rat \<Rightarrow> double" where
  "double_of_rat x = round_double (x < 0) \<bar>x\<bar>"

definition double_of_int :: "int \<Rightarrow> double" where
  "double_of_int i = double_of_rat (of_int i)"

definition double_of_nat :: "nat \<Rightarrow> double" where
  "double_of_nat n = double_of_rat (of_nat n)"

abbreviation dzero :: double where "dzero \<equiv> Fin False 0"

section \<open>Arithmetic\<close>

fun dneg :: "double \<Rightarrow> double" where
  "dneg NaN = NaN"
| "dneg (Inf s) = Inf (\<not> s)"
| "dneg (Fin s m) = Fin (\<not> s) m"

fun dadd :: "double \<Rightarrow> double \<Rightarrow> double" where
  "dadd (Fin s m) (Fin t n) =
     (let x = signed s m + signed t n
      in if x = 0 then Fin (s \<and> t) 0 else double_of_rat x)"
| "dadd (Inf s) (Inf t) = (if s = t then Inf s else NaN)"
| "dadd (Inf s) (Fin t n) = Inf s"
| "dadd (Fin s m) (Inf t) = Inf t"
| "dadd NaN b = NaN"
| "dadd a NaN = NaN"

definition dsub :: "double \<Rightarrow> double \<Rightarrow> double" where
  "dsub a b = dadd a (dneg b)"

fun dmul :: "double \<Rightarrow> double \<Rightarrow> double" where
  "dmul (Fin s m) (Fin t n) = round_double (s \<noteq> t) (m * n)"
| "dmul (Inf s) (Inf t) = Inf (s \<noteq> t)"
| "dmul (Inf s) (Fin t n) = (if n = 0 then NaN else Inf (s \<noteq> t))"
| "dmul (Fin s m) (Inf t) = (if m = 0 then NaN else Inf (s \<noteq> t))"
| "dmul NaN b = NaN"
| "dmul a NaN = NaN"

fun ddiv :: "double \<Rightarrow> double \<Rightarrow> double" where
  "ddiv (Fin s m) (Fin t n) =
     (if n = 0 then (if m = 0 then NaN else Inf (s \<noteq> t)) else round_double (s \<noteq> t) (m / n))"
| "ddiv (Inf s) (Inf t) = NaN"
| "ddiv (Inf s) (Fin t n) = Inf (s \<noteq> t)"
| "ddiv (Fin s m) (Inf t) = Fin (s \<noteq> t) 0"
| "ddiv NaN b = NaN"
| "ddiv a NaN = NaN"

section \<open>Comparison\<close>

text \<open>The C++ operators \<^verbatim>\<open>==\<close>, \<^verbatim>\<open><\<close> and \<^verbatim>\<open><=\<close>: false whenever an operand is NaN.\<close>

fun deq :: "double \<Rightarrow> double \<Rightarrow> bool" where
  "deq (Fin s m) (Fin t n) = (signed s m = signed t n)"
| "deq (Inf s) (Inf t) = (s = t)"
| "deq a b = False"

fun dlt :: "double \<Rightarrow> double \<Rightarrow> bool" where
  "dlt (Fin s m) (Fin t n) = (signed s m < signed t n)"
| "dlt (Inf s) (Inf t) = (s \<and> \<not> t)"
| "dlt (Inf s) (Fin t n) = s"
| "dlt (Fin s m) (Inf t) = (\<not> t)"
| "dlt NaN b = False"
| "dlt a NaN = False"

definition dle :: "double \<Rightarrow> double \<Rightarrow> bool" where
  "dle a b \<longleftrightarrow> dlt a b \<or> deq a b"

lemma deq_sym: "deq a b = deq b a"
  by (cases a; cases b) auto

lemma deq_trans: "deq a b \<Longrightarrow> deq b c \<Longrightarrow> deq a c"
  by (cases a; cases b; cases c) auto

lemma deq_refl_iff [simp]: "deq a a \<longleftrightarrow> a \<noteq> NaN"
  by (cases a) auto

lemma dlt_irrefl [simp]: "\<not> dlt a a"
  by (cases a) auto

lemma dlt_asym: "dlt a b \<Longrightarrow> \<not> dlt b a"
  by (cases a; cases b) auto

lemma dlt_trans: "dlt a b \<Longrightarrow> dlt b c \<Longrightarrow> dlt a c"
  by (cases a; cases b; cases c) auto

lemma dlt_not_deq: "dlt a b \<Longrightarrow> \<not> deq a b"
  by (cases a; cases b) auto

lemma dlt_linear: "a \<noteq> NaN \<Longrightarrow> b \<noteq> NaN \<Longrightarrow> dlt a b \<or> deq a b \<or> dlt b a"
  by (cases a; cases b) auto

lemma dlt_deq_left: "deq a b \<Longrightarrow> dlt a c = dlt b c"
  by (cases a; cases b; cases c) auto

lemma dlt_deq_right: "deq a b \<Longrightarrow> dlt c a = dlt c b"
  by (cases a; cases b; cases c) auto

section \<open>Renderings\<close>

text \<open>A natural number as exactly \<open>w\<close> decimal digits, the most significant first.\<close>

fun show_fixed :: "nat \<Rightarrow> int \<Rightarrow> string" where
  "show_fixed 0 n = []"
| "show_fixed (Suc w) n = show_fixed w (n div 10) @ [digit_char (n mod 10)]"

definition sign_prefix :: "bool \<Rightarrow> string" where
  "sign_prefix s = (if s then ''-'' else [])"

text \<open>\<^verbatim>\<open>std::to_string(double)\<close>: six digits after the point, correctly rounded.\<close>

fun show_f6 :: "double \<Rightarrow> string" where
  "show_f6 NaN = ''nan''"
| "show_f6 (Inf s) = sign_prefix s @ ''inf''"
| "show_f6 (Fin s m) =
     (let n = rne (m * 10 ^ 6)
      in sign_prefix s @ show_dec (n div 10 ^ 6) @ ''.'' @ show_fixed 6 (n mod 10 ^ 6))"

text \<open>Dropping the trailing zeros of a fractional part, and the point when nothing is left of it.\<close>

definition strip_frac :: "string \<Rightarrow> string" where
  "strip_frac ds =
     (let ds' = rev (dropWhile (\<lambda>c. c = CHR ''0'') (rev ds))
      in if ds' = [] then [] else CHR ''.'' # ds')"

definition show_exp :: "int \<Rightarrow> string" where
  "show_exp x =
     ''e'' @ (if x < 0 then ''-'' else ''+'') @
     (if \<bar>x\<bar> < 10 then ''0'' else []) @ show_dec \<bar>x\<bar>"

text \<open>
  \<^verbatim>\<open>%.Pg\<close> of a positive magnitude: \<open>x\<close> is the decimal exponent after rounding to \<open>P\<close> significant
  digits, which are the digits of \<open>d\<close>; fixed notation is used when \<open>-4 \<le> x < P\<close>.
\<close>

definition show_g_mag :: "nat \<Rightarrow> rat \<Rightarrow> string" where
  "show_g_mag P m =
     (let x0 = ilog 10 m;
          d0 = rne (m / bpow 10 (x0 - int P + 1));
          x = (if d0 = 10 ^ P then x0 + 1 else x0);
          d = (if d0 = 10 ^ P then 10 ^ (P - 1) else d0);
          digits = show_fixed P d
      in if - 4 \<le> x \<and> x < int P
         then (if 0 \<le> x
               then take (nat x + 1) digits @ strip_frac (drop (nat x + 1) digits)
               else ''0'' @ strip_frac (replicate (nat (- x) - 1) CHR ''0'' @ digits))
         else take 1 digits @ strip_frac (drop 1 digits) @ show_exp x)"

fun show_g :: "nat \<Rightarrow> double \<Rightarrow> string" where
  "show_g P NaN = ''nan''"
| "show_g P (Inf s) = sign_prefix s @ ''inf''"
| "show_g P (Fin s m) = sign_prefix s @ (if m = 0 then ''0'' else show_g_mag P m)"

section \<open>Reading a double\<close>

text \<open>
  \<^verbatim>\<open>std::stod\<close> on digits, a point and digits: the exact decimal value, correctly rounded.
  It throws when the value overflows, and when it underflows inexactly (\<^verbatim>\<open>ERANGE\<close>).
\<close>

definition decimal_rat :: "string \<Rightarrow> string \<Rightarrow> rat" where
  "decimal_rat ip fp = of_int (read_dec (ip @ fp)) / 10 ^ length fp"

definition range_checked :: "bool \<Rightarrow> rat \<Rightarrow> double result" where
  "range_checked s m =
     (let r = round_mag m
      in if too_big r \<or> (0 < m \<and> r \<noteq> m \<and> (r = 0 \<or> ilog 2 r < - 1022))
         then Inl (OutOfRange ''stod'') else Inr (Fin s r))"

definition stod_decimal :: "string \<Rightarrow> string \<Rightarrow> double result" where
  "stod_decimal ip fp = range_checked False (decimal_rat ip fp)"

section \<open>Logarithm and rounding are correct\<close>

lemma bpow_pos [simp]: "0 < b \<Longrightarrow> 0 < bpow b k"
  by (simp add: bpow_def)

lemma bpow_neq_0 [simp]: "0 < b \<Longrightarrow> bpow b k \<noteq> 0"
  by (simp add: bpow_def)

lemma bpow_powi: "0 < b \<Longrightarrow> bpow b k = of_int b powi k"
  by (simp add: bpow_def power_int_def inverse_eq_divide power_one_over)

lemma bpow_add: "0 < b \<Longrightarrow> bpow b (j + k) = bpow b j * bpow b k"
  by (simp add: bpow_powi power_int_add)

lemma bpow_1 [simp]: "bpow b 1 = of_int b"
  by (simp add: bpow_def)

lemma bpow_0 [simp]: "bpow b 0 = 1"
  by (simp add: bpow_def)

lemma bpow_strict_mono: "2 \<le> b \<Longrightarrow> j < k \<Longrightarrow> bpow b j < bpow b k"
  by (simp add: bpow_powi power_int_strict_increasing)

lemma bpow_le_iff [simp]: "2 \<le> b \<Longrightarrow> bpow b j \<le> bpow b k \<longleftrightarrow> j \<le> k"
  by (metis bpow_strict_mono linorder_not_less order_less_le)

lemma bpow_less_iff [simp]: "2 \<le> b \<Longrightarrow> bpow b j < bpow b k \<longleftrightarrow> j < k"
  by (meson bpow_le_iff not_le)

lemma bpow_nat: "bpow b (int n) = of_int (b ^ n)"
  by (simp add: bpow_def)

lemma num_digits_pos: "1 \<le> num_digits b n"
proof (induction b n rule: num_digits.induct)
  case (1 b n)
  then show ?case by (subst num_digits.simps) auto
qed

lemma num_digits_bounds:
  assumes "2 \<le> b" and "1 \<le> n"
  shows "b ^ nat (num_digits b n - 1) \<le> n \<and> n < b ^ nat (num_digits b n)"
  using assms
proof (induction b n rule: num_digits.induct)
  case (1 b n)
  show ?case
  proof (cases "n < b")
    case True
    with "1.prems" show ?thesis by (subst (1 2) num_digits.simps) simp
  next
    case False
    let ?d = "num_digits b (n div b)"
    have pos: "1 \<le> n div b"
      using False "1.prems" by (simp add: int_one_le_iff_zero_less pos_imp_zdiv_pos_iff)
    with False "1.prems" "1.IH"
    have IH: "b ^ nat (?d - 1) \<le> n div b" "n div b < b ^ nat ?d" by auto
    have d: "nat ?d = Suc (nat (?d - 1))" "nat (1 + ?d) = Suc (nat ?d)"
      using num_digits_pos [of b "n div b"] by auto
    have nd: "num_digits b n = 1 + ?d" using False "1.prems" by (subst num_digits.simps) simp
    have "b * (b ^ nat (?d - 1)) \<le> b * (n div b)"
      using IH(1) "1.prems"(1) by (intro mult_left_mono) auto
    also have "\<dots> \<le> n" using "1.prems"(1) by (metis mult.commute minus_mod_eq_div_mult
        diff_le_eq le_add_same_cancel1 pos_mod_sign zero_less_numeral less_le_trans)
    finally have lower: "b ^ nat ?d \<le> n" by (simp add: d)
    have "n div b + 1 \<le> b ^ nat ?d" using IH(2) by simp
    then have "b * (n div b + 1) \<le> b * b ^ nat ?d"
      using "1.prems"(1) by (intro mult_left_mono) auto
    moreover have "n < b * (n div b + 1)"
      using "1.prems"(1) pos_mod_bound [of b n] mult_div_mod_eq [of b n]
      by (simp only: distrib_left) linarith
    ultimately have "n < b ^ nat (1 + ?d)" by (simp add: d)
    with lower show ?thesis by (simp add: nd)
  qed
qed

lemma ilog_bounds:
  assumes b: "2 \<le> b" and m: "0 < m"
  shows "bpow b (ilog b m) \<le> m" and "m < bpow b (ilog b m + 1)"
proof -
  obtain p q where pq: "quotient_of m = (p, q)" by fastforce
  have q: "1 \<le> q" using quotient_of_denom_pos [OF pq] by simp
  have mpq: "m = of_int p / of_int q" using quotient_of_div [OF pq] .
  with m q have p: "1 \<le> p" by (simp add: zero_less_divide_iff)
  let ?dp = "num_digits b p" and ?dq = "num_digits b q"
  let ?k = "?dp - ?dq"
  have nn: "1 \<le> ?dp" "1 \<le> ?dq" by (rule num_digits_pos)+
  have up: "bpow b (?dp - 1) \<le> of_int p" "of_int p < bpow b ?dp"
    using num_digits_bounds [OF b p] nn by (simp_all add: bpow_def del: of_int_power)
  have uq: "bpow b (?dq - 1) \<le> of_int q" "of_int q < bpow b ?dq"
    using num_digits_bounds [OF b q] nn by (simp_all add: bpow_def del: of_int_power)
  have pos: "0 < bpow b j" for j using b by simp
  have "of_int p * bpow b (?dq - 1) < bpow b ?dp * of_int q"
    using up uq p q pos [of "?dq - 1"] by (intro mult_less_le_imp_less) auto
  then have "of_int p < (bpow b ?dp / bpow b (?dq - 1)) * of_int q"
    using pos [of "?dq - 1"] by (simp add: field_simps)
  moreover have "bpow b ?dp / bpow b (?dq - 1) = bpow b (?k + 1)"
    using b bpow_add [of b "?k + 1" "?dq - 1"] pos [of "?dq - 1"] by (simp add: field_simps)
  ultimately have hi: "m < bpow b (?k + 1)" using q by (simp add: mpq field_simps)
  have "bpow b (?dp - 1) * of_int q < of_int p * bpow b ?dq"
    using up uq p q pos [of "?dp - 1"] by (intro mult_le_less_imp_less) auto
  then have "(bpow b (?dp - 1) / bpow b ?dq) * of_int q < of_int p"
    using pos [of ?dq] by (simp add: field_simps)
  moreover have "bpow b (?dp - 1) / bpow b ?dq = bpow b (?k - 1)"
    using b bpow_add [of b "?k - 1" ?dq] pos [of ?dq] by (simp add: field_simps)
  ultimately have lo: "bpow b (?k - 1) < m" using q by (simp add: mpq field_simps)
  have il: "ilog b m = (if bpow b ?k \<le> m then ?k else ?k - 1)" by (simp add: ilog_def pq)
  show "bpow b (ilog b m) \<le> m" using lo by (auto simp: il)
  show "m < bpow b (ilog b m + 1)" using hi by (auto simp: il)
qed

lemma ilog_eqI:
  assumes b: "2 \<le> b" and lo: "bpow b k \<le> m" and hi: "m < bpow b (k + 1)"
  shows "ilog b m = k"
proof -
  have m: "0 < m" using b lo by (metis bpow_pos less_le_trans zero_less_numeral)
  have "bpow b k < bpow b (ilog b m + 1)" using ilog_bounds(2) [OF b m] lo by linarith
  moreover have "bpow b (ilog b m) < bpow b (k + 1)" using ilog_bounds(1) [OF b m] hi by linarith
  ultimately show ?thesis using b by simp
qed

lemma ilog_le: "2 \<le> b \<Longrightarrow> 0 < m \<Longrightarrow> m < bpow b (k + 1) \<Longrightarrow> ilog b m \<le> k"
  using ilog_bounds(1) [of b m] bpow_less_iff [of b "ilog b m" "k + 1"] by linarith

lemma ilog_ge: "2 \<le> b \<Longrightarrow> bpow b k \<le> m \<Longrightarrow> k \<le> ilog b m"
proof -
  assume b: "2 \<le> b" and k: "bpow b k \<le> m"
  then have "0 < m" by (metis bpow_pos less_le_trans zero_less_numeral)
  then have "bpow b k < bpow b (ilog b m + 1)" using ilog_bounds(2) [OF b, of m] k by linarith
  then show ?thesis using b by simp
qed

lemma ilog_mono: "2 \<le> b \<Longrightarrow> 0 < m \<Longrightarrow> m \<le> n \<Longrightarrow> ilog b m \<le> ilog b n"
  using ilog_bounds(1) [of b m] by (intro ilog_ge) auto

lemma rne_of_int [simp]: "rne (of_int i) = i"
  by (simp add: rne_def)

lemma rne_cases: "rne x = \<lfloor>x\<rfloor> \<or> rne x = \<lfloor>x\<rfloor> + 1"
  by (simp add: rne_def Let_def)

lemma rne_mono:
  assumes "x \<le> y"
  shows "rne x \<le> rne y"
proof (cases "\<lfloor>x\<rfloor> = \<lfloor>y\<rfloor>")
  case True
  then show ?thesis using assms unfolding rne_def Let_def by auto
next
  case False
  then have "\<lfloor>x\<rfloor> + 1 \<le> \<lfloor>y\<rfloor>" using floor_mono [OF assms] by simp
  then show ?thesis using rne_cases [of x] rne_cases [of y] by auto
qed

lemma rne_bounds: "of_int i \<le> x \<Longrightarrow> i \<le> rne x" "x \<le> of_int j \<Longrightarrow> rne x \<le> j"
  using rne_mono [of "of_int i" x] rne_mono [of x "of_int j"] by simp_all

lemma ulp_exp_ge: "- 1074 \<le> ulp_exp m"
  by (simp add: ulp_exp_def)

lemma below_ulp: "0 < m \<Longrightarrow> m < bpow 2 (ulp_exp m + 53)"
proof -
  assume "0 < m"
  then have "m < bpow 2 (ilog 2 m + 1)" by (intro ilog_bounds) auto
  also have "\<dots> \<le> bpow 2 (ulp_exp m + 53)" by (simp add: ulp_exp_def)
  finally show ?thesis .
qed

lemma above_ulp: "0 < m \<Longrightarrow> - 1074 < ulp_exp m \<Longrightarrow> bpow 2 (ulp_exp m + 52) \<le> m"
proof -
  assume m: "0 < m" and e: "- 1074 < ulp_exp m"
  have "ulp_exp m + 52 = ilog 2 m" using e by (simp add: ulp_exp_def max_def split: if_splits)
  then show ?thesis using ilog_bounds(1) [of 2 m] m by simp
qed

lemma bpow_2_numerals: "bpow 2 52 = 2 ^ 52" "bpow 2 53 = 2 ^ 53"
  by (simp_all add: bpow_def)

text \<open>The significand of a rounded magnitude has at most 53 bits.\<close>

lemma significand_le:
  assumes "0 < m"
  shows "rne (m / bpow 2 (ulp_exp m)) \<le> 2 ^ 53"
proof (rule rne_bounds)
  have "m / bpow 2 (ulp_exp m) < bpow 2 53"
    using below_ulp [OF assms] by (simp add: bpow_add field_simps)
  then show "m / bpow 2 (ulp_exp m) \<le> of_int (2 ^ 53)" by (simp add: bpow_2_numerals)
qed

lemma significand_ge:
  assumes "0 < m" and "- 1074 < ulp_exp m"
  shows "2 ^ 52 \<le> rne (m / bpow 2 (ulp_exp m))"
proof (rule rne_bounds)
  have "bpow 2 52 \<le> m / bpow 2 (ulp_exp m)"
    using above_ulp [OF assms] by (simp add: bpow_add field_simps)
  then show "of_int (2 ^ 52) \<le> m / bpow 2 (ulp_exp m)" by (simp add: bpow_2_numerals)
qed

lemma round_mag_0 [simp]: "round_mag 0 = 0"
  by (simp add: round_mag_def)

lemma round_mag_nonneg [simp]: "0 \<le> round_mag m"
proof (cases "m \<le> 0")
  case False
  then have "0 \<le> rne (m / bpow 2 (ulp_exp m))"
    by (intro rne_bounds) (simp add: field_simps)
  then show ?thesis by (simp add: round_mag_def less_imp_le)
qed (simp add: round_mag_def)

text \<open>A multiple of a unit that is at least its own unit in the last place is representable.\<close>

lemma round_mag_exact:
  assumes "0 < of_int n * bpow 2 e" and "ulp_exp (of_int n * bpow 2 e) \<le> e"
  shows "round_mag (of_int n * bpow 2 e) = of_int n * bpow 2 e"
proof -
  let ?r = "of_int n * bpow 2 e :: rat" and ?u = "ulp_exp (of_int n * bpow 2 e)"
  have e: "bpow 2 e = bpow 2 (e - ?u) * bpow 2 ?u" by (simp flip: bpow_add)
  have "?r / bpow 2 ?u = of_int n * (bpow 2 (e - ?u) * bpow 2 ?u) / bpow 2 ?u" by (subst (1) e) simp
  then have "?r / bpow 2 ?u = of_int n * bpow 2 (e - ?u)" by simp
  also have "\<dots> = of_int (n * 2 ^ nat (e - ?u))" using assms(2) by (simp add: bpow_def)
  finally have q: "?r / bpow 2 ?u = of_int (n * 2 ^ nat (e - ?u))" .
  have "round_mag ?r = of_int (rne (?r / bpow 2 ?u)) * bpow 2 ?u"
    using assms(1) by (simp add: round_mag_def)
  also have "\<dots> = ?r / bpow 2 ?u * bpow 2 ?u" by (simp only: q rne_of_int)
  also have "\<dots> = ?r" by simp
  finally show ?thesis .
qed

lemma round_mag_idem [simp]: "round_mag (round_mag m) = round_mag m"
proof (cases "round_mag m = 0")
  case False
  then have m: "0 < m" by (auto simp: round_mag_def split: if_splits)
  let ?e = "ulp_exp m"
  define n where "n = rne (m / bpow 2 ?e)"
  have r: "round_mag m = of_int n * bpow 2 ?e" using m by (simp add: round_mag_def n_def)
  have pos: "0 < round_mag m" using False round_mag_nonneg [of m] by linarith
  show ?thesis
  proof (cases "n = 2 ^ 53")
    case True
    have one: "round_mag m = of_int 1 * bpow 2 (?e + 53)"
      by (simp add: r True bpow_add bpow_2_numerals)
    have "ilog 2 (bpow 2 (?e + 53)) = ?e + 53" by (rule ilog_eqI) simp_all
    then have "ulp_exp (bpow 2 (?e + 53)) \<le> ?e + 53"
      using ulp_exp_ge [of m] by (simp add: ulp_exp_def [of "bpow 2 (?e + 53)"])
    then show ?thesis unfolding one by (intro round_mag_exact) simp_all
  next
    case False
    then have "n < 2 ^ 53" using significand_le [OF m] by (simp add: n_def)
    then have "(of_int n :: rat) < of_int (2 ^ 53)" by (simp only: of_int_less_iff)
    then have "round_mag m < bpow 2 (?e + 52 + 1)"
      by (simp add: r bpow_add bpow_2_numerals)
    then have "ilog 2 (round_mag m) \<le> ?e + 52" using pos by (intro ilog_le) auto
    then have "ulp_exp (round_mag m) \<le> ?e"
      using ulp_exp_ge [of m] by (simp add: ulp_exp_def [of "round_mag m"])
    with pos show ?thesis unfolding r by (intro round_mag_exact)
  qed
qed simp

text \<open>Rounding is monotone: the property every bound on a computed estimate rests on.\<close>

lemma round_mag_mono:
  assumes "m \<le> n"
  shows "round_mag m \<le> round_mag n"
proof (cases "m \<le> 0")
  case True
  then show ?thesis by (simp add: round_mag_def [of m])
next
  case False
  then have m: "0 < m" and n: "0 < n" using assms by auto
  let ?e = "ulp_exp m" and ?f = "ulp_exp n"
  have ef: "?e \<le> ?f" using ilog_mono [of 2 m n] m assms by (simp add: ulp_exp_def)
  show ?thesis
  proof (cases "?e = ?f")
    case True
    have "rne (m / bpow 2 ?f) \<le> rne (n / bpow 2 ?f)"
      using assms by (intro rne_mono divide_right_mono) (simp_all add: less_imp_le)
    with m n True show ?thesis by (simp add: round_mag_def)
  next
    case False
    with ef have lt: "?e + 1 \<le> ?f" by simp
    have "(of_int (rne (m / bpow 2 ?e)) :: rat) \<le> of_int (2 ^ 53)"
      using significand_le [OF m] by (simp only: of_int_le_iff)
    then have "round_mag m \<le> bpow 2 (?e + 53)"
      using m by (simp add: round_mag_def bpow_add bpow_2_numerals)
    also have "\<dots> \<le> bpow 2 (?f + 52)" using lt by simp
    also have "\<dots> = of_int (2 ^ 52) * bpow 2 ?f" by (simp add: bpow_add bpow_2_numerals)
    also have "\<dots> \<le> round_mag n"
    proof -
      have "- 1074 < ?f" using lt ulp_exp_ge [of m] by linarith
      then have "(of_int (2 ^ 52) :: rat) \<le> of_int (rne (n / bpow 2 ?f))"
        using significand_ge [OF n] by (simp only: of_int_le_iff)
      then show ?thesis using n by (simp add: round_mag_def)
    qed
    finally show ?thesis .
  qed
qed

section \<open>Operations produce representable values\<close>

lemma is_double_round [simp]: "is_double (round_double s m)"
  by (simp add: round_double_def Let_def)

lemma is_double_of_rat [simp]: "is_double (double_of_rat x)"
  by (simp add: double_of_rat_def)

lemma is_double_of_int [simp]: "is_double (double_of_int i)"
  by (simp add: double_of_int_def)

lemma is_double_dneg [simp]: "is_double (dneg a) = is_double a"
  by (cases a) simp_all

lemma not_too_big_0 [simp]: "\<not> too_big 0"
  by (simp add: too_big_def)

lemma is_double_dadd [simp]: "is_double (dadd a b)"
  by (cases a; cases b) (simp_all add: Let_def)

lemma is_double_dsub [simp]: "is_double (dsub a b)"
  by (simp add: dsub_def)

lemma is_double_dmul [simp]: "is_double (dmul a b)"
  by (cases a; cases b) simp_all

lemma is_double_ddiv [simp]: "is_double (ddiv a b)"
  by (cases a; cases b) simp_all

lemma is_double_range_checked: "range_checked s m = Inr d \<Longrightarrow> is_double d"
  by (auto simp: range_checked_def Let_def split: if_splits) (metis round_mag_nonneg)+

lemma is_double_stod: "stod_decimal ip fp = Inr d \<Longrightarrow> is_double d"
  by (simp add: stod_decimal_def is_double_range_checked)

text \<open>Integers of at most 53 bits are doubles.\<close>

lemma round_mag_int:
  assumes "0 < n" "n < 2 ^ 53"
  shows "round_mag (of_int n) = of_int n" "\<not> too_big (of_int n)"
proof -
  have "ilog 2 (of_int n) \<le> 52"
    using assms by (intro ilog_le) (simp_all add: bpow_2_numerals)
  moreover from this have "ulp_exp (of_int n) \<le> 0" by (simp add: ulp_exp_def)
  ultimately show "round_mag (of_int n) = of_int n" "\<not> too_big (of_int n)"
    using assms round_mag_exact [of n 0] by (simp_all add: too_big_def)
qed

lemma double_of_int_exact:
  assumes "\<bar>i\<bar> < 2 ^ 53"
  shows "double_of_int i = Fin (i < 0) \<bar>of_int i\<bar>"
proof (cases "i = 0")
  case False
  with assms round_mag_int [of "\<bar>i\<bar>"] show ?thesis
    by (simp add: double_of_int_def double_of_rat_def round_double_def Let_def)
qed (simp add: double_of_int_def double_of_rat_def round_double_def)

end
