(* ===== verification/Ast.thy ===== *)
theory Ast
  imports Doubles
begin

text \<open>
  The data the front end works on: tokens (\<^verbatim>\<open>parser/token.hpp\<close>) and the syntax tree
  (\<^verbatim>\<open>parser/ast.hpp\<close>).  The C++ classes are tagged unions written as a kind field next to the
  fields of every alternative; here each kind is a constructor that carries the fields the factory
  function of that kind sets.
\<close>

section \<open>Tokens\<close>

datatype token =
    TSelect | TFrom | TWhere | TJoin | TInner | TLeft | TRight | TCross | TOn
  | TAnd | TOr | TNot | TAs | TOrder | TBy | TGroup | TLimit | TAsc | TDesc | THaving
  | TNull | TTrue | TFalse
  | TIdentifier string | TInteger int | TFloat double | TStringLit string
  | TEq | TNeq | TLt | TGt | TLte | TGte | TPlus | TMinus | TStar | TSlash
  | TComma | TDot | TLParen | TRParen
  | TEof

section \<open>Expressions\<close>

datatype binary_operator =
    Eq | Neq | Lt | Gt | Lte | Gte
  | And | Or
  | Add | Sub | Mul | Div

datatype unary_operator = UNot | UNeg

datatype literal =
    Integer int
  | Float double
  | Str string
  | Boolean bool
  | Null

datatype expression =
    Column "string option" string
  | Lit literal
  | BinaryOp expression binary_operator expression
  | UnaryOp unary_operator expression
  | Function string "expression list"
  | Wildcard

text \<open>The values a literal can hold in C++: a 64-bit integer, a representable double.\<close>

fun literal_ok :: "literal \<Rightarrow> bool" where
  "literal_ok (Integer i) = in_int64 i"
| "literal_ok (Float d) = is_double d"
| "literal_ok _ = True"

fun expr_ok :: "expression \<Rightarrow> bool" where
  "expr_ok (Column t c) = True"
| "expr_ok (Lit l) = literal_ok l"
| "expr_ok (BinaryOp l p r) = (expr_ok l \<and> expr_ok r)"
| "expr_ok (UnaryOp u e) = expr_ok e"
| "expr_ok (Function f args) = (\<forall>a \<in> set args. expr_ok a)"
| "expr_ok Wildcard = True"

section \<open>Statements\<close>

datatype select_item =
    SelectExpression expression "string option"
  | SelectWildcard
  | QualifiedWildcard string

record table_ref =
  ref_table_name :: string
  ref_alias :: "string option"

datatype join_type = Inner | Left | Right | Cross

record join_clause =
  join_kind :: join_type
  join_table :: table_ref
  join_condition :: expression

record order_by_item =
  order_expression :: expression
  order_ascending :: bool

record select_statement =
  columns :: "select_item list"
  from_table :: table_ref
  joins :: "join_clause list"
  where_clause :: "expression option"
  group_by :: "expression list"
  having :: "expression option"
  order_by :: "order_by_item list"
  limit :: "nat option"

datatype statement = Select select_statement

end
