(* ===== verification/Schema.thy ===== *)
theory Schema
  imports Ast "HOL-Library.AList" "HOL-Library.Char_ord" "HOL-Library.List_Lexorder"
begin

text \<open>
  The schema catalog (\<^verbatim>\<open>logical/schema.hpp\<close>, \<^verbatim>\<open>logical/schema.cpp\<close>): table schemas by name, with the
  sorted traversal \<^verbatim>\<open>table_names\<close> and the built-in test catalog.  The C++ hash map is an association
  list with one entry per key; strings are ordered like \<^verbatim>\<open>std::string\<close>, lexicographically by
  character code.
\<close>

section \<open>Schemas\<close>

datatype data_type = IntType | FloatType | TextType | BooleanType

record column_def =
  col_name :: string
  col_type :: data_type
  col_nullable :: bool

record table_size =
  row_count :: nat
  avg_row_bytes :: nat

record table_schema =
  schema_columns :: "column_def list"
  schema_stats :: table_size
  indexed_columns :: "string list"

definition get_column :: "table_schema \<Rightarrow> string \<Rightarrow> column_def option" where
  "get_column s name = find (\<lambda>c. col_name c = name) (schema_columns s)"

definition has_index_on :: "table_schema \<Rightarrow> string \<Rightarrow> bool" where
  "has_index_on s c \<longleftrightarrow> c \<in> set (indexed_columns s)"

section \<open>Catalog\<close>

type_synonym catalog = "(string \<times> table_schema) list"

definition register_table :: "string \<Rightarrow> table_schema \<Rightarrow> catalog \<Rightarrow> catalog" where
  "register_table name s c = AList.update name s c"

definition catalog_get :: "catalog \<Rightarrow> string \<Rightarrow> table_schema option" where
  "catalog_get c name = map_of c name"

definition table_names :: "catalog \<Rightarrow> string list" where
  "table_names c = sort (map fst c)"

definition catalog_ok :: "catalog \<Rightarrow> bool" where
  "catalog_ok c \<longleftrightarrow> distinct (map fst c)"

text \<open>\<^verbatim>\<open>Catalog::with_test_tables\<close>.\<close>

definition column :: "string \<Rightarrow> data_type \<Rightarrow> bool \<Rightarrow> column_def" where
  "column n t b = \<lparr>col_name = n, col_type = t, col_nullable = b\<rparr>"

definition with_test_tables :: catalog where
  "with_test_tables =
     register_table ''products''
       \<lparr>schema_columns =
          [column ''id'' IntType False, column ''name'' TextType False,
           column ''price'' FloatType False, column ''category'' TextType False],
        schema_stats = \<lparr>row_count = 2000, avg_row_bytes = 96\<rparr>,
        indexed_columns = [''id'']\<rparr>
     (register_table ''orders''
       \<lparr>schema_columns =
          [column ''id'' IntType False, column ''customer_id'' IntType False,
           column ''product_id'' IntType False, column ''total'' FloatType False,
           column ''status'' TextType True],
        schema_stats = \<lparr>row_count = 500000, avg_row_bytes = 64\<rparr>,
        indexed_columns = [''id'', ''customer_id'', ''product_id'']\<rparr>
     (register_table ''customers''
       \<lparr>schema_columns =
          [column ''id'' IntType False, column ''name'' TextType False,
           column ''email'' TextType True, column ''country'' TextType True],
        schema_stats = \<lparr>row_count = 10000, avg_row_bytes = 128\<rparr>,
        indexed_columns = [''id'']\<rparr> []))"

section \<open>The catalog is a map with a deterministic traversal\<close>

lemma register_table_ok: "catalog_ok c \<Longrightarrow> catalog_ok (register_table name s c)"
  by (simp add: catalog_ok_def register_table_def distinct_update)

lemma catalog_get_register: "catalog_get (register_table n s c) m = (if m = n then Some s else catalog_get c m)"
  by (simp add: catalog_get_def register_table_def update_conv')

lemma table_names_sorted: "sorted (table_names c)" "set (table_names c) = dom (catalog_get c)"
  by (simp_all add: table_names_def catalog_get_def [abs_def] dom_map_of_conv_image_fst)

text \<open>Two catalogs with the same contents are traversed in the same order, however they were built.\<close>

lemma table_names_deterministic:
  assumes "catalog_ok c" "catalog_ok d" "catalog_get c = catalog_get d"
  shows "table_names c = table_names d"
proof -
  have "set (map fst c) = set (map fst d)"
    using table_names_sorted(2) [of c] table_names_sorted(2) [of d] assms(3)
    by (simp add: table_names_def)
  then have "mset (map fst c) = mset (map fst d)"
    using assms(1,2) set_eq_iff_mset_eq_distinct unfolding catalog_ok_def by blast
  then show ?thesis
    unfolding table_names_def by (metis properties_for_sort mset_sort sorted_sort)
qed

section \<open>Properties\<close>

text \<open>
  Two catalogs with the same contents list their tables in the same order, however the hash map
  stores them: the traversal that the schema fingerprint of the plan cache depends on is deterministic.
\<close>

theorem table_names_canonical:
  assumes "catalog_ok c" "catalog_ok d" "catalog_get c = catalog_get d"
  shows "table_names c = table_names d"
  by (rule table_names_deterministic [OF assms])

theorem table_names_canonical_witness: "table_names (rev with_test_tables) = table_names with_test_tables"
proof (rule table_names_canonical)
  show ok: "catalog_ok with_test_tables" by code_simp
  then show "catalog_ok (rev with_test_tables)" by (simp add: catalog_ok_def flip: rev_map)
  with ok show "catalog_get (rev with_test_tables) = catalog_get with_test_tables"
    unfolding catalog_get_def [abs_def] catalog_ok_def by (subst map_of_inject_set) simp_all
qed

end
