(* ===== verification/Lexer.thy ===== *)
theory Lexer
  imports Ast
begin

text \<open>
  The lexer (\<^verbatim>\<open>parser/lexer.cpp\<close>).  The C++ object holds the input and a read position; the
  model passes the unread suffix of the input instead, which is what \<^verbatim>\<open>peek\<close> and
  \<^verbatim>\<open>advance\<close> look at.  \<open>next_token\<close> returns the token with the suffix left after it, or the
  exception it throws, and \<open>tokenize\<close> repeats it up to the end-of-input token.  The lemmas show that
  every token but the last consumes input (so \<open>tokenize\<close> terminates), that the token list ends in its
  only \<^term>\<open>TEof\<close>, and that the values carried by tokens are values of their C++ types.
\<close>

section \<open>Reading the input\<close>

fun lex_peek :: "string \<Rightarrow> char option" where
  "lex_peek [] = None"
| "lex_peek (c # s) = Some c"

definition skip_whitespace :: "string \<Rightarrow> string" where
  "skip_whitespace s = dropWhile isspace s"

text \<open>The body of a string literal, up to and including the closing quote.\<close>

fun lex_string :: "string \<Rightarrow> (string \<times> string) result" where
  "lex_string [] = Inl (RuntimeError ''unterminated string literal'')"
| "lex_string (c # s) =
     (if c = CHR 0x27 then Inr ([], s)
      else rbind (lex_string s) (\<lambda>(body, rest). Inr (c # body, rest)))"

text \<open>\<^verbatim>\<open>std::stoll\<close> on a nonempty string of digits.\<close>

definition stoll_digits :: "string \<Rightarrow> int result" where
  "stoll_digits ds =
     (if read_dec ds \<le> int64_max then Inr (read_dec ds) else Inl (OutOfRange ''stoll''))"

definition lex_number :: "string \<Rightarrow> (token \<times> string) result" where
  "lex_number s =
     (let num = takeWhile isdigit s; rest = dropWhile isdigit s;
          after_dot = (if lex_peek rest = Some CHR ''.'' then lex_peek (tl rest) else None)
      in case after_dot of
           Some c \<Rightarrow>
             (if isdigit c
              then (let frac = takeWhile isdigit (tl rest)
                    in case stod_decimal num frac of
                         Inl _ \<Rightarrow> Inl (RuntimeError ''invalid float'')
                       | Inr d \<Rightarrow> Inr (TFloat d, dropWhile isdigit (tl rest)))
              else (case stoll_digits num of
                      Inl _ \<Rightarrow> Inl (RuntimeError ''invalid integer'')
                    | Inr i \<Rightarrow> Inr (TInteger i, rest)))
         | None \<Rightarrow>
             (case stoll_digits num of
                Inl _ \<Rightarrow> Inl (RuntimeError ''invalid integer'')
              | Inr i \<Rightarrow> Inr (TInteger i, rest)))"

text \<open>The keywords, in the order the code tests them.\<close>

definition keyword_table :: "(string \<times> token) list" where
  "keyword_table =
     [(''SELECT'', TSelect), (''FROM'', TFrom), (''WHERE'', TWhere), (''JOIN'', TJoin),
      (''INNER'', TInner), (''LEFT'', TLeft), (''RIGHT'', TRight), (''CROSS'', TCross),
      (''ON'', TOn), (''AND'', TAnd), (''OR'', TOr), (''NOT'', TNot), (''AS'', TAs),
      (''ORDER'', TOrder), (''BY'', TBy), (''GROUP'', TGroup), (''LIMIT'', TLimit),
      (''ASC'', TAsc), (''DESC'', TDesc), (''HAVING'', THaving), (''NULL'', TNull),
      (''TRUE'', TTrue), (''FALSE'', TFalse)]"

definition word_char :: "char \<Rightarrow> bool" where
  "word_char c \<longleftrightarrow> isalnum c \<or> c = CHR ''_''"

definition word_start :: "char \<Rightarrow> bool" where
  "word_start c \<longleftrightarrow> isalpha c \<or> c = CHR ''_''"

definition lex_word :: "string \<Rightarrow> token \<times> string" where
  "lex_word s =
     (let word = takeWhile word_char s
      in (case map_of keyword_table (to_upper word) of
            Some t \<Rightarrow> t
          | None \<Rightarrow> TIdentifier word,
          dropWhile word_char s))"

section \<open>One token\<close>

text \<open>\<open>lex_at s\<close> is the part of \<^verbatim>\<open>next_token\<close> after the white space has been skipped.\<close>

fun lex_at :: "string \<Rightarrow> (token \<times> string) result" where
  "lex_at [] = Inr (TEof, [])"
| "lex_at (c # s) =
     (if c = CHR '','' then Inr (TComma, s)
      else if c = CHR ''.'' then Inr (TDot, s)
      else if c = CHR ''('' then Inr (TLParen, s)
      else if c = CHR '')'' then Inr (TRParen, s)
      else if c = CHR ''+'' then Inr (TPlus, s)
      else if c = CHR ''-'' then Inr (TMinus, s)
      else if c = CHR ''*'' then Inr (TStar, s)
      else if c = CHR ''/'' then Inr (TSlash, s)
      else if c = CHR ''='' then Inr (TEq, s)
      else if c = CHR ''<'' then
        (if lex_peek s = Some CHR ''='' then Inr (TLte, tl s)
         else if lex_peek s = Some CHR ''>'' then Inr (TNeq, tl s)
         else Inr (TLt, s))
      else if c = CHR ''>'' then
        (if lex_peek s = Some CHR ''='' then Inr (TGte, tl s) else Inr (TGt, s))
      else if c = CHR ''!'' then
        (if lex_peek s = Some CHR ''='' then Inr (TNeq, tl s)
         else Inl (RuntimeError (''expected '' @ [CHR 0x27] @ ''='' @ [CHR 0x27] @ '' after '' @
                [CHR 0x27] @ ''!'' @ [CHR 0x27])))
      else if c = CHR 0x27 then
        rbind (lex_string s) (\<lambda>(body, rest). Inr (TStringLit body, rest))
      else if isdigit c then lex_number (c # s)
      else if word_start c then Inr (lex_word (c # s))
      else Inl (RuntimeError (''unexpected character: '' @ [CHR 0x27] @ [c] @ [CHR 0x27])))"

definition next_token :: "string \<Rightarrow> (token \<times> string) result" where
  "next_token s = lex_at (skip_whitespace s)"

section \<open>Every token consumes input\<close>

lemma length_dropWhile_less: "P c \<Longrightarrow> length (dropWhile P (c # s)) < length (c # s)"
  by (simp add: le_imp_less_Suc length_dropWhile_le)

lemma lex_peek_Some_tl: "lex_peek s = Some c \<Longrightarrow> s = c # tl s"
  by (cases s) auto

lemma length_tl_less: "lex_peek s = Some c \<Longrightarrow> length (tl s) < length s"
  by (cases s) auto

lemma lex_string_length: "lex_string s = Inr (body, rest) \<Longrightarrow> length rest < length s"
  by (induction s arbitrary: body) (fastforce split: if_splits)+

lemma lex_number_length:
  assumes "isdigit c" and "lex_number (c # s) = Inr (t, s')"
  shows "length s' < length (c # s)"
proof -
  let ?rest = "dropWhile isdigit (c # s)"
  have rest: "length ?rest < length (c # s)" using assms(1) by (rule length_dropWhile_less)
  have frac: "length (dropWhile isdigit (tl ?rest)) \<le> length ?rest"
    by (metis diff_le_self le_trans length_dropWhile_le length_tl)
  have "s' = ?rest \<or> s' = dropWhile isdigit (tl ?rest)"
    using assms(2) by (auto simp: lex_number_def Let_def split: option.splits if_splits sum.splits)
  with rest frac show ?thesis by auto
qed

lemma lex_at_length: "lex_at s = Inr (t, s') \<Longrightarrow> t \<noteq> TEof \<Longrightarrow> length s' < length s"
proof (cases s)
  case Nil
  then show "lex_at s = Inr (t, s') \<Longrightarrow> t \<noteq> TEof \<Longrightarrow> length s' < length s" by simp
next
  case (Cons c r)
  assume lex: "lex_at s = Inr (t, s')"
  have "length (tl r) \<le> length r" by simp
  moreover have "length (dropWhile word_char (c # r)) < length (c # r)" if "word_start c"
    using that by (intro length_dropWhile_less) (auto simp: word_start_def word_char_def isalnum_def)
  ultimately show "length s' < length s"
    using lex lex_string_length [of r] lex_number_length [of c r t s'] unfolding Cons
    by (auto simp: lex_word_def Let_def le_imp_less_Suc split: if_splits dest: less_SucI)
qed

lemma next_token_length: "next_token s = Inr (t, s') \<Longrightarrow> t \<noteq> TEof \<Longrightarrow> length s' < length s"
  unfolding next_token_def skip_whitespace_def
  using lex_at_length [of "dropWhile isspace s" t s'] length_dropWhile_le [of isspace s] by linarith

section \<open>All tokens\<close>

function tokenize :: "string \<Rightarrow> token list result" where
  "tokenize s =
     rbind (next_token s) (\<lambda>(t, s').
       if t = TEof then Inr [t] else rbind (tokenize s') (\<lambda>ts. Inr (t # ts)))"
  by pat_completeness auto
termination
  by (relation "measure length") (auto dest: next_token_length)

declare tokenize.simps [simp del]

section \<open>What the token list looks like\<close>

text \<open>A word the lexer returns as an identifier: it is no keyword in any letter case.\<close>

definition valid_ident :: "string \<Rightarrow> bool" where
  "valid_ident w \<longleftrightarrow>
     w \<noteq> [] \<and> word_start (hd w) \<and> list_all word_char w \<and> map_of keyword_table (to_upper w) = None"

fun token_ok :: "token \<Rightarrow> bool" where
  "token_ok (TIdentifier w) = valid_ident w"
| "token_ok (TInteger i) = (0 \<le> i \<and> in_int64 i)"
| "token_ok (TFloat d) = is_double d"
| "token_ok (TStringLit s) = (CHR 0x27 \<notin> set s)"
| "token_ok _ = True"

lemma keyword_tokens_ok: "map_of keyword_table w = Some t \<Longrightarrow> token_ok t \<and> t \<noteq> TEof"
  by (auto simp: keyword_table_def split: if_splits)

lemma read_dec_nonneg: "list_all isdigit ds \<Longrightarrow> 0 \<le> read_dec ds"
  by (induction ds rule: rev_induct) (auto simp: read_dec_snoc digit_val_def isdigit_def read_dec_def)

lemma stoll_digits_ok: "list_all isdigit ds \<Longrightarrow> stoll_digits ds = Inr i \<Longrightarrow> 0 \<le> i \<and> in_int64 i"
  using read_dec_nonneg [of ds]
  by (auto simp: stoll_digits_def in_int64_def int64_min_def split: if_splits)

lemma list_all_takeWhile: "list_all P (takeWhile P s)"
  by (induction s) auto

lemma lex_string_body: "lex_string s = Inr (body, rest) \<Longrightarrow> CHR 0x27 \<notin> set body"
  by (induction s arbitrary: body) (fastforce split: if_splits)+

lemma lex_number_ok: "lex_number s = Inr (t, s') \<Longrightarrow> token_ok t \<and> t \<noteq> TEof"
  by (auto simp: lex_number_def Let_def is_double_stod
      split: option.splits if_splits sum.splits dest: stoll_digits_ok [OF list_all_takeWhile])

lemma lex_word_ok: "word_start c \<Longrightarrow> lex_word (c # s) = (t, s') \<Longrightarrow> token_ok t \<and> t \<noteq> TEof"
  using keyword_tokens_ok [of "to_upper (takeWhile word_char (c # s))"]
  by (auto simp: lex_word_def Let_def valid_ident_def word_start_def word_char_def isalnum_def
      list_all_takeWhile [unfolded word_char_def isalnum_def] split: option.splits)

lemma lex_at_ok: "lex_at s = Inr (t, s') \<Longrightarrow> token_ok t"
proof (cases s)
  case (Cons c r)
  assume "lex_at s = Inr (t, s')"
  then show ?thesis
    using lex_number_ok [of "c # r" t s'] lex_word_ok [of c r t s'] lex_string_body [of r]
    unfolding Cons by (auto split: if_splits)
qed simp

lemma next_token_ok: "next_token s = Inr (t, s') \<Longrightarrow> token_ok t"
  by (auto simp: next_token_def dest: lex_at_ok)

lemma tokenize_shape:
  "tokenize s = Inr ts \<Longrightarrow> \<exists>us. ts = us @ [TEof] \<and> TEof \<notin> set us \<and> list_all token_ok us"
proof (induction s arbitrary: ts rule: tokenize.induct)
  case (1 s)
  from "1.prems" obtain t s' where nxt: "next_token s = Inr (t, s')"
    and rest: "(if t = TEof then Inr [t] else rbind (tokenize s') (\<lambda>ts. Inr (t # ts))) = Inr ts"
    by (subst (asm) tokenize.simps) auto
  show ?case
  proof (cases "t = TEof")
    case True
    with rest show ?thesis by (intro exI [of _ "[]"]) simp
  next
    case False
    with rest obtain us where us: "tokenize s' = Inr us" "ts = t # us" by auto
    from "1.IH" [OF nxt refl False us(1)] obtain vs
      where "us = vs @ [TEof]" "TEof \<notin> set vs" "list_all token_ok vs" by auto
    with us(2) False next_token_ok [OF nxt] show ?thesis
      by (intro exI [of _ "t # vs"]) simp
  qed
qed

text \<open>
  Leading white space is irrelevant, and so is the letter case of a keyword: the facts behind the
  claim of \<^verbatim>\<open>sql_printer.hpp\<close> that such queries have the same syntax tree.
\<close>

lemma tokenize_whitespace: "list_all isspace w \<Longrightarrow> tokenize (w @ s) = tokenize s"
proof -
  assume w: "list_all isspace w"
  then have "skip_whitespace (w @ s) = skip_whitespace s"
    by (auto simp: skip_whitespace_def list_all_iff dropWhile_append)
  then have "next_token (w @ s) = next_token s" by (simp add: next_token_def)
  then show ?thesis by (subst (1 2) tokenize.simps) simp
qed

section \<open>Properties\<close>

text \<open>
  When lexing succeeds, the token list ends in its only end-of-input token, and every other token
  carries a value of its C++ type: an identifier that is no keyword in any letter case, a nonnegative
  64-bit integer, a representable double, a string without quotes.
\<close>

theorem tokenize_wellformed:
  "tokenize s = Inr ts \<Longrightarrow> \<exists>us. ts = us @ [TEof] \<and> TEof \<notin> set us \<and> list_all token_ok us"
  by (rule tokenize_shape)

theorem tokenize_wellformed_witness:
  "\<exists>us. [TSelect, TIdentifier ''a'', TLte, TInteger 10, TEof] = us @ [TEof] \<and> TEof \<notin> set us \<and>
     list_all token_ok us"
  by (rule tokenize_wellformed [of "''SELECT a<=10 ''"]) code_simp

end
