(* ===== verification/Logical_Planner.thy ===== *)
theory Logical_Planner
  imports Schema Parser
begin

text \<open>
  Logical plans (\<^verbatim>\<open>logical/logical_plan.hpp\<close>) and the translation of a parsed statement into one
  (\<^verbatim>\<open>logical/planner.cpp\<close>).  The plan class is a tagged union; its factory functions are the
  constructors of \<open>logical_plan\<close>.
\<close>

section \<open>Logical plans\<close>

record aggregate_expr =
  agg_func :: string
  agg_arg :: expression
  agg_alias :: "string option"

datatype logical_plan =
    Scan string "string option" "string list"
  | Filter expression logical_plan
  | Join join_type expression logical_plan logical_plan
  | Aggregate "expression list" "aggregate_expr list" logical_plan
  | Project "(expression \<times> string option) list" logical_plan
  | Sort "order_by_item list" logical_plan
  | Limit nat logical_plan

section \<open>The planner\<close>

definition aggregate_functions :: "string list" where
  "aggregate_functions = [''SUM'', ''COUNT'', ''AVG'', ''MIN'', ''MAX'']"

definition is_aggregate_function :: "string \<Rightarrow> bool" where
  "is_aggregate_function upper \<longleftrightarrow> upper \<in> set aggregate_functions"

definition register_alias :: "table_ref \<Rightarrow> (string \<times> string) list \<Rightarrow> (string \<times> string) list" where
  "register_alias r m =
     AList.update (case ref_alias r of Some a \<Rightarrow> a | None \<Rightarrow> ref_table_name r) (ref_table_name r) m"

text \<open>An aggregate call: the upper-case function name and the argument, a star when there is none.\<close>

fun aggregate_call :: "expression \<Rightarrow> (string \<times> expression) option" where
  "aggregate_call (Function f args) =
     (if is_aggregate_function (to_upper f)
      then Some (to_upper f, case args of [] \<Rightarrow> Wildcard | a # _ \<Rightarrow> a) else None)"
| "aggregate_call _ = None"

fun split_select_list ::
  "select_item list \<Rightarrow> (expression \<times> string option) list \<times> aggregate_expr list"
where
  "split_select_list [] = ([], [])"
| "split_select_list (SelectWildcard # items) = split_select_list items"
| "split_select_list (QualifiedWildcard t # items) = split_select_list items"
| "split_select_list (SelectExpression e a # items) =
     (let (plain, aggs) = split_select_list items
      in case aggregate_call e of
           Some (f, arg) \<Rightarrow> (plain, \<lparr>agg_func = f, agg_arg = arg, agg_alias = a\<rparr> # aggs)
         | None \<Rightarrow> ((e, a) # plain, aggs))"

definition scan_ref :: "table_ref \<Rightarrow> logical_plan" where
  "scan_ref r = Scan (ref_table_name r) (ref_alias r) []"

definition fold_joins :: "join_clause list \<Rightarrow> logical_plan \<Rightarrow> logical_plan" where
  "fold_joins js p =
     foldl (\<lambda>p j. Join (join_kind j) (join_condition j) p (scan_ref (join_table j))) p js"

fun is_wildcard_item :: "select_item \<Rightarrow> bool" where
  "is_wildcard_item (SelectExpression e a) = False"
| "is_wildcard_item _ = True"

text \<open>\<^verbatim>\<open>LogicalPlanner::plan\<close> on a planner with alias map \<open>m\<close>: the plan and the new alias map.\<close>

definition plan_statement ::
  "(string \<times> string) list \<Rightarrow> select_statement \<Rightarrow> logical_plan \<times> (string \<times> string) list"
where
  "plan_statement m s =
     (let m = fold register_alias (map join_table (joins s)) (register_alias (from_table s) m);
          p = fold_joins (joins s) (scan_ref (from_table s));
          p = (case where_clause s of Some e \<Rightarrow> Filter e p | None \<Rightarrow> p);
          (plain, aggs) = split_select_list (columns s);
          p = (if aggs \<noteq> [] \<or> group_by s \<noteq> [] then Aggregate (group_by s) aggs p else p);
          p = (case having s of Some e \<Rightarrow> Filter e p | None \<Rightarrow> p);
          p = (if order_by s \<noteq> [] then Sort (order_by s) p else p);
          p = (case limit s of Some n \<Rightarrow> Limit n p | None \<Rightarrow> p);
          p = (if \<not> list_all is_wildcard_item (columns s) \<and> aggs = [] then Project plain p else p)
      in (p, m))"

section \<open>What the plan holds\<close>

text \<open>The relations a plan reads, from left to right, and the expressions of its nodes.\<close>

fun scans :: "logical_plan \<Rightarrow> (string \<times> string option) list" where
  "scans (Scan t a cs) = [(t, a)]"
| "scans (Join jt c l r) = scans l @ scans r"
| "scans (Filter e p) = scans p"
| "scans (Aggregate g a p) = scans p"
| "scans (Project es p) = scans p"
| "scans (Sort ob p) = scans p"
| "scans (Limit n p) = scans p"

fun join_conditions :: "logical_plan \<Rightarrow> expression list" where
  "join_conditions (Scan t a cs) = []"
| "join_conditions (Join jt c l r) = c # join_conditions l @ join_conditions r"
| "join_conditions (Filter e p) = join_conditions p"
| "join_conditions (Aggregate g a p) = join_conditions p"
| "join_conditions (Project es p) = join_conditions p"
| "join_conditions (Sort ob p) = join_conditions p"
| "join_conditions (Limit n p) = join_conditions p"

abbreviation table_ident :: "table_ref \<Rightarrow> string \<times> string option" where
  "table_ident r \<equiv> (ref_table_name r, ref_alias r)"

lemma fold_joins_simps [simp]:
  "fold_joins [] p = p"
  "fold_joins (j # js) p =
     fold_joins js (Join (join_kind j) (join_condition j) p (scan_ref (join_table j)))"
  by (simp_all add: fold_joins_def)

lemma scans_fold_joins: "scans (fold_joins js p) = scans p @ map (table_ident \<circ> join_table) js"
  by (induction js arbitrary: p) (simp_all add: scan_ref_def)

lemma join_conditions_fold_joins:
  "join_conditions (fold_joins js p) = rev (map join_condition js) @ join_conditions p"
  by (induction js arbitrary: p) (simp_all add: scan_ref_def)

lemma scans_plan_statement:
  "scans (fst (plan_statement m s)) = table_ident (from_table s) # map (table_ident \<circ> join_table) (joins s)"
  by (auto simp: plan_statement_def Let_def split_beta scans_fold_joins scan_ref_def split: option.splits)

lemma join_conditions_plan_statement:
  "join_conditions (fst (plan_statement m s)) = rev (map join_condition (joins s))"
  by (auto simp: plan_statement_def Let_def split_beta join_conditions_fold_joins scan_ref_def
      split: option.splits)

text \<open>
  Splitting the select list loses and reorders nothing: each expression goes either to the
  projection or, as an aggregate call, to the aggregation.
\<close>

fun select_expressions :: "select_item list \<Rightarrow> (expression \<times> string option) list" where
  "select_expressions [] = []"
| "select_expressions (SelectExpression e a # items) = (e, a) # select_expressions items"
| "select_expressions (_ # items) = select_expressions items"

lemma split_select_list_spec:
  "split_select_list items =
     (filter (\<lambda>(e, a). aggregate_call e = None) (select_expressions items),
      map (\<lambda>(e, a). \<lparr>agg_func = fst (the (aggregate_call e)), agg_arg = snd (the (aggregate_call e)),
        agg_alias = a\<rparr>) (filter (\<lambda>(e, a). aggregate_call e \<noteq> None) (select_expressions items)))"
  by (induction items rule: split_select_list.induct) (auto split: option.splits)

lemma aggregate_call_upper: "aggregate_call e = Some (f, arg) \<Longrightarrow> is_aggregate_function f"
  by (cases e) (auto split: if_splits)

section \<open>Properties\<close>

text \<open>
  The plan of a statement reads exactly the tables of its FROM and JOIN clauses, in their order and
  under their aliases, and its joins carry exactly the conditions of the JOIN clauses.
\<close>

theorem plan_reads_statement:
  "scans (fst (plan_statement m s)) = table_ident (from_table s) # map (table_ident \<circ> join_table) (joins s) \<and>
   join_conditions (fst (plan_statement m s)) = rev (map join_condition (joins s))"
  using scans_plan_statement join_conditions_plan_statement by blast

text \<open>
  Splitting the select list into a projection and an aggregation loses, duplicates and reorders
  nothing: the projection gets the expressions that are no aggregate calls, the aggregation gets the
  calls with their argument and alias, both in their order.
\<close>

theorem select_list_split:
  "split_select_list items =
     (filter (\<lambda>(e, a). aggregate_call e = None) (select_expressions items),
      map (\<lambda>(e, a). \<lparr>agg_func = fst (the (aggregate_call e)), agg_arg = snd (the (aggregate_call e)),
        agg_alias = a\<rparr>) (filter (\<lambda>(e, a). aggregate_call e \<noteq> None) (select_expressions items)))"
  by (rule split_select_list_spec)

end
