(* ===== verification/Cost.thy ===== *)
theory Cost
  imports Ast
begin

text \<open>
  The cost model (\<^verbatim>\<open>physical/cost.hpp\<close>, \<^verbatim>\<open>physical/cost.cpp\<close>), computed in binary64 arithmetic in the
  order of operations of the source.  The base-2 logarithm of the C library is the parameter \<open>log2\<close>
  of \<open>cost_sort\<close>.
\<close>

section \<open>The C++ library on doubles\<close>

definition dmax :: "double \<Rightarrow> double \<Rightarrow> double" where
  "dmax a b = (if dlt a b then b else a)"

definition dmin :: "double \<Rightarrow> double \<Rightarrow> double" where
  "dmin a b = (if dlt b a then b else a)"

fun dceil :: "double \<Rightarrow> double" where
  "dceil (Fin s m) = Fin s (of_int (if s then \<lfloor>m\<rfloor> else \<lceil>m\<rceil>))"
| "dceil d = d"

fun dround :: "double \<Rightarrow> double" where
  "dround (Fin s m) = Fin s (of_int \<lfloor>m + 1 / 2\<rfloor>)"
| "dround d = d"

text \<open>Converting a double to \<^verbatim>\<open>size_t\<close> truncates; outside the range it is undefined.\<close>

fun size_of_double :: "double \<Rightarrow> nat result" where
  "size_of_double (Fin s m) =
     (if s \<and> m \<ge> 1 \<or> m \<ge> 2 ^ 64 then Inl (UndefinedBehaviour ''double to size_t'')
      else Inr (if s then 0 else nat \<lfloor>m\<rfloor>))"
| "size_of_double _ = Inl (UndefinedBehaviour ''double to size_t'')"


section \<open>Constants\<close>

definition kCpuTupleCost :: double where "kCpuTupleCost = double_of_rat (1 / 100)"
definition kSeqPageCost :: double where "kSeqPageCost = Fin False 1"
definition kRandomPageCost :: double where "kRandomPageCost = Fin False 4"
definition kIndexTupleCost :: double where "kIndexTupleCost = double_of_rat (5 / 1000)"
definition kHashBuildCost :: double where "kHashBuildCost = double_of_rat (2 / 100)"
definition kPageSizeBytes :: nat where "kPageSizeBytes = 8192"
definition kMemoryPerRowCost :: double where "kMemoryPerRowCost = double_of_rat (1 / 1000)"
definition kMemoryBudgetRows :: double where "kMemoryBudgetRows = Fin False 100000"
definition kSpillIoCostPerRow :: double where "kSpillIoCostPerRow = double_of_rat (5 / 100)"

lemmas cost_constants =
  kCpuTupleCost_def kSeqPageCost_def kRandomPageCost_def kIndexTupleCost_def kHashBuildCost_def
  kMemoryPerRowCost_def kMemoryBudgetRows_def kSpillIoCostPerRow_def

section \<open>Costs\<close>

record cost =
  cpu :: double
  io :: double
  memory :: double

definition zero_cost :: cost where
  "zero_cost = \<lparr>cpu = dzero, io = dzero, memory = dzero\<rparr>"

definition cost_total :: "cost \<Rightarrow> double" where
  "cost_total c = dadd (dadd (cpu c) (io c)) (memory c)"

definition cost_add :: "cost \<Rightarrow> cost \<Rightarrow> cost" where
  "cost_add a b =
     \<lparr>cpu = dadd (cpu a) (cpu b), io = dadd (io a) (io b), memory = dadd (memory a) (memory b)\<rparr>"

definition pages_for :: "nat \<Rightarrow> nat \<Rightarrow> double" where
  "pages_for rows bytes =
     dmax (Fin False 1)
       (dceil (ddiv (dmul (double_of_nat rows) (double_of_nat bytes)) (double_of_nat kPageSizeBytes)))"

definition spill_penalty :: "nat \<Rightarrow> double" where
  "spill_penalty rows =
     (let r = double_of_nat rows
      in if dle r kMemoryBudgetRows then dzero
         else dmul (dsub r kMemoryBudgetRows) kSpillIoCostPerRow)"

definition cost_seq_scan :: "nat \<Rightarrow> double \<Rightarrow> cost" where
  "cost_seq_scan rows pages =
     zero_cost\<lparr>io := dmul (dmax (Fin False 1) pages) kSeqPageCost,
               cpu := dmul (double_of_nat rows) kCpuTupleCost\<rparr>"

definition cost_index_scan :: "nat \<Rightarrow> cost" where
  "cost_index_scan matched =
     zero_cost\<lparr>io := dmul (double_of_nat matched) kRandomPageCost,
               cpu := dmul (double_of_nat matched) (dadd kCpuTupleCost kIndexTupleCost)\<rparr>"

definition cost_filter :: "nat \<Rightarrow> cost" where
  "cost_filter rows = zero_cost\<lparr>cpu := dmul (double_of_nat rows) kCpuTupleCost\<rparr>"

definition cost_nested_loop_join :: "nat \<Rightarrow> nat \<Rightarrow> cost" where
  "cost_nested_loop_join l r =
     zero_cost\<lparr>cpu := dmul (dmul (dmul (double_of_nat l) (double_of_nat r)) kCpuTupleCost)
                          (double_of_rat (1 / 100))\<rparr>"

definition cost_hash_join :: "nat \<Rightarrow> nat \<Rightarrow> cost" where
  "cost_hash_join l r =
     (let build = min l r; probe = max l r
      in zero_cost\<lparr>cpu := dadd (dmul (double_of_nat build) kHashBuildCost)
                              (dmul (double_of_nat probe) kCpuTupleCost),
                   memory := dmul (double_of_nat build) kMemoryPerRowCost,
                   io := spill_penalty build\<rparr>)"

definition cost_index_nested_loop_join :: "nat \<Rightarrow> nat \<Rightarrow> cost" where
  "cost_index_nested_loop_join outer output =
     zero_cost\<lparr>io := dmul (double_of_nat outer) kRandomPageCost,
               cpu := dadd (dmul (double_of_nat outer) (dadd kCpuTupleCost kIndexTupleCost))
                          (dmul (double_of_nat output) kCpuTupleCost)\<rparr>"

definition cost_hash_aggregate :: "nat \<Rightarrow> nat \<Rightarrow> cost" where
  "cost_hash_aggregate rows groups =
     zero_cost\<lparr>cpu := dmul (double_of_nat rows) kHashBuildCost,
               memory := dmul (double_of_nat groups) kMemoryPerRowCost,
               io := spill_penalty groups\<rparr>"

definition cost_sort :: "(double \<Rightarrow> double) \<Rightarrow> nat \<Rightarrow> cost" where
  "cost_sort log2 rows =
     (let n = double_of_nat (max rows 1)
      in zero_cost\<lparr>cpu := dmul (dmul n (log2 n)) kCpuTupleCost,
                   memory := dmul n kMemoryPerRowCost,
                   io := spill_penalty rows\<rparr>)"

definition cost_project :: "nat \<Rightarrow> cost" where
  "cost_project rows =
     zero_cost\<lparr>cpu := dmul (dmul (double_of_nat rows) kCpuTupleCost) (double_of_rat (1 / 10))\<rparr>"

definition cost_limit :: "nat \<Rightarrow> cost" where
  "cost_limit rows =
     zero_cost\<lparr>cpu := dmul (dmul (double_of_nat rows) kCpuTupleCost) (double_of_rat (1 / 100))\<rparr>"

section \<open>Costs are nonnegative and never NaN\<close>

text \<open>A nonnegative double, and one that is finite besides.\<close>

fun dnonneg :: "double \<Rightarrow> bool" where
  "dnonneg (Fin s m) = (\<not> s \<and> 0 \<le> m)"
| "dnonneg (Inf s) = (\<not> s)"
| "dnonneg NaN = False"

fun dfinite :: "double \<Rightarrow> bool" where
  "dfinite (Fin s m) = (\<not> s \<and> 0 \<le> m)"
| "dfinite _ = False"

definition cost_ok :: "cost \<Rightarrow> bool" where
  "cost_ok c \<longleftrightarrow> dnonneg (cpu c) \<and> dnonneg (io c) \<and> dnonneg (memory c)"

lemma dfinite_nonneg: "dfinite d \<Longrightarrow> dnonneg d"
  by (cases d) auto

lemma dnonneg_round [simp]: "dnonneg (round_double False m)"
  by (simp add: round_double_def Let_def)

lemma dnonneg_of_rat [simp]: "0 \<le> x \<Longrightarrow> dnonneg (double_of_rat x)"
  by (simp add: double_of_rat_def)

lemma dnonneg_of_nat [simp]: "dnonneg (double_of_nat n)"
  by (simp add: double_of_nat_def)

lemma dnonneg_dadd [simp]: "dnonneg a \<Longrightarrow> dnonneg b \<Longrightarrow> dnonneg (dadd a b)"
  by (cases a; cases b) (auto simp: Let_def signed_def)

lemma dnonneg_dmul [simp]: "dfinite a \<Longrightarrow> dfinite b \<Longrightarrow> dnonneg (dmul a b)"
  by (cases a; cases b) auto

fun mag_ok :: "double \<Rightarrow> bool" where
  "mag_ok (Fin s m) = (0 \<le> m)"
| "mag_ok _ = True"

lemma mag_ok_double: "is_double d \<Longrightarrow> mag_ok d"
  by (cases d) auto

lemma mag_ok_dceil: "mag_ok d \<Longrightarrow> mag_ok (dceil d)"
  by (cases d) auto

lemma mag_ok_pages: "mag_ok (pages_for n b)"
  using mag_ok_dceil [OF mag_ok_double [OF is_double_ddiv]] by (simp add: pages_for_def dmax_def)

lemma dmax_one:
  assumes "mag_ok b"
  shows "\<not> dlt (dmax (Fin False 1) b) (Fin False 1)" "dnonneg (dmax (Fin False 1) b)"
  using assms by (cases b; auto simp: dmax_def signed_def split: if_splits)+

text \<open>Row counts fit in 64 bits, so their doubles are finite; so are the constants.\<close>

lemma round_mag_le_power:
  assumes "m \<le> of_int (2 ^ k)" "52 \<le> k" "k \<le> 1023"
  shows "round_mag m \<le> of_int (2 ^ k)"
proof -
  have pow: "(of_int (2 ^ k) :: rat) = of_int 1 * bpow 2 (int k)" by (simp add: bpow_nat)
  have log: "ilog 2 (of_int (2 ^ k)) = int k"
    by (rule ilog_eqI) (simp_all add: bpow_nat flip: bpow_nat [of 2 k], simp add: bpow_add bpow_nat)
  have "ulp_exp (of_int (2 ^ k)) \<le> int k" using log assms(2) by (simp add: ulp_exp_def)
  then have "round_mag (of_int (2 ^ k)) = of_int (2 ^ k)"
    unfolding pow by (intro round_mag_exact) (simp_all add: bpow_nat)
  then show ?thesis using round_mag_mono [OF assms(1)] by simp
qed

lemma not_too_big_power:
  assumes "m \<le> of_int (2 ^ k)" "k \<le> 1023"
  shows "\<not> too_big m"
proof
  assume "too_big m"
  then have "0 < m" "1024 \<le> ilog 2 m" by (auto simp: too_big_def)
  then have "bpow 2 1024 \<le> m"
    using ilog_bounds(1) [of 2 m] bpow_le_iff [of 2 1024 "ilog 2 m"] by (meson order_trans order_refl)
  moreover have "(of_int (2 ^ k) :: rat) < bpow 2 1024"
    using assms(2) bpow_strict_mono [of 2 "int k" 1024] by (simp add: bpow_nat)
  ultimately show False using assms(1) by linarith
qed

lemma dfinite_round: "m \<le> of_int (2 ^ k) \<Longrightarrow> 52 \<le> k \<Longrightarrow> k \<le> 1023 \<Longrightarrow> dfinite (round_double False m)"
  using not_too_big_power [of "round_mag m" k] round_mag_le_power [of m k]
  by (simp add: round_double_def Let_def)

text \<open>Nonnegative doubles up to a power of two: closed under sums and products within the exponent range.\<close>

fun dbound :: "nat \<Rightarrow> double \<Rightarrow> bool" where
  "dbound k (Fin s m) = (\<not> s \<and> 0 \<le> m \<and> m \<le> 2 ^ k)"
| "dbound k _ = False"

lemma dboundE:
  assumes "dbound k d"
  obtains m where "d = Fin False m" "0 \<le> m" "m \<le> 2 ^ k"
  using assms by (cases d) auto

lemma dbound_nonneg: "dbound k d \<Longrightarrow> dnonneg d"
  by (cases d) auto

lemma dbound_round: "m \<le> 2 ^ k \<Longrightarrow> 52 \<le> k \<Longrightarrow> k \<le> 1023 \<Longrightarrow> dbound k (round_double False m)"
  using not_too_big_power [of "round_mag m" k] round_mag_le_power [of m k]
  by (simp add: round_double_def Let_def)

lemma dbound_dmul:
  assumes "dbound j a" "dbound k b" "52 \<le> j + k" "j + k \<le> 1023"
  shows "dbound (j + k) (dmul a b)"
proof -
  obtain x y where a: "a = Fin False x" "0 \<le> x" "x \<le> 2 ^ j" and b: "b = Fin False y" "0 \<le> y" "y \<le> 2 ^ k"
    using assms(1,2) by (auto elim!: dboundE)
  have "x * y \<le> 2 ^ (j + k)" unfolding power_add using a b by (intro mult_mono) auto
  then show ?thesis using a b dbound_round assms(3,4) by simp
qed

lemma dbound_dadd:
  assumes "dbound k a" "dbound k b" "52 \<le> k" "k \<le> 1022"
  shows "dbound (Suc k) (dadd a b)"
proof -
  obtain x y where a: "a = Fin False x" "0 \<le> x" "x \<le> 2 ^ k" and b: "b = Fin False y" "0 \<le> y" "y \<le> 2 ^ k"
    using assms(1,2) by (auto elim!: dboundE)
  then show ?thesis using dbound_round [of "x + y" "Suc k"] assms(3,4)
    by (auto simp: Let_def signed_def double_of_rat_def)
qed

lemma dbound_mono: "dbound j d \<Longrightarrow> j \<le> k \<Longrightarrow> dbound k d"
  by (cases d) (auto intro: order_trans power_increasing)

lemma dbound_of_nat: "n \<le> size_max \<Longrightarrow> dbound 64 (double_of_nat n)"
proof -
  assume "n \<le> size_max"
  then have "n < 2 ^ 64" by (simp add: size_max_def)
  then have "(of_nat n :: rat) < of_nat (2 ^ 64)" by (simp only: of_nat_less_iff)
  then have "(of_nat n :: rat) \<le> 2 ^ 64" by simp
  then show ?thesis using dbound_round [of "of_nat n" 64] by (simp add: double_of_nat_def double_of_rat_def)
qed

lemma dbound_of_rat: "0 \<le> x \<Longrightarrow> x \<le> 2 ^ 52 \<Longrightarrow> dbound 52 (double_of_rat x)"
  using dbound_round [of x 52] by (simp add: double_of_rat_def)

lemma dbound_constants:
  "dbound 52 kCpuTupleCost" "dbound 52 kSeqPageCost" "dbound 52 kRandomPageCost" "dbound 52 kIndexTupleCost"
  "dbound 52 kHashBuildCost" "dbound 52 kMemoryPerRowCost" "dbound 52 kSpillIoCostPerRow"
  "dbound 52 (double_of_rat (1 / 100))" "dbound 52 (double_of_rat (1 / 10))"
  by (simp_all add: cost_constants dbound_of_rat)

lemma dbound_row_product: "n \<le> size_max \<Longrightarrow> dbound 52 c \<Longrightarrow> dbound 116 (dmul (double_of_nat n) c)"
  using dbound_dmul [of 64 "double_of_nat n" 52 c] dbound_of_nat by simp

lemma dbound_spill: "n \<le> size_max \<Longrightarrow> dbound 117 (spill_penalty n)"
proof -
  assume "n \<le> size_max"
  then obtain m where m: "double_of_nat n = Fin False m" "0 \<le> m" "m \<le> 2 ^ 64"
    by (rule dboundE [OF dbound_of_nat])
  have "dbound 117 (dmul (dsub (double_of_nat n) kMemoryBudgetRows) kSpillIoCostPerRow)"
    if "\<not> dle (double_of_nat n) kMemoryBudgetRows"
  proof -
    have gt: "100000 < m" using that m by (auto simp: dle_def kMemoryBudgetRows_def signed_def)
    then have "dsub (double_of_nat n) kMemoryBudgetRows = round_double False (m - 100000)"
      by (simp add: m dsub_def kMemoryBudgetRows_def signed_def double_of_rat_def Let_def)
    moreover have "dbound 65 (round_double False (m - 100000))"
      using m by (intro dbound_round) simp_all
    ultimately show ?thesis using dbound_dmul [of 65 _ 52 kSpillIoCostPerRow] dbound_constants by simp
  qed
  then show ?thesis by (simp add: spill_penalty_def Let_def)
qed

lemmas dbound_rules =
  dbound_constants dbound_row_product dbound_spill dbound_nonneg [OF dbound_row_product]
  dbound_nonneg [OF dbound_spill]

lemma zero_cost_simps [simp]: "cpu zero_cost = dzero" "io zero_cost = dzero" "memory zero_cost = dzero"
  by (simp_all add: zero_cost_def)

lemma cost_ok_add: "cost_ok a \<Longrightarrow> cost_ok b \<Longrightarrow> cost_ok (cost_add a b)"
  by (simp add: cost_ok_def cost_add_def)

lemma cost_ok_total: "cost_ok c \<Longrightarrow> dnonneg (cost_total c)"
  by (simp add: cost_ok_def cost_total_def)

lemma dmul_one_nonneg: "dnonneg d \<Longrightarrow> dnonneg (dmul d (Fin False 1))"
  by (cases d) auto

lemma dnonneg_scaled: "n \<le> size_max \<Longrightarrow> dbound 52 c \<Longrightarrow> dbound 52 c' \<Longrightarrow>
    dnonneg (dmul (dmul (double_of_nat n) c) c')"
  using dbound_dmul [of 116 _ 52 c'] dbound_row_product [of n c] dbound_nonneg by fastforce

lemma index_tuple_bound: "n \<le> size_max \<Longrightarrow> dnonneg (dmul (double_of_nat n) (dadd kCpuTupleCost kIndexTupleCost))"
  using dbound_dmul [of 64 "double_of_nat n" 53 "dadd kCpuTupleCost kIndexTupleCost"]
    dbound_dadd [of 52 kCpuTupleCost kIndexTupleCost] dbound_constants dbound_of_nat dbound_nonneg by fastforce

lemma nested_loop_bound: "l \<le> size_max \<Longrightarrow> r \<le> size_max \<Longrightarrow>
    dnonneg (dmul (dmul (dmul (double_of_nat l) (double_of_nat r)) kCpuTupleCost) (double_of_rat (1 / 100)))"
proof -
  assume "l \<le> size_max" "r \<le> size_max"
  then have "dbound (64 + 64) (dmul (double_of_nat l) (double_of_nat r))"
    by (intro dbound_dmul dbound_of_nat) auto
  from dbound_dmul [OF dbound_dmul [OF this dbound_constants(1)] dbound_constants(8)]
  show ?thesis by (intro dbound_nonneg) simp
qed

lemma cost_ok_operators:
  assumes "l \<le> size_max" "r \<le> size_max"
  shows "mag_ok pages \<Longrightarrow> cost_ok (cost_seq_scan l pages)" "cost_ok (cost_index_scan l)"
    "cost_ok (cost_filter l)" "cost_ok (cost_nested_loop_join l r)" "cost_ok (cost_hash_join l r)"
    "cost_ok (cost_index_nested_loop_join l r)" "cost_ok (cost_hash_aggregate l r)"
    "cost_ok (cost_project l)" "cost_ok (cost_limit l)"
  using assms nested_loop_bound [OF assms] index_tuple_bound [OF assms(1)]
    dnonneg_scaled [OF assms(1)] dbound_rules dmax_one(2) [of pages]
  by (simp_all add: cost_ok_def cost_seq_scan_def cost_index_scan_def cost_filter_def
      cost_nested_loop_join_def cost_hash_join_def cost_index_nested_loop_join_def
      cost_hash_aggregate_def cost_project_def cost_limit_def Let_def dmul_one_nonneg kSeqPageCost_def)

end
