(* ===== verification/Physical_Plan.thy ===== *)
theory Physical_Plan
  imports Logical_Planner Cost
begin

text \<open>
  Physical plans (\<^verbatim>\<open>physical/physical_plan.hpp\<close>) and the recomputation of their cost
  (\<^verbatim>\<open>optimizer/cost_model.cpp\<close>).  Every node carries the cumulative estimate of its subtree; the three
  join kinds share their fields and are one constructor with the algorithm as an argument.
\<close>

record plan_info =
  est_cost :: cost
  est_rows :: nat
  reasoning :: string
  confidence :: double

datatype join_algorithm = NestedLoopJoin | HashJoin | IndexNestedLoopJoin

datatype physical_plan =
    SeqScan plan_info string "string option" "string list"
  | IndexScan plan_info string "string option" "string list" string expression
  | PFilter plan_info expression physical_plan
  | PJoin join_algorithm plan_info join_type expression physical_plan physical_plan
  | HashAggregate plan_info "expression list" "aggregate_expr list" physical_plan
  | PProject plan_info "(expression \<times> string option) list" physical_plan
  | PSort plan_info "order_by_item list" physical_plan
  | PLimit plan_info nat physical_plan
  | ExternalRows plan_info string "string list" nat "expression list" "aggregate_expr list"

fun info :: "physical_plan \<Rightarrow> plan_info" where
  "info (SeqScan i t a cs) = i"
| "info (IndexScan i t a cs c v) = i"
| "info (PFilter i e p) = i"
| "info (PJoin k i jt c l r) = i"
| "info (HashAggregate i g a p) = i"
| "info (PProject i es p) = i"
| "info (PSort i ob p) = i"
| "info (PLimit i n p) = i"
| "info (ExternalRows i t cs n g a) = i"

abbreviation rows_of :: "physical_plan \<Rightarrow> nat" where
  "rows_of p \<equiv> est_rows (info p)"

abbreviation cost_of :: "physical_plan \<Rightarrow> cost" where
  "cost_of p \<equiv> est_cost (info p)"

definition make_info :: "cost \<Rightarrow> nat \<Rightarrow> string \<Rightarrow> double \<Rightarrow> plan_info" where
  "make_info c n r d = \<lparr>est_cost = c, est_rows = n, reasoning = r, confidence = d\<rparr>"

lemma make_info_simps [simp]:
  "est_cost (make_info c n r d) = c" "est_rows (make_info c n r d) = n"
  by (simp_all add: make_info_def)

definition make_external_rows :: "string \<Rightarrow> string list \<Rightarrow> nat \<Rightarrow> nat \<Rightarrow> physical_plan" where
  "make_external_rows name cols slot rows =
     ExternalRows (make_info zero_cost rows [] (Fin False 1)) name cols slot [] []"

text \<open>\<^verbatim>\<open>CostModel::estimate_cost\<close>.\<close>

fun estimate_cost :: "(double \<Rightarrow> double) \<Rightarrow> physical_plan \<Rightarrow> cost" where
  "estimate_cost lg (SeqScan i t a cs) = cost_seq_scan (est_rows i) (pages_for (est_rows i) 64)"
| "estimate_cost lg (IndexScan i t a cs c v) = cost_index_scan (est_rows i)"
| "estimate_cost lg (PFilter i e p) = cost_add (estimate_cost lg p) (cost_filter (rows_of p))"
| "estimate_cost lg (PJoin k i jt c l r) =
     (case k of
        NestedLoopJoin \<Rightarrow>
          (let cl = estimate_cost lg l
           in cost_add (cl\<lparr>cpu := dadd (cpu cl) (dmul (double_of_nat (rows_of l)) (cost_total (estimate_cost lg r)))\<rparr>)
                (cost_nested_loop_join (rows_of l) (rows_of r)))
      | HashJoin \<Rightarrow>
          cost_add (cost_add (estimate_cost lg l) (estimate_cost lg r)) (cost_hash_join (rows_of l) (rows_of r))
      | IndexNestedLoopJoin \<Rightarrow>
          cost_add (estimate_cost lg l) (cost_index_nested_loop_join (rows_of l) (est_rows i)))"
| "estimate_cost lg (HashAggregate i g a p) =
     cost_add (estimate_cost lg p) (cost_hash_aggregate (rows_of p) (est_rows i))"
| "estimate_cost lg (PProject i es p) = cost_add (estimate_cost lg p) (cost_project (rows_of p))"
| "estimate_cost lg (PSort i ob p) = cost_add (estimate_cost lg p) (cost_sort lg (rows_of p))"
| "estimate_cost lg (PLimit i n p) = cost_add (estimate_cost lg p) (cost_limit (rows_of p))"
| "estimate_cost lg (ExternalRows i t cs n g a) = zero_cost"

text \<open>Row estimates of every node are 64-bit sizes, at least one where the planner rounds up.\<close>

fun rows_ok :: "physical_plan \<Rightarrow> bool" where
  "rows_ok (PFilter i e p) \<longleftrightarrow> 1 \<le> est_rows i \<and> est_rows i \<le> size_max \<and> rows_ok p"
| "rows_ok (PJoin k i jt c l r) \<longleftrightarrow> 1 \<le> est_rows i \<and> est_rows i \<le> size_max \<and> rows_ok l \<and> rows_ok r"
| "rows_ok (HashAggregate i g a p) \<longleftrightarrow> 1 \<le> est_rows i \<and> est_rows i \<le> size_max \<and> rows_ok p"
| "rows_ok (PProject i es p) \<longleftrightarrow> 1 \<le> est_rows i \<and> est_rows i \<le> size_max \<and> rows_ok p"
| "rows_ok (PSort i ob p) \<longleftrightarrow> 1 \<le> est_rows i \<and> est_rows i \<le> size_max \<and> rows_ok p"
| "rows_ok (PLimit i n p) \<longleftrightarrow> 1 \<le> est_rows i \<and> est_rows i \<le> size_max \<and> rows_ok p"
| "rows_ok p \<longleftrightarrow> 1 \<le> rows_of p \<and> rows_of p \<le> size_max"

lemma rows_ok_bounds: "rows_ok p \<Longrightarrow> 1 \<le> rows_of p \<and> rows_of p \<le> size_max"
  by (cases p) auto

section \<open>Recomputed costs\<close>

text \<open>What is assumed of \<^verbatim>\<open>std::log2\<close>: a row count of at least one has a logarithm between 0 and 64.\<close>

definition log2_ok :: "(double \<Rightarrow> double) \<Rightarrow> bool" where
  "log2_ok lg \<longleftrightarrow>
     (\<forall>n. 1 \<le> n \<and> n \<le> size_max \<longrightarrow> (\<exists>m. lg (double_of_nat n) = Fin False m \<and> 0 \<le> m \<and> m \<le> 64))"

lemma cost_ok_sort:
  assumes "log2_ok lg" "n \<le> size_max"
  shows "cost_ok (cost_sort lg n)"
proof -
  have n: "1 \<le> max n 1" "max n 1 \<le> size_max" using assms(2) by (auto simp: size_max_def)
  then obtain m where "lg (double_of_nat (max n 1)) = Fin False m" "0 \<le> m" "m \<le> 64"
    using assms(1) unfolding log2_ok_def by blast
  then have "dbound 52 (lg (double_of_nat (max n 1)))" by simp
  from dnonneg_scaled [OF n(2) this dbound_constants(1)] show ?thesis
    using dbound_rules assms(2) n by (simp add: cost_ok_def cost_sort_def Let_def)
qed

lemma dnonneg_rows_times:
  assumes "1 \<le> n" "n \<le> size_max" "dnonneg d"
  shows "dnonneg (dmul (double_of_nat n) d)"
proof -
  have "round_mag 1 \<le> round_mag (of_nat n)" using assms(1) by (intro round_mag_mono) auto
  moreover have "round_mag 1 = 1" using round_mag_int(1) [of 1] by simp
  ultimately have "0 < round_mag (of_nat n)" by simp
  with dbound_of_nat [OF assms(2)] obtain m where "double_of_nat n = Fin False m" "0 < m"
    by (auto simp: double_of_nat_def double_of_rat_def round_double_def Let_def split: if_splits)
  with assms(3) show ?thesis by (cases d) auto
qed

lemma estimate_cost_ok: "rows_ok p \<Longrightarrow> log2_ok lg \<Longrightarrow> cost_ok (estimate_cost lg p)"
proof (induction p)
  case (PJoin k i jt c l r)
  then have ok: "cost_ok (estimate_cost lg l)" "cost_ok (estimate_cost lg r)"
    and rows: "1 \<le> rows_of l" "rows_of l \<le> size_max" "rows_of r \<le> size_max" "est_rows i \<le> size_max"
    using rows_ok_bounds by auto
  have "dnonneg (dmul (double_of_nat (rows_of l)) (cost_total (estimate_cost lg r)))"
    using ok rows by (intro dnonneg_rows_times cost_ok_total)
  with ok(1) have scaled: "cost_ok (estimate_cost lg l\<lparr>cpu := dadd (cpu (estimate_cost lg l))
      (dmul (double_of_nat (rows_of l)) (cost_total (estimate_cost lg r)))\<rparr>)" by (simp add: cost_ok_def)
  show ?case
    using ok rows scaled by (cases k) (auto simp: Let_def intro!: cost_ok_add cost_ok_operators(4-6))
next
  case (SeqScan i t a cs)
  then show ?case by (simp add: cost_ok_operators(1) [where r = 0] mag_ok_pages)
qed (use rows_ok_bounds in \<open>auto intro!: cost_ok_add cost_ok_operators(2,3,7-9) cost_ok_sort
      simp: cost_ok_def [of zero_cost]\<close>)

section \<open>Properties\<close>

text \<open>
  The cost that the cost model recomputes for a plan is nonnegative and never NaN in each of its
  three components, whatever the 64-bit row estimates of the nodes are, so that comparing two plans by
  their total is a total comparison.
\<close>

theorem recomputed_cost_nonnegative:
  assumes "rows_ok p" "log2_ok lg"
  shows "cost_ok (estimate_cost lg p)"
  by (rule estimate_cost_ok [OF assms])

definition sample_plan :: physical_plan where
  "sample_plan =
     PSort (make_info zero_cost 40 [] (Fin False 1)) []
       (PJoin NestedLoopJoin (make_info zero_cost 40 [] (Fin False 1)) Inner (Lit (Boolean True))
          (SeqScan (make_info zero_cost 10 [] (Fin False 1)) ''a'' None [])
          (SeqScan (make_info zero_cost 4 [] (Fin False 1)) ''b'' None []))"

theorem recomputed_cost_nonnegative_witness: "cost_ok (estimate_cost (\<lambda>_. Fin False 5) sample_plan)"
proof (rule recomputed_cost_nonnegative)
  show "rows_ok sample_plan" by code_simp
  show "log2_ok (\<lambda>_. Fin False 5)" by (simp add: log2_ok_def)
qed

end
