(* ===== verification/Values.thy ===== *)
theory Values
  imports Ast "HOL-Library.Char_ord" "HOL-Library.List_Lexorder"
begin

text \<open>
  Values, row schemas and the evaluation of expressions on rows: \<^verbatim>\<open>execution/value_ops.cpp\<close>,
  \<^verbatim>\<open>execution/row_schema.cpp\<close> and \<^verbatim>\<open>execution/expr_eval.cpp\<close>.  A row is a list of literals
  (\<^verbatim>\<open>storage/row.hpp\<close>).
\<close>

type_synonym row = "literal list"

section \<open>Operations on values\<close>

definition literal_is_null :: "literal \<Rightarrow> bool" where
  "literal_is_null v \<longleftrightarrow> v = Null"

fun literal_truthy :: "literal \<Rightarrow> bool result" where
  "literal_truthy (Boolean b) = Inr b"
| "literal_truthy _ = Inl (RuntimeError ''execution: expected a boolean value'')"

fun literal_as_double :: "literal \<Rightarrow> double result" where
  "literal_as_double (Integer i) = Inr (double_of_int i)"
| "literal_as_double (Float d) = Inr d"
| "literal_as_double _ = Inl (RuntimeError ''execution: expected a numeric value'')"

fun literal_to_string :: "literal \<Rightarrow> string" where
  "literal_to_string (Integer i) = show_int i"
| "literal_to_string (Float d) = show_f6 d"
| "literal_to_string (Str s) = s"
| "literal_to_string (Boolean b) = (if b then ''true'' else ''false'')"
| "literal_to_string Null = ''<null>''"

fun is_numeric :: "literal \<Rightarrow> bool" where
  "is_numeric (Integer i) = True"
| "is_numeric (Float d) = True"
| "is_numeric _ = False"

text \<open>The double of a numeric literal, where the code has already tested the kind.\<close>

fun numeric_value :: "literal \<Rightarrow> double" where
  "numeric_value (Integer i) = double_of_int i"
| "numeric_value (Float d) = d"
| "numeric_value _ = NaN"

fun literal_equal :: "literal \<Rightarrow> literal \<Rightarrow> bool" where
  "literal_equal (Str s) (Str t) = (s = t)"
| "literal_equal (Boolean b) (Boolean c) = (b = c)"
| "literal_equal a b =
     (is_numeric a \<and> is_numeric b \<and> deq (numeric_value a) (numeric_value b))"

fun literal_less :: "literal \<Rightarrow> literal \<Rightarrow> bool result" where
  "literal_less (Str s) (Str t) = Inr (s < t)"
| "literal_less a b =
     (if literal_is_null a \<or> literal_is_null b then Inr False
      else if is_numeric a \<and> is_numeric b then Inr (dlt (numeric_value a) (numeric_value b))
      else Inl (RuntimeError ''execution: cannot order-compare these value kinds''))"

text \<open>
  Arithmetic: two integers stay integers, where leaving the 64-bit range is undefined behaviour;
  anything else is computed in doubles.
\<close>

definition float_arith :: "(double \<Rightarrow> double \<Rightarrow> double) \<Rightarrow> literal \<Rightarrow> literal \<Rightarrow> literal result" where
  "float_arith f a b =
     rbind (literal_as_double a) (\<lambda>x. rbind (literal_as_double b) (\<lambda>y. Inr (Float (f x y))))"

fun int_or_float ::
  "(int \<Rightarrow> int \<Rightarrow> int) \<Rightarrow> (double \<Rightarrow> double \<Rightarrow> double) \<Rightarrow> literal \<Rightarrow> literal \<Rightarrow> literal result"
where
  "int_or_float f g (Integer i) (Integer j) = rbind (checked_int64 (f i j)) (\<lambda>k. Inr (Integer k))"
| "int_or_float f g a b = float_arith g a b"

definition literal_add :: "literal \<Rightarrow> literal \<Rightarrow> literal result" where
  "literal_add = int_or_float (+) dadd"

definition literal_sub :: "literal \<Rightarrow> literal \<Rightarrow> literal result" where
  "literal_sub = int_or_float (-) dsub"

definition literal_mul :: "literal \<Rightarrow> literal \<Rightarrow> literal result" where
  "literal_mul = int_or_float (*) dmul"

definition literal_div :: "literal \<Rightarrow> literal \<Rightarrow> literal result" where
  "literal_div = float_arith ddiv"

section \<open>Row schemas\<close>

record row_schema =
  entries :: "(string option \<times> string) list"
  agg_entries :: "(string \<times> expression \<times> nat) list"

definition empty_schema :: row_schema where
  "empty_schema = \<lparr>entries = [], agg_entries = []\<rparr>"

definition schema_add :: "string option \<Rightarrow> string \<Rightarrow> row_schema \<Rightarrow> row_schema" where
  "schema_add t c s = s\<lparr>entries := entries s @ [(t, c)]\<rparr>"

definition register_aggregate :: "string \<Rightarrow> expression \<Rightarrow> nat \<Rightarrow> row_schema \<Rightarrow> row_schema" where
  "register_aggregate f arg idx s = s\<lparr>agg_entries := agg_entries s @ [(to_upper f, arg, idx)]\<rparr>"

definition schema_extend :: "row_schema \<Rightarrow> row_schema \<Rightarrow> row_schema" where
  "schema_extend s other =
     \<lparr>entries = entries s @ entries other, agg_entries = agg_entries s @ agg_entries other\<rparr>"

definition qualified_name :: "row_schema \<Rightarrow> nat \<Rightarrow> string" where
  "qualified_name s i =
     (case entries s ! i of (Some t, c) \<Rightarrow> t @ ''.'' @ c | (None, c) \<Rightarrow> c)"

fun literal_equal_structural :: "literal \<Rightarrow> literal \<Rightarrow> bool" where
  "literal_equal_structural (Integer i) (Integer j) = (i = j)"
| "literal_equal_structural (Float x) (Float y) = deq x y"
| "literal_equal_structural (Str s) (Str t) = (s = t)"
| "literal_equal_structural (Boolean b) (Boolean c) = (b = c)"
| "literal_equal_structural Null Null = True"
| "literal_equal_structural _ _ = False"

lemma size_zip_member [termination_simp]:
  "(a, b) \<in> set (zip as bs) \<Longrightarrow> size a < Suc (size_list size as)"
  by (auto dest!: set_zip_leftD simp: less_Suc_eq_le intro: size_list_estimation')

fun expr_equal_structural :: "expression \<Rightarrow> expression \<Rightarrow> bool" where
  "expr_equal_structural (Column t c) (Column t' c') = (t = t' \<and> c = c')"
| "expr_equal_structural (Lit a) (Lit b) = literal_equal_structural a b"
| "expr_equal_structural (BinaryOp l p r) (BinaryOp l' p' r') =
     (p = p' \<and> expr_equal_structural l l' \<and> expr_equal_structural r r')"
| "expr_equal_structural (UnaryOp u e) (UnaryOp u' e') = (u = u' \<and> expr_equal_structural e e')"
| "expr_equal_structural (Function f as) (Function g bs) =
     (f = g \<and> length as = length bs \<and> list_all (\<lambda>(a, b). expr_equal_structural a b) (zip as bs))"
| "expr_equal_structural Wildcard Wildcard = True"
| "expr_equal_structural _ _ = False"

definition resolve_aggregate :: "row_schema \<Rightarrow> string \<Rightarrow> expression \<Rightarrow> nat option" where
  "resolve_aggregate s f arg =
     map_option (snd \<circ> snd)
       (find (\<lambda>(g, a, i). g = to_upper f \<and> expr_equal_structural a arg) (agg_entries s))"

text \<open>
  A qualified name resolves to the first entry with this qualifier, where a missing qualifier counts
  as the empty one; an unqualified name resolves only if exactly one entry has it.
\<close>

definition resolve :: "row_schema \<Rightarrow> string option \<Rightarrow> string \<Rightarrow> nat option" where
  "resolve s t c =
     (case t of
        Some q \<Rightarrow> position (\<lambda>(t', c'). c' = c \<and> (case t' of Some x \<Rightarrow> x | None \<Rightarrow> []) = q) (entries s)
      | None \<Rightarrow>
          (case position (\<lambda>(t', c'). c' = c) (entries s) of
             None \<Rightarrow> None
           | Some i \<Rightarrow>
               if position (\<lambda>(t', c'). c' = c) (drop (Suc i) (entries s)) = None then Some i else None))"

section \<open>Evaluation\<close>

text \<open>\<^verbatim>\<open>row[idx]\<close> reads past the end of the row when the row is shorter than its schema.\<close>

definition row_at :: "row \<Rightarrow> nat \<Rightarrow> literal result" where
  "row_at r i = (if i < length r then Inr (r ! i) else Inl (UndefinedBehaviour ''row index''))"

fun apply_unary :: "unary_operator \<Rightarrow> literal \<Rightarrow> literal result" where
  "apply_unary UNot v = rbind (literal_truthy v) (\<lambda>b. Inr (Boolean (\<not> b)))"
| "apply_unary UNeg (Integer i) = rbind (checked_int64 (- i)) (\<lambda>k. Inr (Integer k))"
| "apply_unary UNeg v = rbind (literal_as_double v) (\<lambda>d. Inr (Float (dneg d)))"

fun apply_binary :: "binary_operator \<Rightarrow> literal \<Rightarrow> literal \<Rightarrow> literal result" where
  "apply_binary Eq l r = Inr (Boolean (literal_equal l r))"
| "apply_binary Neq l r = Inr (Boolean (\<not> literal_equal l r))"
| "apply_binary Lt l r = rbind (literal_less l r) (\<lambda>b. Inr (Boolean b))"
| "apply_binary Gt l r = rbind (literal_less r l) (\<lambda>b. Inr (Boolean b))"
| "apply_binary Lte l r = rbind (literal_less r l) (\<lambda>b. Inr (Boolean (\<not> b)))"
| "apply_binary Gte l r = rbind (literal_less l r) (\<lambda>b. Inr (Boolean (\<not> b)))"
| "apply_binary And l r =
     rbind (literal_truthy l) (\<lambda>b. if b then rbind (literal_truthy r) (\<lambda>c. Inr (Boolean c))
                                else Inr (Boolean False))"
| "apply_binary Or l r =
     rbind (literal_truthy l) (\<lambda>b. if b then Inr (Boolean True)
                                else rbind (literal_truthy r) (\<lambda>c. Inr (Boolean c)))"
| "apply_binary Add l r = literal_add l r"
| "apply_binary Sub l r = literal_sub l r"
| "apply_binary Mul l r = literal_mul l r"
| "apply_binary Div l r = literal_div l r"

definition unresolved_column :: "string option \<Rightarrow> string \<Rightarrow> error" where
  "unresolved_column t c =
     RuntimeError (''execution: cannot resolve column '' @ [CHR 0x27] @
       (case t of Some q \<Rightarrow> q @ ''.'' | None \<Rightarrow> []) @ c @ [CHR 0x27])"

definition unresolved_aggregate :: "string \<Rightarrow> error" where
  "unresolved_aggregate f =
     RuntimeError (''execution: cannot resolve aggregate reference '' @ [CHR 0x27] @ f @ ''(...)'' @
       [CHR 0x27] @ '' -- expected it to match an aggregate already computed by an ancestor HashAggregate'')"

fun evaluate :: "expression \<Rightarrow> row \<Rightarrow> row_schema \<Rightarrow> literal result" where
  "evaluate (Lit l) r s = Inr l"
| "evaluate (Column t c) r s =
     (case resolve s t c of None \<Rightarrow> Inl (unresolved_column t c) | Some i \<Rightarrow> row_at r i)"
| "evaluate (UnaryOp u e) r s = rbind (evaluate e r s) (apply_unary u)"
| "evaluate (BinaryOp a p b) r s =
     rbind (evaluate a r s) (\<lambda>x. rbind (evaluate b r s) (\<lambda>y. apply_binary p x y))"
| "evaluate (Function f args) r s =
     (case resolve_aggregate s f (case args of [] \<Rightarrow> Wildcard | a # _ \<Rightarrow> a) of
        None \<Rightarrow> Inl (unresolved_aggregate f)
      | Some i \<Rightarrow> row_at r i)"
| "evaluate Wildcard r s =
     Inl (RuntimeError (''execution: a bare '' @ [CHR 0x27] @ ''*'' @ [CHR 0x27] @
       '' cannot be evaluated as a row expression''))"

definition eval_truthy :: "expression \<Rightarrow> row \<Rightarrow> row_schema \<Rightarrow> bool result" where
  "eval_truthy e r s = rbind (evaluate e r s) literal_truthy"

section \<open>Values stay in range\<close>

lemma float_arith_ok:
  assumes "float_arith f a b = Inr v" "literal_ok a" "literal_ok b" "\<And>x y. is_double (f x y)"
  shows "literal_ok v"
  using assms by (auto simp: float_arith_def)

lemma int_or_float_ok:
  assumes "int_or_float f g a b = Inr v" "literal_ok a" "literal_ok b" "\<And>x y. is_double (g x y)"
  shows "literal_ok v"
  using assms float_arith_ok [of g a b v] by (cases a; cases b) auto

lemma apply_unary_ok: "apply_unary u v = Inr w \<Longrightarrow> literal_ok v \<Longrightarrow> literal_ok w"
  by (cases u; cases v) auto

lemma apply_binary_ok: "apply_binary p a b = Inr v \<Longrightarrow> literal_ok a \<Longrightarrow> literal_ok b \<Longrightarrow> literal_ok v"
  by (cases p) (auto simp: literal_add_def literal_sub_def literal_mul_def literal_div_def
      split: if_splits elim!: int_or_float_ok float_arith_ok)

lemma evaluate_ok:
  "evaluate e r s = Inr v \<Longrightarrow> expr_ok e \<Longrightarrow> list_all literal_ok r \<Longrightarrow> literal_ok v"
proof (induction e r s arbitrary: v rule: evaluate.induct)
  case (3 u e r s)
  then show ?case by (auto intro: apply_unary_ok)
next
  case (4 a p b r s)
  then show ?case by (auto intro: apply_binary_ok)
qed (auto simp: row_at_def list_all_length split: option.splits if_splits)

section \<open>Order and equality of values\<close>

lemma literal_equal_sym: "literal_equal a b = literal_equal b a"
  by (cases a; cases b) (auto simp: deq_sym)

lemma literal_equal_trans: "literal_equal a b \<Longrightarrow> literal_equal b c \<Longrightarrow> literal_equal a c"
  by (cases a; cases b; cases c) (auto intro: deq_trans)

lemma literal_equal_null [simp]: "\<not> literal_equal Null b" "\<not> literal_equal a Null"
  by (cases b; simp) (cases a; simp)

lemma literal_less_irrefl: "literal_less a a \<noteq> Inr True"
  by (cases a) (auto simp: literal_is_null_def)

lemma literal_less_asym: "literal_less a b = Inr True \<Longrightarrow> literal_less b a = Inr False"
  by (cases a; cases b) (auto simp: literal_is_null_def dest: dlt_asym split: if_splits)

lemma literal_less_trans:
  "literal_less a b = Inr True \<Longrightarrow> literal_less b c = Inr True \<Longrightarrow> literal_less a c = Inr True"
  by (cases a; cases b; cases c) (auto simp: literal_is_null_def intro: dlt_trans split: if_splits)

lemma literal_less_not_equal: "literal_less a b = Inr True \<Longrightarrow> \<not> literal_equal a b"
  by (cases a; cases b) (auto simp: literal_is_null_def dest: dlt_not_deq split: if_splits)

section \<open>Resolving names\<close>

lemma resolve_bounds: "resolve s t c = Some i \<Longrightarrow> i < length (entries s)"
  by (auto simp: resolve_def split: option.splits if_splits dest: position_Some)

text \<open>An unqualified name resolves exactly when it is unambiguous.\<close>

lemma resolve_unqualified:
  "resolve s None c = Some i \<longleftrightarrow>
     i < length (entries s) \<and> snd (entries s ! i) = c \<and>
     (\<forall>j < length (entries s). snd (entries s ! j) = c \<longrightarrow> j = i)"
proof -
  let ?P = "\<lambda>(t' :: string option, c'). c' = c"
  have P: "?P x \<longleftrightarrow> snd x = c" for x by (cases x) simp
  show ?thesis
  proof
    assume "resolve s None c = Some i"
    then have pos: "position ?P (entries s) = Some i"
      and later: "position ?P (drop (Suc i) (entries s)) = None"
      by (auto simp: resolve_def split: option.splits if_splits)
    have "j = i" if "j < length (entries s)" "snd (entries s ! j) = c" for j
    proof (rule linorder_cases [of j i])
      assume "i < j"
      then have "entries s ! j \<in> set (drop (Suc i) (entries s))"
        using that(1) nth_mem [of "j - Suc i" "drop (Suc i) (entries s)"] by simp
      then show ?thesis using later that(2) by (auto simp: position_None P)
    qed (use position_Some [OF pos] that in \<open>auto simp: P\<close>)
    then show "i < length (entries s) \<and> snd (entries s ! i) = c \<and>
        (\<forall>j < length (entries s). snd (entries s ! j) = c \<longrightarrow> j = i)"
      using position_Some [OF pos] by (auto simp: P)
  next
    assume uniq: "i < length (entries s) \<and> snd (entries s ! i) = c \<and>
        (\<forall>j < length (entries s). snd (entries s ! j) = c \<longrightarrow> j = i)"
    then have "position ?P (entries s) \<noteq> None" by (auto simp: position_None P)
    then obtain k where k: "position ?P (entries s) = Some k" by blast
    then have "k = i" using uniq position_Some [OF k] by (auto simp: P)
    moreover have "snd (entries s ! (Suc i + k)) \<noteq> c" if "Suc i + k < length (entries s)" for k
      using uniq that by fastforce
    then have "position ?P (drop (Suc i) (entries s)) = None"
      unfolding position_None P by (fastforce simp: in_set_conv_nth less_diff_conv add.commute)
    ultimately show "resolve s None c = Some i" using k by (simp add: resolve_def)
  qed
qed

section \<open>Properties\<close>



text \<open>
  An unqualified column resolves to an index exactly when that entry, and no other entry of the
  schema, has the name; an ambiguous name never resolves.
\<close>

theorem resolve_unambiguous:
  "resolve s None c = Some i \<longleftrightarrow>
     i < length (entries s) \<and> snd (entries s ! i) = c \<and>
     (\<forall>j < length (entries s). snd (entries s ! j) = c \<longrightarrow> j = i)"
  by (rule resolve_unqualified)

theorem resolve_unambiguous_witness:
  "resolve \<lparr>entries = [(Some ''c'', ''id''), (Some ''o'', ''total'')], agg_entries = []\<rparr> None ''total'' = Some 1 \<and>
   resolve \<lparr>entries = [(Some ''c'', ''id''), (Some ''o'', ''id'')], agg_entries = []\<rparr> None ''id'' \<noteq> Some 1"
  by (simp add: resolve_unambiguous less_Suc_eq)

end
