(* ===== verification/Storage.thy ===== *)
theory Storage
  imports Schema Values Lexer
begin

text \<open>
  In-memory tables and their loading from CSV text (\<^verbatim>\<open>storage/csv_reader.cpp\<close>, \<^verbatim>\<open>storage/table.cpp\<close>,
  \<^verbatim>\<open>storage/database.cpp\<close>).  The contents of the file system are a parameter: a function from paths to
  the text of the file, if there is one.
\<close>

section \<open>The CSV reader\<close>

text \<open>
  The character loop, with the state of the C++ locals: the rows read so far, the current row, the
  current field and whether a quote is open.
\<close>

record csv_state =
  csv_rows :: "string list list"
  csv_row :: "string list"
  csv_field :: string
  csv_quoted :: bool

definition csv_init :: csv_state where
  "csv_init = \<lparr>csv_rows = [], csv_row = [], csv_field = [], csv_quoted = False\<rparr>"

definition end_field :: "csv_state \<Rightarrow> csv_state" where
  "end_field st = st\<lparr>csv_row := csv_row st @ [csv_field st], csv_field := []\<rparr>"

definition end_row :: "csv_state \<Rightarrow> csv_state" where
  "end_row st =
     (let st = end_field st in st\<lparr>csv_rows := csv_rows st @ [csv_row st], csv_row := []\<rparr>)"

definition push_char :: "char \<Rightarrow> csv_state \<Rightarrow> csv_state" where
  "push_char c st = st\<lparr>csv_field := csv_field st @ [c]\<rparr>"

fun csv_loop :: "string \<Rightarrow> csv_state \<Rightarrow> csv_state" where
  "csv_loop [] st = st"
| "csv_loop (c # s) st =
     (if csv_quoted st then
        (if c = CHR 0x22 then
           (if lex_peek s = Some CHR 0x22 then csv_loop (tl s) (push_char CHR 0x22 st)
            else csv_loop s (st\<lparr>csv_quoted := False\<rparr>))
         else csv_loop s (push_char c st))
      else if c = CHR 0x22 then csv_loop s (st\<lparr>csv_quoted := True\<rparr>)
      else if c = CHR '','' then csv_loop s (end_field st)
      else if c = CHR 0x0D then csv_loop s st
      else if c = CHR 0x0A then csv_loop s (end_row st)
      else csv_loop s (push_char c st))"

definition read_csv :: "string \<Rightarrow> string list list" where
  "read_csv text =
     (let st = csv_loop text csv_init
      in csv_rows (if csv_field st \<noteq> [] \<or> csv_row st \<noteq> [] then end_row st else st))"

section \<open>Tables and databases\<close>

record table =
  table_columns :: "string list"
  table_rows :: "row list"

text \<open>
  \<^verbatim>\<open>std::stoll\<close> and \<^verbatim>\<open>std::stod\<close> on a whole field: leading white space and a sign are accepted, the number
  is read as far as it goes, and the rest of the field is ignored.
\<close>

definition stoll :: "string \<Rightarrow> int result" where
  "stoll s =
     (let s = dropWhile isspace s;
          neg = (lex_peek s = Some CHR ''-'');
          s = (if neg \<or> lex_peek s = Some CHR ''+'' then tl s else s);
          ds = takeWhile isdigit s;
          i = (if neg then - read_dec ds else read_dec ds)
      in if ds = [] then Inl (InvalidArgument ''stoll'')
         else if in_int64 i then Inr i else Inl (OutOfRange ''stoll''))"

definition isxdigit :: "char \<Rightarrow> bool" where
  "isxdigit c \<longleftrightarrow> isdigit c \<or> toupper c \<in> {CHR ''A'', CHR ''B'', CHR ''C'', CHR ''D'', CHR ''E'', CHR ''F''}"

definition xdigit_val :: "char \<Rightarrow> int" where
  "xdigit_val c = (if isdigit c then digit_val c else int (code (toupper c)) - 55)"

text \<open>An exponent, introduced by a letter; without digits after it, it is not part of the number.\<close>

definition read_exponent :: "char \<Rightarrow> string \<Rightarrow> int" where
  "read_exponent mark s =
     (if map_option toupper (lex_peek s) = Some mark
      then (let s = tl s; neg = (lex_peek s = Some CHR ''-'');
                ds = takeWhile isdigit (if neg \<or> lex_peek s = Some CHR ''+'' then tl s else s)
            in if neg then - read_dec ds else read_dec ds)
      else 0)"

text \<open>The digits before and after the point, and what follows them.\<close>

definition read_mantissa :: "(char \<Rightarrow> bool) \<Rightarrow> string \<Rightarrow> string \<times> string \<times> string" where
  "read_mantissa P s =
     (let ip = takeWhile P s; rest = dropWhile P s
      in if lex_peek rest = Some CHR ''.''
         then (ip, takeWhile P (tl rest), dropWhile P (tl rest)) else (ip, [], rest))"

definition stod :: "string \<Rightarrow> double result" where
  "stod s =
     (let s = dropWhile isspace s;
          neg = (lex_peek s = Some CHR ''-'');
          s = (if neg \<or> lex_peek s = Some CHR ''+'' then tl s else s);
          (xip, xfp, xrest) = read_mantissa isxdigit (drop 2 s);
          (ip, fp, rest) = read_mantissa isdigit s
      in if take 3 (to_upper s) = ''INF'' then Inr (Inf neg)
         else if take 3 (to_upper s) = ''NAN'' then Inr NaN
         else if take 2 (to_upper s) = ''0X'' \<and> xip @ xfp \<noteq> []
         then range_checked neg
                (of_int (foldl (\<lambda>n c. 16 * n + xdigit_val c) 0 (xip @ xfp)) / 16 ^ length xfp *
                 bpow 2 (read_exponent CHR ''P'' xrest))
         else if ip @ fp \<noteq> []
         then range_checked neg (decimal_rat ip fp * bpow 10 (read_exponent CHR ''E'' rest))
         else Inl (InvalidArgument ''stod''))"

definition parse_field :: "string \<Rightarrow> data_type \<Rightarrow> literal result" where
  "parse_field f ty =
     (if f = [] then Inr Null
      else case ty of
        IntType \<Rightarrow> rbind (stoll f) (\<lambda>i. Inr (Integer i))
      | FloatType \<Rightarrow> rbind (stod f) (\<lambda>d. Inr (Float d))
      | TextType \<Rightarrow> Inr (Str f)
      | BooleanType \<Rightarrow> Inr (Boolean (f = ''true'' \<or> f = ''1'' \<or> f = ''TRUE'')))"

definition header_type :: "table_schema \<Rightarrow> string \<Rightarrow> string \<Rightarrow> data_type result" where
  "header_type schema path name =
     (case get_column schema name of
        None \<Rightarrow> Inl (RuntimeError (''csv: column '' @ [CHR 0x27] @ name @ [CHR 0x27] @ '' in '' @ path @
                  '' not found in schema''))
      | Some c \<Rightarrow> Inr (col_type c))"

definition parse_row ::
  "string \<Rightarrow> data_type list \<Rightarrow> nat \<times> string list \<Rightarrow> row result"
where
  "parse_row path types nr =
     (let (n, raw) = nr
      in if length raw \<noteq> length types
         then Inl (RuntimeError (''csv: row '' @ show_nat n @ '' in '' @ path @ '' has '' @
                show_nat (length raw) @ '' fields, expected '' @ show_nat (length types)))
         else rmap (\<lambda>(f, ty). parse_field f ty) (zip raw types))"

definition load_table_from_csv ::
  "string \<Rightarrow> string \<Rightarrow> table_schema \<Rightarrow> table result"
where
  "load_table_from_csv path text schema =
     (case read_csv text of
        [] \<Rightarrow> Inr \<lparr>table_columns = [], table_rows = []\<rparr>
      | header # raw \<Rightarrow>
          rbind (rmap (header_type schema path) header) (\<lambda>types.
          rbind (rmap (parse_row path types) (zip [1 ..< Suc (length raw)] raw)) (\<lambda>rows.
            Inr \<lparr>table_columns = header, table_rows = rows\<rparr>)))"

type_synonym database = "(string \<times> table) list"

definition add_table :: "string \<Rightarrow> table \<Rightarrow> database \<Rightarrow> database" where
  "add_table name t db = AList.update name t db"

definition db_get :: "database \<Rightarrow> string \<Rightarrow> table option" where
  "db_get db name = map_of db name"

fun load_tables ::
  "(string \<Rightarrow> string option) \<Rightarrow> string \<Rightarrow> catalog \<Rightarrow> string list \<Rightarrow>
   database \<Rightarrow> database result"
where
  "load_tables files dir cat [] db = Inr db"
| "load_tables files dir cat (name # names) db =
     (let path = dir @ ''/'' @ name @ ''.csv''
      in case files path of
           None \<Rightarrow> load_tables files dir cat names db
         | Some text \<Rightarrow>
             (case catalog_get cat name of
                None \<Rightarrow> load_tables files dir cat names db
              | Some schema \<Rightarrow>
                  rbind (load_table_from_csv path text schema) (\<lambda>t.
                    load_tables files dir cat names (add_table name t db))))"

definition load_database_from_directory ::
  "(string \<Rightarrow> string option) \<Rightarrow> string \<Rightarrow> catalog \<Rightarrow> database result"
where
  "load_database_from_directory files dir cat =
     load_tables files dir cat (table_names cat) []"

section \<open>Loaded tables are well formed\<close>

definition table_ok :: "table \<Rightarrow> bool" where
  "table_ok t \<longleftrightarrow>
     list_all (\<lambda>r. length r = length (table_columns t) \<and> list_all literal_ok r) (table_rows t)"

lemma stoll_in_range: "stoll s = Inr i \<Longrightarrow> in_int64 i"
  by (auto simp: stoll_def Let_def split: if_splits)

lemma is_double_stod_field: "stod s = Inr d \<Longrightarrow> is_double d"
  by (auto simp: stod_def Let_def split_beta split: if_splits dest: is_double_range_checked)

lemma parse_field_ok:
  "parse_field f ty = Inr v \<Longrightarrow> literal_ok v"
  by (auto simp: parse_field_def stoll_in_range is_double_stod_field split: if_splits data_type.splits)

lemma parse_row_ok:
  assumes "parse_row path types nr = Inr r"
  shows "length r = length types" "list_all literal_ok r"
proof -
  obtain n raw where nr: "nr = (n, raw)" by (cases nr)
  then have len: "length raw = length types"
    and map: "rmap (\<lambda>(f, ty). parse_field f ty) (zip raw types) = Inr r"
    using assms by (auto simp: parse_row_def split: if_splits)
  show "length r = length types" using rmap_length [OF map] len by simp
  show "list_all literal_ok r"
    using rmap_member [OF map] parse_field_ok by (fastforce simp: list_all_iff split_beta)
qed

lemma load_table_ok:
  assumes "load_table_from_csv path text schema = Inr t"
  shows "table_ok t"
proof (cases "read_csv text")
  case Nil
  with assms show ?thesis by (auto simp: load_table_from_csv_def table_ok_def)
next
  case (Cons header raw)
  with assms obtain types rows where types: "rmap (header_type schema path) header = Inr types"
    and rows: "rmap (parse_row path types) (zip [1 ..< Suc (length raw)] raw) = Inr rows"
    and t: "t = \<lparr>table_columns = header, table_rows = rows\<rparr>"
    by (auto simp: load_table_from_csv_def simp del: upt_Suc)
  have "length r = length header \<and> list_all literal_ok r" if mem: "r \<in> set rows" for r
  proof -
    obtain nr where "parse_row path types nr = Inr r"
      using rmap_member [OF rows mem] by blast
    then show ?thesis using parse_row_ok rmap_length [OF types] by metis
  qed
  then show ?thesis by (simp add: t table_ok_def list_all_iff)
qed

section \<open>The reader inverts RFC 4180 quoting\<close>

text \<open>A field in quotes, with its quotes doubled, and a file of such fields.\<close>

definition quote_field :: "string \<Rightarrow> string" where
  "quote_field f = CHR 0x22 # concat (map (\<lambda>c. if c = CHR 0x22 then [c, c] else [c]) f) @ [CHR 0x22]"

definition csv_line :: "string list \<Rightarrow> string" where
  "csv_line fs = join_with '','' (map quote_field fs) @ [CHR 0x0A]"

lemma csv_loop_quoted:
  assumes "csv_quoted st" "lex_peek s \<noteq> Some CHR 0x22"
  shows "csv_loop (concat (map (\<lambda>c. if c = CHR 0x22 then [c, c] else [c]) f) @ CHR 0x22 # s) st =
    csv_loop s (st\<lparr>csv_field := csv_field st @ f, csv_quoted := False\<rparr>)"
  using assms(1)
proof (induction f arbitrary: st)
  case Nil
  with assms(2) show ?case by simp
next
  case (Cons c f)
  then show ?case by (simp add: push_char_def)
qed

lemma csv_loop_field:
  assumes "\<not> csv_quoted st" "lex_peek s \<noteq> Some CHR 0x22"
  shows "csv_loop (quote_field f @ s) st = csv_loop s (st\<lparr>csv_field := csv_field st @ f\<rparr>)"
  using assms csv_loop_quoted [of "st\<lparr>csv_quoted := True\<rparr>" s f] by (cases st) (simp add: quote_field_def)

lemma csv_loop_line:
  assumes "fs \<noteq> []" "\<not> csv_quoted st" "csv_field st = []"
  shows "csv_loop (csv_line fs @ s) st =
    csv_loop s (st\<lparr>csv_rows := csv_rows st @ [csv_row st @ fs], csv_row := []\<rparr>)"
  using assms
proof (induction fs arbitrary: st)
  case (Cons f fs)
  show ?case
  proof (cases "fs = []")
    case True
    with Cons.prems show ?thesis
      by (cases st) (simp add: csv_line_def csv_loop_field end_row_def end_field_def Let_def)
  next
    case False
    have "csv_loop (csv_line (f # fs) @ s) st =
        csv_loop (csv_line fs @ s) (st\<lparr>csv_row := csv_row st @ [f], csv_field := []\<rparr>)"
      using Cons.prems False by (simp add: csv_line_def join_with_Cons csv_loop_field end_field_def)
    also have "\<dots> = csv_loop s (st\<lparr>csv_rows := csv_rows st @ [csv_row st @ f # fs], csv_row := []\<rparr>)"
      using Cons.prems False by (cases st) (subst Cons.IH; simp)
    finally show ?thesis .
  qed
qed simp

lemma csv_loop_lines:
  assumes "\<And>r. r \<in> set rows \<Longrightarrow> r \<noteq> []" "\<not> csv_quoted st" "csv_field st = []" "csv_row st = []"
  shows "csv_loop (concat (map csv_line rows)) st = st\<lparr>csv_rows := csv_rows st @ rows\<rparr>"
  using assms by (induction rows arbitrary: st) (simp_all add: csv_loop_line)

lemma read_csv_lines:
  "(\<And>r. r \<in> set rows \<Longrightarrow> r \<noteq> []) \<Longrightarrow> read_csv (concat (map csv_line rows)) = rows"
  by (simp add: read_csv_def csv_loop_lines csv_init_def)

section \<open>Properties\<close>

text \<open>
  C27.  The CSV reader inverts RFC 4180 quoting: reading a file in which every field is quoted, with its
  quotes doubled, gives back the fields, whatever characters they hold (commas, quotes, line breaks),
  as long as no row is empty.
\<close>

theorem csv_round_trip:
  assumes "\<forall>r \<in> set rows. r \<noteq> []"
  shows "read_csv (concat (map csv_line rows)) = rows"
  by (rule read_csv_lines) (use assms in blast)

theorem csv_round_trip_witness:
  "read_csv (concat (map csv_line [[''id'', ''a,b''], [[CHR 0x22, CHR 0x0A], []]])) =
     [[''id'', ''a,b''], [[CHR 0x22, CHR 0x0A], []]]"
  by (rule csv_round_trip) simp

text \<open>
  A table that loads is well formed: every row has one value per column of the header, and every
  value is in the range of its type.
\<close>

theorem loaded_table_wellformed:
  assumes "load_table_from_csv path text schema = Inr t"
  shows "table_ok t"
  by (rule load_table_ok [OF assms])

definition sample_csv :: string where
  "sample_csv = csv_line [''id'', ''name''] @ csv_line [''1'', ''pen''] @ csv_line [''2'', []]"

theorem loaded_table_wellformed_witness:
  "table_ok \<lparr>table_columns = [''id'', ''name''], table_rows = [[Integer 1, Str ''pen''], [Integer 2, Null]]\<rparr>"
proof (rule loaded_table_wellformed)
  show "load_table_from_csv ''products.csv'' sample_csv
      (the (catalog_get with_test_tables ''products'')) =
      Inr \<lparr>table_columns = [''id'', ''name''], table_rows = [[Integer 1, Str ''pen''], [Integer 2, Null]]\<rparr>"
    by code_simp
qed

end
