(* ===== verification/Operators.thy ===== *)
theory Operators
  imports Physical_Plan Storage
begin

text \<open>
  The physical operators as pull iterators (\<^verbatim>\<open>execution/executor.hpp\<close>, \<^verbatim>\<open>execution/operators.cpp\<close>).
  A call of \<^verbatim>\<open>next\<close> may loop over its input, so a computation is a \<open>comp\<close>: \<^term>\<open>None\<close> when it does not
  return, otherwise an exception or a value.  Each operator's loop is written once, over the \<open>next\<close>
  function of its input; the theory shows what rows it delivers given the rows of the input.
  Neither the timing of \<^verbatim>\<open>Executor::open\<close> and \<^verbatim>\<open>Executor::next\<close> nor their row counter is modelled.
\<close>

section \<open>Computations that may not return\<close>

type_synonym 'a comp = "'a result option"

definition ret :: "'a \<Rightarrow> 'a comp" where
  "ret x = Some (Inr x)"

definition raise :: "error \<Rightarrow> 'a comp" where
  "raise e = Some (Inl e)"

definition cbind :: "'a comp \<Rightarrow> ('a \<Rightarrow> 'b comp) \<Rightarrow> 'b comp" where
  "cbind m f = Option.bind m (\<lambda>r. case r of Inl e \<Rightarrow> Some (Inl e) | Inr x \<Rightarrow> f x)"

lemma cbind_simps [simp]:
  "cbind (ret x) f = f x" "cbind (raise e) f = raise e"
  "cbind (Some (Inr x)) f = f x" "cbind (Some (Inl e)) f = raise e"
  by (simp_all add: cbind_def ret_def raise_def)

lemma ret_inject [simp]: "ret x = ret y \<longleftrightarrow> x = y" "ret x \<noteq> raise e" "raise e \<noteq> ret x" "raise e = raise e' \<longleftrightarrow> e = e'"
  by (simp_all add: ret_def raise_def)

lemma cbind_mono [partial_function_mono]:
  assumes "mono_option B" "\<And>y. mono_option (\<lambda>f. C y f)"
  shows "mono_option (\<lambda>f. cbind (B f) (\<lambda>y. C y f))"
proof -
  have "mono_option (\<lambda>f. case r of Inl e \<Rightarrow> Some (Inl e) | Inr x \<Rightarrow> C x f)" for r
    using assms(2) by (cases r) (simp_all add: monotone_def flat_ord_def)
  then show ?thesis unfolding cbind_def using assms(1) by (intro bind_mono)
qed

type_synonym 's iterator = "'s \<Rightarrow> (row option \<times> 's) comp"

section \<open>The loops of the operators\<close>

text \<open>\<^verbatim>\<open>FilterExec::next_impl\<close>.\<close>

partial_function (option) filter_next ::
  "'s iterator \<Rightarrow> expression \<Rightarrow> row_schema \<Rightarrow> 's \<Rightarrow> (row option \<times> 's) comp"
where
  "filter_next nx pred sch s =
     cbind (nx s) (\<lambda>(r, s).
       case r of
         None \<Rightarrow> ret (None, s)
       | Some row \<Rightarrow>
           cbind (Some (eval_truthy pred row sch)) (\<lambda>b.
             if b then ret (Some row, s) else filter_next nx pred sch s))"

text \<open>
  \<^verbatim>\<open>NestedLoopJoinExec::next_impl\<close>.  The state is that of the left input, the current left row, the
  position among the right rows and whether the left input is exhausted.
\<close>

type_synonym 's nl_state = "'s \<times> row option \<times> nat \<times> bool"

fun nl_scan :: "expression \<Rightarrow> row_schema \<Rightarrow> row \<Rightarrow> row list \<Rightarrow> nat \<Rightarrow> (row \<times> nat) option result" where
  "nl_scan cond sch l [] pos = Inr None"
| "nl_scan cond sch l (r # rs) pos =
     rbind (eval_truthy cond (l @ r) sch) (\<lambda>b.
       if b then Inr (Some (l @ r, Suc pos)) else nl_scan cond sch l rs (Suc pos))"

partial_function (option) nl_loop ::
  "'s iterator \<Rightarrow> expression \<Rightarrow> row_schema \<Rightarrow> row list \<Rightarrow> row \<Rightarrow> nat \<Rightarrow> 's \<Rightarrow>
   (row option \<times> 's nl_state) comp"
where
  "nl_loop nx cond sch rights l pos s =
     cbind (Some (nl_scan cond sch l (drop pos rights) pos)) (\<lambda>found.
       case found of
         Some (row, pos') \<Rightarrow> ret (Some row, (s, Some l, pos', False))
       | None \<Rightarrow>
           cbind (nx s) (\<lambda>(r, s).
             case r of
               None \<Rightarrow> ret (None, (s, Some l, max pos (length rights), True))
             | Some l' \<Rightarrow> nl_loop nx cond sch rights l' 0 s))"

definition nl_next ::
  "'s iterator \<Rightarrow> expression \<Rightarrow> row_schema \<Rightarrow> row list \<Rightarrow> 's nl_state \<Rightarrow> (row option \<times> 's nl_state) comp"
where
  "nl_next nx cond sch rights st =
     (case st of (s, cur, pos, exhausted) \<Rightarrow>
        if exhausted then ret (None, st)
        else case cur of
          Some l \<Rightarrow> nl_loop nx cond sch rights l pos s
        | None \<Rightarrow>
            cbind (nx s) (\<lambda>(r, s).
              case r of
                None \<Rightarrow> ret (None, (s, None, pos, True))
              | Some l \<Rightarrow> nl_loop nx cond sch rights l 0 s))"

text \<open>
  \<^verbatim>\<open>HashJoinExec::next_impl\<close>.  The probe iterator is the list of matching rows not yet returned, and
  there is none when \<^verbatim>\<open>probing_\<close> is false.  \<open>lookup\<close> is \<^verbatim>\<open>build_.equal_range\<close> of a key.
\<close>

type_synonym 's hj_state = "'s \<times> row option \<times> row list option"

partial_function (option) hj_next ::
  "'s iterator \<Rightarrow> expression \<Rightarrow> row_schema \<Rightarrow> (string \<Rightarrow> row list) \<Rightarrow> 's hj_state \<Rightarrow>
   (row option \<times> 's hj_state) comp"
where
  "hj_next nx key sch lookup st =
     (case st of (s, cur, probe) \<Rightarrow>
        if probe \<noteq> None \<and> probe \<noteq> Some [] then
          (case cur of
             Some l \<Rightarrow> ret (Some (l @ hd (the probe)), (s, cur, Some (tl (the probe))))
           | None \<Rightarrow> raise (UndefinedBehaviour ''empty optional''))
        else
          cbind (nx s) (\<lambda>(r, s).
            case r of
              None \<Rightarrow> ret (None, (s, cur, None))
            | Some l \<Rightarrow>
                cbind (Some (evaluate key l sch)) (\<lambda>v.
                  hj_next nx key sch lookup (s, Some l, Some (lookup (literal_to_string v))))))"

text \<open>\<^verbatim>\<open>IndexScanExec::next_impl\<close>: the next row whose indexed column equals the probe value.\<close>

fun index_find :: "nat \<Rightarrow> literal \<Rightarrow> row list \<Rightarrow> nat \<Rightarrow> (row option \<times> nat) result" where
  "index_find col probe [] pos = Inr (None, pos)"
| "index_find col probe (r # rs) pos =
     rbind (row_at r col) (\<lambda>v.
       if literal_equal v probe then Inr (Some r, Suc pos) else index_find col probe rs (Suc pos))"

text \<open>Reading an input to its end, folding a fallible step over its rows.\<close>

partial_function (option) drain ::
  "'s iterator \<Rightarrow> ('a \<Rightarrow> row \<Rightarrow> 'a result) \<Rightarrow> 'a \<Rightarrow> 's \<Rightarrow> ('a \<times> 's) comp"
where
  "drain nx f acc s =
     cbind (nx s) (\<lambda>(r, s).
       case r of
         None \<Rightarrow> ret (acc, s)
       | Some row \<Rightarrow> cbind (Some (f acc row)) (\<lambda>acc. drain nx f acc s))"

section \<open>What an iterator delivers\<close>

text \<open>
  A stream is the rows an iterator returns one after the other, and the exception it ends with, if
  any.  \<open>delivers I nx s rows err\<close> says that calling \<open>nx\<close> from state \<open>s\<close> until it reports the end gives
  this stream, and that the states on the way satisfy \<open>I\<close>; in particular every call returns.
\<close>

type_synonym stream = "row list \<times> error option"

fun delivers :: "('s \<Rightarrow> bool) \<Rightarrow> 's iterator \<Rightarrow> 's \<Rightarrow> row list \<Rightarrow> error option \<Rightarrow> bool" where
  "delivers I nx s [] None \<longleftrightarrow> (\<exists>s'. nx s = ret (None, s') \<and> I s')"
| "delivers I nx s [] (Some e) \<longleftrightarrow> nx s = raise e"
| "delivers I nx s (r # rs) err \<longleftrightarrow> (\<exists>s'. nx s = ret (Some r, s') \<and> I s' \<and> delivers I nx s' rs err)"

text \<open>Replacing every row of a stream by a stream; the result ends with the first exception.\<close>

definition stream_cons :: "stream \<Rightarrow> stream \<Rightarrow> stream" where
  "stream_cons a b = (case snd a of Some e \<Rightarrow> a | None \<Rightarrow> (fst a @ fst b, snd b))"

fun stream_bind :: "(row \<Rightarrow> stream) \<Rightarrow> row list \<Rightarrow> error option \<Rightarrow> stream" where
  "stream_bind f [] err = ([], err)"
| "stream_bind f (r # rs) err = stream_cons (f r) (stream_bind f rs err)"

definition stream_of :: "'a result \<Rightarrow> ('a \<Rightarrow> row list) \<Rightarrow> stream" where
  "stream_of x f = (case x of Inl e \<Rightarrow> ([], Some e) | Inr v \<Rightarrow> (f v, None))"

definition filter_row :: "expression \<Rightarrow> row_schema \<Rightarrow> row \<Rightarrow> stream" where
  "filter_row pred sch r = stream_of (eval_truthy pred r sch) (\<lambda>b. if b then [r] else [])"

fun nl_row :: "expression \<Rightarrow> row_schema \<Rightarrow> row \<Rightarrow> row list \<Rightarrow> stream" where
  "nl_row cond sch l [] = ([], None)"
| "nl_row cond sch l (r # rs) =
     stream_cons (filter_row cond sch (l @ r)) (nl_row cond sch l rs)"

definition hj_row :: "expression \<Rightarrow> row_schema \<Rightarrow> (string \<Rightarrow> row list) \<Rightarrow> row \<Rightarrow> stream" where
  "hj_row key sch lookup l =
     stream_of (evaluate key l sch) (\<lambda>v. map ((@) l) (lookup (literal_to_string v)))"

lemma stream_cons_simps [simp]:
  "stream_cons (xs, None) b = (xs @ fst b, snd b)" "stream_cons (xs, Some e) b = (xs, Some e)"
  by (simp_all add: stream_cons_def)

lemma stream_of_simps [simp]: "stream_of (Inl e) f = ([], Some e)" "stream_of (Inr v) f = (f v, None)"
  by (simp_all add: stream_of_def)

section \<open>Each operator transforms the stream of its input\<close>

lemma delivers_cong: "nx s = nx s' \<Longrightarrow> delivers I nx s xs e = delivers I nx s' xs e"
  by (cases xs; cases e) simp_all

lemma drop_diff_Cons: "pos < n \<Longrightarrow> drop (n - pos) (r # rs) = drop (n - Suc pos) rs"
  by (simp add: drop_Cons')

lemma nl_scan_cases:
  "case nl_scan cond sch l rs pos of
     Inl e \<Rightarrow> nl_row cond sch l rs = ([], Some e)
   | Inr None \<Rightarrow> nl_row cond sch l rs = ([], None)
   | Inr (Some (row, pos')) \<Rightarrow>
       pos < pos' \<and> pos' \<le> pos + length rs \<and>
       nl_row cond sch l rs = stream_cons ([row], None) (nl_row cond sch l (drop (pos' - pos) rs))"
proof (induction cond sch l rs pos rule: nl_scan.induct)
  case (2 cond sch l r rs pos)
  show ?case
  proof (cases "eval_truthy cond (l @ r) sch")
    case (Inl e)
    then show ?thesis by (simp add: filter_row_def)
  next
    case (Inr b)
    with 2 [of b] show ?thesis
      by (auto simp: filter_row_def drop_diff_Cons split: sum.splits option.splits)
  qed
qed simp

locale row_source =
  fixes I :: "'s \<Rightarrow> bool" and nx :: "'s iterator" and s :: 's and rows :: "row list" and err :: "error option"
  assumes source: "delivers I nx s rows err" and start: "I s"

context row_source
begin

lemma filter_delivers:
  "delivers I (filter_next nx p sch) s (fst (stream_bind (filter_row p sch) rows err))
     (snd (stream_bind (filter_row p sch) rows err))"
  using source
proof (induction rows arbitrary: s)
  case Nil
  then show ?case by (cases err) (auto simp: filter_next.simps [of nx p sch s])
next
  case (Cons r rs)
  then obtain s' where s': "nx s = ret (Some r, s')" "I s'" "delivers I nx s' rs err" by auto
  note IH = Cons.IH [OF s'(3)]
  have step: "filter_next nx p sch s =
      cbind (Some (eval_truthy p r sch)) (\<lambda>b. if b then ret (Some r, s') else filter_next nx p sch s')"
    by (subst filter_next.simps) (simp add: s')
  show ?case
  proof (cases "eval_truthy p r sch")
    case (Inl e)
    then show ?thesis using step by (simp add: filter_row_def)
  next
    case (Inr b)
    then show ?thesis using step IH s'(2) delivers_cong [of "filter_next nx p sch" s s']
      by (cases b) (auto simp: filter_row_def)
  qed
qed

end

text \<open>From a left row on, the nested loop delivers its matches and then those of the later left rows.\<close>

lemma nl_delivers_scan:
  assumes I: "I s"
    and stop: "\<And>pos. nl_scan cond sch l (drop pos rights) pos = Inr None \<Longrightarrow>
      delivers (\<lambda>(s, _). I s) (nl_next nx cond sch rights) (s, Some l, pos, False) (fst tail) (snd tail)"
  shows "delivers (\<lambda>(s, _). I s) (nl_next nx cond sch rights) (s, Some l, pos, False)
    (fst (stream_cons (nl_row cond sch l (drop pos rights)) tail))
    (snd (stream_cons (nl_row cond sch l (drop pos rights)) tail))"
proof (induction "length rights - pos" arbitrary: pos rule: less_induct)
  case less
  note scan = nl_scan_cases [of cond sch l "drop pos rights" pos]
  show ?case
  proof (cases "nl_scan cond sch l (drop pos rights) pos")
    case (Inl e)
    then show ?thesis using scan by (simp add: nl_next_def nl_loop.simps [of nx cond sch rights l pos s])
  next
    case (Inr found)
    show ?thesis
    proof (cases found)
      case None
      then show ?thesis using scan Inr stop [of pos] by simp
    next
      case (Some rp)
      then obtain row pos' where found: "found = Some (row, pos')" by (cases rp) auto
      with scan Inr have bounds: "pos < pos'" "pos' \<le> pos + length (drop pos rights)"
        and row: "nl_row cond sch l (drop pos rights) = stream_cons ([row], None) (nl_row cond sch l (drop pos' rights))"
        by auto
      then have IH: "length rights - pos' < length rights - pos" by auto
      show ?thesis using less [OF IH] Inr found I
        by (simp add: row nl_next_def nl_loop.simps [of nx cond sch rights l pos s] stream_cons_def
            split: option.splits)
    qed
  qed
qed

lemma nl_delivers_from:
  "delivers I nx s rows err \<Longrightarrow> I s \<Longrightarrow> delivers (\<lambda>(s, _). I s) (nl_next nx cond sch rights) (s, Some l, pos, False)
    (fst (stream_cons (nl_row cond sch l (drop pos rights)) (stream_bind (\<lambda>l. nl_row cond sch l rights) rows err)))
    (snd (stream_cons (nl_row cond sch l (drop pos rights)) (stream_bind (\<lambda>l. nl_row cond sch l rights) rows err)))"
proof (induction rows arbitrary: s l pos)
  case Nil
  then show ?case
    by (intro nl_delivers_scan; cases err)
      (auto simp: nl_next_def nl_loop.simps [of nx cond sch rights l _ s])
next
  case (Cons r rs)
  then obtain s' where s': "nx s = ret (Some r, s')" "I s'" "delivers I nx s' rs err" by auto
  have step: "nl_next nx cond sch rights (s, Some l, pos, False) = nl_next nx cond sch rights (s', Some r, 0, False)"
    if "nl_scan cond sch l (drop pos rights) pos = Inr None" for pos
    using s' that by (simp add: nl_next_def nl_loop.simps [of nx cond sch rights l _ s])
  show ?case
  proof (rule nl_delivers_scan [of I s, OF Cons.prems(2)])
    fix pos
    assume "nl_scan cond sch l (drop pos rights) pos = Inr None"
    from delivers_cong [OF step [OF this]] Cons.IH [OF s'(3) s'(2), of r 0]
    show "delivers (\<lambda>(s, _). I s) (nl_next nx cond sch rights) (s, Some l, pos, False)
        (fst (stream_bind (\<lambda>l. nl_row cond sch l rights) (r # rs) err))
        (snd (stream_bind (\<lambda>l. nl_row cond sch l rights) (r # rs) err))" by simp
  qed
qed

context row_source
begin

lemma nl_delivers:
  "delivers (\<lambda>(s, _). I s) (nl_next nx cond sch rights) (s, None, pos, False)
     (fst (stream_bind (\<lambda>l. nl_row cond sch l rights) rows err))
     (snd (stream_bind (\<lambda>l. nl_row cond sch l rights) rows err))"
proof (cases rows)
  case Nil
  then show ?thesis using source by (cases err) (auto simp: nl_next_def)
next
  case (Cons r rs)
  then obtain s' where s': "nx s = ret (Some r, s')" "I s'" "delivers I nx s' rs err" using source by auto
  have "nl_next nx cond sch rights (s, None, pos, False) = nl_next nx cond sch rights (s', Some r, 0, False)"
    by (simp add: nl_next_def s')
  from delivers_cong [OF this] nl_delivers_from [OF s'(3) s'(2), of cond sch rights r 0] show ?thesis
    by (simp add: Cons)
qed

end

lemma hj_delivers_from:
  "delivers I nx s rows err \<Longrightarrow> I s \<Longrightarrow> delivers (\<lambda>(s, _). I s) (hj_next nx key sch lookup) (s, Some l, Some ms)
    (fst (stream_cons (map ((@) l) ms, None) (stream_bind (hj_row key sch lookup) rows err)))
    (snd (stream_cons (map ((@) l) ms, None) (stream_bind (hj_row key sch lookup) rows err)))"
proof (induction rows arbitrary: s l ms)
  case Nil
  show ?case
  proof (induction ms)
    case Nil': Nil
    then show ?case using Nil by (cases err) (auto simp: hj_next.simps [of nx key sch lookup "(s, Some l, Some [])"])
  next
    case (Cons m ms)
    then show ?case using Nil.prems
      by (simp add: hj_next.simps [of nx key sch lookup "(s, Some l, Some (m # ms))"])
  qed
next
  case (Cons r rs)
  then obtain s' where s': "nx s = ret (Some r, s')" "I s'" "delivers I nx s' rs err" by auto
  have I: "I s" using Cons.prems by simp
  show ?case
  proof (induction ms)
    case Nil
    note step = hj_next.simps [of nx key sch lookup "(s, Some l, Some [])"]
    show ?case
    proof (cases "evaluate key r sch")
      case (Inl e)
      then show ?thesis using s' by (simp add: step hj_row_def)
    next
      case (Inr v)
      then have "hj_next nx key sch lookup (s, Some l, Some []) =
          hj_next nx key sch lookup (s', Some r, Some (lookup (literal_to_string v)))"
        using s' by (simp add: step)
      from delivers_cong [OF this] Cons.IH [OF s'(3) s'(2), of r "lookup (literal_to_string v)"] Inr show ?thesis
        by (simp add: hj_row_def)
    qed
  next
    case (Cons m ms)
    then show ?case using I by (simp add: hj_next.simps [of nx key sch lookup "(s, Some l, Some (m # ms))"])
  qed
qed

context row_source
begin

lemma hj_delivers:
  "delivers (\<lambda>(s, _). I s) (hj_next nx key sch lookup) (s, None, None)
     (fst (stream_bind (hj_row key sch lookup) rows err)) (snd (stream_bind (hj_row key sch lookup) rows err))"
proof (cases "rows = [] \<and> err = None")
  case True
  then show ?thesis using source by (auto simp: hj_next.simps [of nx key sch lookup "(s, None, None)"])
next
  case False
  then have "hj_next nx key sch lookup (s, None, None) = hj_next nx key sch lookup (s, Some [], Some [])"
    using source by (cases rows; cases err)
      (auto simp: hj_next.simps [of nx key sch lookup "(s, None, None)"]
        hj_next.simps [of nx key sch lookup "(s, Some [], Some [])"])
  from delivers_cong [OF this] hj_delivers_from [OF source start, of key sch lookup "[]" "[]"]
  show ?thesis by simp
qed

end

section \<open>Reading an input to its end\<close>

definition drained :: "('a \<Rightarrow> row \<Rightarrow> 'a result) \<Rightarrow> 'a \<Rightarrow> stream \<Rightarrow> 'a result" where
  "drained f acc st =
     rbind (rfold f acc (fst st)) (\<lambda>a. case snd st of None \<Rightarrow> Inr a | Some e \<Rightarrow> Inl e)"

lemma drain_delivers:
  "delivers I nx s rows err \<Longrightarrow>
     (case drained f acc (rows, err) of
        Inl e \<Rightarrow> drain nx f acc s = raise e
      | Inr a \<Rightarrow> \<exists>s'. drain nx f acc s = ret (a, s') \<and> I s')"
proof (induction rows arbitrary: acc s)
  case Nil
  then show ?case
    by (cases err) (auto simp: drained_def drain.simps [of nx f acc s])
next
  case (Cons r rs)
  then obtain s' where s': "nx s = ret (Some r, s')" "delivers I nx s' rs err" by auto
  show ?case
  proof (cases "f acc r")
    case (Inl e)
    then show ?thesis using s' by (simp add: drained_def drain.simps [of nx f acc s])
  next
    case (Inr a)
    then have "drain nx f acc s = drain nx f a s'" using s' by (simp add: drain.simps [of nx f acc s])
    moreover have "drained f acc (r # rs, err) = drained f a (rs, err)" using Inr by (simp add: drained_def)
    ultimately show ?thesis using Cons.IH [OF s'(2), of a] by (simp split: sum.splits)
  qed
qed

lemma rfold_append: "rfold (\<lambda>acc r. Inr (acc @ [r])) acc rows = Inr (acc @ rows)"
  by (induction rows arbitrary: acc) simp_all

end
