(* ===== verification/Executor.thy ===== *)
theory Executor
  imports Operators
begin

text \<open>
  The executor tree (\<^verbatim>\<open>execution/operators.hpp\<close>, \<^verbatim>\<open>execution/operators.cpp\<close>), its construction from a
  physical plan (\<^verbatim>\<open>execution/executor_builder.cpp\<close>) and its run to completion
  (\<^verbatim>\<open>execution/query_runner.cpp\<close>).  Two things the standard library leaves open are parameters, kept in
  the record \<open>runtime\<close>: what \<^verbatim>\<open>std::sort\<close> does with a comparator, and in which order a hash multimap
  returns the rows with an equal key.
\<close>

section \<open>The standard library\<close>

record runtime =
  rt_sort :: "(row \<Rightarrow> row \<Rightarrow> bool result) \<Rightarrow> row list \<Rightarrow> row list result"
  rt_equal_range :: "row list \<Rightarrow> row list"

text \<open>
  What the standard guarantees: on a comparator that never throws on the given rows and is a strict
  weak order there, the result of sorting is an ordered permutation; the rows with an equal key come
  back in some order.
\<close>

definition strict_weak_order :: "('a \<Rightarrow> 'a \<Rightarrow> bool result) \<Rightarrow> 'a set \<Rightarrow> bool" where
  "strict_weak_order cmp A \<longleftrightarrow>
     (\<forall>a \<in> A. \<forall>b \<in> A. \<exists>x. cmp a b = Inr x) \<and>
     (\<forall>a \<in> A. cmp a a = Inr False) \<and>
     (\<forall>a \<in> A. \<forall>b \<in> A. \<forall>c \<in> A. cmp a b = Inr True \<longrightarrow> cmp b c = Inr True \<longrightarrow> cmp a c = Inr True) \<and>
     (\<forall>a \<in> A. \<forall>b \<in> A. \<forall>c \<in> A. cmp a b = Inr False \<longrightarrow> cmp b a = Inr False \<longrightarrow>
        cmp b c = Inr False \<longrightarrow> cmp c b = Inr False \<longrightarrow> cmp a c = Inr False \<and> cmp c a = Inr False)"

definition runtime_ok :: "runtime \<Rightarrow> bool" where
  "runtime_ok rt \<longleftrightarrow>
     (\<forall>cmp rows. strict_weak_order cmp (set rows) \<longrightarrow>
        (\<exists>out. rt_sort rt cmp rows = Inr out \<and> mset out = mset rows \<and>
           sorted_wrt (\<lambda>a b. cmp b a = Inr False) out)) \<and>
     (\<forall>rows. mset (rt_equal_range rt rows) = mset rows)"

section \<open>Executors\<close>

text \<open>
  One constructor per executor class, holding its constructor arguments, its schema where the class
  stores one, and the members that \<^verbatim>\<open>open\<close> and \<^verbatim>\<open>next\<close> change.
\<close>

datatype executor =
    SeqScanExec table row_schema nat
  | IndexScanExec table row_schema string expression nat literal nat
  | FilterExec expression executor
  | NestedLoopJoinExec expression executor executor row_schema "row list" "row option" nat bool
  | HashJoinExec executor executor row_schema expression expression "(string \<times> row) list" "row option"
      "row list option"
  | HashAggregateExec "expression list" "aggregate_expr list" executor row_schema "row list" nat
  | ProjectExec "(expression \<times> string option) list" executor row_schema
  | SortExec "order_by_item list" executor "row list" nat
  | LimitExec nat executor nat
  | ExternalRowsExec row_schema "row list" nat

fun exec_schema :: "executor \<Rightarrow> row_schema" where
  "exec_schema (SeqScanExec t sch pos) = sch"
| "exec_schema (IndexScanExec t sch c v pos p i) = sch"
| "exec_schema (FilterExec e x) = exec_schema x"
| "exec_schema (NestedLoopJoinExec c l r sch rs cur pos ex) = sch"
| "exec_schema (HashJoinExec l r sch lk rk b cur pr) = sch"
| "exec_schema (HashAggregateExec g a x sch rs pos) = sch"
| "exec_schema (ProjectExec es x sch) = sch"
| "exec_schema (SortExec ob x rs pos) = exec_schema x"
| "exec_schema (LimitExec n x k) = exec_schema x"
| "exec_schema (ExternalRowsExec sch rs pos) = sch"

section \<open>Constructors\<close>

fun expr_display_name :: "expression \<Rightarrow> nat \<Rightarrow> string \<Rightarrow> string" where
  "expr_display_name (Column t c) i pre = c"
| "expr_display_name e i pre = pre @ show_nat i"

fun expr_display_table :: "expression \<Rightarrow> string option" where
  "expr_display_table (Column t c) = t"
| "expr_display_table e = None"

definition scan_schema :: "string \<Rightarrow> string option \<Rightarrow> table \<Rightarrow> row_schema" where
  "scan_schema name alias t =
     (let q = (case alias of Some a \<Rightarrow> a | None \<Rightarrow> name)
      in fold (schema_add (Some q)) (table_columns t) empty_schema)"

definition make_seq_scan :: "string \<Rightarrow> string option \<Rightarrow> table \<Rightarrow> executor" where
  "make_seq_scan name alias t = SeqScanExec t (scan_schema name alias t) 0"

definition make_index_scan :: "string \<Rightarrow> string option \<Rightarrow> table \<Rightarrow> string \<Rightarrow> expression \<Rightarrow> executor" where
  "make_index_scan name alias t col probe =
     IndexScanExec t (scan_schema name alias t) col probe 0 Null 0"

definition make_nested_loop :: "expression \<Rightarrow> executor \<Rightarrow> executor \<Rightarrow> executor" where
  "make_nested_loop c l r =
     NestedLoopJoinExec c l r (schema_extend (exec_schema l) (exec_schema r)) [] None 0 False"

fun is_key_of :: "row_schema \<Rightarrow> expression \<Rightarrow> bool" where
  "is_key_of sch (Column t c) = (resolve sch t c \<noteq> None)"
| "is_key_of sch e = False"

fun hash_keys :: "expression \<Rightarrow> row_schema \<Rightarrow> row_schema \<Rightarrow> (expression \<times> expression) result" where
  "hash_keys (BinaryOp a Eq b) ls rs =
     (if is_key_of ls a \<and> is_key_of rs b then Inr (a, b)
      else if is_key_of rs a \<and> is_key_of ls b then Inr (b, a)
      else Inl (RuntimeError
        ''execution: HashJoin condition must be a simple column-to-column equality across both sides''))"
| "hash_keys e ls rs = Inl (RuntimeError ''execution: HashJoin requires an equality condition'')"

definition make_hash_join :: "expression \<Rightarrow> executor \<Rightarrow> executor \<Rightarrow> executor result" where
  "make_hash_join c l r =
     rbind (hash_keys c (exec_schema l) (exec_schema r)) (\<lambda>(lk, rk).
       Inr (HashJoinExec l r (schema_extend (exec_schema l) (exec_schema r)) lk rk [] None None))"

definition add_aggregate :: "nat \<times> aggregate_expr \<Rightarrow> row_schema \<Rightarrow> row_schema" where
  "add_aggregate ia sch =
     (let (i, a) = ia; idx = length (entries sch);
          name = (case agg_alias a of Some n \<Rightarrow> n | None \<Rightarrow> agg_func a @ ''_'' @ show_nat i)
      in register_aggregate (agg_func a) (agg_arg a) idx (schema_add None name sch))"

definition aggregate_schema :: "expression list \<Rightarrow> aggregate_expr list \<Rightarrow> row_schema" where
  "aggregate_schema g as =
     fold add_aggregate (enumerate 0 as)
       (fold (\<lambda>(i, e). schema_add (expr_display_table e) (expr_display_name e i ''g''))
          (enumerate 0 g) empty_schema)"

definition project_schema :: "(expression \<times> string option) list \<Rightarrow> row_schema" where
  "project_schema es =
     fold (\<lambda>(i, e, a). schema_add None (case a of Some n \<Rightarrow> n | None \<Rightarrow> expr_display_name e i ''expr''))
       (enumerate 0 es) empty_schema"

text \<open>The identity of an external column: the part before the last dot is the qualifier.\<close>

definition split_qualified :: "string \<Rightarrow> string option \<times> string" where
  "split_qualified col =
     (if CHR ''.'' \<in> set col
      then (Some (rev (tl (dropWhile (\<lambda>c. c \<noteq> CHR ''.'') (rev col)))),
            rev (takeWhile (\<lambda>c. c \<noteq> CHR ''.'') (rev col)))
      else (None, col))"

definition external_schema :: "string list \<Rightarrow> nat \<Rightarrow> aggregate_expr list \<Rightarrow> row_schema" where
  "external_schema cols groups as =
     fold (\<lambda>(i, a). register_aggregate (agg_func a) (agg_arg a) (groups + i)) (enumerate 0 as)
       (fold (\<lambda>c. schema_add (fst (split_qualified c)) (snd (split_qualified c))) cols empty_schema)"

definition no_table :: "string \<Rightarrow> error" where
  "no_table name = RuntimeError (''execution: no data loaded for table '' @ [CHR 0x27] @ name @ [CHR 0x27])"

fun build_executor :: "physical_plan \<Rightarrow> database \<Rightarrow> (nat \<rightharpoonup> row list) \<Rightarrow> executor result" where
  "build_executor (SeqScan i t a cs) db ext =
     (case db_get db t of None \<Rightarrow> Inl (no_table t) | Some tab \<Rightarrow> Inr (make_seq_scan t a tab))"
| "build_executor (IndexScan i t a cs c v) db ext =
     (case db_get db t of None \<Rightarrow> Inl (no_table t) | Some tab \<Rightarrow> Inr (make_index_scan t a tab c v))"
| "build_executor (ExternalRows i t cs slot g as) db ext =
     (case ext slot of
        None \<Rightarrow> Inl (RuntimeError (''execution: no external rows supplied for slot '' @ show_nat slot))
      | Some rows \<Rightarrow> Inr (ExternalRowsExec (external_schema cs (length g) as) rows 0))"
| "build_executor (PFilter i e p) db ext =
     rbind (build_executor p db ext) (\<lambda>x. Inr (FilterExec e x))"
| "build_executor (PJoin k i jt c l r) db ext =
     rbind (build_executor l db ext) (\<lambda>x. rbind (build_executor r db ext) (\<lambda>y.
       if k = HashJoin then make_hash_join c x y else Inr (make_nested_loop c x y)))"
| "build_executor (HashAggregate i g as p) db ext =
     rbind (build_executor p db ext) (\<lambda>x. Inr (HashAggregateExec g as x (aggregate_schema g as) [] 0))"
| "build_executor (PProject i es p) db ext =
     rbind (build_executor p db ext) (\<lambda>x. Inr (ProjectExec es x (project_schema es)))"
| "build_executor (PSort i ob p) db ext = rbind (build_executor p db ext) (\<lambda>x. Inr (SortExec ob x [] 0))"
| "build_executor (PLimit i n p) db ext = rbind (build_executor p db ext) (\<lambda>x. Inr (LimitExec n x 0))"

section \<open>Aggregation\<close>

text \<open>The accumulators of one aggregate in one group.\<close>

record agg_acc =
  acc_sum :: double
  acc_count :: nat
  acc_min :: "literal option"
  acc_max :: "literal option"

definition acc_init :: agg_acc where
  "acc_init = \<lparr>acc_sum = dzero, acc_count = 0, acc_min = None, acc_max = None\<rparr>"

definition acc_step :: "aggregate_expr \<Rightarrow> literal \<Rightarrow> agg_acc \<Rightarrow> agg_acc result" where
  "acc_step a v st =
     (if agg_func a = ''SUM'' \<or> agg_func a = ''AVG'' then
        rbind (literal_as_double v) (\<lambda>d.
          Inr (st\<lparr>acc_sum := dadd (acc_sum st) d, acc_count := Suc (acc_count st)\<rparr>))
      else if agg_func a = ''MIN'' then
        (case acc_min st of
           None \<Rightarrow> Inr (st\<lparr>acc_min := Some v\<rparr>)
         | Some m \<Rightarrow> rbind (literal_less v m) (\<lambda>b. Inr (if b then st\<lparr>acc_min := Some v\<rparr> else st)))
      else if agg_func a = ''MAX'' then
        (case acc_max st of
           None \<Rightarrow> Inr (st\<lparr>acc_max := Some v\<rparr>)
         | Some m \<Rightarrow> rbind (literal_less m v) (\<lambda>b. Inr (if b then st\<lparr>acc_max := Some v\<rparr> else st)))
      else Inl (RuntimeError (''execution: unknown aggregate function '' @ [CHR 0x27] @ agg_func a @ [CHR 0x27])))"

definition acc_row :: "row_schema \<Rightarrow> row \<Rightarrow> aggregate_expr \<times> agg_acc \<Rightarrow> agg_acc result" where
  "acc_row sch row as =
     (let (a, st) = as
      in if agg_func a = ''COUNT'' then
           (if agg_arg a = Wildcard then Inr (st\<lparr>acc_count := Suc (acc_count st)\<rparr>)
            else rbind (evaluate (agg_arg a) row sch) (\<lambda>v.
                   Inr (if literal_is_null v then st else st\<lparr>acc_count := Suc (acc_count st)\<rparr>)))
         else rbind (evaluate (agg_arg a) row sch) (\<lambda>v.
                if literal_is_null v then Inr st else acc_step a v st))"

text \<open>The groups in first-seen order, each with its key string, key values and accumulators.\<close>

type_synonym groups = "(string \<times> row \<times> agg_acc list) list"

definition group_key_string :: "row \<Rightarrow> string" where
  "group_key_string key = concat (map (\<lambda>v. literal_to_string v @ [CHR 0x1F]) key)"

definition group_row ::
  "expression list \<Rightarrow> aggregate_expr list \<Rightarrow> row_schema \<Rightarrow> groups \<Rightarrow> row \<Rightarrow> groups result"
where
  "group_row g as sch gs row =
     rbind (rmap (\<lambda>e. evaluate e row sch) g) (\<lambda>key.
       let ks = group_key_string key;
           (key, accs) = (case map_of gs ks of Some st \<Rightarrow> st | None \<Rightarrow> (key, map (\<lambda>_. acc_init) as))
       in rbind (rmap (acc_row sch row) (zip as accs)) (\<lambda>accs. Inr (AList.update ks (key, accs) gs)))"

definition agg_output :: "aggregate_expr \<times> agg_acc \<Rightarrow> row" where
  "agg_output as =
     (let (a, st) = as; f = agg_func a
      in if f = ''COUNT'' then [Integer (int (acc_count st))]
         else if f = ''SUM'' then [Float (acc_sum st)]
         else if f = ''AVG'' then
           [Float (if 0 < acc_count st then ddiv (acc_sum st) (double_of_nat (acc_count st)) else dzero)]
         else if f = ''MIN'' then [case acc_min st of Some v \<Rightarrow> v | None \<Rightarrow> Null]
         else if f = ''MAX'' then [case acc_max st of Some v \<Rightarrow> v | None \<Rightarrow> Null]
         else [])"

definition empty_output :: "aggregate_expr \<Rightarrow> literal" where
  "empty_output a =
     (if agg_func a = ''COUNT'' then Integer 0 else if agg_func a = ''SUM'' then Float dzero else Null)"

definition aggregate_results :: "expression list \<Rightarrow> aggregate_expr list \<Rightarrow> groups \<Rightarrow> row list" where
  "aggregate_results g as gs =
     (let results = map (\<lambda>(ks, key, accs). key @ concat (map agg_output (zip as accs))) gs
      in if g = [] \<and> results = [] then [map empty_output as] else results)"

section \<open>Sorting\<close>

fun sort_less :: "order_by_item list \<Rightarrow> row_schema \<Rightarrow> row \<Rightarrow> row \<Rightarrow> bool result" where
  "sort_less [] sch a b = Inr False"
| "sort_less (it # its) sch a b =
     rbind (evaluate (order_expression it) a sch) (\<lambda>va.
     rbind (evaluate (order_expression it) b sch) (\<lambda>vb.
       if literal_equal va vb then sort_less its sch a b
       else rbind (literal_less va vb) (\<lambda>less. Inr (if order_ascending it then less else \<not> less))))"

section \<open>Pulling rows\<close>

text \<open>\<open>wrap f m\<close> puts the new state of an operator's loop back into the executor.\<close>

definition wrap :: "('t \<Rightarrow> executor) \<Rightarrow> (row option \<times> 't) comp \<Rightarrow> (row option \<times> executor) comp" where
  "wrap f m = cbind m (\<lambda>(r, t). ret (r, f t))"

fun vector_next :: "row list \<Rightarrow> nat \<Rightarrow> row option \<times> nat" where
  "vector_next rows pos = (if length rows \<le> pos then (None, pos) else (Some (rows ! pos), Suc pos))"

definition project_row :: "(expression \<times> string option) list \<Rightarrow> row_schema \<Rightarrow> row \<Rightarrow> row result" where
  "project_row es sch r = rmap (\<lambda>(e, a). evaluate e r sch) es"

definition project_next ::
  "'s iterator \<Rightarrow> (expression \<times> string option) list \<Rightarrow> row_schema \<Rightarrow> 's \<Rightarrow> (row option \<times> 's) comp"
where
  "project_next nx es sch s =
     cbind (nx s) (\<lambda>(r, s).
       case r of
         None \<Rightarrow> ret (None, s)
       | Some row \<Rightarrow> cbind (Some (project_row es sch row)) (\<lambda>out. ret (Some out, s)))"

definition limit_next :: "'s iterator \<Rightarrow> nat \<Rightarrow> 's \<times> nat \<Rightarrow> (row option \<times> 's \<times> nat) comp" where
  "limit_next nx n st =
     (case st of (s, emitted) \<Rightarrow>
        if n \<le> emitted then ret (None, st)
        else cbind (nx s) (\<lambda>(r, s).
          case r of None \<Rightarrow> ret (None, (s, emitted)) | Some row \<Rightarrow> ret (Some row, (s, Suc emitted))))"

definition hash_lookup :: "runtime \<Rightarrow> (string \<times> row) list \<Rightarrow> string \<Rightarrow> row list" where
  "hash_lookup rt build k = rt_equal_range rt (map snd (filter (\<lambda>e. fst e = k) build))"

text \<open>
  \<^verbatim>\<open>Executor::next\<close>, by the height of the tree: an operator calls the \<open>next\<close> of its inputs, which are
  trees of smaller height in every state.
\<close>

primrec next_at :: "nat \<Rightarrow> runtime \<Rightarrow> executor iterator" where
  "next_at 0 rt x = raise OutOfFuel"
| "next_at (Suc d) rt x =
     (case x of
        SeqScanExec t sch pos \<Rightarrow> (case vector_next (table_rows t) pos of (r, pos') \<Rightarrow> ret (r, SeqScanExec t sch pos'))
      | IndexScanExec t sch c e pos probe col \<Rightarrow>
          cbind (Some (index_find col probe (drop pos (table_rows t)) pos)) (\<lambda>(r, pos').
            ret (r, IndexScanExec t sch c e pos' probe col))
      | FilterExec e y \<Rightarrow> wrap (FilterExec e) (filter_next (next_at d rt) e (exec_schema y) y)
      | NestedLoopJoinExec c l r sch rights cur pos ex \<Rightarrow>
          wrap (\<lambda>(l, cur, pos, ex). NestedLoopJoinExec c l r sch rights cur pos ex)
            (nl_next (next_at d rt) c sch rights (l, cur, pos, ex))
      | HashJoinExec l r sch lk rk build cur probe \<Rightarrow>
          wrap (\<lambda>(l, cur, probe). HashJoinExec l r sch lk rk build cur probe)
            (hj_next (next_at d rt) lk (exec_schema l) (hash_lookup rt build) (l, cur, probe))
      | HashAggregateExec g as y sch results pos \<Rightarrow>
          (case vector_next results pos of (r, pos') \<Rightarrow> ret (r, HashAggregateExec g as y sch results pos'))
      | ProjectExec es y sch \<Rightarrow>
          wrap (\<lambda>y. ProjectExec es y sch) (project_next (next_at d rt) es (exec_schema y) y)
      | SortExec ob y rows pos \<Rightarrow>
          (case vector_next rows pos of (r, pos') \<Rightarrow> ret (r, SortExec ob y rows pos'))
      | LimitExec n y k \<Rightarrow> wrap (\<lambda>(y, k). LimitExec n y k) (limit_next (next_at d rt) n (y, k))
      | ExternalRowsExec sch rows pos \<Rightarrow>
          (case vector_next rows pos of (r, pos') \<Rightarrow> ret (r, ExternalRowsExec sch rows pos')))"

fun height :: "executor \<Rightarrow> nat" where
  "height (FilterExec e x) = Suc (height x)"
| "height (NestedLoopJoinExec c l r sch rs cur pos ex) = Suc (max (height l) (height r))"
| "height (HashJoinExec l r sch lk rk b cur pr) = Suc (max (height l) (height r))"
| "height (HashAggregateExec g a x sch rs pos) = Suc (height x)"
| "height (ProjectExec es x sch) = Suc (height x)"
| "height (SortExec ob x rs pos) = Suc (height x)"
| "height (LimitExec n x k) = Suc (height x)"
| "height _ = 1"

definition exec_next :: "runtime \<Rightarrow> executor iterator" where
  "exec_next rt x = next_at (height x) rt x"

section \<open>Opening\<close>

definition drain_rows :: "runtime \<Rightarrow> executor \<Rightarrow> (row list \<times> executor) comp" where
  "drain_rows rt x = drain (next_at (height x) rt) (\<lambda>acc r. Inr (acc @ [r])) [] x"

definition build_row :: "expression \<Rightarrow> row_schema \<Rightarrow> (string \<times> row) list \<Rightarrow> row \<Rightarrow> (string \<times> row) list result" where
  "build_row key sch acc r =
     rbind (evaluate key r sch) (\<lambda>v. Inr (acc @ [(literal_to_string v, r)]))"

fun exec_open :: "runtime \<Rightarrow> executor \<Rightarrow> executor comp" where
  "exec_open rt (SeqScanExec t sch pos) = ret (SeqScanExec t sch 0)"
| "exec_open rt (IndexScanExec t sch c e pos p i) =
     cbind (Some (evaluate e [] empty_schema)) (\<lambda>probe.
       case resolve sch None c of
         None \<Rightarrow> raise (RuntimeError (''execution: index column '' @ [CHR 0x27] @ c @ [CHR 0x27] @ '' not found''))
       | Some col \<Rightarrow> ret (IndexScanExec t sch c e 0 probe col))"
| "exec_open rt (FilterExec e x) = cbind (exec_open rt x) (\<lambda>x. ret (FilterExec e x))"
| "exec_open rt (NestedLoopJoinExec c l r sch rs cur pos ex) =
     cbind (exec_open rt l) (\<lambda>l. cbind (exec_open rt r) (\<lambda>r. cbind (drain_rows rt r) (\<lambda>(rights, r).
       ret (NestedLoopJoinExec c l r sch rights None 0 False))))"
| "exec_open rt (HashJoinExec l r sch lk rk b cur pr) =
     cbind (exec_open rt l) (\<lambda>l. cbind (exec_open rt r) (\<lambda>r.
     cbind (drain (next_at (height r) rt) (build_row rk (exec_schema r)) [] r) (\<lambda>(build, r).
       ret (HashJoinExec l r sch lk rk build None None))))"
| "exec_open rt (HashAggregateExec g as x sch rs pos) =
     cbind (exec_open rt x) (\<lambda>x.
     cbind (drain (next_at (height x) rt) (group_row g as (exec_schema x)) [] x) (\<lambda>(gs, x).
       ret (HashAggregateExec g as x sch (aggregate_results g as gs) 0)))"
| "exec_open rt (ProjectExec es x sch) = cbind (exec_open rt x) (\<lambda>x. ret (ProjectExec es x sch))"
| "exec_open rt (SortExec ob x rs pos) =
     cbind (exec_open rt x) (\<lambda>x. cbind (drain_rows rt x) (\<lambda>(rows, x).
     cbind (Some (rt_sort rt (sort_less ob (exec_schema x)) rows)) (\<lambda>rows. ret (SortExec ob x rows 0))))"
| "exec_open rt (LimitExec n x k) = cbind (exec_open rt x) (\<lambda>x. ret (LimitExec n x 0))"
| "exec_open rt (ExternalRowsExec sch rows pos) = ret (ExternalRowsExec sch rows 0)"

text \<open>\<^verbatim>\<open>run_to_completion\<close>: open the root and pull until the end.  Closing releases nothing in the model.\<close>

definition run_to_completion :: "runtime \<Rightarrow> executor \<Rightarrow> row list comp" where
  "run_to_completion rt x =
     cbind (exec_open rt x) (\<lambda>x. cbind (drain_rows rt x) (\<lambda>(rows, x). ret rows))"

section \<open>The rows of an executor, without iteration\<close>

text \<open>
  \<open>exec_rows\<close> says what an executor computes: the exception \<^verbatim>\<open>open\<close> throws, or the stream that repeated
  \<^verbatim>\<open>next\<close> calls deliver afterwards.  It mentions neither positions nor states.
\<close>

definition index_row :: "nat \<Rightarrow> literal \<Rightarrow> row \<Rightarrow> stream" where
  "index_row col probe r = stream_of (row_at r col) (\<lambda>v. if literal_equal v probe then [r] else [])"

definition stream_take :: "nat \<Rightarrow> stream \<Rightarrow> stream" where
  "stream_take n st = (if n \<le> length (fst st) then (take n (fst st), None) else st)"

abbreviation snoc :: "row list \<Rightarrow> row \<Rightarrow> row list result" where
  "snoc acc r \<equiv> Inr (acc @ [r])"

fun exec_rows :: "runtime \<Rightarrow> executor \<Rightarrow> stream result" where
  "exec_rows rt (SeqScanExec t sch pos) = Inr (table_rows t, None)"
| "exec_rows rt (IndexScanExec t sch c e pos p i) =
     rbind (evaluate e [] empty_schema) (\<lambda>probe.
       case resolve sch None c of
         None \<Rightarrow> Inl (RuntimeError (''execution: index column '' @ [CHR 0x27] @ c @ [CHR 0x27] @ '' not found''))
       | Some col \<Rightarrow> Inr (stream_bind (index_row col probe) (table_rows t) None))"
| "exec_rows rt (FilterExec e x) =
     rbind (exec_rows rt x) (\<lambda>(rs, err). Inr (stream_bind (filter_row e (exec_schema x)) rs err))"
| "exec_rows rt (NestedLoopJoinExec c l r sch rs cur pos ex) =
     rbind (exec_rows rt l) (\<lambda>(ls, err). rbind (exec_rows rt r) (\<lambda>st. rbind (drained snoc [] st) (\<lambda>rights.
       Inr (stream_bind (\<lambda>l. nl_row c sch l rights) ls err))))"
| "exec_rows rt (HashJoinExec l r sch lk rk b cur pr) =
     rbind (exec_rows rt l) (\<lambda>(ls, err). rbind (exec_rows rt r) (\<lambda>st.
     rbind (drained (build_row rk (exec_schema r)) [] st) (\<lambda>build.
       Inr (stream_bind (hj_row lk (exec_schema l) (hash_lookup rt build)) ls err))))"
| "exec_rows rt (HashAggregateExec g as x sch rs pos) =
     rbind (exec_rows rt x) (\<lambda>st. rbind (drained (group_row g as (exec_schema x)) [] st) (\<lambda>gs.
       Inr (aggregate_results g as gs, None)))"
| "exec_rows rt (ProjectExec es x sch) =
     rbind (exec_rows rt x) (\<lambda>(rs, err).
       Inr (stream_bind (\<lambda>r. stream_of (project_row es (exec_schema x) r) (\<lambda>out. [out])) rs err))"
| "exec_rows rt (SortExec ob x rs pos) =
     rbind (exec_rows rt x) (\<lambda>st. rbind (drained snoc [] st) (\<lambda>rows.
       rbind (rt_sort rt (sort_less ob (exec_schema x)) rows) (\<lambda>rows. Inr (rows, None))))"
| "exec_rows rt (LimitExec n x k) = rbind (exec_rows rt x) (\<lambda>st. Inr (stream_take n st))"
| "exec_rows rt (ExternalRowsExec sch rows pos) = Inr (rows, None)"

section \<open>Iteration computes these rows\<close>

text \<open>The states of a tree of fixed height and schema.\<close>

definition shape :: "nat \<Rightarrow> row_schema \<Rightarrow> executor \<Rightarrow> bool" where
  "shape h sch x \<longleftrightarrow> height x = h \<and> exec_schema x = sch"

lemma wrap_delivers:
  assumes "delivers I m s rows err" "I s"
    and step: "\<And>s. I s \<Longrightarrow> nx (f s) = wrap f (m s)" and J: "\<And>s. I s \<Longrightarrow> J (f s)"
  shows "delivers J nx (f s) rows err"
  using assms(1,2)
proof (induction rows arbitrary: s)
  case Nil
  then show ?case using step [of s] J by (cases err) (auto simp: wrap_def)
next
  case (Cons r rs)
  then show ?case using step [of s] J by (auto simp: wrap_def)
qed

lemma vector_delivers:
  assumes step: "\<And>pos. nx (f pos) = (case vector_next rows pos of (r, pos') \<Rightarrow> ret (r, f pos'))"
    and J: "\<And>pos. J (f pos)"
  shows "delivers J nx (f pos) (drop pos rows) None"
proof (induction "length rows - pos" arbitrary: pos)
  case 0
  then show ?case using step [of pos] J by simp
next
  case (Suc n)
  then have "drop pos rows = rows ! pos # drop (Suc pos) rows" by (intro Cons_nth_drop_Suc [symmetric]) simp
  moreover have "delivers J nx (f (Suc pos)) (drop (Suc pos) rows) None" using Suc by simp
  ultimately show ?case using step [of pos] J Suc.hyps(2) by auto
qed

interpretation scan_source: row_source "\<lambda>x. \<exists>pos. x = SeqScanExec t sch pos" "next_at (Suc d) rt"
    "SeqScanExec t sch 0" "table_rows t" None for t sch d rt
  using vector_delivers [of "next_at (Suc d) rt" "SeqScanExec t sch" "table_rows t"
      "\<lambda>x. \<exists>pos. x = SeqScanExec t sch pos" 0]
  by unfold_locales (auto simp del: vector_next.simps)

interpretation external_source: row_source "\<lambda>x. \<exists>pos. x = ExternalRowsExec sch rows pos" "next_at (Suc d) rt"
    "ExternalRowsExec sch rows 0" rows None for sch rows d rt
  using vector_delivers [of "next_at (Suc d) rt" "ExternalRowsExec sch rows" rows
      "\<lambda>x. \<exists>pos. x = ExternalRowsExec sch rows pos" 0]
  by unfold_locales (auto simp del: vector_next.simps)

lemma index_find_delivers:
  assumes step: "\<And>pos. nx (f pos) = cbind (Some (index_find col probe (drop pos rows) pos)) (\<lambda>(r, pos'). ret (r, f pos'))"
    and J: "\<And>pos. J (f pos)"
  shows "delivers J nx (f pos) (fst (stream_bind (index_row col probe) (drop pos rows) None))
    (snd (stream_bind (index_row col probe) (drop pos rows) None))"
proof (induction "length rows - pos" arbitrary: pos)
  case 0
  then show ?case using step [of pos] J by simp
next
  case (Suc n)
  then have drop: "drop pos rows = rows ! pos # drop (Suc pos) rows"
    by (intro Cons_nth_drop_Suc [symmetric]) simp
  have IH: "delivers J nx (f (Suc pos)) (fst (stream_bind (index_row col probe) (drop (Suc pos) rows) None))
      (snd (stream_bind (index_row col probe) (drop (Suc pos) rows) None))" using Suc by simp
  show ?case
  proof (cases "row_at (rows ! pos) col")
    case (Inl e)
    then show ?thesis using step [of pos] by (simp add: drop index_row_def)
  next
    case (Inr v)
    show ?thesis
    proof (cases "literal_equal v probe")
      case True
      then show ?thesis using step [of pos] J IH Inr by (simp add: drop index_row_def)
    next
      case False
      then have "nx (f pos) = nx (f (Suc pos))"
        using step [of pos] step [of "Suc pos"] Inr by (simp add: drop)
      from delivers_cong [OF this] IH Inr False show ?thesis by (simp add: drop index_row_def)
    qed
  qed
qed

lemma project_delivers:
  "delivers I nx s rows err \<Longrightarrow> delivers I (project_next nx es sch) s
     (fst (stream_bind (\<lambda>r. stream_of (project_row es sch r) (\<lambda>out. [out])) rows err))
     (snd (stream_bind (\<lambda>r. stream_of (project_row es sch r) (\<lambda>out. [out])) rows err))"
proof (induction rows arbitrary: s)
  case Nil
  then show ?case by (cases err) (auto simp: project_next_def)
next
  case (Cons r rs)
  then obtain s' where "nx s = ret (Some r, s')" "I s'" "delivers I nx s' rs err" by auto
  with Cons.IH [of s'] show ?case by (cases "project_row es sch r") (auto simp: project_next_def)
qed

lemma limit_delivers:
  "delivers I nx s rows err \<Longrightarrow> I s \<Longrightarrow> delivers (\<lambda>(s, k). I s) (limit_next nx (k + n)) (s, k)
     (fst (stream_take n (rows, err))) (snd (stream_take n (rows, err)))"
proof (induction rows arbitrary: s k n)
  case Nil
  then show ?case by (cases n; cases err) (auto simp: limit_next_def stream_take_def)
next
  case (Cons r rs)
  then obtain s' where s': "nx s = ret (Some r, s')" "I s'" "delivers I nx s' rs err" by auto
  show ?case
  proof (cases n)
    case 0
    then show ?thesis using Cons.prems by (simp add: limit_next_def stream_take_def)
  next
    case (Suc m)
    with Cons.IH [OF s'(3,2), of "Suc k" m] s' show ?thesis
      by (auto simp: limit_next_def stream_take_def)
  qed
qed

text \<open>The correctness statement of one executor: opening it gives an iterator for its rows.\<close>

definition executes :: "runtime \<Rightarrow> executor \<Rightarrow> bool" where
  "executes rt x \<longleftrightarrow>
     (case exec_rows rt x of
        Inl e \<Rightarrow> exec_open rt x = raise e
      | Inr (rows, err) \<Rightarrow>
          \<exists>x'. exec_open rt x = ret x' \<and> shape (height x) (exec_schema x) x' \<and>
            (\<forall>d \<ge> height x. delivers (shape (height x) (exec_schema x)) (next_at d rt) x' rows err))"

lemma executesE:
  assumes "executes rt x"
  obtains (fails) e where "exec_rows rt x = Inl e" "exec_open rt x = raise e"
  | (opens) rows err x' where "exec_rows rt x = Inr (rows, err)" "exec_open rt x = ret x'"
      "height x' = height x" "exec_schema x' = exec_schema x"
      "\<And>d. height x \<le> d \<Longrightarrow> delivers (shape (height x) (exec_schema x)) (next_at d rt) x' rows err"
  using assms unfolding executes_def shape_def
  by (cases "exec_rows rt x") (auto split: prod.splits)

lemma executesI:
  assumes "exec_rows rt x = Inr (rows, err)" "exec_open rt x = ret x'"
    "height x' = height x" "exec_schema x' = exec_schema x"
    "\<And>d. height x \<le> Suc d \<Longrightarrow> delivers (shape (height x) (exec_schema x)) (next_at (Suc d) rt) x' rows err"
    "0 < height x"
  shows "executes rt x"
proof -
  have "delivers (shape (height x) (exec_schema x)) (next_at d rt) x' rows err" if "height x \<le> d" for d
    using assms(5) [of "d - 1"] assms(6) that by (cases d) auto
  then show ?thesis using assms(1-4) by (simp add: executes_def shape_def)
qed

lemma height_pos [simp]: "0 < height x"
  by (cases x) simp_all

lemma executes_drain:
  assumes "height y = h" "\<And>d. h \<le> d \<Longrightarrow> delivers (shape h sch) (next_at d rt) y rows err"
  shows "case drained f acc (rows, err) of
      Inl e \<Rightarrow> drain (next_at (height y) rt) f acc y = raise e
    | Inr a \<Rightarrow> \<exists>y'. drain (next_at (height y) rt) f acc y = ret (a, y') \<and> height y' = h \<and> exec_schema y' = sch"
  using drain_delivers [OF assms(2) [of "height y"], of f acc] assms(1)
  by (auto simp: shape_def split: sum.splits)

lemma executes_seq_scan: "executes rt (SeqScanExec t sch pos)"
proof (rule executesI [of _ _ "table_rows t" None "SeqScanExec t sch 0"])
  fix d
  show "delivers (shape (height (SeqScanExec t sch pos)) (exec_schema (SeqScanExec t sch pos)))
      (next_at (Suc d) rt) (SeqScanExec t sch 0) (table_rows t) None"
    using vector_delivers [of "next_at (Suc d) rt" "SeqScanExec t sch" "table_rows t"
        "shape (height (SeqScanExec t sch pos)) (exec_schema (SeqScanExec t sch pos))" 0]
    by (simp add: shape_def del: vector_next.simps)
qed (simp_all add: ret_def)

lemma executes_external: "executes rt (ExternalRowsExec sch rows pos)"
proof (rule executesI [of _ _ rows None "ExternalRowsExec sch rows 0"])
  fix d
  show "delivers (shape (height (ExternalRowsExec sch rows pos)) (exec_schema (ExternalRowsExec sch rows pos)))
      (next_at (Suc d) rt) (ExternalRowsExec sch rows 0) rows None"
    using vector_delivers [of "next_at (Suc d) rt" "ExternalRowsExec sch rows" rows
        "shape (height (ExternalRowsExec sch rows pos)) (exec_schema (ExternalRowsExec sch rows pos))" 0]
    by (simp add: shape_def del: vector_next.simps)
qed simp_all

lemma executes_index_scan: "executes rt (IndexScanExec t sch c e pos p i)"
proof (cases "evaluate e [] empty_schema")
  case (Inl err)
  then show ?thesis by (simp add: executes_def)
next
  case (Inr probe)
  show ?thesis
  proof (cases "resolve sch None c")
    case None
    then show ?thesis using Inr by (simp add: executes_def)
  next
    case (Some col)
    let ?x = "IndexScanExec t sch c e pos p i" and ?f = "\<lambda>pos. IndexScanExec t sch c e pos probe col"
    let ?st = "stream_bind (index_row col probe) (table_rows t) None"
    show ?thesis
    proof (rule executesI [of _ _ "fst ?st" "snd ?st" "?f 0"])
      fix d
      show "delivers (shape (height ?x) (exec_schema ?x)) (next_at (Suc d) rt) (?f 0) (fst ?st) (snd ?st)"
        using index_find_delivers [of "next_at (Suc d) rt" ?f col probe "table_rows t"
            "shape (height ?x) (exec_schema ?x)" 0]
        by (simp add: shape_def)
    qed (use Inr Some in simp_all)
  qed
qed

lemma executes_filter:
  assumes "executes rt x"
  shows "executes rt (FilterExec e x)"
  using assms
proof (cases rule: executesE)
  case fails
  then show ?thesis by (simp add: executes_def)
next
  case (opens rows err x')
  let ?st = "stream_bind (filter_row e (exec_schema x)) rows err"
  show ?thesis
  proof (rule executesI [of _ _ "fst ?st" "snd ?st" "FilterExec e x'"])
    fix d
    assume "height (FilterExec e x) \<le> Suc d"
    then have "delivers (shape (height x) (exec_schema x)) (filter_next (next_at d rt) e (exec_schema x)) x'
        (fst ?st) (snd ?st)"
      using opens by (intro row_source.filter_delivers row_source.intro) (simp_all add: shape_def)
    then show "delivers (shape (height (FilterExec e x)) (exec_schema (FilterExec e x)))
        (next_at (Suc d) rt) (FilterExec e x') (fst ?st) (snd ?st)"
      by (rule wrap_delivers [where f = "FilterExec e"]) (use opens in \<open>simp_all add: shape_def\<close>)
  qed (use opens in simp_all)
qed

lemma executes_project:
  assumes "executes rt x"
  shows "executes rt (ProjectExec es x sch)"
  using assms
proof (cases rule: executesE)
  case fails
  then show ?thesis by (simp add: executes_def)
next
  case (opens rows err x')
  let ?st = "stream_bind (\<lambda>r. stream_of (project_row es (exec_schema x) r) (\<lambda>out. [out])) rows err"
  show ?thesis
  proof (rule executesI [of _ _ "fst ?st" "snd ?st" "ProjectExec es x' sch"])
    fix d
    assume "height (ProjectExec es x sch) \<le> Suc d"
    then have "delivers (shape (height x) (exec_schema x)) (project_next (next_at d rt) es (exec_schema x)) x'
        (fst ?st) (snd ?st)"
      using opens by (intro project_delivers) simp_all
    then show "delivers (shape (height (ProjectExec es x sch)) (exec_schema (ProjectExec es x sch)))
        (next_at (Suc d) rt) (ProjectExec es x' sch) (fst ?st) (snd ?st)"
      by (rule wrap_delivers [where f = "\<lambda>y. ProjectExec es y sch"]) (use opens in \<open>simp_all add: shape_def\<close>)
  qed (use opens in simp_all)
qed

lemma executes_limit:
  assumes "executes rt x"
  shows "executes rt (LimitExec n x k)"
  using assms
proof (cases rule: executesE)
  case fails
  then show ?thesis by (simp add: executes_def)
next
  case (opens rows err x')
  let ?st = "stream_take n (rows, err)"
  show ?thesis
  proof (rule executesI [of _ _ "fst ?st" "snd ?st" "LimitExec n x' 0"])
    fix d
    assume "height (LimitExec n x k) \<le> Suc d"
    then have d: "height x \<le> d" by simp
    have "shape (height x) (exec_schema x) x'" using opens by (simp add: shape_def)
    note this = limit_delivers [OF opens(5) [OF d] this, of 0 n]
    from wrap_delivers [where f = "\<lambda>(y, k). LimitExec n y k", OF this]
    show "delivers (shape (height (LimitExec n x k)) (exec_schema (LimitExec n x k)))
        (next_at (Suc d) rt) (LimitExec n x' 0) (fst ?st) (snd ?st)"
      using opens by (auto simp: shape_def)
  qed (use opens in simp_all)
qed

lemma executes_aggregate:
  assumes "executes rt x"
  shows "executes rt (HashAggregateExec g as x sch rs pos)"
  using assms
proof (cases rule: executesE)
  case fails
  then show ?thesis by (simp add: executes_def)
next
  case (opens rows err x')
  let ?x = "HashAggregateExec g as x sch rs pos"
  note dr = executes_drain [OF opens(3,5), of "group_row g as (exec_schema x)" "[]"]
  show ?thesis
  proof (cases "drained (group_row g as (exec_schema x)) [] (rows, err)")
    case (Inl e)
    then show ?thesis using opens dr by (simp add: executes_def)
  next
    case (Inr gs)
    with dr obtain y where y: "drain (next_at (height x') rt) (group_row g as (exec_schema x)) [] x' = ret (gs, y)"
      "height y = height x" by auto
    let ?f = "HashAggregateExec g as y sch (aggregate_results g as gs)"
    show ?thesis
    proof (rule executesI [of _ _ "aggregate_results g as gs" None "?f 0"])
      fix d
      show "delivers (shape (height ?x) (exec_schema ?x)) (next_at (Suc d) rt) (?f 0) (aggregate_results g as gs) None"
        using vector_delivers [of "next_at (Suc d) rt" ?f "aggregate_results g as gs" "shape (height ?x) (exec_schema ?x)" 0] y
        by (simp add: shape_def del: vector_next.simps)
    qed (use opens Inr y in simp_all)
  qed
qed

lemma executes_sort:
  assumes "executes rt x"
  shows "executes rt (SortExec ob x rs pos)"
  using assms
proof (cases rule: executesE)
  case fails
  then show ?thesis by (simp add: executes_def)
next
  case (opens rows err x')
  let ?x = "SortExec ob x rs pos"
  note dr = executes_drain [OF opens(3,5), of snoc "[]"]
  show ?thesis
  proof (cases "drained snoc [] (rows, err)")
    case (Inl e)
    then show ?thesis using opens dr by (simp add: executes_def drain_rows_def)
  next
    case (Inr all)
    with dr obtain y where y: "drain_rows rt x' = ret (all, y)" "height y = height x" "exec_schema y = exec_schema x"
      by (auto simp: drain_rows_def)
    show ?thesis
    proof (cases "rt_sort rt (sort_less ob (exec_schema x)) all")
      case (Inl e)
      then show ?thesis using opens Inr y by (simp add: executes_def)
    next
      case sorted: (Inr out)
      show ?thesis
      proof (rule executesI [of _ _ out None "SortExec ob y out 0"])
        fix d
        show "delivers (shape (height ?x) (exec_schema ?x)) (next_at (Suc d) rt) (SortExec ob y out 0) out None"
          using vector_delivers [of "next_at (Suc d) rt" "SortExec ob y out" out "shape (height ?x) (exec_schema ?x)" 0] y
          by (simp add: shape_def del: vector_next.simps)
      qed (use opens Inr y sorted in simp_all)
    qed
  qed
qed

lemma executes_nested_loop:
  assumes "executes rt l" "executes rt r"
  shows "executes rt (NestedLoopJoinExec c l r sch rs cur pos ex)"
  using assms(1)
proof (cases rule: executesE)
  case fails
  then show ?thesis by (simp add: executes_def)
next
  case left: (opens ls lerr l')
  from assms(2) show ?thesis
  proof (cases rule: executesE)
    case fails
    then show ?thesis using left by (simp add: executes_def)
  next
    case right: (opens rows err r')
    let ?x = "NestedLoopJoinExec c l r sch rs cur pos ex"
    note dr = executes_drain [OF right(3,5), of snoc "[]"]
    show ?thesis
    proof (cases "drained snoc [] (rows, err)")
      case (Inl e)
      then show ?thesis using left right dr by (simp add: executes_def drain_rows_def)
    next
      case (Inr rights)
      with dr obtain y where y: "drain_rows rt r' = ret (rights, y)" "height y = height r"
        by (auto simp: drain_rows_def)
      let ?st = "stream_bind (\<lambda>l. nl_row c sch l rights) ls lerr"
      let ?f = "\<lambda>(l, cur, pos, ex). NestedLoopJoinExec c l y sch rights cur pos ex"
      show ?thesis
      proof (rule executesI [of _ _ "fst ?st" "snd ?st" "?f (l', None, 0, False)"])
        fix d
        assume "height ?x \<le> Suc d"
        then have d: "height l \<le> d" by simp
        have "row_source (shape (height l) (exec_schema l)) (next_at d rt) l' ls lerr"
          using left d by (simp add: row_source_def shape_def)
        from wrap_delivers [where f = ?f, OF row_source.nl_delivers [OF this, of c sch rights 0]]
        show "delivers (shape (height ?x) (exec_schema ?x)) (next_at (Suc d) rt) (?f (l', None, 0, False))
            (fst ?st) (snd ?st)"
          using left right y by (auto simp: shape_def)
      qed (use left right Inr y in simp_all)
    qed
  qed
qed

lemma executes_hash_join:
  assumes "executes rt l" "executes rt r"
  shows "executes rt (HashJoinExec l r sch lk rk b cur pr)"
  using assms(1)
proof (cases rule: executesE)
  case fails
  then show ?thesis by (simp add: executes_def)
next
  case left: (opens ls lerr l')
  from assms(2) show ?thesis
  proof (cases rule: executesE)
    case fails
    then show ?thesis using left by (simp add: executes_def)
  next
    case right: (opens rows err r')
    let ?x = "HashJoinExec l r sch lk rk b cur pr"
    let ?b = "build_row rk (exec_schema r)"
    note dr = executes_drain [OF right(3,5), of ?b "[]"]
    show ?thesis
    proof (cases "drained ?b [] (rows, err)")
      case (Inl e)
      then show ?thesis using left right dr by (simp add: executes_def)
    next
      case (Inr build)
      with dr obtain y where y: "drain (next_at (height r') rt) ?b [] r' = ret (build, y)" "height y = height r"
        by auto
      let ?st = "stream_bind (hj_row lk (exec_schema l) (hash_lookup rt build)) ls lerr"
      let ?f = "\<lambda>(l, cur, pr). HashJoinExec l y sch lk rk build cur pr"
      show ?thesis
      proof (rule executesI [of _ _ "fst ?st" "snd ?st" "?f (l', None, None)"])
        fix d
        assume "height ?x \<le> Suc d"
        then have d: "height l \<le> d" by simp
        have "row_source (shape (height l) (exec_schema l)) (next_at d rt) l' ls lerr"
          using left d by (simp add: row_source_def shape_def)
        from wrap_delivers [where f = ?f, OF row_source.hj_delivers [OF this, of lk "exec_schema l" "hash_lookup rt build"]]
        show "delivers (shape (height ?x) (exec_schema ?x)) (next_at (Suc d) rt) (?f (l', None, None))
            (fst ?st) (snd ?st)"
          using left right y by (auto simp: shape_def)
      qed (use left right Inr y in simp_all)
    qed
  qed
qed

lemma executes_all: "executes rt x"
  by (induction x) (simp_all add: executes_seq_scan executes_external executes_index_scan executes_filter
      executes_project executes_limit executes_aggregate executes_sort executes_nested_loop executes_hash_join)

text \<open>
  Every run returns: with the rows of the executor, or with the exception of its opening or of its
  stream.
\<close>

lemma run_rows: "run_to_completion rt x = Some (rbind (exec_rows rt x) (drained snoc []))"
  using executes_all [of rt x]
proof (cases rule: executesE)
  case fails
  then show ?thesis by (simp add: run_to_completion_def raise_def)
next
  case (opens rows err x')
  have "case drained snoc [] (rows, err) of Inl e \<Rightarrow> drain_rows rt x' = raise e
      | Inr a \<Rightarrow> \<exists>y'. drain_rows rt x' = ret (a, y')"
    using executes_drain [OF opens(3,5), of snoc "[]"] by (auto simp: drain_rows_def split: sum.splits)
  then show ?thesis using opens
    by (auto simp: run_to_completion_def ret_def raise_def split: sum.splits)
qed

section \<open>Properties\<close>

text \<open>
  C1.  Running any executor to completion returns: the iterators of the whole tree, pulled one row at a
  time, deliver exactly the rows that \<open>exec_rows\<close> describes, or the exception it describes, and no loop of
  an operator runs forever.
\<close>

theorem run_refines: "run_to_completion rt x = Some (rbind (exec_rows rt x) (drained snoc []))"
  by (rule run_rows)

text \<open>
  A nested-loop join that pulls its left input from a sequential scan delivers, row by row, the
  matches of the first table row, then those of the second, and so on, up to the first exception of
  its condition.
\<close>

theorem nested_loop_over_scan:
  "delivers (\<lambda>(x, _). \<exists>pos. x = SeqScanExec t sch pos) (nl_next (next_at (Suc d) rt) c jsch rights)
     (SeqScanExec t sch 0, None, pos, False)
     (fst (stream_bind (\<lambda>l. nl_row c jsch l rights) (table_rows t) None))
     (snd (stream_bind (\<lambda>l. nl_row c jsch l rights) (table_rows t) None))"
  by (rule scan_source.nl_delivers)

end
