(* ===== verification/Reference_Runtime.thy ===== *)
theory Reference_Runtime
  imports Executor
begin

text \<open>
  A runtime that meets the guarantees of the standard library that the development assumes: insertion
  sort, and rows with an equal key in the order in which they were inserted.
\<close>

fun insert_row :: "(row \<Rightarrow> row \<Rightarrow> bool result) \<Rightarrow> row \<Rightarrow> row list \<Rightarrow> row list result" where
  "insert_row cmp x [] = Inr [x]"
| "insert_row cmp x (y # ys) =
     rbind (cmp y x) (\<lambda>b. if b then rbind (insert_row cmp x ys) (\<lambda>zs. Inr (y # zs)) else Inr (x # y # ys))"

fun insertion_sort :: "(row \<Rightarrow> row \<Rightarrow> bool result) \<Rightarrow> row list \<Rightarrow> row list result" where
  "insertion_sort cmp [] = Inr []"
| "insertion_sort cmp (x # xs) = rbind (insertion_sort cmp xs) (insert_row cmp x)"

definition reference_runtime :: runtime where
  "reference_runtime = \<lparr>rt_sort = insertion_sort, rt_equal_range = id\<rparr>"

lemma strict_weak_order_not_less_trans:
  assumes swo: "strict_weak_order cmp A" and A: "a \<in> A" "b \<in> A" "c \<in> A"
    and "cmp b a = Inr False" "cmp c b = Inr False"
  shows "cmp c a = Inr False"
proof -
  have total: "cmp x y = Inr True \<or> cmp x y = Inr False" if "x \<in> A" "y \<in> A" for x y
    using swo that unfolding strict_weak_order_def by (metis (full_types))
  from swo have trans: "cmp x y = Inr True \<Longrightarrow> cmp y z = Inr True \<Longrightarrow> cmp x z = Inr True"
    and eqv: "cmp x y = Inr False \<Longrightarrow> cmp y x = Inr False \<Longrightarrow> cmp y z = Inr False \<Longrightarrow> cmp z y = Inr False \<Longrightarrow>
      cmp z x = Inr False" if "x \<in> A" "y \<in> A" "z \<in> A" for x y z
    using that unfolding strict_weak_order_def by blast+
  show ?thesis
    using total trans eqv assms(2-) by (metis Inr_inject)
qed

lemma insert_row_sorted:
  assumes swo: "strict_weak_order cmp A" and "x \<in> A" "set ys \<subseteq> A"
    "sorted_wrt (\<lambda>a b. cmp b a = Inr False) ys"
  shows "\<exists>zs. insert_row cmp x ys = Inr zs \<and> mset zs = add_mset x (mset ys) \<and>
    sorted_wrt (\<lambda>a b. cmp b a = Inr False) zs"
  using assms(2-)
proof (induction ys)
  case (Cons y ys)
  then obtain zs where zs: "insert_row cmp x ys = Inr zs" "mset zs = add_mset x (mset ys)"
    "sorted_wrt (\<lambda>a b. cmp b a = Inr False) zs" by auto
  have y: "y \<in> A" using Cons.prems by simp
  then obtain b where b: "cmp y x = Inr b" using swo Cons.prems(1) unfolding strict_weak_order_def by blast
  have set_zs: "set zs = insert x (set ys)" using zs(2) by (metis set_mset_mset set_mset_add_mset_insert)
  show ?case
  proof (cases b)
    case True
    have "cmp x y = Inr False"
      using swo Cons.prems(1) y b True unfolding strict_weak_order_def by (metis (full_types) Inr_inject)
    with Cons.prems zs b True set_zs show ?thesis by auto
  next
    case False
    then have "cmp z x = Inr False" if "z \<in> set ys" for z
      using strict_weak_order_not_less_trans [OF swo, of x y z] Cons.prems b y that by auto
    with Cons.prems b False show ?thesis by auto
  qed
qed simp

lemma insertion_sort_sorted:
  assumes "strict_weak_order cmp A" "set xs \<subseteq> A"
  shows "\<exists>ys. insertion_sort cmp xs = Inr ys \<and> mset ys = mset xs \<and> sorted_wrt (\<lambda>a b. cmp b a = Inr False) ys"
  using assms(2)
proof (induction xs)
  case (Cons x xs)
  then obtain ys where ys: "insertion_sort cmp xs = Inr ys" "mset ys = mset xs"
    "sorted_wrt (\<lambda>a b. cmp b a = Inr False) ys" by auto
  then have "set ys \<subseteq> A" using Cons.prems mset_eq_setD by fastforce
  with insert_row_sorted [OF assms(1), of x ys] ys Cons.prems show ?case by auto
qed simp

lemma reference_runtime_ok: "runtime_ok reference_runtime"
  using insertion_sort_sorted by (fastforce simp: runtime_ok_def reference_runtime_def)
end
