(* ===== verification/Logical_Optimizer.thy ===== *)
theory Logical_Optimizer
  imports Logical_Planner
begin

text \<open>
  The rule-based logical optimizer (\<^verbatim>\<open>logical/optimizer.cpp\<close>): predicate pushdown, projection pushdown
  and greedy join reordering.  Sets of names are HOL sets.  The code iterates over one hash set, the
  columns written into a scan; that order is a property of the standard library and is the parameter
  \<open>iter\<close> of \<open>push_projections\<close>.
\<close>

section \<open>Expression helpers\<close>

fun split_and :: "expression \<Rightarrow> expression list" where
  "split_and (BinaryOp l And r) = split_and l @ split_and r"
| "split_and e = [e]"

fun referenced_tables :: "expression \<Rightarrow> string set" where
  "referenced_tables (Column t c) = set_option t"
| "referenced_tables (BinaryOp l p r) = referenced_tables l \<union> referenced_tables r"
| "referenced_tables (UnaryOp u e) = referenced_tables e"
| "referenced_tables (Function f args) = \<Union> (referenced_tables ` set args)"
| "referenced_tables (Lit l) = {}"
| "referenced_tables Wildcard = {}"

fun columns_of_expr :: "expression \<Rightarrow> string set" where
  "columns_of_expr (Column t c) = {c}"
| "columns_of_expr (BinaryOp l p r) = columns_of_expr l \<union> columns_of_expr r"
| "columns_of_expr (UnaryOp u e) = columns_of_expr e"
| "columns_of_expr (Function f args) = \<Union> (columns_of_expr ` set args)"
| "columns_of_expr (Lit l) = {}"
| "columns_of_expr Wildcard = {}"

fun scan_aliases :: "logical_plan \<Rightarrow> string set" where
  "scan_aliases (Scan t a cs) = {case a of Some a \<Rightarrow> a | None \<Rightarrow> t}"
| "scan_aliases (Join jt c l r) = scan_aliases l \<union> scan_aliases r"
| "scan_aliases (Filter e p) = scan_aliases p"
| "scan_aliases (Aggregate g a p) = scan_aliases p"
| "scan_aliases (Project es p) = scan_aliases p"
| "scan_aliases (Sort ob p) = scan_aliases p"
| "scan_aliases (Limit n p) = scan_aliases p"

section \<open>Rule 1: predicate pushdown\<close>

definition wrap_filters :: "logical_plan \<Rightarrow> expression list \<Rightarrow> logical_plan" where
  "wrap_filters p fs = foldl (\<lambda>p f. Filter f p) p fs"

definition touches :: "string set \<Rightarrow> expression \<Rightarrow> bool" where
  "touches aliases e \<longleftrightarrow> (\<exists>t \<in> referenced_tables e. t \<in> aliases)"

text \<open>The side of a join that a conjunct is pushed to; anything else stays above the join.\<close>

definition goes_left :: "logical_plan \<Rightarrow> logical_plan \<Rightarrow> expression \<Rightarrow> bool" where
  "goes_left l r e \<longleftrightarrow> touches (scan_aliases l) e \<and> \<not> touches (scan_aliases r) e"

definition goes_right :: "logical_plan \<Rightarrow> logical_plan \<Rightarrow> expression \<Rightarrow> bool" where
  "goes_right l r e \<longleftrightarrow> \<not> touches (scan_aliases l) e \<and> touches (scan_aliases r) e"

definition push_filter_into :: "expression \<Rightarrow> logical_plan \<Rightarrow> logical_plan" where
  "push_filter_into pred input =
     (case input of
        Join jt c l r \<Rightarrow>
          (let conjuncts = split_and pred;
               left_filters = filter (goes_left l r) conjuncts;
               right_filters = filter (goes_right l r) conjuncts;
               remaining = filter (\<lambda>e. \<not> goes_left l r e \<and> \<not> goes_right l r e) conjuncts
           in wrap_filters (Join jt c (wrap_filters l left_filters) (wrap_filters r right_filters)) remaining)
      | _ \<Rightarrow> Filter pred input)"

fun push_predicates :: "logical_plan \<Rightarrow> logical_plan" where
  "push_predicates (Filter e p) = push_filter_into e (push_predicates p)"
| "push_predicates (Join jt c l r) = Join jt c (push_predicates l) (push_predicates r)"
| "push_predicates (Aggregate g a p) = Aggregate g a (push_predicates p)"
| "push_predicates (Project es p) = Project es (push_predicates p)"
| "push_predicates (Sort ob p) = Sort ob (push_predicates p)"
| "push_predicates (Limit n p) = Limit n (push_predicates p)"
| "push_predicates (Scan t a cs) = Scan t a cs"

section \<open>Rule 2: projection pushdown\<close>

fun push_projections :: "(string set \<Rightarrow> string list) \<Rightarrow> logical_plan \<Rightarrow> string set \<Rightarrow> logical_plan" where
  "push_projections iter (Scan t a cs) needed = Scan t a (if needed = {} then [] else iter needed)"
| "push_projections iter (Project es p) needed =
     Project es (push_projections iter p (\<Union> ((columns_of_expr \<circ> fst) ` set es) \<union> needed))"
| "push_projections iter (Filter e p) needed =
     Filter e (push_projections iter p (needed \<union> columns_of_expr e))"
| "push_projections iter (Join jt c l r) needed =
     Join jt c (push_projections iter l (needed \<union> columns_of_expr c))
       (push_projections iter r (needed \<union> columns_of_expr c))"
| "push_projections iter (Aggregate g a p) needed =
     Aggregate g a (push_projections iter p
       (needed \<union> \<Union> (columns_of_expr ` set g) \<union> \<Union> ((columns_of_expr \<circ> agg_arg) ` set a)))"
| "push_projections iter (Sort ob p) needed =
     Sort ob (push_projections iter p (needed \<union> \<Union> ((columns_of_expr \<circ> order_expression) ` set ob)))"
| "push_projections iter (Limit n p) needed = Limit n (push_projections iter p needed)"

section \<open>Rule 3: join reordering\<close>

fun all_inner :: "logical_plan \<Rightarrow> bool" where
  "all_inner (Join jt c l r) \<longleftrightarrow> jt = Inner \<and> all_inner l \<and> all_inner r"
| "all_inner _ \<longleftrightarrow> True"

text \<open>Leaves and conditions of a join tree, both in the order the code appends them.\<close>

fun extract_join_tree :: "logical_plan \<Rightarrow> logical_plan list \<times> expression list" where
  "extract_join_tree (Join jt c l r) =
     (let (ls, cs) = extract_join_tree l; (ls', cs') = extract_join_tree r
      in (ls @ ls', c # cs @ cs'))"
| "extract_join_tree p = ([p], [])"

fun rebuild_onto :: "logical_plan \<Rightarrow> logical_plan list \<Rightarrow> expression list \<Rightarrow> logical_plan" where
  "rebuild_onto tree [] conds = tree"
| "rebuild_onto tree (p # ps) [] = rebuild_onto (Join Inner (Lit (Boolean True)) tree p) ps []"
| "rebuild_onto tree (p # ps) (c # cs) = rebuild_onto (Join Inner c tree p) ps cs"

definition rebuild_join_tree :: "logical_plan list \<Rightarrow> expression list \<Rightarrow> logical_plan" where
  "rebuild_join_tree leaves conds = rebuild_onto (hd leaves) (tl leaves) conds"

definition estimate_join_rows :: "nat \<Rightarrow> nat \<Rightarrow> nat" where
  "estimate_join_rows l r = max (wrap64 (l * r) div 10) 1"

fun estimate_rows :: "catalog \<Rightarrow> logical_plan \<Rightarrow> nat" where
  "estimate_rows cat (Scan t a cs) =
     (case catalog_get cat t of Some s \<Rightarrow> row_count (schema_stats s) | None \<Rightarrow> 1000)"
| "estimate_rows cat (Filter e p) = max (estimate_rows cat p div 10) 1"
| "estimate_rows cat (Join jt c l r) = estimate_join_rows (estimate_rows cat l) (estimate_rows cat r)"
| "estimate_rows cat _ = 1000"

text \<open>The first condition that links two plans, by its index.\<close>

definition linking_condition :: "logical_plan \<Rightarrow> logical_plan \<Rightarrow> expression list \<Rightarrow> nat option" where
  "linking_condition l r conds =
     position (\<lambda>c. touches (scan_aliases l) c \<and> touches (scan_aliases r) c) conds"

text \<open>The state of the search: the best cost so far, the pair and the condition that has it.\<close>

type_synonym best = "nat \<times> nat \<times> nat \<times> nat option"

definition consider_pair ::
  "(logical_plan \<times> nat) list \<Rightarrow> expression list \<Rightarrow> nat \<times> nat \<Rightarrow> best \<Rightarrow> best"
where
  "consider_pair nodes conds ij b =
     (let (i, j) = ij; (best_cost, _) = b
      in case linking_condition (fst (nodes ! i)) (fst (nodes ! j)) conds of
           None \<Rightarrow> b
         | Some k \<Rightarrow>
             (let cost = estimate_join_rows (snd (nodes ! i)) (snd (nodes ! j))
              in if cost < best_cost then (cost, i, j, Some k) else b))"

definition pairs :: "nat \<Rightarrow> (nat \<times> nat) list" where
  "pairs n = concat (map (\<lambda>i. map (\<lambda>j. (i, j)) [Suc i ..< n]) [0 ..< n])"

definition best_pair ::
  "(logical_plan \<times> nat) list \<Rightarrow> expression list \<Rightarrow> nat \<times> nat \<times> nat option"
where
  "best_pair nodes conds =
     snd (fold (consider_pair nodes conds) (pairs (length nodes)) (size_max, 0, 1, None))"

definition remove_at :: "nat \<Rightarrow> 'a list \<Rightarrow> 'a list" where
  "remove_at i xs = take i xs @ drop (Suc i) xs"

text \<open>One round of the loop of \<^verbatim>\<open>greedy_join_order\<close>; the larger index is removed first.\<close>

definition greedy_step ::
  "catalog \<Rightarrow> (logical_plan \<times> nat) list \<Rightarrow> expression list \<Rightarrow>
   (logical_plan \<times> nat) list \<times> expression list"
where
  "greedy_step cat nodes conds =
     (let (i, j, ci) = best_pair nodes conds;
          cond = (case ci of Some k \<Rightarrow> conds ! k | None \<Rightarrow> Lit (Boolean True));
          conds' = (case ci of Some k \<Rightarrow> remove_at k conds | None \<Rightarrow> conds);
          right = fst (nodes ! j);
          nodes1 = remove_at j nodes;
          left = fst (nodes1 ! i);
          nodes2 = remove_at i nodes1;
          rows = estimate_join_rows (estimate_rows cat left) (estimate_rows cat right)
      in (nodes2 @ [(Join Inner cond left right, rows)], conds'))"

function greedy_loop :: "catalog \<Rightarrow> (logical_plan \<times> nat) list \<Rightarrow> expression list \<Rightarrow> logical_plan" where
  "greedy_loop cat nodes conds =
     (if length nodes \<le> 1 then fst (hd nodes)
      else let (nodes', conds') = greedy_step cat nodes conds in greedy_loop cat nodes' conds')"
  by pat_completeness auto

section \<open>The search stays in range, and the greedy loop terminates\<close>

lemma pairs_bounds: "(i, j) \<in> set (pairs n) \<Longrightarrow> i < j \<and> j < n"
  by (auto simp: pairs_def)

text \<open>What the fold over all pairs maintains.\<close>

definition best_ok :: "(logical_plan \<times> nat) list \<Rightarrow> expression list \<Rightarrow> best \<Rightarrow> bool" where
  "best_ok nodes conds b \<longleftrightarrow>
     (case b of (cost, i, j, None) \<Rightarrow> cost = size_max \<and> i = 0 \<and> j = 1
      | (cost, i, j, Some k) \<Rightarrow> i < j \<and> j < length nodes \<and>
          linking_condition (fst (nodes ! i)) (fst (nodes ! j)) conds = Some k \<and>
          cost = estimate_join_rows (snd (nodes ! i)) (snd (nodes ! j)))"

lemma consider_pair_ok:
  "best_ok nodes conds b \<Longrightarrow> i < j \<Longrightarrow> j < length nodes \<Longrightarrow>
     best_ok nodes conds (consider_pair nodes conds (i, j) b) \<and>
     fst (consider_pair nodes conds (i, j) b) \<le> fst b"
  by (auto simp: consider_pair_def best_ok_def Let_def split: option.splits prod.splits if_splits)

lemma fold_consider_ok:
  "(\<And>i j. (i, j) \<in> set ps \<Longrightarrow> i < j \<and> j < length nodes) \<Longrightarrow> best_ok nodes conds b \<Longrightarrow>
     best_ok nodes conds (fold (consider_pair nodes conds) ps b) \<and>
     fst (fold (consider_pair nodes conds) ps b) \<le> fst b"
proof (induction ps arbitrary: b)
  case (Cons p ps)
  obtain i j where p: "p = (i, j)" by (cases p)
  have ok: "best_ok nodes conds (consider_pair nodes conds (i, j) b)"
    "fst (consider_pair nodes conds (i, j) b) \<le> fst b"
    using consider_pair_ok [of nodes conds b i j] Cons.prems p by auto
  from Cons.IH [OF _ ok(1)] ok(2) Cons.prems(1) p show ?case by fastforce
qed simp

lemma best_pair_fold:
  obtains b where "best_pair nodes conds = snd b" "best_ok nodes conds b"
    "b = fold (consider_pair nodes conds) (pairs (length nodes)) (size_max, 0, 1, None)"
  using fold_consider_ok [of "pairs (length nodes)" nodes conds "(size_max, 0, 1, None)"] pairs_bounds
  by (auto simp: best_pair_def best_ok_def)

lemma best_pair_bounds:
  assumes "best_pair nodes conds = (i, j, ci)" "1 < length nodes"
  shows "i < j" "j < length nodes" "ci = Some k \<Longrightarrow> k < length conds"
proof -
  obtain b where "best_pair nodes conds = snd b" and ok: "best_ok nodes conds b"
    by (rule best_pair_fold)
  then obtain c where "best_ok nodes conds (c, i, j, ci)" using assms(1) by (cases b) auto
  then have "i < j \<and> j < length nodes \<and> (ci = Some k \<longrightarrow> k < length conds)"
    using assms(2) by (auto simp: best_ok_def linking_condition_def split: option.splits dest: position_Some)
  then show "i < j" "j < length nodes" "ci = Some k \<Longrightarrow> k < length conds" by auto
qed

lemma length_remove_at: "i < length xs \<Longrightarrow> length (remove_at i xs) = length xs - 1"
  by (simp add: remove_at_def)

lemma mset_remove_at: "i < length xs \<Longrightarrow> add_mset (xs ! i) (mset (remove_at i xs)) = mset xs"
  by (metis remove_at_def id_take_nth_drop mset_append mset.simps(2) union_mset_add_mset_right)

lemma greedy_step_length:
  assumes "1 < length nodes"
  shows "length (fst (greedy_step cat nodes conds)) = length nodes - 1"
proof -
  obtain i j ci where best: "best_pair nodes conds = (i, j, ci)" by (cases "best_pair nodes conds") auto
  then show ?thesis
    using best_pair_bounds(1,2) [OF best assms] assms
    by (simp add: greedy_step_def Let_def length_remove_at)
qed

termination greedy_loop
proof (relation "measure (\<lambda>(cat, nodes, conds). length nodes)", goal_cases)
  case (2 cat nodes conds x nodes' conds')
  then have "nodes' = fst (greedy_step cat nodes conds)" by (cases "greedy_step cat nodes conds") simp
  then show ?case using 2(1) greedy_step_length [of nodes cat conds] by simp
qed simp

declare greedy_loop.simps [simp del]

definition greedy_join_order :: "catalog \<Rightarrow> logical_plan list \<Rightarrow> expression list \<Rightarrow> logical_plan" where
  "greedy_join_order cat leaves conds =
     greedy_loop cat (map (\<lambda>p. (p, estimate_rows cat p)) leaves) conds"

definition reorder_tree :: "catalog \<Rightarrow> logical_plan \<Rightarrow> logical_plan" where
  "reorder_tree cat joined =
     (if \<not> all_inner joined then joined
      else let (leaves, conds) = extract_join_tree joined
           in if 3 \<le> length leaves then greedy_join_order cat leaves conds
              else rebuild_join_tree leaves conds)"

fun reorder_joins :: "catalog \<Rightarrow> logical_plan \<Rightarrow> logical_plan" where
  "reorder_joins cat (Join jt c l r) =
     reorder_tree cat (Join jt c (reorder_joins cat l) (reorder_joins cat r))"
| "reorder_joins cat (Filter e p) = Filter e (reorder_joins cat p)"
| "reorder_joins cat (Aggregate g a p) = Aggregate g a (reorder_joins cat p)"
| "reorder_joins cat (Project es p) = Project es (reorder_joins cat p)"
| "reorder_joins cat (Sort ob p) = Sort ob (reorder_joins cat p)"
| "reorder_joins cat (Limit n p) = Limit n (reorder_joins cat p)"
| "reorder_joins cat (Scan t a cs) = Scan t a cs"

definition optimize :: "(string set \<Rightarrow> string list) \<Rightarrow> catalog \<Rightarrow> logical_plan \<Rightarrow> logical_plan" where
  "optimize iter cat p = reorder_joins cat (push_projections iter (push_predicates p) {})"

section \<open>Predicate pushdown keeps the plan's relations, joins and conjuncts\<close>

text \<open>All conjuncts of all filters of a plan.\<close>

fun filter_conjuncts :: "logical_plan \<Rightarrow> expression multiset" where
  "filter_conjuncts (Scan t a cs) = {#}"
| "filter_conjuncts (Join jt c l r) = filter_conjuncts l + filter_conjuncts r"
| "filter_conjuncts (Filter e p) = mset (split_and e) + filter_conjuncts p"
| "filter_conjuncts (Aggregate g a p) = filter_conjuncts p"
| "filter_conjuncts (Project es p) = filter_conjuncts p"
| "filter_conjuncts (Sort ob p) = filter_conjuncts p"
| "filter_conjuncts (Limit n p) = filter_conjuncts p"

lemma split_and_atomic: "x \<in> set (split_and e) \<Longrightarrow> split_and x = [x]"
  by (induction e rule: split_and.induct) auto

lemma wrap_filters_simps [simp]:
  "wrap_filters p [] = p"
  "wrap_filters p (f # fs) = wrap_filters (Filter f p) fs"
  by (simp_all add: wrap_filters_def)

lemma wrap_filters_keeps [simp]:
  "scans (wrap_filters p fs) = scans p"
  "join_conditions (wrap_filters p fs) = join_conditions p"
  "scan_aliases (wrap_filters p fs) = scan_aliases p"
  by (induction fs arbitrary: p) auto

lemma filter_conjuncts_wrap:
  "(\<And>f. f \<in> set fs \<Longrightarrow> split_and f = [f]) \<Longrightarrow>
     filter_conjuncts (wrap_filters p fs) = mset fs + filter_conjuncts p"
  by (induction fs arbitrary: p) auto

lemma filter_conjuncts_wrap_split:
  "filter_conjuncts (wrap_filters p (filter P (split_and e))) =
     mset (filter P (split_and e)) + filter_conjuncts p"
  by (rule filter_conjuncts_wrap) (auto intro: split_and_atomic)

lemma mset_three_way:
  assumes "\<And>x. P x \<Longrightarrow> \<not> Q x"
  shows "mset (filter P xs) + mset (filter Q xs) + mset (filter (\<lambda>x. \<not> P x \<and> \<not> Q x) xs) = mset xs"
  using assms by (induction xs) auto

lemma goes_left_right: "goes_left l r e \<Longrightarrow> \<not> goes_right l r e"
  by (simp add: goes_left_def goes_right_def)

lemma push_filter_into_conjuncts:
  "filter_conjuncts (push_filter_into e p) = mset (split_and e) + filter_conjuncts p"
proof (cases p)
  case (Join jt c l r)
  have "filter_conjuncts (push_filter_into e p) =
      mset (filter (goes_left l r) (split_and e)) + mset (filter (goes_right l r) (split_and e)) +
      mset (filter (\<lambda>e. \<not> goes_left l r e \<and> \<not> goes_right l r e) (split_and e)) +
      (filter_conjuncts l + filter_conjuncts r)"
    using filter_conjuncts_wrap_split by (simp add: Join push_filter_into_def Let_def ac_simps)
  then show ?thesis
    using mset_three_way [of "goes_left l r" "goes_right l r" "split_and e", OF goes_left_right] Join
    by simp
qed (simp_all add: push_filter_into_def)

lemma push_filter_into_keeps [simp]:
  "scans (push_filter_into e p) = scans p"
  "join_conditions (push_filter_into e p) = join_conditions p"
  by (cases p; simp add: push_filter_into_def Let_def)+

lemma push_predicates_keeps:
  "scans (push_predicates p) = scans p"
  "join_conditions (push_predicates p) = join_conditions p"
  "filter_conjuncts (push_predicates p) = filter_conjuncts p"
  by (induction p) (simp_all add: push_filter_into_conjuncts)

text \<open>A conjunct that ends up below one side of a join mentions no relation of the other side.\<close>

lemma push_filter_into_join:
  "push_filter_into e (Join jt c l r) =
     wrap_filters (Join jt c (wrap_filters l (filter (goes_left l r) (split_and e)))
       (wrap_filters r (filter (goes_right l r) (split_and e))))
       (filter (\<lambda>e. \<not> goes_left l r e \<and> \<not> goes_right l r e) (split_and e))"
  by (simp add: push_filter_into_def Let_def)

section \<open>Projection pushdown changes nothing but the column lists of scans\<close>

fun forget_columns :: "logical_plan \<Rightarrow> logical_plan" where
  "forget_columns (Scan t a cs) = Scan t a []"
| "forget_columns (Join jt c l r) = Join jt c (forget_columns l) (forget_columns r)"
| "forget_columns (Filter e p) = Filter e (forget_columns p)"
| "forget_columns (Aggregate g a p) = Aggregate g a (forget_columns p)"
| "forget_columns (Project es p) = Project es (forget_columns p)"
| "forget_columns (Sort ob p) = Sort ob (forget_columns p)"
| "forget_columns (Limit n p) = Limit n (forget_columns p)"

lemma push_projections_forget: "forget_columns (push_projections iter p needed) = forget_columns p"
  by (induction iter p needed rule: push_projections.induct) simp_all

section \<open>Join reordering permutes the leaves\<close>

text \<open>The plans below the joins at the top of a tree, and the conditions of these joins.\<close>

abbreviation leaves :: "logical_plan \<Rightarrow> logical_plan list" where
  "leaves p \<equiv> fst (extract_join_tree p)"

abbreviation conds :: "logical_plan \<Rightarrow> expression list" where
  "conds p \<equiv> snd (extract_join_tree p)"

lemma extract_Join [simp]:
  "leaves (Join jt c l r) = leaves l @ leaves r" "conds (Join jt c l r) = c # conds l @ conds r"
  by (simp_all add: split_beta)

declare extract_join_tree.simps(1) [simp del]

lemma length_leaves_conds: "length (leaves p) = Suc (length (conds p))"
  by (induction p) auto

lemma leaves_not_Nil [simp]: "leaves p \<noteq> []"
  using length_leaves_conds [of p] by auto

definition placeholder :: expression where
  "placeholder = Lit (Boolean True)"

lemma rebuild_onto_leaves: "leaves (rebuild_onto t ps cs) = leaves t @ concat (map leaves ps)"
  by (induction t ps cs rule: rebuild_onto.induct) auto

lemma rebuild_onto_conds:
  "length ps = length cs \<Longrightarrow>
     mset (conds (rebuild_onto t ps cs)) = mset (conds t) + mset cs + mset (concat (map conds ps))"
  by (induction t ps cs rule: rebuild_onto.induct) auto

lemma mset_concat_map: "mset (concat (map f xs)) = (\<Sum>x\<in>#mset xs. mset (f x))"
  by (induction xs) auto

lemma replicate_mset_add: "replicate_mset (m + n) x = replicate_mset m x + replicate_mset n x"
  by (induction m) auto

lemma mset_concat_two:
  assumes "i < j" "j < length nodes"
  shows "mset (concat (map f nodes)) =
    mset (f (remove_at j nodes ! i)) + mset (f (nodes ! j)) + mset (concat (map f (remove_at i (remove_at j nodes))))"
proof -
  have "mset nodes = add_mset (nodes ! j) (add_mset (remove_at j nodes ! i) (mset (remove_at i (remove_at j nodes))))"
    using assms mset_remove_at [of j nodes] mset_remove_at [of i "remove_at j nodes"]
    by (simp add: length_remove_at)
  from arg_cong [OF this, of "\<lambda>M. \<Sum>\<^sub># (image_mset (\<lambda>x. mset (f x)) M)"] show ?thesis
    by (simp add: mset_concat_map ac_simps)
qed

text \<open>
  A round keeps all leaves.  It uses up one condition, or, when no condition links any pair, keeps
  all of them and joins on a constant-true condition instead.
\<close>

lemma greedy_step_keeps:
  assumes "1 < length nodes" "greedy_step cat nodes cs = (nodes', cs')"
  shows "mset (concat (map (leaves \<circ> fst) nodes')) = mset (concat (map (leaves \<circ> fst) nodes))"
    and "\<exists>k. mset cs' + mset (concat (map (conds \<circ> fst) nodes')) =
        mset cs + mset (concat (map (conds \<circ> fst) nodes)) + replicate_mset k placeholder \<and>
      length cs' + 1 = length cs + k"
proof -
  obtain i j ci where best: "best_pair nodes cs = (i, j, ci)" by (cases "best_pair nodes cs") auto
  note ij = best_pair_bounds(1,2) [OF best assms(1)]
  have ci: "k < length cs" if "ci = Some k" for k using best_pair_bounds(3) [OF best assms(1) that] .
  note conc = mset_concat_two [OF ij]
  have step: "nodes' = remove_at i (remove_at j nodes) @ [(Join Inner
        (case ci of Some k \<Rightarrow> cs ! k | None \<Rightarrow> Lit (Boolean True)) (fst (remove_at j nodes ! i)) (fst (nodes ! j)),
        estimate_join_rows (estimate_rows cat (fst (remove_at j nodes ! i))) (estimate_rows cat (fst (nodes ! j))))]"
    "cs' = (case ci of Some k \<Rightarrow> remove_at k cs | None \<Rightarrow> cs)"
    using assms(2) by (auto simp: greedy_step_def best Let_def)
  show "mset (concat (map (leaves \<circ> fst) nodes')) = mset (concat (map (leaves \<circ> fst) nodes))"
    unfolding conc [of "leaves \<circ> fst"] step by simp
  show "\<exists>k. mset cs' + mset (concat (map (conds \<circ> fst) nodes')) =
        mset cs + mset (concat (map (conds \<circ> fst) nodes)) + replicate_mset k placeholder \<and>
      length cs' + 1 = length cs + k"
  proof (cases ci)
    case None
    then show ?thesis unfolding conc [of "conds \<circ> fst"] step
      by (intro exI [of _ 1]) (simp add: placeholder_def)
  next
    case (Some m)
    then show ?thesis unfolding conc [of "conds \<circ> fst"] step
      using ci [OF Some] mset_remove_at [of m cs, symmetric]
      by (intro exI [of _ 0]) (simp add: length_remove_at)
  qed
qed

lemma greedy_loop_leaves:
  "nodes \<noteq> [] \<Longrightarrow> mset (leaves (greedy_loop cat nodes cs)) = mset (concat (map (leaves \<circ> fst) nodes))"
proof (induction cat nodes cs rule: greedy_loop.induct)
  case (1 cat nodes cs)
  show ?case
  proof (cases "length nodes \<le> 1")
    case True
    then obtain n where n: "nodes = [n]" using "1.prems" by (cases nodes) auto
    then show ?thesis by (subst greedy_loop.simps) simp
  next
    case False
    obtain nodes' cs' where step: "greedy_step cat nodes cs = (nodes', cs')"
      by (cases "greedy_step cat nodes cs")
    have "nodes' \<noteq> []" using greedy_step_length [of nodes cat cs] step False by auto
    then show ?thesis
      using "1.IH" [OF False step [symmetric] refl] greedy_step_keeps(1) [OF _ step] False step
      by (subst greedy_loop.simps) (simp add: comp_def)
  qed
qed

text \<open>
  Over the whole loop, a condition is lost for each constant-true condition that was put in: the
  result has one condition less than leaves.
\<close>

lemma greedy_loop_conds:
  "nodes \<noteq> [] \<Longrightarrow> \<exists>lost k. mset (conds (greedy_loop cat nodes cs)) + lost =
     mset cs + mset (concat (map (conds \<circ> fst) nodes)) + replicate_mset k placeholder"
proof (induction cat nodes cs rule: greedy_loop.induct)
  case (1 cat nodes cs)
  show ?case
  proof (cases "length nodes \<le> 1")
    case True
    then obtain n where n: "nodes = [n]" using "1.prems" by (cases nodes) auto
    then show ?thesis
      by (subst greedy_loop.simps) (intro exI [of _ "mset cs"] exI [of _ 0], simp)
  next
    case False
    obtain nodes' cs' where step: "greedy_step cat nodes cs = (nodes', cs')"
      by (cases "greedy_step cat nodes cs")
    have "nodes' \<noteq> []" using greedy_step_length [of nodes cat cs] step False by auto
    then obtain lost k where IH: "mset (conds (greedy_loop cat nodes' cs')) + lost =
        mset cs' + mset (concat (map (conds \<circ> fst) nodes')) + replicate_mset k placeholder"
      using "1.IH" [OF False step [symmetric] refl] by blast
    obtain k' where "mset cs' + mset (concat (map (conds \<circ> fst) nodes')) =
        mset cs + mset (concat (map (conds \<circ> fst) nodes)) + replicate_mset k' placeholder"
      using greedy_step_keeps(2) [OF _ step] False by auto
    with IH have "mset (conds (greedy_loop cat nodes' cs')) + lost =
        mset cs + mset (concat (map (conds \<circ> fst) nodes)) + replicate_mset (k' + k) placeholder"
      by (simp add: replicate_mset_add ac_simps)
    then show ?thesis using False step by (subst greedy_loop.simps) auto
  qed
qed

lemma scans_leaves: "mset (scans p) = mset (concat (map scans (leaves p)))"
  by (induction p) auto

lemma filter_conjuncts_leaves: "filter_conjuncts p = (\<Sum>q\<in>#mset (leaves p). filter_conjuncts q)"
  by (induction p) auto

lemma join_conditions_leaves:
  "mset (join_conditions p) = mset (conds p) + mset (concat (map join_conditions (leaves p)))"
  by (induction p) auto

lemma rebuild_join_tree_leaves:
  assumes "\<And>q. q \<in> set ls \<Longrightarrow> leaves q = [q] \<and> conds q = []" "ls \<noteq> []" "length ls = Suc (length cs)"
  shows "leaves (rebuild_join_tree ls cs) = ls" "mset (conds (rebuild_join_tree ls cs)) = mset cs"
proof -
  obtain q qs where ls: "ls = q # qs" using assms(2) by (cases ls) auto
  have "concat (map leaves qs) = qs" "concat (map conds qs) = []"
    using assms(1) unfolding ls by (induction qs) auto
  then show "leaves (rebuild_join_tree ls cs) = ls" "mset (conds (rebuild_join_tree ls cs)) = mset cs"
    using assms(1,3) by (auto simp: ls rebuild_join_tree_def rebuild_onto_leaves rebuild_onto_conds)
qed

lemma leaves_are_leaves: "q \<in> set (leaves p) \<Longrightarrow> leaves q = [q] \<and> conds q = []"
  by (induction p) auto

lemma concat_leaves:
  "(\<And>q. q \<in> set ls \<Longrightarrow> leaves q = [q] \<and> conds q = []) \<Longrightarrow>
     concat (map (leaves \<circ> fst) (map (\<lambda>p. (p, f p)) ls)) = ls \<and>
     concat (map (conds \<circ> fst) (map (\<lambda>p. (p, f p)) ls)) = []"
  by (induction ls) auto

lemma concat_leaves_leaves:
  "concat (map (leaves \<circ> fst) (map (\<lambda>p. (p, f p)) (leaves p))) = leaves p"
  "concat (map (conds \<circ> fst) (map (\<lambda>p. (p, f p)) (leaves p))) = []"
  using concat_leaves [of "leaves p" f] leaves_are_leaves [of _ p] by blast+

lemma reorder_tree_leaves: "mset (leaves (reorder_tree cat p)) = mset (leaves p)"
  using greedy_loop_leaves [of "map (\<lambda>p. (p, estimate_rows cat p)) (leaves p)" cat "conds p",
      unfolded concat_leaves_leaves]
    rebuild_join_tree_leaves(1) [of "leaves p" "conds p"] leaves_are_leaves [of _ p]
  by (auto simp: reorder_tree_def greedy_join_order_def split_beta Let_def length_leaves_conds)

lemma reorder_tree_conds:
  "\<exists>lost k. mset (conds (reorder_tree cat p)) + lost = mset (conds p) + replicate_mset k placeholder"
proof -
  have "\<exists>lost k. mset (conds (greedy_join_order cat (leaves p) (conds p))) + lost =
      mset (conds p) + replicate_mset k placeholder"
    using greedy_loop_conds [of "map (\<lambda>p. (p, estimate_rows cat p)) (leaves p)" cat "conds p",
        unfolded concat_leaves_leaves]
    by (simp add: greedy_join_order_def)
  moreover have "mset (conds (rebuild_join_tree (leaves p) (conds p))) = mset (conds p)"
    using rebuild_join_tree_leaves(2) [of "leaves p" "conds p"] leaves_are_leaves [of _ p]
    by (simp add: length_leaves_conds)
  moreover have "\<exists>lost k. M + lost = M + replicate_mset k placeholder" for M
    by (intro exI [of _ "{#}"] exI [of _ 0]) simp
  ultimately show ?thesis
    unfolding reorder_tree_def by (simp add: split_beta Let_def)
qed

lemma reorder_tree_keeps:
  "mset (scans (reorder_tree cat p)) = mset (scans p)"
  "filter_conjuncts (reorder_tree cat p) = filter_conjuncts p"
  "\<exists>lost k. mset (join_conditions (reorder_tree cat p)) + lost =
     mset (join_conditions p) + replicate_mset k placeholder"
proof -
  note lv = reorder_tree_leaves [of cat p]
  show "mset (scans (reorder_tree cat p)) = mset (scans p)"
    unfolding scans_leaves [of p] scans_leaves [of "reorder_tree cat p"] mset_concat_map lv ..
  show "filter_conjuncts (reorder_tree cat p) = filter_conjuncts p"
    unfolding filter_conjuncts_leaves [of p] filter_conjuncts_leaves [of "reorder_tree cat p"] lv ..
  obtain lost k where "mset (conds (reorder_tree cat p)) + lost = mset (conds p) + replicate_mset k placeholder"
    using reorder_tree_conds by blast
  then have "mset (join_conditions (reorder_tree cat p)) + lost =
      mset (join_conditions p) + replicate_mset k placeholder"
    unfolding join_conditions_leaves [of p] join_conditions_leaves [of "reorder_tree cat p"]
      mset_concat_map lv by (simp add: ac_simps)
  then show "\<exists>lost k. mset (join_conditions (reorder_tree cat p)) + lost =
     mset (join_conditions p) + replicate_mset k placeholder" by blast
qed

lemma reorder_joins_keeps:
  "mset (scans (reorder_joins cat p)) = mset (scans p)"
  "filter_conjuncts (reorder_joins cat p) = filter_conjuncts p"
  by (induction p) (simp_all add: reorder_tree_keeps)

lemma reorder_joins_conds:
  "\<exists>lost k. mset (join_conditions (reorder_joins cat p)) + lost =
     mset (join_conditions p) + replicate_mset k placeholder"
proof (induction p)
  case (Join jt c l r)
  obtain la ka lb kb where sub:
    "mset (join_conditions (reorder_joins cat l)) + la = mset (join_conditions l) + replicate_mset ka placeholder"
    "mset (join_conditions (reorder_joins cat r)) + lb = mset (join_conditions r) + replicate_mset kb placeholder"
    using Join by blast
  obtain lc kc where "mset (join_conditions (reorder_joins cat (Join jt c l r))) + lc =
      mset (join_conditions (Join jt c (reorder_joins cat l) (reorder_joins cat r))) + replicate_mset kc placeholder"
    using reorder_tree_keeps(3) by (metis reorder_joins.simps(1))
  then have "mset (join_conditions (reorder_joins cat (Join jt c l r))) + (la + lb + lc) =
      add_mset c (mset (join_conditions (reorder_joins cat l)) + la + (mset (join_conditions (reorder_joins cat r)) + lb))
        + replicate_mset kc placeholder"
    by (simp add: ac_simps)
  also have "\<dots> = mset (join_conditions (Join jt c l r)) + replicate_mset (ka + kb + kc) placeholder"
    unfolding sub by (simp add: replicate_mset_add ac_simps)
  finally show ?case by blast
next
  case (Scan t a cs)
  show ?case by (intro exI [of _ "{#}"] exI [of _ 0]) simp
qed simp_all

section \<open>The greedy choice is minimal\<close>

lemma consider_pair_le:
  "linking_condition (fst (nodes ! i)) (fst (nodes ! j)) cs \<noteq> None \<Longrightarrow>
     fst (consider_pair nodes cs (i, j) b) \<le> estimate_join_rows (snd (nodes ! i)) (snd (nodes ! j))"
  by (auto simp: consider_pair_def Let_def split: prod.splits option.splits)

lemma fold_consider_min:
  assumes "\<And>i j. (i, j) \<in> set ps \<Longrightarrow> i < j \<and> j < length nodes" "best_ok nodes cs b" "(i, j) \<in> set ps"
    and "linking_condition (fst (nodes ! i)) (fst (nodes ! j)) cs \<noteq> None"
  shows "fst (fold (consider_pair nodes cs) ps b) \<le> estimate_join_rows (snd (nodes ! i)) (snd (nodes ! j))"
  using assms(1-3)
proof (induction ps arbitrary: b)
  case (Cons p ps)
  obtain k l where p: "p = (k, l)" by (cases p)
  have ok: "best_ok nodes cs (consider_pair nodes cs (k, l) b)"
    using consider_pair_ok [of nodes cs b k l] Cons.prems(1,2) p by auto
  show ?case
  proof (cases "(i, j) = (k, l)")
    case True
    have "fst (fold (consider_pair nodes cs) ps (consider_pair nodes cs (k, l) b)) \<le>
        fst (consider_pair nodes cs (k, l) b)"
      using fold_consider_ok [OF _ ok] Cons.prems(1) by auto
    then show ?thesis using consider_pair_le [OF assms(4), of b] True p by simp
  next
    case False
    then show ?thesis using Cons.IH [OF _ ok] Cons.prems(1,3) p by auto
  qed
qed simp

lemma in_pairs: "i < j \<Longrightarrow> j < n \<Longrightarrow> (i, j) \<in> set (pairs n)"
  by (auto simp: pairs_def intro!: bexI [of _ i])

lemma best_pair_min:
  assumes "best_pair nodes cs = (i, j, Some k)" "i' < j'" "j' < length nodes"
    "linking_condition (fst (nodes ! i')) (fst (nodes ! j')) cs \<noteq> None"
  shows "estimate_join_rows (snd (nodes ! i)) (snd (nodes ! j)) \<le> estimate_join_rows (snd (nodes ! i')) (snd (nodes ! j'))"
proof -
  obtain b where b: "best_pair nodes cs = snd b" "best_ok nodes cs b"
    "b = fold (consider_pair nodes cs) (pairs (length nodes)) (size_max, 0, 1, None)"
    by (rule best_pair_fold)
  have "fst b = estimate_join_rows (snd (nodes ! i)) (snd (nodes ! j))"
    using assms(1) b(1,2) by (cases b) (simp add: best_ok_def)
  moreover have "fst b \<le> estimate_join_rows (snd (nodes ! i')) (snd (nodes ! j'))"
    unfolding b(3)
    by (rule fold_consider_min [OF pairs_bounds _ in_pairs [OF assms(2,3)] assms(4)])
      (simp_all add: best_ok_def)
  ultimately show ?thesis by simp
qed

lemma forget_columns_keeps:
  "scans (forget_columns p) = scans p" "filter_conjuncts (forget_columns p) = filter_conjuncts p"
  "join_conditions (forget_columns p) = join_conditions p"
  by (induction p) simp_all

lemma push_projections_keeps:
  "scans (push_projections iter p A) = scans p"
  "filter_conjuncts (push_projections iter p A) = filter_conjuncts p"
  "join_conditions (push_projections iter p A) = join_conditions p"
  using forget_columns_keeps [of p] forget_columns_keeps [of "push_projections iter p A"]
  by (simp_all add: push_projections_forget)

section \<open>Properties\<close>

text \<open>
  Optimising a plan keeps the relations it reads, as a multiset, and the conjuncts of all its
  filters: predicate pushdown splits and moves filters but loses and duplicates none, whatever the
  shape of the plan and the iteration order of hash sets.
\<close>

theorem optimize_keeps:
  "mset (scans (optimize iter cat p)) = mset (scans p) \<and>
   filter_conjuncts (optimize iter cat p) = filter_conjuncts p"
  by (simp add: optimize_def reorder_joins_keeps push_projections_keeps push_predicates_keeps)

text \<open>
  Every join condition of the optimised plan is a condition of the original plan, used at most
  as often, or the constant-true condition that join reordering puts between unconnected inputs.
\<close>

theorem optimize_conditions:
  "\<exists>lost k. mset (join_conditions (optimize iter cat p)) + lost =
     mset (join_conditions p) + replicate_mset k (Lit (Boolean True))"
  using reorder_joins_conds [of cat "push_projections iter (push_predicates p) {}"]
  by (simp add: optimize_def push_projections_keeps push_predicates_keeps placeholder_def)

text \<open>
  Not every condition survives: with three inner-joined tables, a second condition on a pair that
  is already joined is dropped, and rows that violate it reach the result.
\<close>

theorem reorder_drops_condition:
  "join_conditions (reorder_joins []
     (Join Inner (BinaryOp (Column (Some ''a'') ''y'') Eq (Column (Some ''b'') ''y''))
       (Join Inner (BinaryOp (Column (Some ''a'') ''x'') Eq (Column (Some ''b'') ''x''))
         (Scan ''a'' None []) (Scan ''b'' None [])) (Scan ''c'' None []))) =
   [Lit (Boolean True), BinaryOp (Column (Some ''a'') ''y'') Eq (Column (Some ''b'') ''y'')]"
  by code_simp

text \<open>
  The pair of inputs that greedy reordering joins next is in range, its condition links the two
  inputs and is the first that does, and no other linked pair has a smaller estimate.
\<close>

theorem best_pair_correct:
  assumes "best_pair nodes cs = (i, j, ci)" "1 < length nodes"
  shows "i < j \<and> j < length nodes \<and>
    (\<forall>k. ci = Some k \<longrightarrow> k < length cs \<and>
       linking_condition (fst (nodes ! i)) (fst (nodes ! j)) cs = Some k \<and>
       (\<forall>i' j'. i' < j' \<longrightarrow> j' < length nodes \<longrightarrow>
          linking_condition (fst (nodes ! i')) (fst (nodes ! j')) cs \<noteq> None \<longrightarrow>
          estimate_join_rows (snd (nodes ! i)) (snd (nodes ! j)) \<le>
          estimate_join_rows (snd (nodes ! i')) (snd (nodes ! j'))))"
proof -
  obtain b where b: "best_pair nodes cs = snd b" "best_ok nodes cs b" by (rule best_pair_fold)
  have "linking_condition (fst (nodes ! i)) (fst (nodes ! j)) cs = Some k" if "ci = Some k" for k
    using b assms(1) that by (cases b) (simp add: best_ok_def)
  then show ?thesis
    using best_pair_bounds [OF assms] best_pair_min [of nodes cs i j] assms(1) by blast
qed

definition sample_nodes :: "(logical_plan \<times> nat) list" where
  "sample_nodes = [(Scan ''a'' None [], 50), (Scan ''b'' None [], 20), (Scan ''c'' None [], 30)]"

definition sample_conds :: "expression list" where
  "sample_conds =
     [BinaryOp (Column (Some ''a'') ''x'') Eq (Column (Some ''b'') ''x''),
      BinaryOp (Column (Some ''b'') ''y'') Eq (Column (Some ''c'') ''y'')]"

theorem best_pair_correct_witness:
  "best_pair sample_nodes sample_conds = (1, 2, Some 1) \<and> (1::nat) < 2 \<and> 2 < length sample_nodes"
proof -
  have best: "best_pair sample_nodes sample_conds = (1, 2, Some 1)" by code_simp
  have "1 < length sample_nodes" by code_simp
  from best_pair_correct [OF best this] best show ?thesis by blast
qed

end
