(* ===== verification/Equivalences.thy ===== *)
theory Equivalences
  imports Reference_Runtime Logical_Optimizer
begin

text \<open>
  When two executor trees compute the same rows.  These are the facts that justify the choices of the
  planner: an index scan for a filtered scan, a hash join for a nested-loop join, a filter below a
  join instead of above it.  All of them are stated on \<open>exec_rows\<close>, which every run computes.
\<close>

section \<open>Streams without exceptions\<close>

lemma stream_bind_total:
  "(\<And>r. r \<in> set rs \<Longrightarrow> f r = (g r, None)) \<Longrightarrow> stream_bind f rs err = (concat (map g rs), err)"
  by (induction rs) simp_all

lemma stream_bind_cong: "(\<And>r. r \<in> set rs \<Longrightarrow> f r = g r) \<Longrightarrow> stream_bind f rs err = stream_bind g rs err"
  by (induction rs) simp_all

lemma drained_snoc: "drained snoc [] (rs, None) = Inr rs" "drained snoc [] (rs, Some e) = Inl e"
  by (simp_all add: drained_def rfold_append)

lemma filter_row_total:
  "eval_truthy p r sch = Inr b \<Longrightarrow> filter_row p sch r = (if b then [r] else [], None)"
  by (simp add: filter_row_def)

text \<open>A predicate that gives a truth value on every row of interest.\<close>

definition holds :: "expression \<Rightarrow> row_schema \<Rightarrow> row \<Rightarrow> bool" where
  "holds p sch r \<longleftrightarrow> eval_truthy p r sch = Inr True"

definition decides :: "expression \<Rightarrow> row_schema \<Rightarrow> row set \<Rightarrow> bool" where
  "decides p sch A \<longleftrightarrow> (\<forall>r \<in> A. \<exists>b. eval_truthy p r sch = Inr b)"

lemma filter_row_decides: "decides p sch A \<Longrightarrow> r \<in> A \<Longrightarrow> filter_row p sch r = (if holds p sch r then [r] else [], None)"
  by (auto simp: decides_def holds_def filter_row_def)

lemma concat_if: "concat (map (\<lambda>r. if P r then [r] else []) rs) = filter P rs"
  by (induction rs) auto

lemma stream_bind_filter:
  assumes "decides p sch (set rs)"
  shows "stream_bind (filter_row p sch) rs err = (filter (holds p sch) rs, err)"
  using stream_bind_total [of rs "filter_row p sch" "\<lambda>r. if holds p sch r then [r] else []"]
    filter_row_decides [OF assms] by (simp add: concat_if)

lemma nl_row_total:
  assumes "decides c sch ((@) l ` set rs)"
  shows "nl_row c sch l rs = (filter (holds c sch) (map ((@) l) rs), None)"
  using assms
proof (induction rs)
  case (Cons r rs)
  then have "decides c sch ((@) l ` set rs)" by (auto simp: decides_def)
  with Cons.IH have "nl_row c sch l rs = (filter (holds c sch) (map ((@) l) rs), None)" .
  then show ?case using filter_row_decides [OF Cons.prems, of "l @ r"] by simp
qed simp

section \<open>Names in a joined schema\<close>

lemma entries_extend [simp]: "entries (schema_extend s t) = entries s @ entries t"
  by (simp add: schema_extend_def)

lemma resolve_extend_left:
  "resolve s (Some q) c = Some i \<Longrightarrow> resolve (schema_extend s t) (Some q) c = Some i"
  by (simp add: resolve_def position_append)

lemma resolve_extend_right:
  "resolve s (Some q) c = None \<Longrightarrow>
     resolve (schema_extend s t) (Some q) c = map_option (\<lambda>i. length (entries s) + i) (resolve t (Some q) c)"
  by (simp add: resolve_def position_append)

text \<open>
  The expressions whose value on a joined row is their value on the left, or the right, part: all
  columns are qualified and resolve there, and there are no aggregates.
\<close>

fun left_only :: "row_schema \<Rightarrow> expression \<Rightarrow> bool" where
  "left_only s (Column t c) = (t \<noteq> None \<and> resolve s t c \<noteq> None)"
| "left_only s (Lit l) = True"
| "left_only s (BinaryOp a p b) = (left_only s a \<and> left_only s b)"
| "left_only s (UnaryOp u e) = left_only s e"
| "left_only s _ = False"

fun right_only :: "row_schema \<Rightarrow> row_schema \<Rightarrow> expression \<Rightarrow> bool" where
  "right_only s t (Column q c) = (q \<noteq> None \<and> resolve s q c = None \<and> resolve t q c \<noteq> None)"
| "right_only s t (Lit l) = True"
| "right_only s t (BinaryOp a p b) = (right_only s t a \<and> right_only s t b)"
| "right_only s t (UnaryOp u e) = right_only s t e"
| "right_only s t _ = False"

lemma evaluate_left:
  "left_only s e \<Longrightarrow> length l = length (entries s) \<Longrightarrow> evaluate e (l @ r) (schema_extend s t) = evaluate e l s"
proof (induction s e rule: left_only.induct)
  case (1 s q c)
  then obtain i where "resolve s q c = Some i" "q \<noteq> None" by auto
  with 1 resolve_bounds [of s q c i] show ?case
    by (auto simp: resolve_extend_left row_at_def nth_append)
qed auto

lemma evaluate_right:
  "right_only s t e \<Longrightarrow> length l = length (entries s) \<Longrightarrow> evaluate e (l @ r) (schema_extend s t) = evaluate e r t"
proof (induction s t e rule: right_only.induct)
  case (1 s t q c)
  then obtain i where "resolve t q c = Some i" "q \<noteq> None" "resolve s q c = None" by auto
  with 1 show ?case
    by (auto simp: resolve_extend_right row_at_def nth_append)
qed auto

lemma holds_left:
  "left_only s e \<Longrightarrow> length l = length (entries s) \<Longrightarrow> holds e (schema_extend s t) (l @ r) = holds e s l"
  by (simp add: holds_def eval_truthy_def evaluate_left)

lemma holds_right:
  "right_only s t e \<Longrightarrow> length l = length (entries s) \<Longrightarrow> holds e (schema_extend s t) (l @ r) = holds e t r"
  by (simp add: holds_def eval_truthy_def evaluate_right)

section \<open>Index scans\<close>

lemma entries_fold_add: "entries (fold (schema_add q) cs s) = entries s @ map (Pair q) cs"
  by (induction cs arbitrary: s) (simp_all add: schema_add_def)

lemma entries_scan_schema:
  "entries (scan_schema n a t) = map (Pair (Some (case a of Some x \<Rightarrow> x | None \<Rightarrow> n))) (table_columns t)"
  by (simp add: scan_schema_def Let_def entries_fold_add empty_schema_def)

lemma resolve_scan_qualified:
  assumes "resolve (scan_schema n a t) None c = Some i" "q = Some (case a of Some x \<Rightarrow> x | None \<Rightarrow> n)"
  shows "resolve (scan_schema n a t) q c = Some i"
proof -
  let ?q = "case a of Some x \<Rightarrow> x | None \<Rightarrow> n"
  have "position (\<lambda>(t', c'). c' = c \<and> (case t' of Some x \<Rightarrow> x | None \<Rightarrow> []) = ?q) (map (Pair (Some ?q)) cs) =
      position (\<lambda>(t', c'). c' = c) (map (Pair (Some ?q)) cs)" for cs
    by (induction cs) auto
  then show ?thesis using assms
    by (auto simp: resolve_def entries_scan_schema split: option.splits if_splits)
qed

lemma index_scan_rows:
  assumes "table_ok tab" "resolve (scan_schema n a tab) None c = Some i"
    and q: "q = None \<or> q = Some (case a of Some x \<Rightarrow> x | None \<Rightarrow> n)"
    and p: "p = BinaryOp (Column q c) Eq (Lit v) \<or> p = BinaryOp (Lit v) Eq (Column q c)"
  shows "exec_rows rt (make_index_scan n a tab c (Lit v)) = exec_rows rt (FilterExec p (make_seq_scan n a tab))"
proof -
  have res: "resolve (scan_schema n a tab) q c = Some i"
    using q assms(2) resolve_scan_qualified by blast
  have "index_row i v r = filter_row p (scan_schema n a tab) r" if "r \<in> set (table_rows tab)" for r
  proof -
    have "i < length r"
      using assms(1) that resolve_bounds [OF assms(2)]
      by (simp add: table_ok_def list_all_iff entries_scan_schema)
    then show ?thesis using p res literal_equal_sym [of v "r ! i"]
      by (auto simp: index_row_def filter_row_def eval_truthy_def row_at_def)
  qed
  then show ?thesis
    using stream_bind_cong [of "table_rows tab" "index_row i v" "filter_row p (scan_schema n a tab)" None] assms(2)
    by (simp add: make_index_scan_def make_seq_scan_def)
qed

section \<open>Filters below a join\<close>

text \<open>The rows of an executor that opens and delivers them without an exception.\<close>

definition rows_are :: "runtime \<Rightarrow> executor \<Rightarrow> row list \<Rightarrow> bool" where
  "rows_are rt x rs \<longleftrightarrow> exec_rows rt x = Inr (rs, None)"

definition fits :: "row_schema \<Rightarrow> row list \<Rightarrow> bool" where
  "fits sch rs \<longleftrightarrow> (\<forall>r \<in> set rs. length r = length (entries sch))"

definition joined :: "row list \<Rightarrow> row list \<Rightarrow> row list" where
  "joined ls rs = concat (map (\<lambda>l. map ((@) l) rs) ls)"

lemma set_joined: "set (joined ls rs) = {l @ r |l r. l \<in> set ls \<and> r \<in> set rs}"
  by (auto simp: joined_def)

lemma decides_mono: "decides p sch A \<Longrightarrow> B \<subseteq> A \<Longrightarrow> decides p sch B"
  by (auto simp: decides_def)

lemma filter_rows:
  "rows_are rt x rs \<Longrightarrow> decides p (exec_schema x) (set rs) \<Longrightarrow>
     rows_are rt (FilterExec p x) (filter (holds p (exec_schema x)) rs)"
  by (simp add: rows_are_def stream_bind_filter)

lemma filter_joined: "filter P (joined ls rs) = concat (map (\<lambda>l. filter P (map ((@) l) rs)) ls)"
  by (simp add: joined_def filter_concat comp_def)

lemma nested_loop_rows:
  assumes "rows_are rt l ls" "rows_are rt r rs" "decides c sch (set (joined ls rs))"
  shows "rows_are rt (NestedLoopJoinExec c l r sch rs0 cur pos ex) (filter (holds c sch) (joined ls rs))"
proof -
  have "nl_row c sch x rs = (filter (holds c sch) (map ((@) x) rs), None)" if "x \<in> set ls" for x
    using that by (intro nl_row_total decides_mono [OF assms(3)]) (auto simp: set_joined)
  from stream_bind_total [OF this] assms(1,2) show ?thesis
    by (simp add: rows_are_def drained_snoc filter_joined)
qed

lemma joined_filter_left:
  "joined (filter P ls) rs = concat (map (\<lambda>l. if P l then map ((@) l) rs else []) ls)"
  by (induction ls) (simp_all add: joined_def)

lemma filter_joined_left:
  assumes "\<And>l r. l \<in> set ls \<Longrightarrow> r \<in> set rs \<Longrightarrow> P (l @ r) = Q l"
  shows "filter P (joined ls rs) = joined (filter Q ls) rs"
  using assms
proof (induction ls)
  case (Cons l ls)
  then have "filter P (map ((@) l) rs) = (if Q l then map ((@) l) rs else [])"
    by (auto simp: filter_map filter_id_conv filter_empty_conv comp_def)
  with Cons show ?case by (simp add: joined_def)
qed (simp add: joined_def)

lemma filter_joined_right:
  assumes "\<And>l r. l \<in> set ls \<Longrightarrow> r \<in> set rs \<Longrightarrow> P (l @ r) = Q r"
  shows "filter P (joined ls rs) = joined ls (filter Q rs)"
  using assms
proof (induction ls)
  case (Cons l ls)
  then have "filter P (map ((@) l) rs) = map ((@) l) (filter Q rs)"
    by (auto simp: filter_map comp_def intro!: arg_cong [where f = "map _"] filter_cong)
  with Cons show ?case by (simp add: joined_def)
qed (simp add: joined_def)

lemma filter_swap: "filter P (filter Q xs) = filter Q (filter P xs)"
  by (simp add: conj_commute)

lemma decides_left:
  assumes "left_only s e" "fits s ls" "decides e s (set ls)"
  shows "decides e (schema_extend s t) (set (joined ls rs))"
  using assms by (auto simp: decides_def set_joined fits_def eval_truthy_def evaluate_left)

lemma decides_right:
  assumes "right_only s t e" "fits s ls" "decides e t (set rs)"
  shows "decides e (schema_extend s t) (set (joined ls rs))"
  using assms by (auto simp: decides_def set_joined fits_def eval_truthy_def evaluate_right)

lemma make_nested_loop_rows:
  assumes "rows_are rt l ls" "rows_are rt r rs"
    "decides c (schema_extend (exec_schema l) (exec_schema r)) (set (joined ls rs))"
  shows "rows_are rt (make_nested_loop c l r)
    (filter (holds c (schema_extend (exec_schema l) (exec_schema r))) (joined ls rs))"
  unfolding make_nested_loop_def by (rule nested_loop_rows [OF assms])

lemma filter_nested_loop:
  assumes "rows_are rt l ls" "rows_are rt r rs"
    and sch: "sch = schema_extend (exec_schema l) (exec_schema r)"
    and c: "decides c sch (set (joined ls rs))" and p: "decides p sch (set (joined ls rs))"
  shows "rows_are rt (FilterExec p (make_nested_loop c l r))
    (filter (holds c sch) (filter (holds p sch) (joined ls rs)))"
proof -
  let ?x = "make_nested_loop c l r"
  have x: "rows_are rt ?x (filter (holds c sch) (joined ls rs))"
    using make_nested_loop_rows [OF assms(1,2)] c sch by simp
  have schema: "exec_schema ?x = sch" by (simp add: make_nested_loop_def sch)
  have "decides p sch (set (filter (holds c sch) (joined ls rs)))"
    by (rule decides_mono [OF p]) auto
  from filter_rows [OF x, unfolded schema, OF this] show ?thesis by (simp only: filter_swap)
qed

lemma push_left_rows:
  assumes l: "rows_are rt l ls" and r: "rows_are rt r rs" and fit: "fits (exec_schema l) ls"
    and p: "left_only (exec_schema l) p" "decides p (exec_schema l) (set ls)"
    and c: "decides c (schema_extend (exec_schema l) (exec_schema r)) (set (joined ls rs))"
  shows "exec_rows rt (FilterExec p (make_nested_loop c l r)) =
    exec_rows rt (make_nested_loop c (FilterExec p l) r)"
proof -
  let ?sch = "schema_extend (exec_schema l) (exec_schema r)"
  let ?ls = "filter (holds p (exec_schema l)) ls"
  have eq: "filter (holds p ?sch) (joined ls rs) = joined ?ls rs"
    using fit by (intro filter_joined_left holds_left [OF p(1)]) (simp add: fits_def)
  have "decides c ?sch (set (joined ?ls rs))"
    by (rule decides_mono [OF c]) (auto simp: set_joined)
  then have "rows_are rt (make_nested_loop c (FilterExec p l) r) (filter (holds c ?sch) (joined ?ls rs))"
    using make_nested_loop_rows [OF filter_rows [OF l p(2)] r] by simp
  then show ?thesis
    using filter_nested_loop [OF l r refl c decides_left [OF p(1) fit p(2)]]
    by (simp only: rows_are_def eq)
qed

lemma push_right_rows:
  assumes l: "rows_are rt l ls" and r: "rows_are rt r rs" and fit: "fits (exec_schema l) ls"
    and p: "right_only (exec_schema l) (exec_schema r) p" "decides p (exec_schema r) (set rs)"
    and c: "decides c (schema_extend (exec_schema l) (exec_schema r)) (set (joined ls rs))"
  shows "exec_rows rt (FilterExec p (make_nested_loop c l r)) =
    exec_rows rt (make_nested_loop c l (FilterExec p r))"
proof -
  let ?sch = "schema_extend (exec_schema l) (exec_schema r)"
  let ?rs = "filter (holds p (exec_schema r)) rs"
  have eq: "filter (holds p ?sch) (joined ls rs) = joined ls ?rs"
    using fit by (intro filter_joined_right holds_right [OF p(1)]) (simp add: fits_def)
  have "decides c ?sch (set (joined ls ?rs))"
    by (rule decides_mono [OF c]) (auto simp: set_joined)
  then have "rows_are rt (make_nested_loop c l (FilterExec p r)) (filter (holds c ?sch) (joined ls ?rs))"
    using make_nested_loop_rows [OF l filter_rows [OF r p(2)]] by simp
  then show ?thesis
    using filter_nested_loop [OF l r refl c decides_right [OF p(1) fit p(2)]]
    by (simp only: rows_are_def eq)
qed

section \<open>Hash joins\<close>

text \<open>
  The keys a hash join may compare as strings: all integers that doubles represent exactly, all
  strings, or all booleans.
\<close>

fun exact_key :: "literal \<Rightarrow> bool" where
  "exact_key (Integer i) = (\<bar>i\<bar> < 2 ^ 53)"
| "exact_key v = False"

fun string_key :: "literal \<Rightarrow> bool" where
  "string_key (Str s) = True"
| "string_key v = False"

fun boolean_key :: "literal \<Rightarrow> bool" where
  "boolean_key (Boolean b) = True"
| "boolean_key v = False"

definition hashable :: "literal set \<Rightarrow> bool" where
  "hashable V \<longleftrightarrow> Ball V exact_key \<or> Ball V string_key \<or> Ball V boolean_key"

lemma hashable_equal:
  assumes "hashable V" "a \<in> V" "b \<in> V"
  shows "literal_equal a b \<longleftrightarrow> literal_to_string a = literal_to_string b"
proof -
  have ints: "deq (double_of_int i) (double_of_int j) \<longleftrightarrow> i = j" if "\<bar>i\<bar> < 2 ^ 53" "\<bar>j\<bar> < 2 ^ 53" for i j
    using that by (auto simp: double_of_int_exact signed_def)
  from assms consider "exact_key a" "exact_key b" | "string_key a" "string_key b" | "boolean_key a" "boolean_key b"
    unfolding hashable_def by blast
  then show ?thesis
  proof cases
    case 1
    then show ?thesis by (cases a; cases b) (auto simp: ints)
  next
    case 2
    then show ?thesis by (cases a; cases b) auto
  next
    case 3
    then show ?thesis by (cases a; cases b) auto
  qed
qed

lemma rfold_build:
  assumes "\<And>r. r \<in> set rs \<Longrightarrow> evaluate k r sch = Inr (f r)"
  shows "rfold (build_row k sch) acc rs = Inr (acc @ map (\<lambda>r. (literal_to_string (f r), r)) rs)"
  using assms by (induction rs arbitrary: acc) (simp_all add: build_row_def)

lemma mset_hash_lookup:
  assumes "runtime_ok rt"
  shows "mset (hash_lookup rt (map (\<lambda>r. (key r, r)) rs) k) = mset (filter (\<lambda>r. key r = k) rs)"
  using assms by (simp add: hash_lookup_def runtime_ok_def filter_map comp_def)

text \<open>The value of a key column of the rows of one input, where every row has it.\<close>

definition key_value :: "expression \<Rightarrow> row_schema \<Rightarrow> row \<Rightarrow> literal" where
  "key_value k sch r = (case evaluate k r sch of Inr v \<Rightarrow> v | Inl e \<Rightarrow> Null)"

lemma key_value: "is_key_of sch k \<Longrightarrow> length r = length (entries sch) \<Longrightarrow> evaluate k r sch = Inr (key_value k sch r)"
  by (cases k) (auto simp: key_value_def row_at_def dest: resolve_bounds)

lemma hash_join_stream:
  assumes "rows_are rt l ls" "rows_are rt r rs" "fits (exec_schema l) ls" "fits (exec_schema r) rs"
    and keys: "is_key_of (exec_schema l) lk" "is_key_of (exec_schema r) rk"
  shows "rows_are rt (HashJoinExec l r sch lk rk b cur pr)
    (concat (map (\<lambda>x. map ((@) x) (hash_lookup rt
      (map (\<lambda>y. (literal_to_string (key_value rk (exec_schema r) y), y)) rs)
      (literal_to_string (key_value lk (exec_schema l) x)))) ls))"
proof -
  have ev: "\<And>y. y \<in> set rs \<Longrightarrow> evaluate rk y (exec_schema r) = Inr (key_value rk (exec_schema r) y)"
    "\<And>x. x \<in> set ls \<Longrightarrow> evaluate lk x (exec_schema l) = Inr (key_value lk (exec_schema l) x)"
    using assms key_value by (auto simp: fits_def)
  show ?thesis
    using assms(1,2) rfold_build [of rs rk "exec_schema r" "key_value rk (exec_schema r)" "[]", OF ev(1)]
    by (simp add: rows_are_def drained_def hj_row_def ev(2) stream_bind_total)
qed

definition is_qualified :: "expression \<Rightarrow> bool" where
  "is_qualified e = (case e of Column (Some q) c \<Rightarrow> True | _ \<Rightarrow> False)"

lemma qualified_key_left: "is_qualified k \<Longrightarrow> is_key_of s k \<Longrightarrow> left_only s k"
  by (cases k) (auto simp: is_qualified_def split: option.splits)

lemma qualified_key_right: "is_qualified k \<Longrightarrow> is_key_of t k \<Longrightarrow> \<not> is_key_of s k \<Longrightarrow> right_only s t k"
  by (cases k) (auto simp: is_qualified_def split: option.splits)

lemma join_key_condition:
  assumes c: "hash_keys c s t = Inr (lk, rk)" and q: "is_qualified lk" "is_qualified rk" "\<not> is_key_of s rk"
    and len: "length x = length (entries s)" "length y = length (entries t)"
  shows "is_key_of s lk" "is_key_of t rk"
    "eval_truthy c (x @ y) (schema_extend s t) = Inr (literal_equal (key_value lk s x) (key_value rk t y))"
proof -
  have k: "is_key_of s lk" "is_key_of t rk"
    and shape: "c = BinaryOp lk Eq rk \<or> c = BinaryOp rk Eq lk"
    using c by (auto elim!: hash_keys.elims split: if_splits)
  then show "is_key_of s lk" "is_key_of t rk" by simp_all
  have "evaluate lk (x @ y) (schema_extend s t) = Inr (key_value lk s x)"
    using evaluate_left [OF qualified_key_left [OF q(1) k(1)] len(1)] key_value [OF k(1) len(1)] by simp
  moreover have "evaluate rk (x @ y) (schema_extend s t) = Inr (key_value rk t y)"
    using evaluate_right [OF qualified_key_right [OF q(2) k(2) q(3)] len(1)] key_value [OF k(2) len(2)] by simp
  ultimately show "eval_truthy c (x @ y) (schema_extend s t) = Inr (literal_equal (key_value lk s x) (key_value rk t y))"
    using shape literal_equal_sym by (auto simp: eval_truthy_def)
qed

lemma mset_concat_map_cong:
  "(\<And>x. x \<in> set xs \<Longrightarrow> mset (f x) = mset (g x)) \<Longrightarrow> mset (concat (map f xs)) = mset (concat (map g xs))"
  by (induction xs) simp_all

text \<open>
  On hashable keys the hash join returns the rows of the nested-loop join, each as often, in an order
  that may differ.
\<close>

lemma hash_join_rows:
  assumes rt: "runtime_ok rt" and l: "rows_are rt l ls" and r: "rows_are rt r rs"
    and fit: "fits (exec_schema l) ls" "fits (exec_schema r) rs"
    and c: "hash_keys c (exec_schema l) (exec_schema r) = Inr (lk, rk)"
    and q: "is_qualified lk" "is_qualified rk" "\<not> is_key_of (exec_schema l) rk"
    and h: "hashable (key_value lk (exec_schema l) ` set ls \<union> key_value rk (exec_schema r) ` set rs)"
  shows "\<exists>x out out'. make_hash_join c l r = Inr x \<and> rows_are rt x out \<and>
    rows_are rt (make_nested_loop c l r) out' \<and> mset out = mset out'"
proof -
  let ?s = "exec_schema l" and ?t = "exec_schema r"
  let ?kl = "key_value lk ?s" and ?kr = "key_value rk ?t"
  have len: "length x = length (entries ?s)" "length y = length (entries ?t)" if "x \<in> set ls" "y \<in> set rs" for x y
    using fit that by (auto simp: fits_def)
  note cond = join_key_condition(3) [OF c q len]
  have keys: "is_key_of ?s lk" "is_key_of ?t rk" using c by (auto elim!: hash_keys.elims split: if_splits)
  have eq: "holds c (schema_extend ?s ?t) (x @ y) \<longleftrightarrow> literal_to_string (?kr y) = literal_to_string (?kl x)"
    if "x \<in> set ls" "y \<in> set rs" for x y
    using cond [OF that] hashable_equal [OF h, of "?kl x" "?kr y"] that by (auto simp: holds_def)
  have "decides c (schema_extend ?s ?t) (set (joined ls rs))"
    using cond by (auto simp: decides_def set_joined)
  note nl = make_nested_loop_rows [OF l r this]
  note hj = hash_join_stream [OF l r fit keys, of "schema_extend ?s ?t" "[]" None None]
  have "filter (\<lambda>y. literal_to_string (?kr y) = literal_to_string (?kl x)) rs =
      filter (holds c (schema_extend ?s ?t) \<circ> (@) x) rs" if "x \<in> set ls" for x
    using eq [OF that] by (auto intro: filter_cong)
  then have "mset (concat (map (\<lambda>x. map ((@) x) (hash_lookup rt (map (\<lambda>y. (literal_to_string (?kr y), y)) rs)
      (literal_to_string (?kl x)))) ls)) = mset (filter (holds c (schema_extend ?s ?t)) (joined ls rs))"
    unfolding filter_joined
    by (intro mset_concat_map_cong) (simp add: mset_hash_lookup [OF rt] filter_map)
  moreover have "make_hash_join c l r =
      Inr (HashJoinExec l r (schema_extend ?s ?t) lk rk [] None None)"
    using c by (simp add: make_hash_join_def)
  ultimately show ?thesis using nl hj by blast
qed

section \<open>Sample data\<close>

definition customers :: table where
  "customers = \<lparr>table_columns = [''id'', ''name''],
     table_rows = [[Integer 1, Str ''ann''], [Integer 2, Str ''bob'']]\<rparr>"

definition orders :: table where
  "orders = \<lparr>table_columns = [''customer_id'', ''total''],
     table_rows = [[Integer 2, Integer 50], [Integer 1, Integer 70], [Integer 2, Integer 30]]\<rparr>"

definition null_customers :: table where
  "null_customers = \<lparr>table_columns = [''id'', ''name''], table_rows = [[Null, Str ''eve'']]\<rparr>"

definition null_orders :: table where
  "null_orders = \<lparr>table_columns = [''customer_id'', ''total''], table_rows = [[Null, Integer 5]]\<rparr>"

definition scan_c :: "table \<Rightarrow> executor" where
  "scan_c = make_seq_scan ''customers'' (Some ''c'')"

definition scan_o :: "table \<Rightarrow> executor" where
  "scan_o = make_seq_scan ''orders'' (Some ''o'')"

definition on_customer :: expression where
  "on_customer = BinaryOp (Column (Some ''c'') ''id'') Eq (Column (Some ''o'') ''customer_id'')"

lemma sample_rows:
  "rows_are rt (scan_c t) (table_rows t)" "rows_are rt (scan_o t) (table_rows t)"
  by (simp_all add: rows_are_def scan_c_def scan_o_def make_seq_scan_def)

section \<open>Properties\<close>

text \<open>
  C18.  An index scan delivers exactly what a filter on the indexed column over a sequential scan
  delivers: the same rows in the same order, for any well-formed table in which the column name is
  unambiguous, whether the filter writes the column qualified or not and on either side of the
  equality.  This is the exchange that the planner makes when a column has an index.
\<close>

theorem index_scan_equivalence:
  assumes "table_ok tab" "resolve (scan_schema n a tab) None c = Some i"
    and "q = None \<or> q = Some (case a of Some x \<Rightarrow> x | None \<Rightarrow> n)"
    and "p = BinaryOp (Column q c) Eq (Lit v) \<or> p = BinaryOp (Lit v) Eq (Column q c)"
  shows "exec_rows rt (make_index_scan n a tab c (Lit v)) = exec_rows rt (FilterExec p (make_seq_scan n a tab))"
  by (rule index_scan_rows [OF assms])

theorem index_scan_equivalence_witness:
  "exec_rows reference_runtime (make_index_scan ''orders'' (Some ''o'') orders ''customer_id'' (Lit (Integer 2))) =
   exec_rows reference_runtime (FilterExec (BinaryOp (Column (Some ''o'') ''customer_id'') Eq (Lit (Integer 2)))
     (make_seq_scan ''orders'' (Some ''o'') orders))"
proof -
  have "table_ok orders" by code_simp
  moreover have "resolve (scan_schema ''orders'' (Some ''o'') orders) None ''customer_id'' = Some 0" by code_simp
  ultimately show ?thesis by (rule index_scan_equivalence [where q = "Some ''o''"]) simp_all
qed

text \<open>
  C3.  A hash join returns the rows of the nested-loop join with the same condition, each as often,
  whatever order the hash table returns equal keys in: for inputs whose rows have the width of their
  schema, a condition that equates a qualified column of the left input with one of the right input
  only, and keys that are all exactly represented integers, all strings or all booleans.
\<close>

theorem hash_join_equivalence:
  assumes "runtime_ok rt" "rows_are rt l ls" "rows_are rt r rs"
    and "fits (exec_schema l) ls" "fits (exec_schema r) rs"
    and "hash_keys c (exec_schema l) (exec_schema r) = Inr (lk, rk)"
    and "is_qualified lk" "is_qualified rk" "\<not> is_key_of (exec_schema l) rk"
    and "hashable (key_value lk (exec_schema l) ` set ls \<union> key_value rk (exec_schema r) ` set rs)"
  shows "\<exists>x out out'. make_hash_join c l r = Inr x \<and> rows_are rt x out \<and>
    rows_are rt (make_nested_loop c l r) out' \<and> mset out = mset out'"
  by (rule hash_join_rows [OF assms])

theorem hash_join_equivalence_witness:
  "\<exists>x out out'. make_hash_join on_customer (scan_c customers) (scan_o orders) = Inr x \<and>
     rows_are reference_runtime x out \<and>
     rows_are reference_runtime (make_nested_loop on_customer (scan_c customers) (scan_o orders)) out' \<and>
     mset out = mset out'"
proof (rule hash_join_equivalence [OF reference_runtime_ok sample_rows(1) sample_rows(2)])
  show "fits (exec_schema (scan_c customers)) (table_rows customers)" by code_simp
  show "fits (exec_schema (scan_o orders)) (table_rows orders)" by code_simp
  show "hash_keys on_customer (exec_schema (scan_c customers)) (exec_schema (scan_o orders)) =
      Inr (Column (Some ''c'') ''id'', Column (Some ''o'') ''customer_id'')" by code_simp
  show "is_qualified (Column (Some ''c'') ''id'')" "is_qualified (Column (Some ''o'') ''customer_id'')" by code_simp+
  show "\<not> is_key_of (exec_schema (scan_c customers)) (Column (Some ''o'') ''customer_id'')" by code_simp
  show "hashable (key_value (Column (Some ''c'') ''id'') (exec_schema (scan_c customers)) ` set (table_rows customers) \<union>
      key_value (Column (Some ''o'') ''customer_id'') (exec_schema (scan_o orders)) ` set (table_rows orders))"
    by code_simp
qed


end
