(* ===== verification/Sorting.thy ===== *)
theory Sorting
  imports Equivalences
begin

text \<open>
  Sorting: when the comparator of \<^verbatim>\<open>SortExec\<close> is a strict weak order, which the standard library
  requires of it, and what the sorted output then is.
\<close>

section \<open>Sorting\<close>

text \<open>
  The values a sort column may hold for the comparator to be a strict weak order: all numbers other
  than NaN, or all strings.
\<close>

definition ordered_number :: "literal \<Rightarrow> bool" where
  "ordered_number v \<longleftrightarrow> is_numeric v \<and> numeric_value v \<noteq> NaN"

fun is_string :: "literal \<Rightarrow> bool" where
  "is_string (Str s) = True"
| "is_string v = False"

definition orderable :: "literal set \<Rightarrow> bool" where
  "orderable V \<longleftrightarrow> Ball V ordered_number \<or> Ball V is_string"

definition value_before :: "literal \<Rightarrow> literal \<Rightarrow> bool" where
  "value_before a b \<longleftrightarrow> literal_less a b = Inr True"

lemma literal_less_numbers:
  "ordered_number a \<Longrightarrow> ordered_number b \<Longrightarrow> literal_less a b = Inr (dlt (numeric_value a) (numeric_value b))"
  by (cases a; cases b) (auto simp: ordered_number_def literal_is_null_def)

lemma literal_equal_numbers:
  "ordered_number a \<Longrightarrow> ordered_number b \<Longrightarrow> literal_equal a b = deq (numeric_value a) (numeric_value b)"
  by (cases a; cases b) (auto simp: ordered_number_def)

lemma orderable_cases:
  assumes "orderable V" "a \<in> V" "b \<in> V"
  shows "literal_less a b = Inr (value_before a b)"
    "value_before a b \<or> value_before b a \<or> literal_equal a b"
    "literal_equal a b \<Longrightarrow> \<not> value_before a b"
proof -
  have "literal_less a b = Inr (value_before a b) \<and> (value_before a b \<or> value_before b a \<or> literal_equal a b) \<and>
      (literal_equal a b \<longrightarrow> \<not> value_before a b)"
  proof (cases "Ball V ordered_number")
    case True
    then have n: "ordered_number a" "ordered_number b" using assms by auto
    then have "numeric_value a \<noteq> NaN" "numeric_value b \<noteq> NaN" by (auto simp: ordered_number_def)
    from dlt_linear [OF this] show ?thesis
      using n by (auto simp: value_before_def literal_less_numbers literal_equal_numbers deq_sym dest: dlt_not_deq)
  next
    case False
    then have "is_string a" "is_string b" using assms by (auto simp: orderable_def)
    then show ?thesis by (cases a; cases b) (auto simp: value_before_def)
  qed
  then show "literal_less a b = Inr (value_before a b)"
    "value_before a b \<or> value_before b a \<or> literal_equal a b"
    "literal_equal a b \<Longrightarrow> \<not> value_before a b" by simp_all
qed

text \<open>Each sort column of the rows holds orderable values, and nothing fails.\<close>

definition sortable :: "order_by_item list \<Rightarrow> row_schema \<Rightarrow> row set \<Rightarrow> bool" where
  "sortable ob sch A \<longleftrightarrow> 
     (\<forall>it \<in> set ob.
        (\<forall>r \<in> A. evaluate (order_expression it) r sch = Inr (key_value (order_expression it) sch r)) \<and>
        orderable (key_value (order_expression it) sch ` A))"

lemma strict_weak_order_simps:
  "strict_weak_order (\<lambda>a b. Inr (R a b)) A \<longleftrightarrow>
     (\<forall>a \<in> A. \<not> R a a) \<and> (\<forall>a \<in> A. \<forall>b \<in> A. \<forall>c \<in> A. R a b \<longrightarrow> R b c \<longrightarrow> R a c) \<and>
     (\<forall>a \<in> A. \<forall>b \<in> A. \<forall>c \<in> A. \<not> R a b \<longrightarrow> \<not> R b a \<longrightarrow> \<not> R b c \<longrightarrow> \<not> R c b \<longrightarrow> \<not> R a c \<and> \<not> R c a)"
  by (auto simp: strict_weak_order_def)

lemma strict_weak_order_cong:
  "(\<And>a b. a \<in> A \<Longrightarrow> b \<in> A \<Longrightarrow> cmp a b = cmp' a b) \<Longrightarrow> strict_weak_order cmp A = strict_weak_order cmp' A"
  by (simp add: strict_weak_order_def)

lemma lexicographic_order:
  assumes R: "strict_weak_order (\<lambda>a b. Inr (R a b)) A"
    and tri: "\<And>a b. a \<in> A \<Longrightarrow> b \<in> A \<Longrightarrow> B a b \<or> B b a \<or> E a b"
    and excl: "\<And>a b. a \<in> A \<Longrightarrow> b \<in> A \<Longrightarrow> E a b \<Longrightarrow> \<not> B a b"
    and asym: "\<And>a b. a \<in> A \<Longrightarrow> b \<in> A \<Longrightarrow> B a b \<Longrightarrow> \<not> B b a"
    and trans: "\<And>a b c. B a b \<Longrightarrow> B b c \<Longrightarrow> B a c"
    and E: "\<And>a b. E a b \<Longrightarrow> E b a" "\<And>a b c. E a b \<Longrightarrow> E b c \<Longrightarrow> E a c"
  shows "strict_weak_order (\<lambda>a b. Inr (B a b \<or> (E a b \<and> R a b))) A"
proof -
  let ?L = "\<lambda>a b. B a b \<or> (E a b \<and> R a b)"
  have BE: "B a c" if "B a b" "E b c" "a \<in> A" "b \<in> A" "c \<in> A" for a b c
    using tri [of a c] trans [of c a b] excl [of c b] excl [of a b] E that by blast
  have EB: "B a c" if "E a b" "B b c" "a \<in> A" "b \<in> A" "c \<in> A" for a b c
    using tri [of a c] trans [of b c a] excl [of b a] excl [of b c] E that by blast
  have irr: "\<not> ?L a a" if "a \<in> A" for a
    using asym R that unfolding strict_weak_order_simps by blast
  have tr: "?L a c" if "?L a b" "?L b c" "a \<in> A" "b \<in> A" "c \<in> A" for a b c
    using that
  proof (elim disjE conjE)
    assume "E a b" "R a b" "E b c" "R b c"
    then show ?thesis using R E(2) that unfolding strict_weak_order_simps by blast
  qed (use trans BE EB that in blast)+
  have eqv: "\<not> ?L a c \<and> \<not> ?L c a"
    if "\<not> ?L a b" "\<not> ?L b a" "\<not> ?L b c" "\<not> ?L c b" "a \<in> A" "b \<in> A" "c \<in> A" for a b c
  proof -
    have e: "E a b" "E b c" "E a c" "E b a" "E c b" "E c a" using tri [of a b] tri [of b c] that E by blast+
    then have "\<not> R a b" "\<not> R b a" "\<not> R b c" "\<not> R c b" using that by blast+
    then have "\<not> R a c \<and> \<not> R c a" using R that(5-7) unfolding strict_weak_order_simps by blast
    with e excl that(5-7) show ?thesis by blast
  qed
  show ?thesis unfolding strict_weak_order_simps using irr tr eqv by blast
qed

lemma sort_less_order:
  assumes "sortable ob sch A"
  shows "\<exists>R. (\<forall>a \<in> A. \<forall>b \<in> A. sort_less ob sch a b = Inr (R a b)) \<and> strict_weak_order (\<lambda>a b. Inr (R a b)) A"
  using assms
proof (induction ob)
  case Nil
  show ?case by (rule exI [of _ "\<lambda>_ _. False"]) (simp add: strict_weak_order_simps)
next
  case (Cons it ob)
  then obtain R where R: "\<And>a b. a \<in> A \<Longrightarrow> b \<in> A \<Longrightarrow> sort_less ob sch a b = Inr (R a b)"
    "strict_weak_order (\<lambda>a b. Inr (R a b)) A" by (auto simp: sortable_def)
  from Cons.prems obtain f where f: "\<And>r. r \<in> A \<Longrightarrow> evaluate (order_expression it) r sch = Inr (f r)"
    and ord: "orderable (f ` A)" by (auto simp: sortable_def)
  define B where "B = (\<lambda>a b. if order_ascending it then value_before (f a) (f b) else value_before (f b) (f a))"
  define E where "E = (\<lambda>a b. literal_equal (f a) (f b))"
  note oc = orderable_cases [OF ord imageI imageI]
  have tri: "B a b \<or> B b a \<or> E a b" if "a \<in> A" "b \<in> A" for a b
    using oc(2) [OF that] by (auto simp: B_def E_def)
  have excl: "E a b \<Longrightarrow> \<not> B a b" if "a \<in> A" "b \<in> A" for a b
    using oc(3) [OF that] oc(3) [OF that(2,1)] literal_equal_sym by (auto simp: B_def E_def)
  have asym: "B a b \<Longrightarrow> \<not> B b a" if "a \<in> A" "b \<in> A" for a b
    using literal_less_asym by (auto simp: B_def value_before_def)
  have trans: "B a b \<Longrightarrow> B b c \<Longrightarrow> B a c" for a b c
    using literal_less_trans by (auto simp: B_def value_before_def)
  have E: "E a b \<Longrightarrow> E b a" "E a b \<Longrightarrow> E b c \<Longrightarrow> E a c" for a b c
    unfolding E_def by (simp add: literal_equal_sym) (rule literal_equal_trans)
  have step: "sort_less (it # ob) sch a b = Inr (B a b \<or> (E a b \<and> R a b))" if ab: "a \<in> A" "b \<in> A" for a b
  proof (cases "E a b")
    case True
    then show ?thesis using f R(1) ab excl [OF ab] by (simp add: E_def)
  next
    case False
    have "(if order_ascending it then value_before (f a) (f b) else \<not> value_before (f a) (f b)) = B a b"
      using tri [OF ab] asym [OF ab] False by (auto simp: B_def)
    moreover have "sort_less (it # ob) sch a b =
        Inr (if order_ascending it then value_before (f a) (f b) else \<not> value_before (f a) (f b))"
      using f ab False oc(1) [OF ab] by (simp add: E_def)
    ultimately show ?thesis using False by simp
  qed
  have "strict_weak_order (\<lambda>a b. Inr (B a b \<or> (E a b \<and> R a b))) A"
    using R(2) tri excl asym trans E by (rule lexicographic_order)
  then show ?case by (intro exI [of _ "\<lambda>a b. B a b \<or> (E a b \<and> R a b)"]) (simp add: step del: sort_less.simps)
qed

lemma sort_rows:
  assumes "runtime_ok rt" "exec_rows rt x = Inr (rs, None)" "sortable ob (exec_schema x) (set rs)"
  shows "\<exists>out. exec_rows rt (SortExec ob x rows pos) = Inr (out, None) \<and> mset out = mset rs \<and>
    sorted_wrt (\<lambda>a b. sort_less ob (exec_schema x) b a = Inr False) out"
proof -
  from sort_less_order [OF assms(3)] obtain R where
    R: "\<forall>a \<in> set rs. \<forall>b \<in> set rs. sort_less ob (exec_schema x) a b = Inr (R a b)"
    "strict_weak_order (\<lambda>a b. Inr (R a b)) (set rs)" by blast
  then have "strict_weak_order (sort_less ob (exec_schema x)) (set rs)"
    using strict_weak_order_cong [of "set rs" "sort_less ob (exec_schema x)" "\<lambda>a b. Inr (R a b)"] by simp
  with assms(1) obtain out where "rt_sort rt (sort_less ob (exec_schema x)) rs = Inr out" "mset out = mset rs"
    "sorted_wrt (\<lambda>a b. sort_less ob (exec_schema x) b a = Inr False) out"
    unfolding runtime_ok_def by blast
  with assms(2) show ?thesis by (simp add: drained_snoc)
qed

section \<open>Properties\<close>

definition by_total :: "bool \<Rightarrow> order_by_item list" where
  "by_total asc = [\<lparr>order_expression = Column (Some ''o'') ''total'', order_ascending = asc\<rparr>]"



text \<open>
  C35.  A NULL in a descending sort column breaks the requirement of \<^verbatim>\<open>std::sort\<close>: each of the two rows is
  to come before the other, so the comparator is no strict weak order and the sort is undefined.
\<close>

theorem desc_null_not_ordered:
  "\<not> strict_weak_order (sort_less (by_total False) (exec_schema (scan_o orders)))
     {[Integer 1, Null], [Integer 2, Integer 30]}"
proof -
  have "sort_less (by_total False) (exec_schema (scan_o orders)) [Integer 1, Null] [Integer 2, Integer 30] = Inr True"
    "sort_less (by_total False) (exec_schema (scan_o orders)) [Integer 2, Integer 30] [Integer 1, Null] = Inr True"
    "sort_less (by_total False) (exec_schema (scan_o orders)) [Integer 1, Null] [Integer 1, Null] = Inr True"
    by code_simp+
  then show ?thesis by (simp add: strict_weak_order_def)
qed

end
