(* ===== verification/Exchange.thy ===== *)
theory Exchange
  imports Prelude "HOL-Library.Multiset"
begin

text \<open>
  The contract of a row exchange: rows are sent to one of \<open>n\<close> workers by their key.  What the
  clients rely on follows once: no row is lost or doubled, and a join whose matches have equal keys can be computed
  worker by worker.
\<close>

definition bucket :: "('a \<Rightarrow> nat) \<Rightarrow> nat \<Rightarrow> 'a list \<Rightarrow> 'a list" where
  "bucket t w xs = filter (\<lambda>x. t x = w) xs"

definition pairwise_rows :: "('a \<Rightarrow> 'b \<Rightarrow> 'c list) \<Rightarrow> 'a list \<Rightarrow> 'b list \<Rightarrow> 'c list" where
  "pairwise_rows g ls rs = concat (map (\<lambda>l. concat (map (g l) rs)) ls)"

lemma pairwise_rows_simps [simp]:
  "pairwise_rows g [] rs = []" "pairwise_rows g (l # ls) rs = concat (map (g l) rs) @ pairwise_rows g ls rs"
  "pairwise_rows g (ls @ ls') rs = pairwise_rows g ls rs @ pairwise_rows g ls' rs"
  by (simp_all add: pairwise_rows_def)

lemma mset_concat_map_mset: "mset xs = mset ys \<Longrightarrow> mset (concat (map f xs)) = mset (concat (map f ys))"
proof -
  assume "mset xs = mset ys"
  then have "image_mset (\<lambda>x. mset (f x)) (mset xs) = image_mset (\<lambda>x. mset (f x)) (mset ys)" by simp
  then show ?thesis by (simp add: mset_concat comp_def flip: sum_mset_sum_list)
qed

lemma mset_concat_cong: "(\<And>x. x \<in> set xs \<Longrightarrow> mset (f x) = mset (g x)) \<Longrightarrow> mset (concat (map f xs)) = mset (concat (map g xs))"
  by (induction xs) simp_all

lemma mset_concat_plus: "mset (concat (map (\<lambda>x. f x @ g x) xs)) = mset (concat (map f xs)) + mset (concat (map g xs))"
  by (induction xs) simp_all

lemma pairwise_mset:
  assumes "mset ls = mset ls'" "mset rs = mset rs'"
  shows "mset (pairwise_rows g ls rs) = mset (pairwise_rows g ls' rs')"
proof -
  have "mset (pairwise_rows g ls rs) = mset (pairwise_rows g ls rs')"
    unfolding pairwise_rows_def by (rule mset_concat_cong) (rule mset_concat_map_mset [OF assms(2)])
  also have "\<dots> = mset (pairwise_rows g ls' rs')"
    unfolding pairwise_rows_def by (rule mset_concat_map_mset [OF assms(1)])
  finally show ?thesis .
qed

text \<open>A join with one side split over the workers and the other side at each of them.\<close>

lemma pairwise_left_parts: "pairwise_rows g (concat lss) rs = concat (map (\<lambda>ls. pairwise_rows g ls rs) lss)"
  by (induction lss) simp_all

lemma pairwise_right_parts:
  "mset (pairwise_rows g ls (concat rss)) = mset (concat (map (\<lambda>rs. pairwise_rows g ls rs) rss))"
proof (induction ls)
  case Nil
  then show ?case by (simp add: pairwise_rows_def concat_map_singleton)
next
  case (Cons l ls)
  have "concat (map (g l) (concat rss)) = concat (map (\<lambda>rs. concat (map (g l) rs)) rss)" by (induction rss) simp_all
  with Cons show ?case by (simp add: mset_concat_plus)
qed

lemma concat_one: "concat (map (\<lambda>w. if p = w then f w else []) [0 ..< n]) = (if p < n then f p else [])"
  by (induction n) auto

locale exchange =
  fixes target :: "nat \<Rightarrow> 'k \<Rightarrow> nat"
  assumes target_lt: "0 < n \<Longrightarrow> target n k < n"
begin

lemma buckets_complete:
  assumes "0 < n"
  shows "mset (concat (map (\<lambda>w. bucket (\<lambda>x. target n (key x)) w xs) [0 ..< n])) = mset xs"
proof (induction xs)
  case Nil
  then show ?case by (simp add: bucket_def concat_map_singleton)
next
  case (Cons x xs)
  have "concat (map (\<lambda>w. bucket (\<lambda>x. target n (key x)) w (x # xs)) ws) =
      concat (map (\<lambda>w. (if target n (key x) = w then [x] else []) @ bucket (\<lambda>x. target n (key x)) w xs) ws)" for ws
    by (rule arg_cong [where f = concat], rule map_cong) (auto simp: bucket_def)
  then show ?case using Cons concat_one [of "target n (key x)" "\<lambda>w. [x]" n] target_lt [OF assms]
    by (simp add: mset_concat_plus)
qed

lemma colocated_pairs:
  assumes n: "0 < n" and same: "\<And>l r. g l r \<noteq> [] \<Longrightarrow> target n (kl l) = target n (kr r)"
  shows "mset (concat (map (\<lambda>w. pairwise_rows g (bucket (\<lambda>l. target n (kl l)) w ls) (bucket (\<lambda>r. target n (kr r)) w rs)) [0 ..< n])) =
    mset (pairwise_rows g ls rs)"
proof (induction ls)
  case Nil
  then show ?case by (simp add: bucket_def concat_map_singleton)
next
  case (Cons l ls)
  let ?b = "\<lambda>w. bucket (\<lambda>r. target n (kr r)) w rs"
  have none: "g l r = []" if "target n (kr r) \<noteq> target n (kl l)" for r using same [of l r] that by fastforce
  have all: "concat (map (g l) (?b (target n (kl l)))) = concat (map (g l) rs)"
    by (induction rs) (auto simp: bucket_def none)
  have "concat (map (\<lambda>w. pairwise_rows g (bucket (\<lambda>l. target n (kl l)) w (l # ls)) (?b w)) ws) =
      concat (map (\<lambda>w. (if target n (kl l) = w then concat (map (g l) (?b w)) else []) @
        pairwise_rows g (bucket (\<lambda>l. target n (kl l)) w ls) (?b w)) ws)" for ws
    by (rule arg_cong [where f = concat], rule map_cong) (auto simp: bucket_def)
  then show ?case
    using Cons all concat_one [of "target n (kl l)" "\<lambda>w. concat (map (g l) (?b w))" n] target_lt [OF n]
    by (simp add: mset_concat_plus)
qed

lemma bucket_set: "set (bucket (\<lambda>x. target n (key x)) w xs) \<subseteq> set xs"
  by (auto simp: bucket_def)

end

end
