(* ===== verification/Partition.thy ===== *)
theory Partition
  imports Storage Exchange
begin

text \<open>
  Static partitioning of tables over workers (\<^verbatim>\<open>distributed/partition.cpp\<close>) by the remainder of the \<^verbatim>\<open>id\<close>
  column.  The number of workers is assumed to fit into \<^verbatim>\<open>int64_t\<close>, so that its conversion keeps it.
\<close>

text \<open>The remainder of C++ has the sign of the dividend.\<close>

definition cpp_rem :: "int \<Rightarrow> int \<Rightarrow> int" where
  "cpp_rem a b = (if a < 0 then - ((- a) mod b) else a mod b)"

definition partition_of :: "int \<Rightarrow> nat \<Rightarrow> nat" where
  "partition_of i n =
     (if n = 0 then 0
      else let m = cpp_rem i (int n) in nat (if m < 0 then m + int n else m))"

text \<open>A row without an integer in the \<^verbatim>\<open>id\<close> column is owned by no worker.\<close>

fun owned_by :: "nat \<Rightarrow> nat \<Rightarrow> literal \<Rightarrow> bool" where
  "owned_by w n (Integer i) = (partition_of i n = w)"
| "owned_by w n _ = False"

definition filter_table_to_partition :: "table \<Rightarrow> nat \<Rightarrow> nat \<Rightarrow> table" where
  "filter_table_to_partition t w n =
     (case position (\<lambda>c. c = ''id'') (table_columns t) of
        None \<Rightarrow> t
      | Some c \<Rightarrow> t\<lparr>table_rows := filter (\<lambda>r. owned_by w n (r ! c)) (table_rows t)\<rparr>)"

fun load_partition_tables ::
  "(string \<Rightarrow> string option) \<Rightarrow> string \<Rightarrow> catalog \<Rightarrow> nat \<Rightarrow> nat \<Rightarrow> string list \<Rightarrow> database \<Rightarrow> database result"
where
  "load_partition_tables files dir cat w n [] db = Inr db"
| "load_partition_tables files dir cat w n (name # names) db =
     (let path = dir @ ''/'' @ name @ ''.csv''
      in case files path of
           None \<Rightarrow> load_partition_tables files dir cat w n names db
         | Some text \<Rightarrow>
             (case catalog_get cat name of
                None \<Rightarrow> load_partition_tables files dir cat w n names db
              | Some schema \<Rightarrow>
                  rbind (load_table_from_csv path text schema) (\<lambda>t.
                    load_partition_tables files dir cat w n names (add_table name (filter_table_to_partition t w n) db))))"

definition load_worker_partition ::
  "(string \<Rightarrow> string option) \<Rightarrow> string \<Rightarrow> catalog \<Rightarrow> nat \<Rightarrow> nat \<Rightarrow> database result"
where
  "load_worker_partition files dir cat w n = load_partition_tables files dir cat w n (table_names cat) []"

definition filter_database_to_partition :: "database \<Rightarrow> catalog \<Rightarrow> nat \<Rightarrow> nat \<Rightarrow> database" where
  "filter_database_to_partition full cat w n =
     fold (\<lambda>name db.
       case db_get full name of
         None \<Rightarrow> db
       | Some t \<Rightarrow> add_table name (filter_table_to_partition t w n) db) (table_names cat) []"

section \<open>Every row with an integer identifier has one owner\<close>

lemma partition_of_mod: "0 < n \<Longrightarrow> partition_of i n = nat (i mod int n)"
proof (cases "i < 0")
  case True
  assume n: "0 < n"
  show ?thesis
  proof (cases "(- i) mod int n = 0")
    case True
    then have "int n dvd - i" by (rule dvd_eq_mod_eq_0 [THEN iffD2])
    then have "i mod int n = 0" by simp
    with True \<open>i < 0\<close> n show ?thesis by (simp add: partition_of_def cpp_rem_def)
  next
    case False
    then have "i mod int n = int n - (- i) mod int n" using zmod_zminus1_eq_if [of "- i" "int n"] by simp
    moreover have "0 \<le> (- i) mod int n" using n by (intro pos_mod_sign) simp
    with False have "0 < (- i) mod int n" by linarith
    ultimately show ?thesis using \<open>i < 0\<close> n False unfolding partition_of_def cpp_rem_def Let_def by auto
  qed
next
  case False
  assume n: "0 < n"
  then have "0 \<le> i mod int n" by (intro pos_mod_sign) simp
  then have "\<not> i mod int n < 0" by (rule leD)
  with False n show ?thesis unfolding partition_of_def cpp_rem_def Let_def by (simp only: if_False) simp
qed

lemma partition_of_lt: "0 < n \<Longrightarrow> partition_of i n < n"
  by (simp add: partition_of_mod nat_less_iff)

interpretation static: exchange "\<lambda>n i. partition_of i n"
  by unfold_locales (rule partition_of_lt)

fun has_id :: "nat \<Rightarrow> row \<Rightarrow> bool" where
  "has_id c r = (case r ! c of Integer i \<Rightarrow> True | _ \<Rightarrow> False)"

fun id_of :: "nat \<Rightarrow> row \<Rightarrow> int" where
  "id_of c r = (case r ! c of Integer i \<Rightarrow> i | _ \<Rightarrow> 0)"

lemma owned_bucket:
  "filter (\<lambda>r. owned_by w n (r ! c)) rs = bucket (\<lambda>r. partition_of (id_of c r) n) w (filter (has_id c) rs)"
  unfolding bucket_def filter_filter by (rule filter_cong) (auto split: literal.splits)

lemma owned_rows: "0 < n \<Longrightarrow>
   mset (concat (map (\<lambda>w. filter (\<lambda>r. owned_by w n (r ! c)) rs) [0 ..< n])) = mset (filter (has_id c) rs)"
  unfolding owned_bucket by (rule static.buckets_complete)

lemma filter_table_columns: "table_columns (filter_table_to_partition t w n) = table_columns t"
  by (simp add: filter_table_to_partition_def split: option.split)

section \<open>What a worker loads is what recovery recomputes\<close>

lemma load_tables_other:
  "load_tables files dir cat names db = Inr full \<Longrightarrow> x \<notin> set names \<Longrightarrow> db_get full x = db_get db x"
proof (induction names arbitrary: db)
  case (Cons name names)
  then show ?case
    by (auto simp: Let_def add_table_def db_get_def update_conv' split: option.splits)
qed simp

lemma load_partition_filters:
  assumes "load_tables files dir cat names db = Inr full" "distinct names" "\<forall>name \<in> set names. db_get db name = None"
  shows "load_partition_tables files dir cat w n names acc =
    Inr (fold (\<lambda>name db. case db_get full name of None \<Rightarrow> db
      | Some t \<Rightarrow> add_table name (filter_table_to_partition t w n) db) names acc)"
  using assms
proof (induction names arbitrary: db acc)
  case (Cons name names)
  have get: "db_get full name = db_get db' name" if "load_tables files dir cat names db' = Inr full" for db'
    using load_tables_other [OF that] Cons.prems(2) by simp
  show ?case
  proof (cases "files (dir @ ''/'' @ name @ ''.csv'') = None \<or> catalog_get cat name = None")
    case True
    then have "load_tables files dir cat names db = Inr full" using Cons.prems(1) by (auto simp: Let_def split: option.splits)
    note rest = this
    have "db_get full name = None" using get [OF rest] Cons.prems(3) by simp
    moreover have "load_partition_tables files dir cat w n (name # names) acc = load_partition_tables files dir cat w n names acc"
      using True by (auto simp: Let_def split: option.split)
    ultimately show ?thesis using Cons.IH [OF rest] Cons.prems(2,3) by simp
  next
    case False
    then obtain content s t where t: "files (dir @ ''/'' @ name @ ''.csv'') = Some content" "catalog_get cat name = Some s"
      "load_table_from_csv (dir @ ''/'' @ name @ ''.csv'') content s = Inr t"
      "load_tables files dir cat names (add_table name t db) = Inr full"
      using Cons.prems(1) by (auto simp: Let_def split: option.splits)
    have "\<forall>x \<in> set names. db_get (add_table name t db) x = None"
      using Cons.prems(2,3) by (auto simp: add_table_def db_get_def update_conv')
    with Cons.IH [OF t(4)] Cons.prems(2) get [OF t(4)] t show ?thesis
      by (simp add: Let_def add_table_def db_get_def update_conv')
  qed
qed simp

section \<open>Properties\<close>

text \<open>
  C28. The partitions of a table over the workers are together the rows of the table that have an integer identifier, each
  once: no row is lost or doubled.
\<close>

theorem partition_complete:
  assumes "0 < n" "position (\<lambda>c. c = ''id'') (table_columns t) = Some c"
  shows "mset (concat (map (\<lambda>w. table_rows (filter_table_to_partition t w n)) [0 ..< n])) =
    mset (filter (has_id c) (table_rows t))"
  using owned_rows [OF assms(1), of c "table_rows t"] assms(2) by (simp add: filter_table_to_partition_def)

theorem partition_complete_witness:
  "mset (concat (map (\<lambda>w. table_rows (filter_table_to_partition
       \<lparr>table_columns = [''name'', ''id''], table_rows = [[Str ''a'', Integer 4], [Str ''b'', Integer (- 3)], [Str ''c'', Null]]\<rparr> w 2))
     [0 ..< 2])) = {#[Str ''a'', Integer 4], [Str ''b'', Integer (- 3)]#}"
  by (subst partition_complete [where c = 1]) simp_all

text \<open>
  The partition that the coordinator recomputes for a worker that does not answer is the database which that worker
  loaded from the same files.
\<close>

theorem recovered_partition:
  assumes "load_database_from_directory files dir cat = Inr full" "catalog_ok cat"
  shows "load_worker_partition files dir cat w n = Inr (filter_database_to_partition full cat w n)"
proof -
  have "distinct (table_names cat)" using assms(2) by (simp add: table_names_def catalog_ok_def)
  with assms(1) show ?thesis
    using load_partition_filters [of files dir cat "table_names cat" "[]" full w n "[]"]
    by (simp add: load_database_from_directory_def load_worker_partition_def filter_database_to_partition_def db_get_def)
qed

definition sample_files :: "string \<Rightarrow> string option" where
  "sample_files path = (if path = ''d/t.csv'' then Some (''id'' @ [CHR 0x0A] @ ''4'' @ [CHR 0x0A] @ ''7'') else None)"

definition sample_catalog :: catalog where
  "sample_catalog =
     [(''t'', \<lparr>schema_columns = [column ''id'' IntType False], schema_stats = \<lparr>row_count = 2, avg_row_bytes = 8\<rparr>,
        indexed_columns = []\<rparr>)]"

theorem recovered_partition_witness:
  "load_worker_partition sample_files ''d'' sample_catalog 1 2 =
     Inr [(''t'', \<lparr>table_columns = [''id''], table_rows = [[Integer 7]]\<rparr>)]"
proof -
  let ?full = "[(''t'', \<lparr>table_columns = [''id''], table_rows = [[Integer 4], [Integer 7]]\<rparr>)]"
  have "load_database_from_directory sample_files ''d'' sample_catalog = Inr ?full" "catalog_ok sample_catalog"
    by code_simp+
  from recovered_partition [OF this, of 1 2] show ?thesis
    by (simp add: filter_database_to_partition_def filter_table_to_partition_def sample_catalog_def table_names_def
        db_get_def add_table_def partition_of_def cpp_rem_def)
qed

end
