(* ===== verification/Decimal.thy ===== *)
theory Decimal
  imports Storage
begin

text \<open>
  Seventeen significant decimal digits identify a double: \<^verbatim>\<open>std::stod\<close> reads back exactly what \<^verbatim>\<open>%.17g\<close>
  printed, for every normal double and for zero.
\<close>

section \<open>Decimals near a double round to it\<close>

lemma rne_near:
  assumes "of_int n - 1 / 2 < x" "x < of_int n + 1 / 2"
  shows "rne x = n"
proof (cases "of_int n \<le> x")
  case True
  then have "\<lfloor>x\<rfloor> = n" using assms(2) by (intro floor_unique) auto
  with assms(2) show ?thesis by (simp add: rne_def)
next
  case False
  then have "\<lfloor>x\<rfloor> = n - 1" using assms(1) by (intro floor_unique) auto
  with assms(1) show ?thesis by (simp add: rne_def)
qed

lemma rne_error: "\<bar>of_int (rne x) - x\<bar> \<le> 1 / 2"
proof -
  have "of_int \<lfloor>x\<rfloor> \<le> x" "x < of_int \<lfloor>x\<rfloor> + 1" by linarith+
  then show ?thesis unfolding rne_def Let_def by (auto simp: abs_le_iff)
qed

text \<open>A normal double is an integer of 53 bits times a power of two.\<close>

definition normal_mag :: "rat \<Rightarrow> bool" where
  "normal_mag m \<longleftrightarrow> 0 < m \<and> round_mag m = m \<and> - 1022 \<le> ilog 2 m"

lemma normal_mag_significand:
  assumes "normal_mag m"
  obtains M where "m = of_int M * bpow 2 (ilog 2 m - 52)" "2 ^ 52 \<le> M" "M < 2 ^ 53"
proof -
  have m: "0 < m" "round_mag m = m" and u: "ulp_exp m = ilog 2 m - 52"
    using assms by (auto simp: normal_mag_def ulp_exp_def)
  define M where "M = rne (m / bpow 2 (ulp_exp m))"
  have eq: "m = of_int M * bpow 2 (ilog 2 m - 52)" using m by (simp add: round_mag_def M_def u)
  have "bpow 2 (ilog 2 m) = 2 ^ 52 * bpow 2 (ilog 2 m - 52)" "bpow 2 (ilog 2 m + 1) = 2 ^ 53 * bpow 2 (ilog 2 m - 52)"
    using bpow_add [of 2 52 "ilog 2 m - 52"] bpow_add [of 2 53 "ilog 2 m - 52"] by (simp_all add: bpow_2_numerals add.commute)
  with ilog_bounds [of 2 m] m(1) have "2 ^ 52 * bpow 2 (ilog 2 m - 52) \<le> of_int M * bpow 2 (ilog 2 m - 52)"
    "of_int M * bpow 2 (ilog 2 m - 52) < 2 ^ 53 * bpow 2 (ilog 2 m - 52)" using eq by simp_all
  then have "(2 :: rat) ^ 52 \<le> of_int M" "(of_int M :: rat) < 2 ^ 53" by simp_all
  then have "(of_int (2 ^ 52) :: rat) \<le> of_int M" "(of_int M :: rat) < of_int (2 ^ 53)" by simp_all
  then have "2 ^ 52 \<le> M" "M < 2 ^ 53" by (simp_all only: of_int_le_iff of_int_less_iff)
  with eq that show ?thesis by blast
qed

lemma round_mag_at:
  assumes "0 < x" "ulp_exp x = u" "of_int n - 1 / 2 < x / bpow 2 u" "x / bpow 2 u < of_int n + 1 / 2"
  shows "round_mag x = of_int n * bpow 2 u"
  using assms rne_near [OF assms(3,4)] by (simp add: round_mag_def)

lemma round_mag_near:
  assumes "normal_mag m" "\<bar>x - m\<bar> \<le> m / (2 * 10 ^ 16)"
  shows "round_mag x = m"
proof -
  define k where "k = ilog 2 m"
  let ?k = k
  let ?u = "k - 52"
  obtain M where M: "m = of_int M * bpow 2 ?u" "2 ^ 52 \<le> M" "M < 2 ^ 53"
    using normal_mag_significand [OF assms(1)] unfolding k_def by blast
  have k: "- 1022 \<le> ?k" and m: "0 < m" using assms(1) by (auto simp: normal_mag_def k_def)
  have u: "0 < bpow 2 ?u" by simp
  define y where "y = x / bpow 2 ?u"
  have x: "x = y * bpow 2 ?u" by (simp add: y_def)
  have "\<bar>y - of_int M\<bar> * bpow 2 ?u \<le> (of_int M / (2 * 10 ^ 16)) * bpow 2 ?u"
    using assms(2) unfolding x M(1) using u by (simp add: abs_mult flip: left_diff_distrib)
  then have y: "\<bar>y - of_int M\<bar> \<le> of_int M / (2 * 10 ^ 16)" using u by (simp only: mult_le_cancel_right)
  have "(of_int (2 ^ 52) :: rat) \<le> of_int M" "(of_int M :: rat) \<le> of_int (2 ^ 53 - 1)"
    using M(2,3) by (simp_all only: of_int_le_iff)
  then have Mr: "(4503599627370496 :: rat) \<le> of_int M" "(of_int M :: rat) \<le> 9007199254740991" by simp_all
  have "of_int M / (2 * 10 ^ 16) < (46 / 100 :: rat)" using Mr(2) by simp
  with y have near: "of_int M - 46 / 100 < y" "y < of_int M + 46 / 100" by (auto simp only: abs_le_iff)
  have pow: "bpow 2 ?k = 4503599627370496 * bpow 2 ?u" "bpow 2 (?k + 1) = 9007199254740992 * bpow 2 ?u"
    using bpow_add [of 2 52 ?u] bpow_add [of 2 53 ?u] by (simp_all add: bpow_2_numerals add.commute)
  have xpos: "0 < x" using near(1) Mr(1) u unfolding x by (intro mult_pos_pos) linarith+
  show ?thesis
  proof (cases "4503599627370496 \<le> y")
    case True
    have "ilog 2 x = ?k"
    proof (rule ilog_eqI)
      show "bpow 2 ?k \<le> x" using True less_imp_le [OF u] unfolding pow x by (rule mult_right_mono)
      show "x < bpow 2 (?k + 1)" using near(2) Mr(2) u unfolding pow x by (intro mult_strict_right_mono) linarith+
    qed simp
    then have "ulp_exp x = ?u" using k by (simp add: ulp_exp_def)
    from round_mag_at [OF xpos this, of M] near show ?thesis by (simp add: y_def M(1))
  next
    case False
    then have "(of_int M :: rat) < of_int 4503599627370497" using near(1) by simp
    then have "M < 4503599627370497" by (simp only: of_int_less_iff)
    then have "M = 4503599627370496" using M(2) by simp
    then have M52: "(of_int M :: rat) = 4503599627370496" by simp
    have "- (y - 4503599627370496) \<le> 4503599627370496 / (2 * 10 ^ 16)" using y unfolding M52 abs_le_iff by blast
    then have near': "4503599627370496 - 23 / 100 < y" by simp
    have "ilog 2 x = ?k - 1"
    proof (rule ilog_eqI)
      have "bpow 2 ?k = 2 * bpow 2 (?k - 1)" using bpow_add [of 2 1 "?k - 1"] by simp
      then have half: "bpow 2 (?k - 1) = 2251799813685248 * bpow 2 ?u" using pow(1) by simp
      show "bpow 2 (?k - 1) \<le> x" unfolding half x using near' less_imp_le [OF u] by (intro mult_right_mono) simp_all
      show "x < bpow 2 (?k - 1 + 1)" using False u pow(1) unfolding x by simp
    qed simp
    then have ulp: "ulp_exp x = max (?k - 1) (- 1022) - 52" by (simp add: ulp_exp_def)
    show ?thesis
    proof (cases "?k = - 1022")
      case True
      then have "ulp_exp x = ?u" using ulp by simp
      from round_mag_at [OF xpos this, of M] near show ?thesis by (simp add: y_def M(1))
    next
      case False
      then have ulp': "ulp_exp x = ?u - 1" using ulp k by simp
      have half: "bpow 2 ?u = 2 * bpow 2 (?u - 1)" using bpow_add [of 2 1 "?u - 1"] by simp
      then have q: "x / bpow 2 (?u - 1) = 2 * y" unfolding x by simp
      have "round_mag x = of_int 9007199254740992 * bpow 2 (?u - 1)"
        by (rule round_mag_at [OF xpos ulp']) (unfold q, use near' \<open>\<not> 4503599627370496 \<le> y\<close> in simp_all)
      then show ?thesis using half M52 by (simp add: M(1))
    qed
  qed
qed


section \<open>Decimal texts\<close>

abbreviation digits :: "string \<Rightarrow> bool" where
  "digits ds \<equiv> \<forall>c \<in> set ds. isdigit c"

lemma show_fixed_simps: "length (show_fixed w n) = w" "digits (show_fixed w n)"
  by (induction w arbitrary: n) auto

lemma read_dec_append: "read_dec (xs @ ys) = read_dec xs * 10 ^ length ys + read_dec ys"
proof (induction ys rule: rev_induct)
  case (snoc y ys)
  have "read_dec (xs @ ys @ [y]) = 10 * read_dec (xs @ ys) + digit_val y" using read_dec_snoc [of "xs @ ys" y] by simp
  then show ?case using snoc by (simp add: read_dec_snoc algebra_simps)
qed (simp add: read_dec_def)

lemma read_dec_zeros: "read_dec (replicate k (CHR ''0'')) = 0"
  by (induction k) (auto simp: read_dec_append [of "[CHR ''0'']", simplified] read_dec_def digit_val_def)

lemma read_show_fixed: "0 \<le> n \<Longrightarrow> n < 10 ^ w \<Longrightarrow> read_dec (show_fixed w n) = n"
proof (induction w arbitrary: n)
  case (Suc w)
  have "n < 10 * 10 ^ w" using Suc.prems by simp
  then have "n div 10 < 10 ^ w" by linarith
  then show ?case using Suc by (simp add: read_dec_snoc)
qed (simp add: read_dec_def)

lemma decimal_rat_zeros: "decimal_rat ip (fp @ replicate k (CHR ''0'')) = decimal_rat ip fp"
proof -
  have "read_dec (ip @ fp @ replicate k (CHR ''0'')) = read_dec (ip @ fp) * 10 ^ k"
    using read_dec_append [of "ip @ fp" "replicate k (CHR ''0'')"] by (simp add: read_dec_zeros)
  then show ?thesis by (simp add: decimal_rat_def power_add)
qed

text \<open>The fractional part without trailing zeros, and its rendering.\<close>

definition stripped :: "string \<Rightarrow> string" where
  "stripped ds = rev (dropWhile (\<lambda>c. c = CHR ''0'') (rev ds))"

lemma stripped_split: "\<exists>k. ds = stripped ds @ replicate k (CHR ''0'')"
proof -
  have "rev ds = takeWhile (\<lambda>c. c = CHR ''0'') (rev ds) @ dropWhile (\<lambda>c. c = CHR ''0'') (rev ds)" by simp
  moreover have "takeWhile (\<lambda>c. c = CHR ''0'') (rev ds) =
      replicate (length (takeWhile (\<lambda>c. c = CHR ''0'') (rev ds))) (CHR ''0'')"
    using set_takeWhileD by (intro replicate_eqI) fastforce+
  ultimately have "ds = stripped ds @ rev (replicate (length (takeWhile (\<lambda>c. c = CHR ''0'') (rev ds))) (CHR ''0''))"
    unfolding stripped_def by (metis rev_append rev_rev_ident)
  then show ?thesis by (metis rev_replicate)
qed

definition frac :: "string \<Rightarrow> string" where
  "frac fp = (if fp = [] then [] else CHR ''.'' # fp)"

lemma strip_frac_stripped: "strip_frac ds = frac (stripped ds)"
  by (simp add: strip_frac_def frac_def stripped_def Let_def)

lemma stripped_digits: "digits ds \<Longrightarrow> digits (stripped ds)"
  using stripped_split [of ds] by (metis Un_iff set_append)

lemma decimal_rat_stripped: "decimal_rat ip (stripped ds) = decimal_rat ip ds"
  using stripped_split [of ds] decimal_rat_zeros by metis

definition expo :: "int option \<Rightarrow> string" where
  "expo ex = (case ex of None \<Rightarrow> [] | Some x \<Rightarrow> show_exp x)"

text \<open>The shape of a rendering by \<^verbatim>\<open>%g\<close> and the rational number it denotes.\<close>

definition text_of :: "string \<Rightarrow> string \<Rightarrow> int option \<Rightarrow> string" where
  "text_of ip fp ex = ip @ frac fp @ expo ex"

definition value_of :: "string \<Rightarrow> string \<Rightarrow> int option \<Rightarrow> rat" where
  "value_of ip fp ex = decimal_rat ip fp * bpow 10 (case ex of None \<Rightarrow> 0 | Some x \<Rightarrow> x)"

lemma decimal_rat_split: "decimal_rat (take k ds) (drop k ds) = of_int (read_dec ds) / 10 ^ (length ds - k)"
  by (simp add: decimal_rat_def)

lemma bpow_10_nat: "bpow 10 (int n) = 10 ^ n"
  by (simp add: bpow_nat)

lemma bpow_10_diff: "bpow 10 (int a - int b) = 10 ^ a / 10 ^ b"
proof -
  have "bpow 10 (int a) = bpow 10 (int a - int b) * bpow 10 (int b)" by (simp flip: bpow_add)
  then show ?thesis by (simp add: bpow_10_nat)
qed

text \<open>The digits and the exponent that \<^verbatim>\<open>%.17g\<close> shows.\<close>

lemma show_g_mag_text:
  assumes "0 < m" "ds = show_fixed 17 d" "digits ds" "length ds = 17" "read_dec ds = d"
    and "show_g_mag 17 m = (if - 4 \<le> x \<and> x < 17
         then (if 0 \<le> x
               then take (nat x + 1) ds @ strip_frac (drop (nat x + 1) ds)
               else ''0'' @ strip_frac (replicate (nat (- x) - 1) CHR ''0'' @ ds))
         else take 1 ds @ strip_frac (drop 1 ds) @ show_exp x)"
  shows "\<exists>ip fp ex. show_g_mag 17 m = text_of ip fp ex \<and> ip \<noteq> [] \<and> digits ip \<and> digits fp \<and>
    value_of ip fp ex = of_int d * bpow 10 (x - 16)"
proof -
  have sub: "digits (take k ds)" "digits (drop k ds)" for k using assms(3) by (meson in_set_takeD in_set_dropD)+
  consider (pos) "0 \<le> x" "x < 17" | (neg) "- 4 \<le> x" "x < 0" | (exp) "\<not> (- 4 \<le> x \<and> x < 17)" by linarith
  then show ?thesis
  proof cases
    case pos
    let ?k = "nat x + 1"
    have v: "value_of (take ?k ds) (stripped (drop ?k ds)) None = of_int d * bpow 10 (x - 16)"
      using pos assms(4,5) bpow_10_diff [of "nat x" 16]
      by (simp add: value_of_def decimal_rat_stripped decimal_rat_split power_diff)
    show ?thesis
      by (rule exI [of _ "take ?k ds"], rule exI [of _ "stripped (drop ?k ds)"], rule exI [of _ None])
        (use pos assms(4,6) sub(1) stripped_digits [OF sub(2), of ?k] v in \<open>auto simp: text_of_def strip_frac_stripped expo_def\<close>)
  next
    case neg
    let ?z = "replicate (nat (- x) - 1) CHR ''0''"
    have "value_of ''0'' (stripped (?z @ ds)) None = of_int d / 10 ^ (nat (- x) - 1 + 17)"
      using assms(4,5) read_dec_append [of "''0'' @ ?z" ds] read_dec_zeros [of "Suc (nat (- x) - 1)"]
      by (simp only: value_of_def decimal_rat_stripped) (simp add: decimal_rat_def)
    also have "\<dots> = of_int d * bpow 10 (x - 16)"
      using neg bpow_10_diff [of 0 "nat (- x) - 1 + 17"] by (simp add: algebra_simps)
    finally have v: "value_of ''0'' (stripped (?z @ ds)) None = of_int d * bpow 10 (x - 16)" .
    have "digits (?z @ ds)" using assms(3) by (auto simp: isdigit_def)
    from stripped_digits [OF this] show ?thesis
      by (intro exI [of _ "''0''"] exI [of _ "stripped (?z @ ds)"] exI [of _ None])
        (use neg assms(6) v in \<open>auto simp: text_of_def strip_frac_stripped expo_def isdigit_def\<close>)
  next
    case exp
    have "value_of (take 1 ds) (stripped (drop 1 ds)) (Some x) = of_int d / 10 ^ 16 * bpow 10 x"
      using assms(4,5) by (simp only: value_of_def decimal_rat_stripped decimal_rat_split) simp
    also have "\<dots> = of_int d * bpow 10 (x - 16)"
    proof -
      have "bpow 10 x = bpow 10 (x - 16) * bpow 10 (int 16)" by (simp flip: bpow_add)
      then show ?thesis by (simp only: bpow_10_nat) simp
    qed
    finally have v: "value_of (take 1 ds) (stripped (drop 1 ds)) (Some x) = of_int d * bpow 10 (x - 16)" .
    show ?thesis
      by (rule exI [of _ "take 1 ds"], rule exI [of _ "stripped (drop 1 ds)"], rule exI [of _ "Some x"])
        (use exp assms(4,6) sub(1) [of 1] stripped_digits [OF sub(2), of 1] v in \<open>auto simp: text_of_def strip_frac_stripped expo_def\<close>)
  qed
qed


lemma show_g_mag_17:
  assumes "0 < m"
  shows "\<exists>ip fp ex. show_g_mag 17 m = text_of ip fp ex \<and> ip \<noteq> [] \<and> digits ip \<and> digits fp \<and>
    \<bar>value_of ip fp ex - m\<bar> \<le> m / (2 * 10 ^ 16)"
proof -
  define x0 where "x0 = ilog 10 m"
  define u where "u = bpow 10 (x0 - 16)"
  define d0 where "d0 = rne (m / u)"
  define x where "x = (if d0 = 10 ^ 17 then x0 + 1 else x0)"
  define d where "d = (if d0 = 10 ^ 17 then 10 ^ 16 else d0)"
  have u: "0 < u" by (simp add: u_def)
  have pow: "bpow 10 x0 = 10 ^ 16 * u" "bpow 10 (x0 + 1) = 10 ^ 17 * u"
    using bpow_add [of 10 "int 16" "x0 - 16"] bpow_add [of 10 "int 17" "x0 - 16"]
    unfolding bpow_10_nat u_def by (simp_all add: add.commute)
  have "bpow 10 x0 \<le> m" "m < bpow 10 (x0 + 1)" using ilog_bounds [of 10 m] assms by (simp_all add: x0_def)
  then have q: "of_int (10 ^ 16) \<le> m / u" "m / u \<le> of_int (10 ^ 17)" unfolding pow using u by (simp_all add: field_simps)
  from rne_bounds(1) [OF q(1)] rne_bounds(2) [OF q(2)] have d0: "10 ^ 16 \<le> d0" "d0 \<le> 10 ^ 17" by (simp_all add: d0_def)
  have err: "\<bar>of_int d0 - m / u\<bar> \<le> 1 / 2"
    unfolding d0_def by (rule rne_error)
  have val: "of_int d * bpow 10 (x - 16) = of_int d0 * u"
  proof (cases "d0 = 10 ^ 17")
    case True
    have "bpow 10 (x0 + 1 - 16) = 10 * u" using bpow_add [of 10 1 "x0 - 16"] by (simp add: u_def algebra_simps)
    then show ?thesis using True by (simp add: d_def x_def)
  qed (simp add: d_def x_def u_def)
  have d: "0 \<le> d" "d < 10 ^ 17" using d0 by (auto simp: d_def)
  have "show_g_mag 17 m = (if - 4 \<le> x \<and> x < 17
         then (if 0 \<le> x
               then take (nat x + 1) (show_fixed 17 d) @ strip_frac (drop (nat x + 1) (show_fixed 17 d))
               else ''0'' @ strip_frac (replicate (nat (- x) - 1) CHR ''0'' @ show_fixed 17 d))
         else take 1 (show_fixed 17 d) @ strip_frac (drop 1 (show_fixed 17 d)) @ show_exp x)"
    unfolding show_g_mag_def Let_def x_def d_def d0_def u_def x0_def by simp
  from show_g_mag_text [OF assms refl show_fixed_simps(2,1) read_show_fixed [OF d] this]
  obtain ip fp ex where shape: "show_g_mag 17 m = text_of ip fp ex" "ip \<noteq> []" "digits ip" "digits fp"
    "value_of ip fp ex = of_int d * bpow 10 (x - 16)" by blast
  have "\<bar>of_int d0 * u - m\<bar> = \<bar>of_int d0 - m / u\<bar> * u"
  proof -
    have "of_int d0 * u - m = (of_int d0 - m / u) * u" using u by (simp add: left_diff_distrib)
    then show ?thesis using u by (simp add: abs_mult)
  qed
  also have "\<dots> \<le> 1 / 2 * u" using err u by (intro mult_right_mono) auto
  also have "\<dots> \<le> m / (2 * 10 ^ 16)" using \<open>bpow 10 x0 \<le> m\<close> unfolding pow by simp
  finally have "\<bar>value_of ip fp ex - m\<bar> \<le> m / (2 * 10 ^ 16)" unfolding shape(5) val .
  with shape(1-4) show ?thesis by blast
qed


section \<open>Reading a decimal text\<close>

lemma takeWhile_digits: "digits ds \<Longrightarrow> (rest = [] \<or> \<not> isdigit (hd rest)) \<Longrightarrow>
    takeWhile isdigit (ds @ rest) = ds \<and> dropWhile isdigit (ds @ rest) = rest"
  using takeWhile_append_stop [of ds isdigit rest] dropWhile_append_stop [of ds isdigit rest] by blast

lemma show_dec_all_digits: "0 \<le> i \<Longrightarrow> digits (show_dec i)"
  by (rule show_dec_digits)

lemma exponent_digits: "digits ((if \<bar>x\<bar> < 10 then ''0'' else []) @ show_dec \<bar>x\<bar>)"
  using show_dec_all_digits [of "\<bar>x\<bar>"] by (auto simp: isdigit_def)

lemma read_dec_exponent: "read_dec ((if \<bar>x\<bar> < 10 then ''0'' else []) @ show_dec \<bar>x\<bar>) = \<bar>x\<bar>"
  using read_dec_append [of "''0''" "show_dec \<bar>x\<bar>"] by (auto simp: read_dec_def [of "''0''"] digit_val_def)

lemma read_show_exp: "read_exponent CHR ''E'' (show_exp x) = x"
proof -
  define ds where "ds = (if \<bar>x\<bar> < 10 then ''0'' else []) @ show_dec \<bar>x\<bar>"
  have e: "show_exp x = CHR ''e'' # (if x < 0 then CHR ''-'' else CHR ''+'') # ds" by (simp add: show_exp_def ds_def)
  have tw: "takeWhile isdigit ds = ds" using takeWhile_digits [OF exponent_digits, of "[]" x] by (simp add: ds_def)
  have "read_dec ds = \<bar>x\<bar>" unfolding ds_def by (rule read_dec_exponent)
  moreover have "toupper CHR ''e'' = CHR ''E''" by code_simp
  ultimately show ?thesis unfolding e read_exponent_def Let_def by (simp add: tw del: takeWhile_eq_all_conv)
qed

lemma expo_read: "read_exponent CHR ''E'' (expo ex) = (case ex of None \<Rightarrow> 0 | Some x \<Rightarrow> x)"
  by (cases ex) (simp_all add: expo_def read_show_exp, simp add: read_exponent_def)

lemma expo_stop: "expo ex = [] \<or> hd (expo ex) = CHR ''e''"
  by (cases ex) (simp_all add: expo_def show_exp_def)

lemma not_space: "\<not> isspace CHR ''-''"
  by (simp add: isspace_def)

lemma not_digits: "\<not> isdigit CHR ''e''" "\<not> isdigit CHR ''.''"
  by (simp_all add: isdigit_def)

lemma read_mantissa_text:
  assumes "digits ip" "digits fp"
  shows "read_mantissa isdigit (text_of ip fp ex) = (ip, fp, expo ex)"
proof -
  have ex: "expo ex = [] \<or> \<not> isdigit (hd (expo ex))" using expo_stop [of ex] not_digits by auto
  show ?thesis
  proof (cases "fp = []")
    case True
    have "lex_peek (expo ex) \<noteq> Some CHR ''.''" using expo_stop [of ex] by (cases "expo ex") auto
    with True takeWhile_digits [OF assms(1) ex] show ?thesis by (simp add: read_mantissa_def text_of_def frac_def Let_def)
  next
    case False
    have "takeWhile isdigit (ip @ CHR ''.'' # fp @ expo ex) = ip"
      "dropWhile isdigit (ip @ CHR ''.'' # fp @ expo ex) = CHR ''.'' # fp @ expo ex"
      using takeWhile_digits [OF assms(1), of "CHR ''.'' # fp @ expo ex"] not_digits by simp_all
    with False takeWhile_digits [OF assms(2) ex] show ?thesis
      by (simp add: read_mantissa_def text_of_def frac_def Let_def)
  qed
qed

lemma text_head:
  assumes "digits ip" "ip \<noteq> []"
  shows "isdigit (hd (text_of ip fp ex))" "text_of ip fp ex \<noteq> []"
  using assms by (cases ip; auto simp: text_of_def)+

text \<open>The second character of a decimal text is no \<open>x\<close>, so it is not read as hexadecimal.\<close>

lemma text_not_hex:
  assumes "digits ip" "ip \<noteq> []" "digits fp"
  shows "take 2 (to_upper (text_of ip fp ex)) \<noteq> ''0X''"
proof
  assume hex: "take 2 (to_upper (text_of ip fp ex)) = ''0X''"
  obtain c cs where ip: "ip = c # cs" using assms(2) by (cases ip) auto
  then have t: "text_of ip fp ex = c # cs @ frac fp @ expo ex" by (simp add: text_of_def)
  obtain d ds where d: "cs @ frac fp @ expo ex = d # ds" "toupper d = CHR ''X''"
    using hex unfolding t by (cases "cs @ frac fp @ expo ex") (auto simp: to_upper_def)
  have "isdigit d \<or> d = CHR ''.'' \<or> d = CHR ''e''"
    using d(1) assms(1,3) ip expo_stop [of ex] by (cases cs; cases fp; cases "expo ex") (auto simp: frac_def)
  moreover have "toupper CHR ''e'' = CHR ''E''" "toupper CHR ''.'' = CHR ''.''" by code_simp+
  ultimately show False using d(2) by (auto simp: toupper_def islower_def isdigit_def)
qed

lemma digit_not_special:
  assumes "isdigit c"
  shows "\<not> isspace c" "c \<noteq> CHR ''-''" "c \<noteq> CHR ''+''" "toupper c = c" "c \<noteq> CHR ''I''" "c \<noteq> CHR ''N''"
  using assms by (auto simp: isdigit_def isspace_def toupper_def islower_def)

lemma stod_text:
  assumes "digits ip" "ip \<noteq> []" "digits fp"
  shows "stod (sign_prefix s @ text_of ip fp ex) = range_checked s (value_of ip fp ex)"
proof -
  let ?t = "text_of ip fp ex"
  obtain c cs where t: "?t = c # cs" "isdigit c" using text_head [OF assms(1,2), of fp ex] by (cases ?t) auto
  note c = digit_not_special [OF t(2)]
  have sp: "dropWhile isspace (CHR ''-'' # ?t) = CHR ''-'' # ?t" "dropWhile isspace ?t = ?t" "lex_peek ?t = Some c"
    using c(1) not_space by (simp_all add: t(1))
  have "take 3 (to_upper ?t) \<noteq> ''INF''" "take 3 (to_upper ?t) \<noteq> ''NAN''" using c(4-6) by (auto simp: t(1) to_upper_def)
  then show ?thesis
    using text_not_hex [OF assms, of ex] assms(2) c(2,3)
    by (cases s)
      (simp_all add: stod_def sign_prefix_def sp not_space read_mantissa_text [OF assms(1,3)] expo_read value_of_def split_beta)
qed

text \<open>\<^verbatim>\<open>std::stod\<close> inverts \<^verbatim>\<open>%.17g\<close> on normal doubles.\<close>

definition storable :: "double \<Rightarrow> bool" where
  "storable d \<longleftrightarrow> (case d of Fin s m \<Rightarrow> m = 0 \<or> normal_mag m \<and> \<not> too_big m | _ \<Rightarrow> False)"

lemma show_g_text:
  assumes "storable (Fin s m)"
  shows "\<exists>ip fp ex. show_g 17 (Fin s m) = sign_prefix s @ text_of ip fp ex \<and> ip \<noteq> [] \<and> digits ip \<and> digits fp \<and>
    range_checked s (value_of ip fp ex) = Inr (Fin s m)"
proof (cases "m = 0")
  case True
  have "show_g 17 (Fin s m) = sign_prefix s @ text_of ''0'' [] None" "value_of ''0'' [] None = 0"
    by (simp_all add: True text_of_def frac_def expo_def value_of_def decimal_rat_def read_dec_def digit_val_def)
  moreover have "range_checked s 0 = Inr (Fin s m)" by (simp add: True range_checked_def)
  ultimately show ?thesis
    by (intro exI [of _ "''0''"] exI [of _ "[]"] exI [of _ None]) (simp add: isdigit_def)
next
  case False
  with assms have norm: "normal_mag m" "\<not> too_big m" by (simp_all add: storable_def)
  then have m: "0 < m" "- 1022 \<le> ilog 2 m" by (simp_all add: normal_mag_def)
  obtain ip fp ex where t: "show_g_mag 17 m = text_of ip fp ex" "ip \<noteq> []" "digits ip" "digits fp"
    "\<bar>value_of ip fp ex - m\<bar> \<le> m / (2 * 10 ^ 16)" using show_g_mag_17 [OF m(1)] by blast
  from round_mag_near [OF norm(1) t(5)] norm(2) m have "range_checked s (value_of ip fp ex) = Inr (Fin s m)"
    by (simp add: range_checked_def)
  with t False show ?thesis by auto
qed

lemma stod_show_g: "storable d \<Longrightarrow> stod (show_g 17 d) = Inr d"
proof -
  assume d: "storable d"
  then obtain s m where sm: "d = Fin s m" by (cases d) (auto simp: storable_def)
  from show_g_text [OF d [unfolded sm]] stod_text show ?thesis unfolding sm by metis
qed

end
