(* ===== verification/Json.thy ===== *)
theory Json
  imports Decimal "HOL-Library.AList"
begin

text \<open>
  JSON values, their parser and their writer (\<^verbatim>\<open>util/json.hpp\<close>, \<^verbatim>\<open>util/json.cpp\<close>).  The parser works on the
  unread text; the position it reports in an exception is the length \<open>n\<close> of the whole text less that of
  the unread text.  Objects keep their members in insertion order.  The recursion and its loops carry fuel, the
  length of the text, which is shown never to run out.
\<close>

datatype json =
    JNull
  | JBool bool
  | JNumber double
  | JString string
  | JArray "json list"
  | JObject "(string \<times> json) list"

definition object_set :: "string \<Rightarrow> json \<Rightarrow> (string \<times> json) list \<Rightarrow> (string \<times> json) list" where
  "object_set k v kvs = AList.update k v kvs"

fun json_find :: "json \<Rightarrow> string \<Rightarrow> json option" where
  "json_find (JObject kvs) k = map_of kvs k"
| "json_find _ k = None"

fun as_number :: "json \<Rightarrow> double" where
  "as_number (JNumber d) = d"
| "as_number _ = dzero"

fun as_string :: "json \<Rightarrow> string" where
  "as_string (JString s) = s"
| "as_string _ = []"

fun as_bool :: "json \<Rightarrow> bool" where
  "as_bool (JBool b) = b"
| "as_bool _ = False"

section \<open>The parser\<close>

definition json_peek :: "string \<Rightarrow> char" where
  "json_peek s = (case s of [] \<Rightarrow> CHR 0x00 | c # _ \<Rightarrow> c)"

definition json_skip :: "string \<Rightarrow> string" where
  "json_skip s = dropWhile isspace s"

definition json_error :: "nat \<Rightarrow> string \<Rightarrow> string \<Rightarrow> error" where
  "json_error n what s = RuntimeError (what @ '' at position '' @ show_nat (n - length s))"

definition json_expect :: "nat \<Rightarrow> char \<Rightarrow> string \<Rightarrow> string result" where
  "json_expect n c s =
     (if json_peek s \<noteq> c
      then Inl (json_error n (''json: expected '' @ [CHR 0x27, c, CHR 0x27]) s)
      else Inr (drop 1 s))"

definition unescape :: "char \<Rightarrow> char" where
  "unescape c = (if c = CHR ''n'' then CHR 0x0A else if c = CHR ''t'' then CHR 0x09 else c)"

text \<open>The loop of \<^verbatim>\<open>parse_raw_string\<close>, after the opening quote.\<close>

fun raw_chars :: "string \<Rightarrow> (string \<times> string) result" where
  "raw_chars [] = Inl (RuntimeError ''json: unterminated string'')"
| "raw_chars (c # cs) =
     (if c = CHR 0x22 then Inr ([], cs)
      else if c = CHR 0x5C
      then (case cs of
              [] \<Rightarrow> Inl (RuntimeError ''json: unterminated string'')
            | e # cs' \<Rightarrow> rbind (raw_chars cs') (\<lambda>(s, rest). Inr (unescape e # s, rest)))
      else rbind (raw_chars cs) (\<lambda>(s, rest). Inr (c # s, rest)))"

definition parse_raw_string :: "nat \<Rightarrow> string \<Rightarrow> (string \<times> string) result" where
  "parse_raw_string n s = rbind (json_expect n CHR 0x22 s) raw_chars"

definition parse_bool :: "nat \<Rightarrow> string \<Rightarrow> (json \<times> string) result" where
  "parse_bool n s =
     (if take 4 s = ''true'' then Inr (JBool True, drop 4 s)
      else if take 5 s = ''false'' then Inr (JBool False, drop 5 s)
      else Inl (json_error n ''json: invalid literal'' s))"

definition parse_null :: "nat \<Rightarrow> string \<Rightarrow> (json \<times> string) result" where
  "parse_null n s =
     (if take 4 s = ''null'' then Inr (JNull, drop 4 s)
      else Inl (json_error n ''json: invalid literal'' s))"

text \<open>The characters that \<^verbatim>\<open>parse_number\<close> takes, and what follows them.\<close>

definition scan_digits :: "string \<Rightarrow> string \<times> string" where
  "scan_digits s = (takeWhile isdigit s, dropWhile isdigit s)"

definition scan_opt :: "(char \<Rightarrow> bool) \<Rightarrow> (string \<Rightarrow> string \<times> string) \<Rightarrow> string \<Rightarrow> string \<times> string" where
  "scan_opt P f s =
     (if P (json_peek s) then let (x, rest) = f (drop 1 s) in (take 1 s @ x, rest) else ([], s))"

definition scan_seq ::
  "(string \<Rightarrow> string \<times> string) \<Rightarrow> (string \<Rightarrow> string \<times> string) \<Rightarrow> string \<Rightarrow> string \<times> string"
where
  "scan_seq f g s = (let (x, s) = f s; (y, s) = g s in (x @ y, s))"

definition scan_nothing :: "string \<Rightarrow> string \<times> string" where
  "scan_nothing s = ([], s)"

definition scan_number :: "string \<Rightarrow> string \<times> string" where
  "scan_number =
     scan_seq (scan_opt (\<lambda>c. c = CHR ''-'') scan_nothing)
       (scan_seq scan_digits
         (scan_seq (scan_opt (\<lambda>c. c = CHR ''.'') scan_digits)
           (scan_opt (\<lambda>c. c = CHR ''e'' \<or> c = CHR ''E'')
             (scan_seq (scan_opt (\<lambda>c. c = CHR ''+'' \<or> c = CHR ''-'') scan_nothing) scan_digits))))"

definition parse_number :: "nat \<Rightarrow> string \<Rightarrow> (json \<times> string) result" where
  "parse_number n s =
     (let (lexeme, rest) = scan_number s
      in if lexeme = [] then Inl (json_error n ''json: invalid number'' s)
         else rbind (stod lexeme) (\<lambda>d. Inr (JNumber d, rest)))"

text \<open>The cases of \<^verbatim>\<open>parse_value\<close> that do not recurse.\<close>

definition parse_atom :: "nat \<Rightarrow> string \<Rightarrow> (json \<times> string) result" where
  "parse_atom n s =
     (let c = json_peek s
      in if c = CHR 0x22 then rbind (parse_raw_string n s) (\<lambda>(x, s). Inr (JString x, s))
         else if c = CHR ''t'' \<or> c = CHR ''f'' then parse_bool n s
         else if c = CHR ''n'' then parse_null n s
         else parse_number n s)"

text \<open>A key with its colon.\<close>

definition parse_key :: "nat \<Rightarrow> string \<Rightarrow> (string \<times> string) result" where
  "parse_key n s =
     rbind (parse_raw_string n (json_skip s)) (\<lambda>(key, s).
     rbind (json_expect n CHR '':'' (json_skip s)) (\<lambda>s. Inr (key, s)))"

text \<open>
  The loops of \<^verbatim>\<open>parse_object\<close> and \<^verbatim>\<open>parse_array\<close>; \<open>pv\<close> is \<^verbatim>\<open>parse_value\<close>, which they call on the
  values in the object or array.
\<close>

fun object_loop ::
  "(string \<Rightarrow> (json \<times> string) result) \<Rightarrow> nat \<Rightarrow> nat \<Rightarrow> (string \<times> json) list \<Rightarrow> string \<Rightarrow> (json \<times> string) result"
where
  "object_loop pv n 0 obj s = Inl OutOfFuel"
| "object_loop pv n (Suc k) obj s =
     rbind (parse_key n s) (\<lambda>(key, s).
     rbind (pv s) (\<lambda>(v, s).
       let obj = object_set key v obj; s = json_skip s
       in if json_peek s = CHR '','' then object_loop pv n k obj (drop 1 s)
          else rbind (json_expect n CHR ''}'' s) (\<lambda>s. Inr (JObject obj, s))))"

fun array_loop ::
  "(string \<Rightarrow> (json \<times> string) result) \<Rightarrow> nat \<Rightarrow> nat \<Rightarrow> json list \<Rightarrow> string \<Rightarrow> (json \<times> string) result"
where
  "array_loop pv n 0 vs s = Inl OutOfFuel"
| "array_loop pv n (Suc k) vs s =
     rbind (pv s) (\<lambda>(v, s).
       let vs = vs @ [v]; s = json_skip s
       in if json_peek s = CHR '','' then array_loop pv n k vs (json_skip (drop 1 s))
          else rbind (json_expect n CHR '']'' s) (\<lambda>s. Inr (JArray vs, s)))"

definition parse_object ::
  "(string \<Rightarrow> (json \<times> string) result) \<Rightarrow> nat \<Rightarrow> nat \<Rightarrow> string \<Rightarrow> (json \<times> string) result"
where
  "parse_object pv n k s =
     rbind (json_expect n CHR ''{'' s) (\<lambda>s.
       let s = json_skip s
       in if json_peek s = CHR ''}'' then Inr (JObject [], drop 1 s) else object_loop pv n k [] s)"

definition parse_array ::
  "(string \<Rightarrow> (json \<times> string) result) \<Rightarrow> nat \<Rightarrow> nat \<Rightarrow> string \<Rightarrow> (json \<times> string) result"
where
  "parse_array pv n k s =
     rbind (json_expect n CHR ''['' s) (\<lambda>s.
       let s = json_skip s
       in if json_peek s = CHR '']'' then Inr (JArray [], drop 1 s) else array_loop pv n k [] s)"

fun parse_value :: "nat \<Rightarrow> nat \<Rightarrow> string \<Rightarrow> (json \<times> string) result" where
  "parse_value n 0 s = Inl OutOfFuel"
| "parse_value n (Suc k) s =
     (let s = json_skip s
      in if json_peek s = CHR ''{'' then parse_object (parse_value n k) n k s
         else if json_peek s = CHR ''['' then parse_array (parse_value n k) n k s
         else parse_atom n s)"

definition parse_json :: "string \<Rightarrow> json result" where
  "parse_json s = rbind (parse_value (length s) (length s + 1) (json_skip s)) (\<lambda>(v, rest). Inr v)"

section \<open>The writer\<close>

definition hex_digit :: "nat \<Rightarrow> char" where
  "hex_digit d = ''0123456789abcdef'' ! d"

definition escape_char :: "char \<Rightarrow> string" where
  "escape_char c =
     (if c = CHR 0x22 then [CHR 0x5C, CHR 0x22]
      else if c = CHR 0x5C then [CHR 0x5C, CHR 0x5C]
      else if c = CHR 0x0A then [CHR 0x5C, CHR ''n'']
      else if c = CHR 0x09 then [CHR 0x5C, CHR ''t'']
      else if c = CHR 0x0D then [CHR 0x5C, CHR ''r'']
      else if code c < 32
      then [CHR 0x5C, CHR ''u'', CHR ''0'', CHR ''0'', hex_digit (code c div 16 mod 16), hex_digit (code c mod 16)]
      else [c])"

definition write_escaped_string :: "string \<Rightarrow> string" where
  "write_escaped_string s = [CHR 0x22] @ concat (map escape_char s) @ [CHR 0x22]"

fun write_json :: "json \<Rightarrow> string" where
  "write_json JNull = ''null''"
| "write_json (JBool b) = (if b then ''true'' else ''false'')"
| "write_json (JNumber d) = show_g 17 d"
| "write_json (JString s) = write_escaped_string s"
| "write_json (JArray vs) = ''['' @ join_with '','' (map write_json vs) @ '']''"
| "write_json (JObject kvs) =
     ''{'' @ join_with '','' (map (\<lambda>(k, v). write_escaped_string k @ '':'' @ write_json v) kvs) @ ''}''"

definition to_json :: "json \<Rightarrow> string" where
  "to_json v = write_json v"

section \<open>The fuel is enough\<close>

lemma length_skip: "length (json_skip s) \<le> length s"
  by (simp add: json_skip_def length_dropWhile_le)

lemma raw_chars_length: "raw_chars s = Inr (x, rest) \<Longrightarrow> length rest < length s"
proof (induction s arbitrary: x rest rule: raw_chars.induct)
  case (2 c cs)
  then show ?case by (auto split: if_splits list.splits) fastforce+
qed simp

lemma expect_length: "json_expect n c s = Inr s' \<Longrightarrow> length s' \<le> length s"
  by (auto simp: json_expect_def split: if_splits)

lemma raw_string_length: "parse_raw_string n s = Inr (x, rest) \<Longrightarrow> length rest \<le> length s"
  unfolding parse_raw_string_def using raw_chars_length expect_length by fastforce

text \<open>A scanner splits its input.\<close>

definition splits :: "(string \<Rightarrow> string \<times> string) \<Rightarrow> bool" where
  "splits f \<longleftrightarrow> (\<forall>s. fst (f s) @ snd (f s) = s)"

lemma splits_scanners:
  "splits scan_nothing" "splits scan_digits" "splits f \<Longrightarrow> splits (scan_opt P f)"
  "splits f \<Longrightarrow> splits g \<Longrightarrow> splits (scan_seq f g)"
  by (simp_all add: splits_def scan_nothing_def scan_digits_def scan_opt_def scan_seq_def split_beta Let_def)

lemma scan_number_length: "scan_number s = (x, rest) \<Longrightarrow> length rest \<le> length s"
proof -
  assume "scan_number s = (x, rest)"
  moreover have "splits scan_number" unfolding scan_number_def by (intro splits_scanners)
  ultimately have "x @ rest = s" unfolding splits_def by (metis fst_conv snd_conv)
  then show ?thesis by auto
qed

lemma atom_length:
  "parse_bool n s = Inr (v, rest) \<Longrightarrow> length rest \<le> length s"
  "parse_null n s = Inr (v, rest) \<Longrightarrow> length rest \<le> length s"
  "parse_number n s = Inr (v, rest) \<Longrightarrow> length rest \<le> length s"
  using scan_number_length [of s]
  by (auto simp: parse_bool_def parse_null_def parse_number_def split: if_splits prod.splits)

lemma parse_atom_length: "parse_atom n s = Inr (v, rest) \<Longrightarrow> length rest \<le> length s"
  unfolding parse_atom_def Let_def by (auto split: if_splits dest: atom_length raw_string_length)

lemma parse_key_length: "parse_key n s = Inr (key, rest) \<Longrightarrow> length rest \<le> length s"
proof -
  assume "parse_key n s = Inr (key, rest)"
  then obtain s' where "parse_raw_string n (json_skip s) = Inr (key, s')"
    "json_expect n CHR '':'' (json_skip s') = Inr rest" by (auto simp: parse_key_def)
  with raw_string_length expect_length length_skip show ?thesis by (meson order_trans)
qed

text \<open>A parser of values that consumes its input and has fuel for inputs below a bound.\<close>

definition value_parser :: "nat \<Rightarrow> (string \<Rightarrow> (json \<times> string) result) \<Rightarrow> bool" where
  "value_parser b pv \<longleftrightarrow>
     (\<forall>s. length s < b \<longrightarrow> pv s \<noteq> Inl OutOfFuel \<and> (\<forall>v rest. pv s = Inr (v, rest) \<longrightarrow> length rest \<le> length s))"

lemma raw_chars_fuel: "raw_chars s \<noteq> Inl OutOfFuel"
  by (induction s rule: raw_chars.induct) (auto simp: rbind_eq_Inl split: list.splits)

lemma json_expect_fuel: "json_expect n c s \<noteq> Inl OutOfFuel"
  by (simp add: json_expect_def json_error_def)

lemma stod_fuel: "stod s \<noteq> Inl OutOfFuel"
  by (simp add: stod_def range_checked_def Let_def split_beta)

lemma parse_key_fuel: "parse_key n s \<noteq> Inl OutOfFuel"
  by (auto simp: parse_key_def parse_raw_string_def rbind_eq_Inl json_expect_fuel raw_chars_fuel)

lemma parse_atom_fuel: "parse_atom n s \<noteq> Inl OutOfFuel"
  by (auto simp: parse_atom_def parse_raw_string_def parse_bool_def parse_null_def parse_number_def json_error_def
      rbind_eq_Inl json_expect_fuel raw_chars_fuel stod_fuel Let_def split: prod.splits)

lemma json_expect_Inr: "json_expect n c s = Inr s' \<longleftrightarrow> json_peek s = c \<and> s' = drop 1 s"
  by (auto simp: json_expect_def)

lemma peek_shorter: "json_peek s = c \<Longrightarrow> c \<noteq> CHR 0x00 \<Longrightarrow> length (drop 1 s) < length s"
  by (cases s) (auto simp: json_peek_def)

lemma array_loop_fuel:
  assumes "value_parser b pv"
  shows "length s < k \<Longrightarrow> length s < b \<Longrightarrow>
    array_loop pv n k vs s \<noteq> Inl OutOfFuel \<and> (\<forall>v rest. array_loop pv n k vs s = Inr (v, rest) \<longrightarrow> length rest \<le> length s)"
proof (induction k arbitrary: vs s)
  case (Suc k)
  show ?case
  proof (cases "pv s")
    case (Inl e)
    with assms Suc.prems show ?thesis by (auto simp: value_parser_def)
  next
    case (Inr x)
    obtain v r where x: "x = (v, r)" by (cases x)
    have r: "length r \<le> length s" using assms Suc.prems Inr x by (auto simp: value_parser_def)
    let ?r = "json_skip r"
    have r': "length ?r \<le> length s" using length_skip [of r] r by simp
    show ?thesis
    proof (cases "json_peek ?r = CHR '',''")
      case True
      have "length (drop 1 ?r) < length ?r" using peek_shorter [OF True] by simp
      then have shorter: "length (json_skip (drop 1 ?r)) < length s" using length_skip [of "drop 1 ?r"] r' by linarith
      with Suc.IH [of "json_skip (drop 1 ?r)" "vs @ [v]"] Suc.prems True Inr x show ?thesis by (auto simp: Let_def)
    next
      case False
      with Inr x r' json_expect_fuel show ?thesis by (auto simp: Let_def rbind_eq_Inl json_expect_Inr)
    qed
  qed
qed simp

lemma object_loop_fuel:
  assumes "value_parser b pv"
  shows "length s < k \<Longrightarrow> length s < b \<Longrightarrow>
    object_loop pv n k obj s \<noteq> Inl OutOfFuel \<and>
    (\<forall>v rest. object_loop pv n k obj s = Inr (v, rest) \<longrightarrow> length rest \<le> length s)"
proof (induction k arbitrary: obj s)
  case (Suc k)
  show ?case
  proof (cases "parse_key n s")
    case (Inl e)
    with parse_key_fuel [of n s] show ?thesis by auto
  next
    case (Inr y)
    note key = Inr
    obtain kk t where y: "y = (kk, t)" by (cases y)
    have t: "length t \<le> length s" using parse_key_length key y by blast
    show ?thesis
    proof (cases "pv t")
      case (Inl e)
      with assms Suc.prems t key y show ?thesis by (auto simp: value_parser_def)
    next
      case (Inr x)
      obtain v r where x: "x = (v, r)" by (cases x)
      have r: "length r \<le> length t" using assms Suc.prems Inr x t by (auto simp: value_parser_def)
      let ?r = "json_skip r"
      have r': "length ?r \<le> length s" using length_skip [of r] r t by simp
      show ?thesis
      proof (cases "json_peek ?r = CHR '',''")
        case True
        have "length (drop 1 ?r) < length s" using peek_shorter [OF True] r' by simp
        with Suc.IH [of "drop 1 ?r" "object_set kk v obj"] Suc.prems True Inr x key y show ?thesis by (auto simp: Let_def)
      next
        case False
        with Inr x r' json_expect_fuel key y show ?thesis by (auto simp: Let_def rbind_eq_Inl json_expect_Inr)
      qed
    qed
  qed
qed simp

lemma parse_value_fuel: "value_parser k (parse_value n k)"
proof (induction k)
  case (Suc k)
  show ?case unfolding value_parser_def
  proof (intro allI impI)
    fix s :: string
    assume s: "length s < Suc k"
    define t where "t = json_skip s"
    have t: "length t \<le> length s" using length_skip by (simp add: t_def)
    have pv: "parse_value n (Suc k) s =
      (if json_peek t = CHR ''{'' then parse_object (parse_value n k) n k t
       else if json_peek t = CHR ''['' then parse_array (parse_value n k) n k t else parse_atom n t)"
      by (simp add: t_def Let_def)
    have inner: "length (json_skip (drop 1 t)) < k" if "json_peek t = c" "c \<noteq> CHR 0x00" for c
      using peek_shorter [OF that] t s length_skip [of "drop 1 t"] by linarith
    have "length (json_skip (drop 1 t)) \<le> length t" using length_skip [of "drop 1 t"] by simp
    note len = this t
    consider (obj) "json_peek t = CHR ''{''" | (arr) "json_peek t = CHR ''[''"
      | (atom) "json_peek t \<noteq> CHR ''{''" "json_peek t \<noteq> CHR ''[''" by blast
    then show "parse_value n (Suc k) s \<noteq> Inl OutOfFuel \<and>
      (\<forall>v rest. parse_value n (Suc k) s = Inr (v, rest) \<longrightarrow> length rest \<le> length s)"
    proof cases
      case obj
      have "json_expect n CHR ''{'' t = Inr (drop 1 t)" using obj by (simp add: json_expect_Inr)
      with obj object_loop_fuel [OF Suc.IH, of "json_skip (drop 1 t)" k n "[]"] inner [OF obj] len show ?thesis
        unfolding pv by (auto simp: parse_object_def Let_def simp del: parse_value.simps)
    next
      case arr
      have "json_expect n CHR ''['' t = Inr (drop 1 t)" using arr by (simp add: json_expect_Inr)
      with arr array_loop_fuel [OF Suc.IH, of "json_skip (drop 1 t)" k n "[]"] inner [OF arr] len show ?thesis
        unfolding pv by (auto simp: parse_array_def Let_def simp del: parse_value.simps)
    next
      case atom
      with parse_atom_fuel len(2) show ?thesis unfolding pv by (auto dest: parse_atom_length)
    qed
  qed
qed (simp add: value_parser_def)

lemma parse_json_fuel: "parse_json s \<noteq> Inl OutOfFuel"
  using parse_value_fuel [of "length s + 1" "length s"] length_skip [of s]
  by (auto simp: parse_json_def value_parser_def rbind_eq_Inl)

section \<open>Reading back what was written\<close>

text \<open>The strings whose escapes the parser knows.\<close>

definition plain :: "string \<Rightarrow> bool" where
  "plain s \<longleftrightarrow> (\<forall>c \<in> set s. 32 \<le> code c \<or> c = CHR 0x0A \<or> c = CHR 0x09)"

fun json_ok :: "json \<Rightarrow> bool" where
  "json_ok (JNumber d) = storable d"
| "json_ok (JString s) = plain s"
| "json_ok (JArray vs) = (\<forall>v \<in> set vs. json_ok v)"
| "json_ok (JObject kvs) = (distinct (map fst kvs) \<and> (\<forall>(k, v) \<in> set kvs. plain k \<and> json_ok v))"
| "json_ok _ = True"

text \<open>What follows a value in a written text.\<close>

definition ends_value :: "string \<Rightarrow> bool" where
  "ends_value s \<longleftrightarrow> s = [] \<or> hd s = CHR '','' \<or> hd s = CHR '']'' \<or> hd s = CHR ''}''"

lemma escape_char_simps [simp]:
  "escape_char CHR 0x22 = [CHR 0x5C, CHR 0x22]" "escape_char CHR 0x5C = [CHR 0x5C, CHR 0x5C]"
  "escape_char CHR 0x0A = [CHR 0x5C, CHR ''n'']" "escape_char CHR 0x09 = [CHR 0x5C, CHR ''t'']"
  by (simp_all add: escape_char_def)

lemma raw_chars_escape: "plain s \<Longrightarrow> raw_chars (concat (map escape_char s) @ CHR 0x22 # rest) = Inr (s, rest)"
proof (induction s)
  case (Cons c s)
  then have IH: "raw_chars (concat (map escape_char s) @ CHR 0x22 # rest) = Inr (s, rest)"
    and c: "32 \<le> code c \<or> c = CHR 0x0A \<or> c = CHR 0x09" by (auto simp: plain_def)
  consider "c = CHR 0x22" | "c = CHR 0x5C" | "c = CHR 0x0A" | "c = CHR 0x09"
    | "32 \<le> code c" "c \<noteq> CHR 0x22" "c \<noteq> CHR 0x5C" "c \<noteq> CHR 0x0A" "c \<noteq> CHR 0x09" "c \<noteq> CHR 0x0D"
    using c by fastforce
  then show ?case by cases (use IH in \<open>simp_all add: escape_char_def [of c] unescape_def\<close>)
qed simp

lemma parse_raw_string_written: "plain s \<Longrightarrow> parse_raw_string n (write_escaped_string s @ rest) = Inr (s, rest)"
  by (simp add: parse_raw_string_def write_escaped_string_def json_expect_def json_peek_def raw_chars_escape)

lemma scan_digits_stop: "digits ds \<Longrightarrow> rest = [] \<or> \<not> isdigit (hd rest) \<Longrightarrow> scan_digits (ds @ rest) = (ds, rest)"
  using takeWhile_digits by (simp add: scan_digits_def)

lemma scan_opt_no: "\<not> P (json_peek s) \<Longrightarrow> scan_opt P f s = ([], s)"
  by (simp add: scan_opt_def)

lemma scan_opt_yes: "P c \<Longrightarrow> f s = (x, rest) \<Longrightarrow> scan_opt P f (c # s) = (c # x, rest)"
  by (simp add: scan_opt_def json_peek_def)

lemma scan_seqI: "f s = (x, s') \<Longrightarrow> g s' = (y, rest) \<Longrightarrow> scan_seq f g s = (x @ y, rest)"
  by (simp add: scan_seq_def)

lemma ends_value_peek:
  "ends_value s \<Longrightarrow> json_peek s \<in> {CHR 0x00, CHR '','', CHR '']'', CHR ''}''}"
  by (cases s) (auto simp: ends_value_def json_peek_def)

lemma ends_value_digit: "ends_value s \<Longrightarrow> s = [] \<or> \<not> isdigit (hd s)"
  by (auto simp: ends_value_def isdigit_def)

lemma scan_expo:
  assumes "ends_value rest"
  shows "scan_opt (\<lambda>c. c = CHR ''e'' \<or> c = CHR ''E'')
     (scan_seq (scan_opt (\<lambda>c. c = CHR ''+'' \<or> c = CHR ''-'') scan_nothing) scan_digits) (expo ex @ rest) = (expo ex, rest)"
proof (cases ex)
  case None
  with ends_value_peek [OF assms] show ?thesis by (auto simp: expo_def intro!: scan_opt_no)
next
  case (Some x)
  obtain c ds where e: "show_exp x = CHR ''e'' # c # ds" "c = CHR ''+'' \<or> c = CHR ''-''" "digits ds"
    using exponent_digits [of x] that by (cases "x < 0") (simp_all add: show_exp_def)
  have "scan_seq (scan_opt (\<lambda>c. c = CHR ''+'' \<or> c = CHR ''-'') scan_nothing) scan_digits (c # ds @ rest) = ([c] @ ds, rest)"
    by (rule scan_seqI [where s' = "ds @ rest"])
      (use e ends_value_digit [OF assms] in \<open>auto intro!: scan_opt_yes scan_digits_stop simp: scan_nothing_def\<close>)
  then show ?thesis by (simp add: Some expo_def e(1)) (rule scan_opt_yes, simp_all)
qed

lemma scan_number_text:
  assumes "ends_value rest" "digits ip" "ip \<noteq> []" "digits fp"
  shows "scan_number (sign_prefix s @ text_of ip fp ex @ rest) = (sign_prefix s @ text_of ip fp ex, rest)"
proof -
  let ?E = "expo ex @ rest" and ?F = "frac fp @ expo ex @ rest"
  have E: "json_peek ?E \<noteq> CHR ''.''" "?E = [] \<or> \<not> isdigit (hd ?E)"
    using expo_stop [of ex] ends_value_peek [OF assms(1)] ends_value_digit [OF assms(1)] not_digits
    by (cases "expo ex"; auto simp: json_peek_def)+
  have F: "scan_opt (\<lambda>c. c = CHR ''.'') scan_digits ?F = (frac fp, ?E)"
  proof (cases "fp = []")
    case True
    with E(1) show ?thesis by (simp add: frac_def scan_opt_no)
  next
    case False
    with scan_digits_stop [OF assms(4) E(2)] show ?thesis by (simp add: frac_def scan_opt_yes)
  qed
  have F': "?F = [] \<or> \<not> isdigit (hd ?F)" using E(2) not_digits by (cases "fp = []") (simp_all add: frac_def)
  have mant: "scan_seq scan_digits
         (scan_seq (scan_opt (\<lambda>c. c = CHR ''.'') scan_digits)
           (scan_opt (\<lambda>c. c = CHR ''e'' \<or> c = CHR ''E'')
             (scan_seq (scan_opt (\<lambda>c. c = CHR ''+'' \<or> c = CHR ''-'') scan_nothing) scan_digits))) (ip @ ?F)
       = (ip @ frac fp @ expo ex, rest)"
    by (intro scan_seqI [where rest = rest], rule scan_digits_stop [OF assms(2) F'], rule F, rule scan_expo [OF assms(1)])
  have "scan_opt (\<lambda>c. c = CHR ''-'') scan_nothing (sign_prefix s @ ip @ ?F) = (sign_prefix s, ip @ ?F)"
  proof (cases s)
    case True
    then show ?thesis by (simp add: sign_prefix_def scan_opt_yes scan_nothing_def)
  next
    case False
    obtain c cs where "ip = c # cs" "c \<noteq> CHR ''-''" using assms(2,3) digit_not_special(2) by (cases ip) auto
    with False show ?thesis by (simp add: sign_prefix_def scan_opt_no json_peek_def)
  qed
  with mant show ?thesis unfolding scan_number_def text_of_def append_assoc
    by (intro scan_seqI [where x = "sign_prefix s"])
qed

lemma number_written:
  assumes "storable d"
  obtains s ip fp ex where "show_g 17 d = sign_prefix s @ text_of ip fp ex" "digits ip" "ip \<noteq> []" "digits fp"
proof -
  obtain s m where "d = Fin s m" using assms by (cases d) (auto simp: storable_def)
  with show_g_text [of s m] assms that show ?thesis by blast
qed

lemma parse_number_written:
  assumes "storable d" "ends_value rest"
  shows "parse_number n (show_g 17 d @ rest) = Inr (JNumber d, rest)"
proof -
  obtain s ip fp ex where t: "show_g 17 d = sign_prefix s @ text_of ip fp ex" "digits ip" "ip \<noteq> []" "digits fp"
    using number_written [OF assms(1)] by blast
  have "scan_number (show_g 17 d @ rest) = (show_g 17 d, rest)" unfolding t(1) using scan_number_text assms(2) t(2-4) by simp
  moreover have "show_g 17 d \<noteq> []" using t by (simp add: text_of_def)
  ultimately show ?thesis using stod_show_g [OF assms(1)] by (simp add: parse_number_def)
qed

text \<open>The first character of a written value.\<close>

lemma write_json_head:
  assumes "json_ok v"
  shows "write_json v \<noteq> []" "\<not> isspace (hd (write_json v))"
    and "hd (write_json v) \<noteq> CHR '']''" "hd (write_json v) \<noteq> CHR ''}''"
proof -
  have "write_json v \<noteq> [] \<and> \<not> isspace (hd (write_json v)) \<and> hd (write_json v) \<noteq> CHR '']'' \<and> hd (write_json v) \<noteq> CHR ''}''"
  proof (cases v)
    case (JNumber d)
    with assms have d: "storable d" by simp
    obtain s ip fp ex where t: "show_g 17 d = sign_prefix s @ text_of ip fp ex" "digits ip" "ip \<noteq> []" "digits fp"
      by (rule number_written [OF d])
    obtain c cs where ip: "ip = c # cs" "isdigit c" using t by (cases ip) auto
    then have "\<not> isspace c" "c \<noteq> CHR '']''" "c \<noteq> CHR ''}''" by (auto simp: isdigit_def isspace_def)
    moreover have "write_json v = sign_prefix s @ c # cs @ frac fp @ expo ex"
      by (simp only: JNumber write_json.simps t(1) text_of_def ip append.simps append_assoc)
    ultimately show ?thesis using not_space by (cases s) (simp_all add: sign_prefix_def)
  qed (simp_all add: isspace_def write_escaped_string_def)
  then show "write_json v \<noteq> []" "\<not> isspace (hd (write_json v))"
    "hd (write_json v) \<noteq> CHR '']''" "hd (write_json v) \<noteq> CHR ''}''" by blast+
qed

lemma json_skip_head: "s \<noteq> [] \<Longrightarrow> \<not> isspace (hd s) \<Longrightarrow> json_skip (s @ rest) = s @ rest"
  by (cases s) (simp_all add: json_skip_def)

lemma json_skip_Cons: "\<not> isspace c \<Longrightarrow> json_skip (c # s) = c # s"
  by (simp add: json_skip_def)

lemma json_peek_Cons [simp]: "json_peek (c # s) = c"
  by (simp add: json_peek_def)

lemma json_expect_Cons [simp]: "json_expect n c (c # s) = Inr s"
  by (simp add: json_expect_def)

lemma json_punctuation [simp]:
  "\<not> isspace CHR '',''" "\<not> isspace CHR '']''" "\<not> isspace CHR ''}''" "\<not> isspace CHR '':''" "\<not> isspace CHR 0x22"
  "\<not> isspace CHR ''{''" "\<not> isspace CHR ''[''"
  by (simp_all add: isspace_def)

text \<open>A parser that reads back one written value, whatever ends it.\<close>

definition reads_back :: "(string \<Rightarrow> (json \<times> string) result) \<Rightarrow> json \<Rightarrow> bool" where
  "reads_back pv v \<longleftrightarrow> (\<forall>rest. ends_value rest \<longrightarrow> pv (write_json v @ rest) = Inr (v, rest))"

lemma reads_backD: "reads_back pv v \<Longrightarrow> ends_value rest \<Longrightarrow> pv (write_json v @ rest) = Inr (v, rest)"
  by (simp add: reads_back_def)

lemma ends_value_Cons [simp]: "ends_value (CHR '','' # s)" "ends_value (CHR '']'' # s)" "ends_value (CHR ''}'' # s)"
  by (simp_all add: ends_value_def)

lemma array_loop_written:
  assumes "\<forall>v \<in> set vs. json_ok v \<and> reads_back pv v" "vs \<noteq> []" "length vs \<le> k"
  shows "array_loop pv n k acc (join_with '','' (map write_json vs) @ CHR '']'' # rest) = Inr (JArray (acc @ vs), rest)"
  using assms
proof (induction vs arbitrary: acc k)
  case (Cons v vs)
  then obtain k' where k: "k = Suc k'" by (cases k) auto
  have v: "reads_back pv v" using Cons.prems by simp
  show ?case
  proof (cases "vs = []")
    case True
    then show ?thesis using reads_backD [OF v, of "CHR '']'' # rest"] by (simp add: k json_skip_Cons)
  next
    case False
    let ?tail = "join_with '','' (map write_json vs) @ CHR '']'' # rest"
    obtain w ws where ws: "vs = w # ws" using False by (cases vs) auto
    have w: "write_json w \<noteq> []" "\<not> isspace (hd (write_json w))" using write_json_head Cons.prems ws by auto
    have "json_skip ?tail = ?tail"
      using json_skip_head [OF w] by (cases ws) (simp_all add: ws)
    with Cons.IH [of k' "acc @ [v]"] Cons.prems False reads_backD [OF v, of "CHR '','' # ?tail"] show ?thesis
      by (simp add: k json_skip_Cons join_with_Cons)
  qed
qed simp

lemma object_set_new: "k \<notin> fst ` set kvs \<Longrightarrow> object_set k v kvs = kvs @ [(k, v)]"
  unfolding object_set_def by (induction kvs) auto

abbreviation write_member :: "string \<times> json \<Rightarrow> string" where
  "write_member \<equiv> \<lambda>(k, v). write_escaped_string k @ '':'' @ write_json v"

lemma parse_key_written: "plain key \<Longrightarrow> parse_key n (write_escaped_string key @ CHR '':'' # s) = Inr (key, s)"
proof -
  assume "plain key"
  from parse_raw_string_written [OF this, of n "CHR '':'' # s"]
  show ?thesis by (simp add: parse_key_def write_escaped_string_def json_skip_Cons)
qed

lemma object_loop_written:
  assumes "\<forall>(k, v) \<in> set kvs. plain k \<and> reads_back pv v" "kvs \<noteq> []" "length kvs \<le> k" "distinct (map fst (acc @ kvs))"
  shows "object_loop pv n k acc (join_with '','' (map write_member kvs) @ CHR ''}'' # rest) = Inr (JObject (acc @ kvs), rest)"
  using assms
proof (induction kvs arbitrary: acc k)
  case (Cons kv kvs)
  obtain key v where kv: "kv = (key, v)" by (cases kv)
  obtain k' where k: "k = Suc k'" using Cons.prems by (cases k) auto
  have v: "plain key" "reads_back pv v" using Cons.prems kv by auto
  have set: "object_set key v acc = acc @ [(key, v)]" using Cons.prems(4) kv by (intro object_set_new) auto
  show ?case
  proof (cases "kvs = []")
    case True
    then show ?thesis
      using reads_backD [OF v(2), of "CHR ''}'' # rest"] by (simp add: k kv set parse_key_written [OF v(1)] json_skip_Cons)
  next
    case False
    with Cons.IH [of k' "acc @ [(key, v)]"] Cons.prems kv
      reads_backD [OF v(2), of "CHR '','' # join_with '','' (map write_member kvs) @ CHR ''}'' # rest"]
    show ?thesis by (simp add: k set parse_key_written [OF v(1)] json_skip_Cons join_with_Cons)
  qed
qed simp

lemma length_join_ge: "(\<forall>x \<in> set xs. x \<noteq> []) \<Longrightarrow> length xs \<le> length (join_with sep xs)"
proof (induction sep xs rule: join_with.induct)
  case (2 sep x)
  then show ?case by (cases x) auto
next
  case (3 sep x y xs)
  then show ?case by (cases x) auto
qed simp

lemma parse_value_number:
  assumes "storable d"
  shows "reads_back (parse_value n (Suc k)) (JNumber d)"
proof -
  have head: "show_g 17 d \<noteq> []" "\<not> isspace (hd (show_g 17 d))" using write_json_head [of "JNumber d"] assms by simp_all
  obtain s ip fp ex where t: "show_g 17 d = sign_prefix s @ text_of ip fp ex" "digits ip" "ip \<noteq> []" "digits fp"
    by (rule number_written [OF assms])
  have c: "json_peek (show_g 17 d @ rest) = CHR ''-'' \<or> isdigit (json_peek (show_g 17 d @ rest))" for rest
    using t by (cases s; cases ip) (auto simp: sign_prefix_def text_of_def)
  have "parse_value n (Suc k) (show_g 17 d @ rest) = parse_number n (show_g 17 d @ rest)" for rest
    using c [of rest] json_skip_head [OF head, of rest]
    by (auto simp: parse_atom_def Let_def isdigit_def simp del: show_g.simps)
  with parse_number_written [OF assms] show ?thesis by (simp add: reads_back_def del: show_g.simps)
qed

lemma parse_value_string:
  assumes "plain s"
  shows "reads_back (parse_value n (Suc k)) (JString s)"
proof -
  have "json_peek (write_escaped_string s @ rest) = CHR 0x22"
    "json_skip (write_escaped_string s @ rest) = write_escaped_string s @ rest" for rest
    by (simp_all add: write_escaped_string_def json_skip_Cons)
  with parse_raw_string_written [OF assms] show ?thesis by (simp add: reads_back_def parse_atom_def Let_def)
qed

lemma parse_value_array:
  assumes "\<forall>v \<in> set vs. json_ok v \<and> reads_back (parse_value n k) v" "length (write_json (JArray vs)) < Suc k"
  shows "reads_back (parse_value n (Suc k)) (JArray vs)"
proof (cases "vs = []")
  case True
  then show ?thesis by (simp add: reads_back_def json_skip_Cons parse_array_def)
next
  case False
  let ?w = "map write_json vs"
  have "length vs \<le> k" using length_join_ge [of ?w "'',''"] assms write_json_head(1) by auto
  note loop = array_loop_written [OF assms(1) False this, of n "[]"]
  obtain v vs' where vs: "vs = v # vs'" using False by (cases vs) auto
  have v: "write_json v \<noteq> []" "\<not> isspace (hd (write_json v))" "hd (write_json v) \<noteq> CHR '']''"
    using write_json_head assms(1) vs by auto
  have "json_skip (join_with '','' ?w @ s) = join_with '','' ?w @ s" "json_peek (join_with '','' ?w @ s) \<noteq> CHR '']''" for s
    using v json_skip_head [OF v(1,2)] by (cases vs'; cases "write_json v"; simp add: vs)+
  with loop show ?thesis by (simp add: reads_back_def json_skip_Cons parse_array_def)
qed

lemma parse_value_object:
  assumes "\<forall>(key, v) \<in> set kvs. plain key \<and> reads_back (parse_value n k) v" "distinct (map fst kvs)"
    and "length (write_json (JObject kvs)) < Suc k"
  shows "reads_back (parse_value n (Suc k)) (JObject kvs)"
proof (cases "kvs = []")
  case True
  then show ?thesis by (simp add: reads_back_def json_skip_Cons parse_object_def)
next
  case False
  let ?w = "map write_member kvs"
  have "\<forall>x \<in> set ?w. x \<noteq> []" by (auto simp: write_escaped_string_def)
  then have "length kvs \<le> k" using length_join_ge [of ?w "'',''"] assms(3) by simp
  note loop = object_loop_written [OF assms(1) False this, of "[]" n]
  obtain key v kvs' where kvs: "kvs = (key, v) # kvs'" using False by (cases kvs) auto
  have "json_skip (join_with '','' ?w @ s) = join_with '','' ?w @ s" "json_peek (join_with '','' ?w @ s) \<noteq> CHR ''}''" for s
    by (cases kvs'; simp add: kvs write_escaped_string_def json_skip_Cons)+
  with loop assms(2) show ?thesis by (simp add: reads_back_def json_skip_Cons parse_object_def)
qed

lemma parse_value_written:
  "json_ok v \<Longrightarrow> length (write_json v) < k \<Longrightarrow> reads_back (parse_value n k) v"
proof (induction v arbitrary: k)
  case (JNumber d)
  then show ?case by (cases k) (auto intro: parse_value_number simp del: parse_value.simps show_g.simps)
next
  case (JString s)
  then show ?case by (cases k) (auto intro: parse_value_string simp del: parse_value.simps)
next
  case (JArray vs)
  then obtain k' where k: "k = Suc k'" by (cases k) auto
  have "length (write_json v) < k'" if "v \<in> set vs" for v
    using length_join_member [of "write_json v" "map write_json vs" "'',''"] JArray.prems(2) that by (simp add: k)
  with JArray show ?case unfolding k by (intro parse_value_array) auto
next
  case (JObject kvs)
  then obtain k' where k: "k = Suc k'" by (cases k) auto
  have "plain key \<and> reads_back (parse_value n k') v" if m: "(key, v) \<in> set kvs" for key v
  proof -
    have "length (write_json v) < k'"
      using length_join_member [of "write_member (key, v)" "map write_member kvs" "'',''"] JObject.prems(2) m
      by (force simp: k)
    with JObject.IH [of "(key, v)" v k'] JObject.prems(1) m show ?thesis by (auto simp: snds.simps)
  qed
  with JObject.prems show ?case unfolding k by (intro parse_value_object) auto
next
  case (JBool b)
  then obtain k' where "k = Suc k'" by (cases k) auto
  then show ?case by (simp add: reads_back_def json_skip_Cons isspace_def parse_atom_def parse_bool_def)
next
  case JNull
  then obtain k' where "k = Suc k'" by (cases k) auto
  then show ?case by (simp add: reads_back_def json_skip_Cons isspace_def parse_atom_def parse_null_def)
qed

lemma parse_json_written: "json_ok v \<Longrightarrow> parse_json (to_json v) = Inr v"
proof -
  assume v: "json_ok v"
  have "json_skip (write_json v) = write_json v" using json_skip_head [OF write_json_head(1,2) [OF v], of "[]"] by simp
  with reads_backD [OF parse_value_written [OF v], of "length (write_json v) + 1" "[]"] show ?thesis
    by (simp add: parse_json_def to_json_def ends_value_def del: parse_value.simps)
qed

text \<open>
  A JSON value whose numbers are normal doubles or zero, whose strings have no control character but
  newline and tab, and whose objects have distinct keys is read back as written.
\<close>

theorem json_roundtrip: "json_ok v \<Longrightarrow> parse_json (to_json v) = Inr v"
  by (rule parse_json_written)

theorem json_roundtrip_witness:
  "json_ok (JObject [(''a'', JArray [JNull, JBool True, JString [CHR 0x22, CHR 0x0A]]), (''b'', JObject [])]) \<and>
   parse_json (to_json (JObject [(''a'', JArray [JNull, JBool True, JString [CHR 0x22, CHR 0x0A]]), (''b'', JObject [])])) =
     Inr (JObject [(''a'', JArray [JNull, JBool True, JString [CHR 0x22, CHR 0x0A]]), (''b'', JObject [])])"
  using json_roundtrip [of "JObject [(''a'', JArray [JNull, JBool True, JString [CHR 0x22, CHR 0x0A]]), (''b'', JObject [])]"]
  by (simp add: plain_def)

text \<open>
  C2. The writer escapes a carriage return as \<^verbatim>\<open>\r\<close>, which the parser reads back as the letter: a
  string is not always read back as written.
\<close>

theorem json_carriage_return: "parse_json (to_json (JString [CHR 0x0D])) = Inr (JString ''r'')"
  by code_simp

end
