(* ===== verification/Plan_Serializer.thy ===== *)
theory Plan_Serializer
  imports Json Physical_Plan
begin

text \<open>
  Plans as JSON texts (\<^verbatim>\<open>integration/plan_serializer.cpp\<close>).  The serializer writes every field of the C++ structs,
  used or not, so this theory models the structs field by field: null pointers are \<^term>\<open>None\<close>.  The
  functions \<open>struct_of_\<dots>\<close> are the factory functions of \<^verbatim>\<open>parser/ast.hpp\<close> and
  \<^verbatim>\<open>physical/physical_plan.hpp\<close>: they give the struct of a value of the other theories.
\<close>

section \<open>The structs\<close>

datatype literal_kind = KInteger | KFloat | KStr | KBoolean | KNull
datatype expression_kind = KColumn | KLiteral | KBinaryOp | KUnaryOp | KFunction | KWildcard
datatype plan_kind =
    KSeqScan | KIndexScan | KFilter | KNestedLoopJoin | KHashJoin | KIndexNestedLoopJoin
  | KHashAggregate | KProject | KSort | KLimit | KExternalRows

datatype literal_struct =
  LiteralStruct literal_kind (ls_int: int) (ls_float: double) string bool

datatype expr_struct =
  ExprStruct expression_kind "string option" string literal_struct
    "expr_struct option" binary_operator "expr_struct option" unary_operator "expr_struct option"
    string "expr_struct list"

datatype agg_struct = AggStruct string expr_struct "string option"

datatype order_struct = OrderStruct expr_struct bool

datatype plan_struct =
  PlanStruct plan_kind plan_info
    string "string option" "string list" string expr_struct
    expr_struct "plan_struct option"
    join_type expr_struct "plan_struct option" "plan_struct option"
    "expr_struct list" "agg_struct list" "(expr_struct \<times> string option) list" "order_struct list" nat

definition null_literal :: literal_struct where
  "null_literal = LiteralStruct KNull 0 dzero [] False"

fun struct_of_literal :: "literal \<Rightarrow> literal_struct" where
  "struct_of_literal (Integer i) = LiteralStruct KInteger i dzero [] False"
| "struct_of_literal (Float d) = LiteralStruct KFloat 0 d [] False"
| "struct_of_literal (Str s) = LiteralStruct KStr 0 dzero s False"
| "struct_of_literal (Boolean b) = LiteralStruct KBoolean 0 dzero [] b"
| "struct_of_literal Null = null_literal"

fun struct_of_expr :: "expression \<Rightarrow> expr_struct" where
  "struct_of_expr (Column t c) = ExprStruct KColumn t c null_literal None Eq None UNot None [] []"
| "struct_of_expr (Lit l) = ExprStruct KLiteral None [] (struct_of_literal l) None Eq None UNot None [] []"
| "struct_of_expr (BinaryOp l p r) =
     ExprStruct KBinaryOp None [] null_literal (Some (struct_of_expr l)) p (Some (struct_of_expr r)) UNot None [] []"
| "struct_of_expr (UnaryOp u e) = ExprStruct KUnaryOp None [] null_literal None Eq None u (Some (struct_of_expr e)) [] []"
| "struct_of_expr (Function f args) = ExprStruct KFunction None [] null_literal None Eq None UNot None f (map struct_of_expr args)"
| "struct_of_expr Wildcard = ExprStruct KWildcard None [] null_literal None Eq None UNot None [] []"

abbreviation no_expr :: expr_struct where "no_expr \<equiv> struct_of_expr Wildcard"

definition struct_of_aggregate :: "aggregate_expr \<Rightarrow> agg_struct" where
  "struct_of_aggregate a = AggStruct (agg_func a) (struct_of_expr (agg_arg a)) (agg_alias a)"

definition struct_of_order :: "order_by_item \<Rightarrow> order_struct" where
  "struct_of_order ob = OrderStruct (struct_of_expr (order_expression ob)) (order_ascending ob)"

fun join_kind_of :: "join_algorithm \<Rightarrow> plan_kind" where
  "join_kind_of NestedLoopJoin = KNestedLoopJoin"
| "join_kind_of HashJoin = KHashJoin"
| "join_kind_of IndexNestedLoopJoin = KIndexNestedLoopJoin"

fun struct_of_plan :: "physical_plan \<Rightarrow> plan_struct" where
  "struct_of_plan (SeqScan i t a cs) =
     PlanStruct KSeqScan i t a cs [] no_expr no_expr None Inner no_expr None None [] [] [] [] 0"
| "struct_of_plan (IndexScan i t a cs c v) =
     PlanStruct KIndexScan i t a cs c (struct_of_expr v) no_expr None Inner no_expr None None [] [] [] [] 0"
| "struct_of_plan (PFilter i e p) =
     PlanStruct KFilter i [] None [] [] no_expr (struct_of_expr e) (Some (struct_of_plan p))
       Inner no_expr None None [] [] [] [] 0"
| "struct_of_plan (PJoin k i jt c l r) =
     PlanStruct (join_kind_of k) i [] None [] [] no_expr no_expr None jt (struct_of_expr c)
       (Some (struct_of_plan l)) (Some (struct_of_plan r)) [] [] [] [] 0"
| "struct_of_plan (HashAggregate i g a p) =
     PlanStruct KHashAggregate i [] None [] [] no_expr no_expr (Some (struct_of_plan p)) Inner no_expr None None
       (map struct_of_expr g) (map struct_of_aggregate a) [] [] 0"
| "struct_of_plan (PProject i es p) =
     PlanStruct KProject i [] None [] [] no_expr no_expr (Some (struct_of_plan p)) Inner no_expr None None
       [] [] (map (\<lambda>(e, a). (struct_of_expr e, a)) es) [] 0"
| "struct_of_plan (PSort i ob p) =
     PlanStruct KSort i [] None [] [] no_expr no_expr (Some (struct_of_plan p)) Inner no_expr None None
       [] [] [] (map struct_of_order ob) 0"
| "struct_of_plan (PLimit i n p) =
     PlanStruct KLimit i [] None [] [] no_expr no_expr (Some (struct_of_plan p)) Inner no_expr None None [] [] [] [] n"
| "struct_of_plan (ExternalRows i t cs n g a) =
     PlanStruct KExternalRows i t None cs [] no_expr no_expr None Inner no_expr None None
       (map struct_of_expr g) (map struct_of_aggregate a) [] [] n"

section \<open>Enumerations as strings\<close>

definition unknown_name :: "string \<Rightarrow> string \<Rightarrow> error" where
  "unknown_name what s = RuntimeError (''plan_serializer: unknown '' @ what @ [CHR '' '', CHR 0x27] @ s @ [CHR 0x27])"

fun expression_kind_to_string :: "expression_kind \<Rightarrow> string" where
  "expression_kind_to_string KColumn = ''Column''"
| "expression_kind_to_string KLiteral = ''Literal''"
| "expression_kind_to_string KBinaryOp = ''BinaryOp''"
| "expression_kind_to_string KUnaryOp = ''UnaryOp''"
| "expression_kind_to_string KFunction = ''Function''"
| "expression_kind_to_string KWildcard = ''Wildcard''"

definition expr_kind_from_string :: "string \<Rightarrow> expression_kind result" where
  "expr_kind_from_string s =
     (if s = ''Column'' then Inr KColumn
      else if s = ''Literal'' then Inr KLiteral
      else if s = ''BinaryOp'' then Inr KBinaryOp
      else if s = ''UnaryOp'' then Inr KUnaryOp
      else if s = ''Function'' then Inr KFunction
      else if s = ''Wildcard'' then Inr KWildcard
      else Inl (unknown_name ''Expression::Kind'' s))"

fun literal_kind_to_string :: "literal_kind \<Rightarrow> string" where
  "literal_kind_to_string KInteger = ''Integer''"
| "literal_kind_to_string KFloat = ''Float''"
| "literal_kind_to_string KStr = ''Str''"
| "literal_kind_to_string KBoolean = ''Boolean''"
| "literal_kind_to_string KNull = ''Null''"

definition literal_kind_from_string :: "string \<Rightarrow> literal_kind result" where
  "literal_kind_from_string s =
     (if s = ''Integer'' then Inr KInteger
      else if s = ''Float'' then Inr KFloat
      else if s = ''Str'' then Inr KStr
      else if s = ''Boolean'' then Inr KBoolean
      else if s = ''Null'' then Inr KNull
      else Inl (unknown_name ''Literal::Kind'' s))"

fun op_to_string :: "binary_operator \<Rightarrow> string" where
  "op_to_string Eq = ''Eq''"
| "op_to_string Neq = ''Neq''"
| "op_to_string Lt = ''Lt''"
| "op_to_string Gt = ''Gt''"
| "op_to_string Lte = ''Lte''"
| "op_to_string Gte = ''Gte''"
| "op_to_string And = ''And''"
| "op_to_string Or = ''Or''"
| "op_to_string Add = ''Add''"
| "op_to_string Sub = ''Sub''"
| "op_to_string Mul = ''Mul''"
| "op_to_string Div = ''Div''"

definition binary_op_from_string :: "string \<Rightarrow> binary_operator result" where
  "binary_op_from_string s =
     (if s = ''Eq'' then Inr Eq
      else if s = ''Neq'' then Inr Neq
      else if s = ''Lt'' then Inr Lt
      else if s = ''Gt'' then Inr Gt
      else if s = ''Lte'' then Inr Lte
      else if s = ''Gte'' then Inr Gte
      else if s = ''And'' then Inr And
      else if s = ''Or'' then Inr Or
      else if s = ''Add'' then Inr Add
      else if s = ''Sub'' then Inr Sub
      else if s = ''Mul'' then Inr Mul
      else if s = ''Div'' then Inr Div
      else Inl (unknown_name ''BinaryOperator'' s))"

fun unary_op_to_string :: "unary_operator \<Rightarrow> string" where
  "unary_op_to_string UNot = ''Not''"
| "unary_op_to_string UNeg = ''Neg''"

definition unary_op_from_string :: "string \<Rightarrow> unary_operator result" where
  "unary_op_from_string s =
     (if s = ''Not'' then Inr UNot
      else if s = ''Neg'' then Inr UNeg
      else Inl (unknown_name ''UnaryOperator'' s))"

fun join_type_to_string :: "join_type \<Rightarrow> string" where
  "join_type_to_string Inner = ''Inner''"
| "join_type_to_string Left = ''Left''"
| "join_type_to_string Right = ''Right''"
| "join_type_to_string Cross = ''Cross''"

definition join_type_from_string :: "string \<Rightarrow> join_type result" where
  "join_type_from_string s =
     (if s = ''Inner'' then Inr Inner
      else if s = ''Left'' then Inr Left
      else if s = ''Right'' then Inr Right
      else if s = ''Cross'' then Inr Cross
      else Inl (unknown_name ''JoinType'' s))"

fun plan_kind_to_string :: "plan_kind \<Rightarrow> string" where
  "plan_kind_to_string KSeqScan = ''SeqScan''"
| "plan_kind_to_string KIndexScan = ''IndexScan''"
| "plan_kind_to_string KFilter = ''Filter''"
| "plan_kind_to_string KNestedLoopJoin = ''NestedLoopJoin''"
| "plan_kind_to_string KHashJoin = ''HashJoin''"
| "plan_kind_to_string KIndexNestedLoopJoin = ''IndexNestedLoopJoin''"
| "plan_kind_to_string KHashAggregate = ''HashAggregate''"
| "plan_kind_to_string KProject = ''Project''"
| "plan_kind_to_string KSort = ''Sort''"
| "plan_kind_to_string KLimit = ''Limit''"
| "plan_kind_to_string KExternalRows = ''ExternalRows''"

definition plan_kind_from_string :: "string \<Rightarrow> plan_kind result" where
  "plan_kind_from_string s =
     (if s = ''SeqScan'' then Inr KSeqScan
      else if s = ''IndexScan'' then Inr KIndexScan
      else if s = ''Filter'' then Inr KFilter
      else if s = ''NestedLoopJoin'' then Inr KNestedLoopJoin
      else if s = ''HashJoin'' then Inr KHashJoin
      else if s = ''IndexNestedLoopJoin'' then Inr KIndexNestedLoopJoin
      else if s = ''HashAggregate'' then Inr KHashAggregate
      else if s = ''Project'' then Inr KProject
      else if s = ''Sort'' then Inr KSort
      else if s = ''Limit'' then Inr KLimit
      else if s = ''ExternalRows'' then Inr KExternalRows
      else Inl (unknown_name ''PhysicalPlan::Kind'' s))"

lemma names_read_back [simp]:
  "expr_kind_from_string (expression_kind_to_string k) = Inr k"
  "literal_kind_from_string (literal_kind_to_string l) = Inr l"
  "binary_op_from_string (op_to_string p) = Inr p"
  "unary_op_from_string (unary_op_to_string u) = Inr u"
  "join_type_from_string (join_type_to_string jt) = Inr jt"
  "plan_kind_from_string (plan_kind_to_string pk) = Inr pk"
       apply (cases k; simp add: expr_kind_from_string_def)
      apply (cases l; simp add: literal_kind_from_string_def)
     apply (cases p; simp add: binary_op_from_string_def)
    apply (cases u; simp add: unary_op_from_string_def)
   apply (cases jt; simp add: join_type_from_string_def)
  apply (cases pk; simp add: plan_kind_from_string_def)
  done

section \<open>Structs as JSON values\<close>

definition optional_string :: "string option \<Rightarrow> json" where
  "optional_string s = (case s of Some s \<Rightarrow> JString s | None \<Rightarrow> JNull)"

definition optional_child :: "json option \<Rightarrow> json" where
  "optional_child j = (case j of Some j \<Rightarrow> j | None \<Rightarrow> JNull)"

fun literal_to_json :: "literal_struct \<Rightarrow> json" where
  "literal_to_json (LiteralStruct k i d s b) =
     JObject [(''kind'', JString (literal_kind_to_string k)),
       (''int_val'', JNumber (double_of_int i)),
       (''float_val'', JNumber d),
       (''str_val'', JString s),
       (''bool_val'', JBool b)]"

primrec expr_to_json :: "expr_struct \<Rightarrow> json" where
  "expr_to_json (ExprStruct k t c lit l bop r uop e f args) =
     JObject [(''kind'', JString (expression_kind_to_string k)),
       (''table'', optional_string t),
       (''column'', JString c),
       (''literal'', literal_to_json lit),
       (''left'', optional_child (map_option expr_to_json l)),
       (''binary_op'', JString (op_to_string bop)),
       (''right'', optional_child (map_option expr_to_json r)),
       (''unary_op'', JString (unary_op_to_string uop)),
       (''operand'', optional_child (map_option expr_to_json e)),
       (''func_name'', JString f),
       (''args'', JArray (map expr_to_json args))]"

fun aggregate_to_json :: "agg_struct \<Rightarrow> json" where
  "aggregate_to_json (AggStruct f e a) =
     JObject [(''func'', JString f), (''arg'', expr_to_json e), (''alias'', optional_string a)]"

fun order_by_to_json :: "order_struct \<Rightarrow> json" where
  "order_by_to_json (OrderStruct e asc) = JObject [(''expression'', expr_to_json e), (''ascending'', JBool asc)]"

definition cost_to_json :: "cost \<Rightarrow> json" where
  "cost_to_json c = JObject [(''cpu'', JNumber (cpu c)), (''io'', JNumber (io c)), (''memory'', JNumber (memory c))]"

definition projection_to_json :: "expr_struct \<times> string option \<Rightarrow> json" where
  "projection_to_json = (\<lambda>(e, a). JObject [(''expr'', expr_to_json e), (''alias'', optional_string a)])"

primrec plan_to_json :: "plan_struct \<Rightarrow> json" where
  "plan_to_json (PlanStruct k i t a cs ic ip pr inp jt cond l r g ags es ob n) =
     JObject [(''kind'', JString (plan_kind_to_string k)),
       (''estimated_cost'', cost_to_json (est_cost i)),
       (''estimated_rows'', JNumber (double_of_nat (est_rows i))),
       (''cardinality_reasoning'', JString (reasoning i)),
       (''cardinality_confidence'', JNumber (confidence i)),
       (''table_name'', JString t),
       (''alias'', optional_string a),
       (''projected_columns'', JArray (map JString cs)),
       (''index_column'', JString ic),
       (''index_probe_value'', expr_to_json ip),
       (''predicate'', expr_to_json pr),
       (''input'', optional_child (map_option plan_to_json inp)),
       (''join_type'', JString (join_type_to_string jt)),
       (''condition'', expr_to_json cond),
       (''left'', optional_child (map_option plan_to_json l)),
       (''right'', optional_child (map_option plan_to_json r)),
       (''group_by'', JArray (map expr_to_json g)),
       (''aggregates'', JArray (map aggregate_to_json ags)),
       (''expressions'', JArray (map projection_to_json es)),
       (''order_by'', JArray (map order_by_to_json ob)),
       (''count'', JNumber (double_of_nat n))]"

section \<open>JSON values as structs\<close>

text \<open>A field that is left at its default when the key is missing.\<close>

definition json_field :: "json \<Rightarrow> string \<Rightarrow> 'a \<Rightarrow> (json \<Rightarrow> 'a result) \<Rightarrow> 'a result" where
  "json_field j key d f = (case json_find j key of None \<Rightarrow> Inr d | Some v \<Rightarrow> f v)"

definition string_field :: "json \<Rightarrow> string \<Rightarrow> string option" where
  "string_field j key = (case json_find j key of Some (JString s) \<Rightarrow> Some s | _ \<Rightarrow> None)"

definition child_field :: "json \<Rightarrow> string \<Rightarrow> (json \<Rightarrow> 'a result) \<Rightarrow> 'a option result" where
  "child_field j key f =
     (case json_find j key of
        Some (JObject kvs) \<Rightarrow> rbind (f (JObject kvs)) (\<lambda>x. Inr (Some x))
      | _ \<Rightarrow> Inr None)"

definition array_field :: "json \<Rightarrow> string \<Rightarrow> (json \<Rightarrow> 'a result) \<Rightarrow> 'a list result" where
  "array_field j key f = (case json_find j key of Some (JArray vs) \<Rightarrow> rmap f vs | _ \<Rightarrow> Inr [])"

text \<open>Converting a double to \<^verbatim>\<open>int64_t\<close> truncates; outside the range it is undefined.\<close>

fun int64_of_double :: "double \<Rightarrow> int result" where
  "int64_of_double (Fin s m) =
     (let i = (if s then - \<lfloor>m\<rfloor> else \<lfloor>m\<rfloor>)
      in if in_int64 i then Inr i else Inl (UndefinedBehaviour ''double to int64_t''))"
| "int64_of_double _ = Inl (UndefinedBehaviour ''double to int64_t'')"

definition literal_from_json :: "json \<Rightarrow> literal_struct result" where
  "literal_from_json j =
     rbind (json_field j ''kind'' KNull (\<lambda>v. literal_kind_from_string (as_string v))) (\<lambda>k.
     rbind (json_field j ''int_val'' 0 (\<lambda>v. int64_of_double (as_number v))) (\<lambda>i.
     rbind (json_field j ''float_val'' dzero (\<lambda>v. Inr (as_number v))) (\<lambda>d.
     rbind (json_field j ''str_val'' [] (\<lambda>v. Inr (as_string v))) (\<lambda>s.
     rbind (json_field j ''bool_val'' False (\<lambda>v. Inr (as_bool v))) (\<lambda>b.
       Inr (LiteralStruct k i d s b))))))"

lemma size_json_find: "json_find j key = Some v \<Longrightarrow> size v < size j"
proof (cases j)
  case (JObject kvs)
  assume "json_find j key = Some v"
  then have "(key, v) \<in> set kvs" using JObject map_of_SomeD by simp
  then have "size_prod (\<lambda>_. 0) size (key, v) \<le> size_list (size_prod (\<lambda>_. 0) size) kvs" by (rule size_list_estimation') simp
  then show ?thesis using JObject by simp
qed simp_all

lemma size_json_array: "json_find j key = Some (JArray vs) \<Longrightarrow> v \<in> set vs \<Longrightarrow> size v < size j"
  using size_json_find [of j key "JArray vs"] size_list_estimation' [of v vs "size v" size] by fastforce

lemma child_field_cong:
  "(\<And>v. size v < size j \<Longrightarrow> f v = g v) \<Longrightarrow> child_field j key f = child_field j key g"
  using size_json_find [of j key] by (auto simp: child_field_def split: option.split json.split split del: rbind_split)

lemma array_field_cong:
  "(\<And>v. size v < size j \<Longrightarrow> f v = g v) \<Longrightarrow> array_field j key f = array_field j key g"
  using size_json_array [of j key] by (simp add: array_field_def cong: rmap_cong split: option.split json.split)

text \<open>The body of the recursive \<^verbatim>\<open>expr_from_json\<close>, with the recursive call as an argument.\<close>

definition expr_from_json_body :: "(json \<Rightarrow> expr_struct result) \<Rightarrow> json \<Rightarrow> expr_struct result" where
  "expr_from_json_body rec j =
     rbind (json_field j ''kind'' KWildcard (\<lambda>v. expr_kind_from_string (as_string v))) (\<lambda>k.
     rbind (json_field j ''column'' [] (\<lambda>v. Inr (as_string v))) (\<lambda>c.
     rbind (json_field j ''literal'' null_literal literal_from_json) (\<lambda>lit.
     rbind (child_field j ''left'' rec) (\<lambda>l.
     rbind (json_field j ''binary_op'' Eq (\<lambda>v. binary_op_from_string (as_string v))) (\<lambda>bop.
     rbind (child_field j ''right'' rec) (\<lambda>r.
     rbind (json_field j ''unary_op'' UNot (\<lambda>v. unary_op_from_string (as_string v))) (\<lambda>uop.
     rbind (child_field j ''operand'' rec) (\<lambda>e.
     rbind (json_field j ''func_name'' [] (\<lambda>v. Inr (as_string v))) (\<lambda>f.
     rbind (array_field j ''args'' rec) (\<lambda>args.
       Inr (ExprStruct k (string_field j ''table'') c lit l bop r uop e f args)))))))))))"

lemma expr_from_json_body_cong [fundef_cong]:
  assumes "j = j'" "\<And>v. size v < size j' \<Longrightarrow> f v = g v"
  shows "expr_from_json_body f j = expr_from_json_body g j'"
  unfolding expr_from_json_body_def assms(1)
  by (simp only: child_field_cong [OF assms(2)] array_field_cong [OF assms(2)])

function expr_from_json :: "json \<Rightarrow> expr_struct result" where
  "expr_from_json j = expr_from_json_body expr_from_json j"
  by pat_completeness auto
termination
  by (relation "measure size") auto

declare expr_from_json.simps [simp del]

definition aggregate_from_json :: "json \<Rightarrow> agg_struct result" where
  "aggregate_from_json j =
     rbind (json_field j ''func'' [] (\<lambda>v. Inr (as_string v))) (\<lambda>f.
     rbind (json_field j ''arg'' no_expr expr_from_json) (\<lambda>e.
       Inr (AggStruct f e (string_field j ''alias''))))"

text \<open>The direction of an order item has no default: it stays uninitialised when the key is missing.\<close>

definition order_by_from_json :: "json \<Rightarrow> order_struct result" where
  "order_by_from_json j =
     rbind (json_field j ''expression'' no_expr expr_from_json) (\<lambda>e.
       case json_find j ''ascending'' of
         None \<Rightarrow> Inl (UndefinedBehaviour ''uninitialised OrderByItem::ascending'')
       | Some v \<Rightarrow> Inr (OrderStruct e (as_bool v)))"

definition cost_from_json :: "json \<Rightarrow> cost result" where
  "cost_from_json j =
     rbind (json_field j ''cpu'' dzero (\<lambda>v. Inr (as_number v))) (\<lambda>c.
     rbind (json_field j ''io'' dzero (\<lambda>v. Inr (as_number v))) (\<lambda>i.
     rbind (json_field j ''memory'' dzero (\<lambda>v. Inr (as_number v))) (\<lambda>m.
       Inr \<lparr>cpu = c, io = i, memory = m\<rparr>)))"

definition projection_from_json :: "json \<Rightarrow> (expr_struct \<times> string option) result" where
  "projection_from_json j =
     rbind (json_field j ''expr'' no_expr expr_from_json) (\<lambda>e. Inr (e, string_field j ''alias''))"

definition info_from_json :: "json \<Rightarrow> plan_info result" where
  "info_from_json j =
     rbind (json_field j ''estimated_cost'' zero_cost cost_from_json) (\<lambda>c.
     rbind (json_field j ''estimated_rows'' 0 (\<lambda>v. size_of_double (as_number v))) (\<lambda>n.
     rbind (json_field j ''cardinality_reasoning'' [] (\<lambda>v. Inr (as_string v))) (\<lambda>why.
     rbind (json_field j ''cardinality_confidence'' (Fin False 1) (\<lambda>v. Inr (as_number v))) (\<lambda>conf.
       Inr (make_info c n why conf)))))"

definition plan_from_json_body :: "(json \<Rightarrow> plan_struct result) \<Rightarrow> json \<Rightarrow> plan_struct result" where
  "plan_from_json_body rec j =
     rbind (json_field j ''kind'' KSeqScan (\<lambda>v. plan_kind_from_string (as_string v))) (\<lambda>k.
     rbind (info_from_json j) (\<lambda>i.
     rbind (json_field j ''table_name'' [] (\<lambda>v. Inr (as_string v))) (\<lambda>t.
     rbind (array_field j ''projected_columns'' (\<lambda>v. Inr (as_string v))) (\<lambda>cs.
     rbind (json_field j ''index_column'' [] (\<lambda>v. Inr (as_string v))) (\<lambda>ic.
     rbind (json_field j ''index_probe_value'' no_expr expr_from_json) (\<lambda>ip.
     rbind (json_field j ''predicate'' no_expr expr_from_json) (\<lambda>pr.
     rbind (child_field j ''input'' rec) (\<lambda>inp.
     rbind (json_field j ''join_type'' Inner (\<lambda>v. join_type_from_string (as_string v))) (\<lambda>jt.
     rbind (json_field j ''condition'' no_expr expr_from_json) (\<lambda>cond.
     rbind (child_field j ''left'' rec) (\<lambda>l.
     rbind (child_field j ''right'' rec) (\<lambda>r.
     rbind (array_field j ''group_by'' expr_from_json) (\<lambda>g.
     rbind (array_field j ''aggregates'' aggregate_from_json) (\<lambda>ags.
     rbind (array_field j ''expressions'' projection_from_json) (\<lambda>es.
     rbind (array_field j ''order_by'' order_by_from_json) (\<lambda>ob.
     rbind (json_field j ''count'' 0 (\<lambda>v. size_of_double (as_number v))) (\<lambda>n.
       Inr (PlanStruct k i t (string_field j ''alias'') cs ic ip pr inp jt cond l r g ags es ob n))))))))))))))))))"

lemma plan_from_json_body_cong [fundef_cong]:
  assumes "j = j'" "\<And>v. size v < size j' \<Longrightarrow> f v = g v"
  shows "plan_from_json_body f j = plan_from_json_body g j'"
  unfolding plan_from_json_body_def assms(1) by (simp only: child_field_cong [OF assms(2)])

function plan_from_json :: "json \<Rightarrow> plan_struct result" where
  "plan_from_json j = plan_from_json_body plan_from_json j"
  by pat_completeness auto
termination
  by (relation "measure size") auto

declare plan_from_json.simps [simp del]

definition serialize_plan :: "plan_struct \<Rightarrow> string" where
  "serialize_plan p = to_json (plan_to_json p)"

definition deserialize_plan :: "string \<Rightarrow> plan_struct result" where
  "deserialize_plan s = rbind (parse_json s) plan_from_json"

section \<open>Reading back what was written\<close>

text \<open>Integers travel as doubles, so only those below \<open>2 ^ 53\<close> keep their value.\<close>

lemma int64_of_double_of_int: "\<bar>i\<bar> < 2 ^ 53 \<Longrightarrow> int64_of_double (double_of_int i) = Inr i"
  by (auto simp: double_of_int_exact in_int64_def int64_min_def int64_max_def abs_if split: if_splits)

lemma double_of_nat_exact: "n < 2 ^ 53 \<Longrightarrow> double_of_nat n = Fin False (of_nat n)"
  using double_of_int_exact [of "int n"] by (simp add: double_of_nat_def double_of_int_def)

lemma size_of_double_of_nat: "n < 2 ^ 53 \<Longrightarrow> size_of_double (double_of_nat n) = Inr n"
proof -
  assume n: "n < 2 ^ 53"
  then have "(of_nat n :: rat) < of_nat (2 ^ 64)" by (subst of_nat_less_iff) simp
  then have "\<not> (2 ^ 64 :: rat) \<le> of_nat n" by simp
  with n show ?thesis by (simp add: double_of_nat_exact)
qed

lemma storable_int: "\<bar>i\<bar> < 2 ^ 53 \<Longrightarrow> storable (double_of_int i)"
proof (cases "i = 0")
  case False
  assume i: "\<bar>i\<bar> < 2 ^ 53"
  have "1 \<le> \<bar>of_int i :: rat\<bar>" using False by (metis of_int_abs of_int_1_le_iff zero_less_abs_iff zless_imp_add1_zle add_0)
  then have "0 \<le> ilog 2 \<bar>of_int i\<bar>" by (intro ilog_ge) simp_all
  with i False round_mag_int [of "\<bar>i\<bar>"] show ?thesis
    by (simp add: storable_def double_of_int_exact normal_mag_def)
qed (simp add: storable_def double_of_int_exact)

lemma storable_nat: "n < 2 ^ 53 \<Longrightarrow> storable (double_of_nat n)"
  using storable_int [of "int n"] by (simp add: double_of_nat_def double_of_int_def)

lemma storable_dzero [simp]: "storable dzero"
  by (simp add: storable_def)

fun literal_storable :: "literal_struct \<Rightarrow> bool" where
  "literal_storable (LiteralStruct k i d s b) \<longleftrightarrow> \<bar>i\<bar> < 2 ^ 53 \<and> storable d \<and> plain s"

fun expr_storable :: "expr_struct \<Rightarrow> bool" where
  "expr_storable (ExprStruct k t c lit l bop r uop e f args) \<longleftrightarrow>
     (\<forall>s \<in> set_option t. plain s) \<and> plain c \<and> literal_storable lit \<and>
     (\<forall>x \<in> set_option l. expr_storable x) \<and> (\<forall>x \<in> set_option r. expr_storable x) \<and>
     (\<forall>x \<in> set_option e. expr_storable x) \<and> plain f \<and> (\<forall>x \<in> set args. expr_storable x)"

fun agg_storable :: "agg_struct \<Rightarrow> bool" where
  "agg_storable (AggStruct f e a) \<longleftrightarrow> plain f \<and> expr_storable e \<and> (\<forall>s \<in> set_option a. plain s)"

fun order_storable :: "order_struct \<Rightarrow> bool" where
  "order_storable (OrderStruct e asc) \<longleftrightarrow> expr_storable e"

definition info_storable :: "plan_info \<Rightarrow> bool" where
  "info_storable i \<longleftrightarrow>
     storable (cpu (est_cost i)) \<and> storable (io (est_cost i)) \<and> storable (memory (est_cost i)) \<and>
     est_rows i < 2 ^ 53 \<and> plain (reasoning i) \<and> storable (confidence i)"

fun plan_storable :: "plan_struct \<Rightarrow> bool" where
  "plan_storable (PlanStruct k i t a cs ic ip pr inp jt cond l r g ags es ob n) \<longleftrightarrow>
     info_storable i \<and> plain t \<and> (\<forall>s \<in> set_option a. plain s) \<and> (\<forall>c \<in> set cs. plain c) \<and> plain ic \<and>
     expr_storable ip \<and> expr_storable pr \<and> (\<forall>p \<in> set_option inp. plan_storable p) \<and> expr_storable cond \<and>
     (\<forall>p \<in> set_option l. plan_storable p) \<and> (\<forall>p \<in> set_option r. plan_storable p) \<and>
     (\<forall>e \<in> set g. expr_storable e) \<and> (\<forall>a \<in> set ags. agg_storable a) \<and>
     (\<forall>(e, a) \<in> set es. expr_storable e \<and> (\<forall>s \<in> set_option a. plain s)) \<and>
     (\<forall>ob \<in> set ob. order_storable ob) \<and> n < 2 ^ 53"

lemma optional_string_simps [simp]:
  "json_ok (optional_string s) \<longleftrightarrow> (\<forall>x \<in> set_option s. plain x)"
  "(case optional_string s of JString x \<Rightarrow> Some x | _ \<Rightarrow> None) = s"
  by (simp_all add: optional_string_def split: option.split)

lemma optional_child_ok [simp]: "json_ok (optional_child (map_option f x)) \<longleftrightarrow> (\<forall>y \<in> set_option x. json_ok (f y))"
  by (simp add: optional_child_def split: option.split)

text \<open>What a lookup in a written object finds.\<close>

lemma field_simps_found:
  "json_find j key = Some v \<Longrightarrow> json_field j key d f = f v"
  "json_find j key = Some (optional_string s) \<Longrightarrow> string_field j key = s"
  "json_find j key = Some (JArray vs) \<Longrightarrow> array_field j key f = rmap f vs"
  by (simp_all add: json_field_def string_field_def array_field_def)

lemma child_field_found:
  assumes "json_find j key = Some (optional_child (map_option w x))" "\<And>y. y \<in> set_option x \<Longrightarrow> f (w y) = Inr y"
    and "\<And>y. \<exists>kvs. w y = JObject kvs"
  shows "child_field j key f = Inr x"
proof (cases x)
  case (Some y)
  with assms(3) [of y] obtain kvs where "w y = JObject kvs" by blast
  with Some assms(1) assms(2) [of y] show ?thesis by (simp add: child_field_def optional_child_def)
qed (use assms(1) in \<open>simp add: child_field_def optional_child_def\<close>)

lemma rmap_back: "(\<And>x. x \<in> set xs \<Longrightarrow> f (w x) = Inr x) \<Longrightarrow> rmap f (map w xs) = Inr xs"
  by (simp add: rmap_Inr_iff list_all2_map1 list.rel_refl_strong)

lemma to_json_objects: "\<exists>kvs. expr_to_json e = JObject kvs" "\<exists>kvs. plan_to_json p = JObject kvs"
  by (cases e; simp) (cases p; simp)

lemma literal_back: "literal_storable l \<Longrightarrow> literal_from_json (literal_to_json l) = Inr l"
  by (cases l) (simp add: literal_from_json_def field_simps_found(1) int64_of_double_of_int)

lemma expr_back: "expr_storable e \<Longrightarrow> expr_from_json (expr_to_json e) = Inr e"
proof (induction e)
  case (ExprStruct k t c lit l bop r uop e f args)
  let ?e = "ExprStruct k t c lit l bop r uop e f args"
  let ?j = "expr_to_json ?e"
  have children: "child_field ?j ''left'' expr_from_json = Inr l" "child_field ?j ''right'' expr_from_json = Inr r"
    "child_field ?j ''operand'' expr_from_json = Inr e"
    by (rule child_field_found [where w = expr_to_json], simp, use ExprStruct in simp, rule to_json_objects)+
  have args: "array_field ?j ''args'' expr_from_json = Inr args"
    using ExprStruct by (simp add: field_simps_found(3) rmap_back)
  show ?case
    by (subst expr_from_json.simps)
      (use ExprStruct.prems children args literal_back in
        \<open>simp add: expr_from_json_body_def field_simps_found(1,2)\<close>)
qed

lemma aggregate_back: "agg_storable a \<Longrightarrow> aggregate_from_json (aggregate_to_json a) = Inr a"
  by (cases a) (simp add: aggregate_from_json_def field_simps_found(1,2) expr_back)

lemma order_back: "order_storable a \<Longrightarrow> order_by_from_json (order_by_to_json a) = Inr a"
  by (cases a) (simp add: order_by_from_json_def field_simps_found(1) expr_back)

lemma projection_back: "expr_storable (fst x) \<Longrightarrow> projection_from_json (projection_to_json x) = Inr x"
  by (cases x) (simp add: projection_to_json_def projection_from_json_def field_simps_found(1,2) expr_back)

lemma cost_back: "cost_from_json (cost_to_json c) = Inr c"
  by (simp add: cost_from_json_def cost_to_json_def field_simps_found(1))

lemma info_back:
  assumes "info_storable i"
    and "json_find j ''estimated_cost'' = Some (cost_to_json (est_cost i))"
    and "json_find j ''estimated_rows'' = Some (JNumber (double_of_nat (est_rows i)))"
    and "json_find j ''cardinality_reasoning'' = Some (JString (reasoning i))"
    and "json_find j ''cardinality_confidence'' = Some (JNumber (confidence i))"
  shows "info_from_json j = Inr i"
  using assms
  by (simp add: info_from_json_def info_storable_def field_simps_found(1) cost_back size_of_double_of_nat make_info_def)

lemma plan_back: "plan_storable p \<Longrightarrow> plan_from_json (plan_to_json p) = Inr p"
proof (induction p)
  case (PlanStruct k i t a cs ic ip pr inp jt cond l r g ags es ob n)
  define j where "j = plan_to_json (PlanStruct k i t a cs ic ip pr inp jt cond l r g ags es ob n)"
  have ok: "info_storable i" "expr_storable ip" "expr_storable pr" "expr_storable cond" "n < 2 ^ 53"
    "\<And>p. p \<in> set_option inp \<Longrightarrow> plan_storable p" "\<And>p. p \<in> set_option l \<Longrightarrow> plan_storable p"
    "\<And>p. p \<in> set_option r \<Longrightarrow> plan_storable p" "\<And>e. e \<in> set g \<Longrightarrow> expr_storable e"
    "\<And>x. x \<in> set ags \<Longrightarrow> agg_storable x" "\<And>x. x \<in> set es \<Longrightarrow> expr_storable (fst x)"
    "\<And>x. x \<in> set ob \<Longrightarrow> order_storable x" using PlanStruct.prems by auto
  have children: "child_field j ''input'' plan_from_json = Inr inp" "child_field j ''left'' plan_from_json = Inr l"
    "child_field j ''right'' plan_from_json = Inr r"
    by (rule child_field_found [where w = plan_to_json], simp add: j_def, use PlanStruct.IH ok(6-8) in simp, rule to_json_objects)+
  have arrays: "array_field j ''group_by'' expr_from_json = Inr g"
    "array_field j ''aggregates'' aggregate_from_json = Inr ags"
    "array_field j ''expressions'' projection_from_json = Inr es"
    "array_field j ''order_by'' order_by_from_json = Inr ob"
    "array_field j ''projected_columns'' (\<lambda>v. Inr (as_string v)) = Inr cs"
    using ok(9-) by (simp_all add: j_def field_simps_found(3) rmap_back expr_back aggregate_back projection_back order_back)
  have info: "info_from_json j = Inr i" by (rule info_back [OF ok(1)]) (simp_all add: j_def)
  have finds: "json_find j ''kind'' = Some (JString (plan_kind_to_string k))"
    "json_find j ''table_name'' = Some (JString t)" "json_find j ''index_column'' = Some (JString ic)"
    "json_find j ''index_probe_value'' = Some (expr_to_json ip)" "json_find j ''predicate'' = Some (expr_to_json pr)"
    "json_find j ''join_type'' = Some (JString (join_type_to_string jt))"
    "json_find j ''condition'' = Some (expr_to_json cond)" "json_find j ''count'' = Some (JNumber (double_of_nat n))"
    "json_find j ''alias'' = Some (optional_string a)" by (simp_all add: j_def)
  have "plan_from_json_body plan_from_json j = Inr (PlanStruct k i t a cs ic ip pr inp jt cond l r g ags es ob n)"
    using children arrays info ok(2-5)
    by (simp add: plan_from_json_body_def finds [THEN field_simps_found(1)] finds(9) [THEN field_simps_found(2)]
        expr_back size_of_double_of_nat)
  then show ?case unfolding j_def by (simp only: plan_from_json.simps)
qed

section \<open>What is written can be read\<close>

lemma plain_keys: "plain []" "plain (c # s) \<longleftrightarrow> (32 \<le> code c \<or> c = CHR 0x0A \<or> c = CHR 0x09) \<and> plain s"
  by (auto simp: plain_def)

lemma plain_names [simp]:
  "plain (expression_kind_to_string k)" "plain (literal_kind_to_string l)" "plain (op_to_string p)"
  "plain (unary_op_to_string u)" "plain (join_type_to_string jt)" "plain (plan_kind_to_string pk)"
       apply (cases k; simp add: plain_def)
      apply (cases l; simp add: plain_def)
     apply (cases p; simp add: plain_def)
    apply (cases u; simp add: plain_def)
   apply (cases jt; simp add: plain_def)
  apply (cases pk; simp add: plain_def)
  done

lemma literal_json_ok: "literal_storable l \<Longrightarrow> json_ok (literal_to_json l)"
  by (cases l) (simp add: plain_keys storable_int)

lemma expr_json_ok: "expr_storable e \<Longrightarrow> json_ok (expr_to_json e)"
proof (induction e)
  case (ExprStruct k t c lit l bop r uop e f args)
  then show ?case by (simp add: plain_keys literal_json_ok)
qed

lemma agg_json_ok: "agg_storable a \<Longrightarrow> json_ok (aggregate_to_json a)"
  by (cases a) (simp add: plain_keys expr_json_ok)

lemma order_json_ok: "order_storable a \<Longrightarrow> json_ok (order_by_to_json a)"
  by (cases a) (simp add: plain_keys expr_json_ok)

lemma projection_json_ok:
  "expr_storable (fst x) \<Longrightarrow> (\<forall>s \<in> set_option (snd x). plain s) \<Longrightarrow> json_ok (projection_to_json x)"
  by (cases x) (simp add: projection_to_json_def plain_keys expr_json_ok)

lemma plan_json_ok: "plan_storable p \<Longrightarrow> json_ok (plan_to_json p)"
proof (induction p)
  case (PlanStruct k i t a cs ic ip pr inp jt cond l r g ags es ob n)
  then have "\<forall>x \<in> set es. json_ok (projection_to_json x)" by (auto intro!: projection_json_ok)
  with PlanStruct show ?case
    by (simp add: plain_keys expr_json_ok agg_json_ok order_json_ok info_storable_def cost_to_json_def storable_nat)
qed

section \<open>The round trip\<close>

text \<open>
  C9. A plan whose numbers and strings survive JSON is read back field by field from its serialized text, however deep
  it is.
\<close>

theorem plan_roundtrip: "plan_storable p \<Longrightarrow> deserialize_plan (serialize_plan p) = Inr p"
  by (simp add: deserialize_plan_def serialize_plan_def parse_json_written plan_json_ok plan_back)

theorem plan_roundtrip_witness:
  "deserialize_plan (serialize_plan (struct_of_plan
     (PLimit (make_info zero_cost 1 [] dzero) 5 (SeqScan (make_info zero_cost 7 ''stats'' dzero) ''users'' (Some ''u'') [''id''])))) =
   Inr (struct_of_plan
     (PLimit (make_info zero_cost 1 [] dzero) 5 (SeqScan (make_info zero_cost 7 ''stats'' dzero) ''users'' (Some ''u'') [''id''])))"
  by (rule plan_roundtrip)
    (simp add: info_storable_def make_info_def zero_cost_def null_literal_def plain_def)

text \<open>
  An integer literal that needs more than 53 bits is changed by a trip through the cache: it travels as a double.
\<close>

theorem plan_integer_precision:
  "literal_from_json (literal_to_json (struct_of_literal (Integer 9007199254740993))) =
     Inr (struct_of_literal (Integer 9007199254740992))"
proof -
  have "double_of_int 9007199254740993 = Fin False 9007199254740992" by code_simp
  moreover have "literal_kind_from_string ''Integer'' = Inr KInteger" by (simp add: literal_kind_from_string_def)
  ultimately show ?thesis by (simp add: literal_from_json_def field_simps_found(1) in_int64_def int64_min_def int64_max_def)
qed

text \<open>The struct of a plan determines the plan.\<close>

lemma struct_of_literal_inject: "struct_of_literal a = struct_of_literal b \<longleftrightarrow> a = b"
  by (cases a; cases b) (auto simp: null_literal_def)

lemma struct_of_expr_inject: "struct_of_expr a = struct_of_expr b \<longleftrightarrow> a = b"
proof (induction a arbitrary: b)
  case (Function f args)
  have "map struct_of_expr args = map struct_of_expr args' \<longleftrightarrow> args = args'" for args'
    using Function by (auto simp: list_eq_iff_nth_eq)
  then show ?case by (cases b) auto
qed (case_tac b; auto simp: struct_of_literal_inject)+

lemma join_kind_of_inject: "join_kind_of a = join_kind_of b \<longleftrightarrow> a = b"
  by (cases a; cases b) auto

lemma map_inject_iff:
  "(\<And>x y. f x = f y \<longleftrightarrow> x = y) \<Longrightarrow> map f xs = map f ys \<longleftrightarrow> xs = ys"
  by (simp add: inj_def inj_map_eq_map)

lemma struct_of_aggregate_inject: "struct_of_aggregate a = struct_of_aggregate b \<longleftrightarrow> a = b"
  by (cases a; cases b) (auto simp: struct_of_aggregate_def struct_of_expr_inject)

lemma struct_of_order_inject: "struct_of_order a = struct_of_order b \<longleftrightarrow> a = b"
  by (cases a; cases b) (auto simp: struct_of_order_def struct_of_expr_inject)

lemmas struct_inject =
  struct_of_expr_inject join_kind_of_inject map_inject_iff [of struct_of_expr, OF struct_of_expr_inject]
  map_inject_iff [of struct_of_aggregate, OF struct_of_aggregate_inject]
  map_inject_iff [of struct_of_order, OF struct_of_order_inject]

lemma struct_of_projection_inject:
  "map (\<lambda>(e, a). (struct_of_expr e, a)) xs = map (\<lambda>(e, a). (struct_of_expr e, a)) ys \<longleftrightarrow> xs = ys"
  by (rule map_inject_iff) (auto simp: struct_of_expr_inject)

lemma join_kind_of_neq:
  "join_kind_of k \<noteq> KSeqScan" "join_kind_of k \<noteq> KIndexScan" "join_kind_of k \<noteq> KFilter" "join_kind_of k \<noteq> KHashAggregate"
  "join_kind_of k \<noteq> KProject" "join_kind_of k \<noteq> KSort" "join_kind_of k \<noteq> KLimit" "join_kind_of k \<noteq> KExternalRows"
  by (cases k; simp)+

lemma struct_of_plan_inject: "struct_of_plan p = struct_of_plan q \<longleftrightarrow> p = q"
proof (induction p arbitrary: q)
  case (PJoin k i jt c l r)
  then show ?case by (cases q) (auto simp: struct_inject join_kind_of_neq)
qed (case_tac q; auto simp: struct_inject struct_of_projection_inject join_kind_of_neq join_kind_of_neq [symmetric])+

end
