(* ===== verification/Worker.thy ===== *)
theory Worker
  imports Partition Plan_Serializer Reference_Runtime
begin

text \<open>
  Rows as JSON (\<^verbatim>\<open>distributed/row_json.cpp\<close>), the worker's request handler (\<^verbatim>\<open>distributed/worker_service.cpp\<close>) and the
  coordinator's call of a worker with its recovery (\<^verbatim>\<open>distributed/coordinator.cpp\<close>).  HTTP is a parameter: for a
  worker and a request body, the status and the body of the response, or nothing when the call fails.
\<close>

section \<open>Rows as JSON\<close>

fun row_literal_to_json :: "literal \<Rightarrow> json" where
  "row_literal_to_json (Integer i) = JObject [(''k'', JString ''i''), (''v'', JNumber (double_of_int i))]"
| "row_literal_to_json (Float d) = JObject [(''k'', JString ''f''), (''v'', JNumber d)]"
| "row_literal_to_json (Str s) = JObject [(''k'', JString ''s''), (''v'', JString s)]"
| "row_literal_to_json (Boolean b) = JObject [(''k'', JString ''b''), (''v'', JBool b)]"
| "row_literal_to_json Null = JObject [(''k'', JString ''n'')]"

definition row_literal_from_json :: "json \<Rightarrow> literal result" where
  "row_literal_from_json j =
     (let kind = (case json_find j ''k'' of Some k \<Rightarrow> as_string k | None \<Rightarrow> ''n'');
          v = json_find j ''v''
      in if kind = ''i'' then rbind (case v of Some v \<Rightarrow> int64_of_double (as_number v) | None \<Rightarrow> Inr 0) (\<lambda>i. Inr (Integer i))
         else if kind = ''f'' then Inr (Float (case v of Some v \<Rightarrow> as_number v | None \<Rightarrow> dzero))
         else if kind = ''s'' then Inr (Str (case v of Some v \<Rightarrow> as_string v | None \<Rightarrow> []))
         else if kind = ''b'' then Inr (Boolean (case v of Some v \<Rightarrow> as_bool v | None \<Rightarrow> False))
         else Inr Null)"

definition rows_to_json :: "row list \<Rightarrow> json" where
  "rows_to_json rows = JArray (map (\<lambda>r. JArray (map row_literal_to_json r)) rows)"

fun row_from_json :: "json \<Rightarrow> row result" where
  "row_from_json (JArray vs) = rmap row_literal_from_json vs"
| "row_from_json _ = Inr []"

fun rows_from_json :: "json \<Rightarrow> row list result" where
  "rows_from_json (JArray rs) = rmap row_from_json rs"
| "rows_from_json _ = Inr []"

section \<open>Plans out of structs\<close>

text \<open>
  The plan that a struct describes.  A child that the kind needs but that is missing is a null pointer, whose
  use is undefined behaviour.
\<close>

definition null_child :: error where
  "null_child = UndefinedBehaviour ''null child''"

fun literal_of_struct :: "literal_struct \<Rightarrow> literal" where
  "literal_of_struct (LiteralStruct k i d s b) =
     (case k of KInteger \<Rightarrow> Integer i | KFloat \<Rightarrow> Float d | KStr \<Rightarrow> Str s | KBoolean \<Rightarrow> Boolean b | KNull \<Rightarrow> Null)"

fun expr_of_struct :: "expr_struct \<Rightarrow> expression result" where
  "expr_of_struct (ExprStruct k t c lit l bop r uop e f args) =
     (case k of
        KColumn \<Rightarrow> Inr (Column t c)
      | KLiteral \<Rightarrow> Inr (Lit (literal_of_struct lit))
      | KBinaryOp \<Rightarrow>
          (case l of
             None \<Rightarrow> Inl null_child
           | Some l \<Rightarrow>
               (case r of
                  None \<Rightarrow> Inl null_child
                | Some r \<Rightarrow> rbind (expr_of_struct l) (\<lambda>x. rbind (expr_of_struct r) (\<lambda>y. Inr (BinaryOp x bop y)))))
      | KUnaryOp \<Rightarrow>
          (case e of None \<Rightarrow> Inl null_child | Some e \<Rightarrow> rbind (expr_of_struct e) (\<lambda>x. Inr (UnaryOp uop x)))
      | KFunction \<Rightarrow> rbind (rmap expr_of_struct args) (\<lambda>xs. Inr (Function f xs))
      | KWildcard \<Rightarrow> Inr Wildcard)"

fun aggregate_of_struct :: "agg_struct \<Rightarrow> aggregate_expr result" where
  "aggregate_of_struct (AggStruct f e a) =
     rbind (expr_of_struct e) (\<lambda>x. Inr \<lparr>agg_func = f, agg_arg = x, agg_alias = a\<rparr>)"

fun order_of_struct :: "order_struct \<Rightarrow> order_by_item result" where
  "order_of_struct (OrderStruct e asc) =
     rbind (expr_of_struct e) (\<lambda>x. Inr \<lparr>order_expression = x, order_ascending = asc\<rparr>)"

definition join_of_struct ::
  "join_algorithm \<Rightarrow> plan_info \<Rightarrow> join_type \<Rightarrow> expr_struct \<Rightarrow> physical_plan result option \<Rightarrow> physical_plan result option \<Rightarrow>
   physical_plan result"
where
  "join_of_struct k i jt cond l r =
     (case (l, r) of
        (Some l, Some r) \<Rightarrow> rbind (expr_of_struct cond) (\<lambda>c. rbind l (\<lambda>x. rbind r (\<lambda>y. Inr (PJoin k i jt c x y))))
      | _ \<Rightarrow> Inl null_child)"

definition unary_of_struct ::
  "physical_plan result option \<Rightarrow> (physical_plan \<Rightarrow> physical_plan result) \<Rightarrow> physical_plan result"
where
  "unary_of_struct inp f = (case inp of None \<Rightarrow> Inl null_child | Some p \<Rightarrow> rbind p f)"

primrec plan_of_struct :: "plan_struct \<Rightarrow> physical_plan result" where
  "plan_of_struct (PlanStruct k i t a cs ic ip pr inp jt cond l r g ags es ob n) =
     (case k of
        KSeqScan \<Rightarrow> Inr (SeqScan i t a cs)
      | KIndexScan \<Rightarrow> rbind (expr_of_struct ip) (\<lambda>v. Inr (IndexScan i t a cs ic v))
      | KFilter \<Rightarrow>
          unary_of_struct (map_option plan_of_struct inp) (\<lambda>x. rbind (expr_of_struct pr) (\<lambda>e. Inr (PFilter i e x)))
      | KNestedLoopJoin \<Rightarrow>
          join_of_struct NestedLoopJoin i jt cond (map_option plan_of_struct l) (map_option plan_of_struct r)
      | KHashJoin \<Rightarrow> join_of_struct HashJoin i jt cond (map_option plan_of_struct l) (map_option plan_of_struct r)
      | KIndexNestedLoopJoin \<Rightarrow>
          join_of_struct IndexNestedLoopJoin i jt cond (map_option plan_of_struct l) (map_option plan_of_struct r)
      | KHashAggregate \<Rightarrow>
          unary_of_struct (map_option plan_of_struct inp) (\<lambda>x. rbind (rmap expr_of_struct g) (\<lambda>gs.
            rbind (rmap aggregate_of_struct ags) (\<lambda>as. Inr (HashAggregate i gs as x))))
      | KProject \<Rightarrow>
          unary_of_struct (map_option plan_of_struct inp) (\<lambda>x.
            rbind (rmap (\<lambda>(e, a). rbind (expr_of_struct e) (\<lambda>e. Inr (e, a))) es) (\<lambda>es. Inr (PProject i es x)))
      | KSort \<Rightarrow>
          unary_of_struct (map_option plan_of_struct inp) (\<lambda>x. rbind (rmap order_of_struct ob) (\<lambda>ob. Inr (PSort i ob x)))
      | KLimit \<Rightarrow> unary_of_struct (map_option plan_of_struct inp) (\<lambda>x. Inr (PLimit i n x))
      | KExternalRows \<Rightarrow>
          rbind (rmap expr_of_struct g) (\<lambda>gs. rbind (rmap aggregate_of_struct ags) (\<lambda>as. Inr (ExternalRows i t cs n gs as))))"

section \<open>The worker\<close>

text \<open>\<^verbatim>\<open>run_to_completion\<close> as a result: it always returns, see \<open>run_rows\<close>.\<close>

definition run_result :: "runtime \<Rightarrow> executor \<Rightarrow> row list result" where
  "run_result rt x = (case run_to_completion rt x of Some r \<Rightarrow> r | None \<Rightarrow> Inl OutOfFuel)"

type_synonym response = "string list \<times> row list"
type_synonym row_sets = "(nat \<times> row list) list"

definition qualified_names :: "row_schema \<Rightarrow> string list" where
  "qualified_names s = map (qualified_name s) [0 ..< length (entries s)]"

definition execute_plan :: "runtime \<Rightarrow> physical_plan \<Rightarrow> database \<Rightarrow> (nat \<rightharpoonup> row list) \<Rightarrow> response result" where
  "execute_plan rt p db ext =
     rbind (build_executor p db ext) (\<lambda>x. rbind (run_result rt x) (\<lambda>rows. Inr (qualified_names (exec_schema x), rows)))"

text \<open>\<^verbatim>\<open>std::stoul\<close>: a minus sign negates modulo \<open>2 ^ 64\<close>.\<close>

definition stoul :: "string \<Rightarrow> nat result" where
  "stoul s =
     (let s = dropWhile isspace s;
          neg = (lex_peek s = Some CHR ''-'');
          s = (if neg \<or> lex_peek s = Some CHR ''+'' then tl s else s);
          ds = takeWhile isdigit s
      in if ds = [] then Inl (InvalidArgument ''stoul'')
         else if 2 ^ 64 \<le> read_dec ds then Inl (OutOfRange ''stoul'')
         else Inr (nat ((if neg then - read_dec ds else read_dec ds) mod 2 ^ 64)))"

fun external_rows_from_json :: "(string \<times> json) list \<Rightarrow> (nat \<rightharpoonup> row list) \<Rightarrow> (nat \<rightharpoonup> row list) result" where
  "external_rows_from_json [] ext = Inr ext"
| "external_rows_from_json ((slot, v) # kvs) ext =
     rbind (stoul slot) (\<lambda>n.
     rbind (case json_find v ''rows'' of Some rs \<Rightarrow> rows_from_json rs | None \<Rightarrow> Inr []) (\<lambda>rows.
       external_rows_from_json kvs (ext(n \<mapsto> rows))))"

definition worker_execute :: "runtime \<Rightarrow> database \<Rightarrow> string \<Rightarrow> string result" where
  "worker_execute rt db body =
     rbind (parse_json body) (\<lambda>j.
       case json_find j ''plan'' of
         None \<Rightarrow> Inl (RuntimeError (''worker: missing '' @ [CHR 0x27] @ ''plan'' @ [CHR 0x27] @ '' field''))
       | Some pf \<Rightarrow>
           rbind (deserialize_plan (to_json pf)) (\<lambda>ps.
           rbind (case json_find j ''external_rows'' of
                    Some (JObject kvs) \<Rightarrow> external_rows_from_json kvs Map.empty
                  | _ \<Rightarrow> Inr Map.empty) (\<lambda>ext.
           rbind (plan_of_struct ps) (\<lambda>p.
           rbind (execute_plan rt p db ext) (\<lambda>(cols, rows).
             Inr (to_json (JObject [(''columns'', JArray (map JString cols)), (''rows'', rows_to_json rows)])))))))"

section \<open>Calling a worker\<close>

type_synonym http = "nat \<Rightarrow> string \<Rightarrow> (nat \<times> string) option"

definition worker_request :: "physical_plan \<Rightarrow> row_sets \<Rightarrow> json result" where
  "worker_request p ext =
     rbind (parse_json (serialize_plan (struct_of_plan p))) (\<lambda>pj.
       Inr (JObject ((''plan'', pj) #
         (if ext = [] then []
          else [(''external_rows'',
            JObject (fold (\<lambda>(slot, rows). object_set (show_nat slot) (JObject [(''rows'', rows_to_json rows)])) ext []))]))))"

definition response_from_json :: "json \<Rightarrow> response result" where
  "response_from_json j =
     rbind (case json_find j ''rows'' of Some rs \<Rightarrow> rows_from_json rs | None \<Rightarrow> Inr []) (\<lambda>rows.
       Inr (case json_find j ''columns'' of Some (JArray cs) \<Rightarrow> map as_string cs | _ \<Rightarrow> [], rows))"

definition call_worker_execute :: "http \<Rightarrow> nat \<Rightarrow> physical_plan \<Rightarrow> row_sets \<Rightarrow> response option result" where
  "call_worker_execute http w p ext =
     rbind (worker_request p ext) (\<lambda>body.
       case http w (to_json body) of
         None \<Rightarrow> Inr None
       | Some (status, text) \<Rightarrow>
           if status \<noteq> 200 then Inr None
           else rbind (parse_json text) (\<lambda>j. rbind (response_from_json j) (\<lambda>r. Inr (Some r))))"

record recovery_context =
  local_full_database :: database
  rc_catalog :: catalog
  num_workers :: nat
  recovered_workers :: "nat list"

definition call_worker_or_recover ::
  "runtime \<Rightarrow> http \<Rightarrow> nat \<Rightarrow> physical_plan \<Rightarrow> row_sets \<Rightarrow> recovery_context \<Rightarrow> (response \<times> recovery_context) result"
where
  "call_worker_or_recover rt http w p ext ctx =
     rbind (call_worker_execute http w p ext) (\<lambda>r.
       case r of
         Some resp \<Rightarrow> Inr (resp, ctx)
       | None \<Rightarrow>
           let ctx = ctx\<lparr>recovered_workers := recovered_workers ctx @ [w]\<rparr>;
               db = filter_database_to_partition (local_full_database ctx) (rc_catalog ctx) w (num_workers ctx)
           in rbind (execute_plan rt p db (map_of ext)) (\<lambda>resp. Inr (resp, ctx)))"

text \<open>The rows of a run, without iteration.\<close>

lemma run_result_rows: "run_result rt x = rbind (exec_rows rt x) (drained snoc [])"
  by (simp add: run_result_def run_rows)

lemma execute_plan_rows:
  "execute_plan rt p db ext =
     rbind (build_executor p db ext) (\<lambda>x. rbind (rbind (exec_rows rt x) (drained snoc [])) (\<lambda>rows.
       Inr (qualified_names (exec_schema x), rows)))"
  by (simp only: execute_plan_def run_result_rows)

section \<open>Structs keep plans\<close>

lemma literal_of_struct [simp]: "literal_of_struct (struct_of_literal l) = l"
  by (cases l) (simp_all add: null_literal_def)

lemma expr_of_struct [simp]: "expr_of_struct (struct_of_expr e) = Inr e"
proof (induction e)
  case (Function f args)
  then have "rmap expr_of_struct (map struct_of_expr args) = Inr args" by (intro rmap_back) auto
  then show ?case by simp
qed simp_all

lemma aggregate_of_struct [simp]: "aggregate_of_struct (struct_of_aggregate a) = Inr a"
  by (simp add: struct_of_aggregate_def)

lemma order_of_struct [simp]: "order_of_struct (struct_of_order ob) = Inr ob"
  by (simp add: struct_of_order_def)

lemma exprs_of_structs [simp]:
  "rmap expr_of_struct (map struct_of_expr es) = Inr es"
  "rmap aggregate_of_struct (map struct_of_aggregate as) = Inr as"
  "rmap order_of_struct (map struct_of_order ob) = Inr ob"
  by (simp_all add: rmap_back)

lemma plan_of_struct_of_plan: "plan_of_struct (struct_of_plan p) = Inr p"
proof (induction p)
  case (PJoin k i jt c l r)
  then show ?case by (cases k) (simp_all add: join_of_struct_def)
next
  case (PProject i es p)
  have "rmap (\<lambda>(e, a). rbind (expr_of_struct e) (\<lambda>e. Inr (e, a))) (map (\<lambda>(e, a). (struct_of_expr e, a)) es) = Inr es"
    by (rule rmap_back) (simp add: split_beta)
  with PProject show ?case by (simp add: unary_of_struct_def)
qed (simp_all add: unary_of_struct_def)

section \<open>Rows survive JSON\<close>

fun literal_sendable :: "literal \<Rightarrow> bool" where
  "literal_sendable (Integer i) = (\<bar>i\<bar> < 2 ^ 53)"
| "literal_sendable (Float d) = storable d"
| "literal_sendable (Str s) = plain s"
| "literal_sendable _ = True"

definition rows_sendable :: "row list \<Rightarrow> bool" where
  "rows_sendable rows \<longleftrightarrow> (\<forall>r \<in> set rows. \<forall>v \<in> set r. literal_sendable v)"

lemma row_literal_back: "literal_sendable v \<Longrightarrow> row_literal_from_json (row_literal_to_json v) = Inr v"
  by (cases v) (simp_all add: row_literal_from_json_def int64_of_double_of_int)

lemma rows_back: "rows_sendable rows \<Longrightarrow> rows_from_json (rows_to_json rows) = Inr rows"
proof -
  assume ok: "rows_sendable rows"
  have "rmap row_from_json (map (\<lambda>r. JArray (map row_literal_to_json r)) rows) = Inr rows"
    by (rule rmap_back) (use ok in \<open>auto simp: rows_sendable_def intro!: rmap_back row_literal_back\<close>)
  then show ?thesis by (simp add: rows_to_json_def)
qed

lemma row_literal_json_ok: "literal_sendable v \<Longrightarrow> json_ok (row_literal_to_json v)"
  by (cases v) (simp_all add: plain_keys storable_int)

lemma rows_json_ok: "rows_sendable rows \<Longrightarrow> json_ok (rows_to_json rows)"
  by (auto simp: rows_to_json_def rows_sendable_def row_literal_json_ok)

section \<open>External rows survive JSON\<close>

lemma stoul_show_nat: "n < 2 ^ 64 \<Longrightarrow> stoul (show_nat n) = Inr n"
proof -
  assume n: "n < 2 ^ 64"
  have tw: "takeWhile isdigit (show_nat n) = show_nat n" using show_dec_digits [of "int n"] by (simp add: show_nat_def)
  obtain c cs where c: "show_nat n = c # cs" "isdigit c"
    using show_dec_digits [of "int n"] show_dec_not_Nil [of "int n"] by (cases "show_nat n") (auto simp: show_nat_def)
  have c': "\<not> isspace c" "c \<noteq> CHR ''-''" "c \<noteq> CHR ''+''" using c(2) by (auto simp: isdigit_def isspace_def)
  have "int n < 2 ^ 64" using n by (metis of_nat_less_iff of_nat_numeral of_nat_power)
  moreover have "read_dec (show_nat n) = int n" by (simp add: show_nat_def)
  ultimately show ?thesis using tw c c' unfolding stoul_def by (simp add: Let_def del: takeWhile_eq_all_conv)
qed

definition sets_sendable :: "row_sets \<Rightarrow> bool" where
  "sets_sendable ext \<longleftrightarrow> distinct (map fst ext) \<and> (\<forall>(slot, rows) \<in> set ext. slot < 2 ^ 64 \<and> rows_sendable rows)"

abbreviation slot_json :: "nat \<times> row list \<Rightarrow> string \<times> json" where
  "slot_json \<equiv> \<lambda>(slot, rows). (show_nat slot, JObject [(''rows'', rows_to_json rows)])"

lemma fold_object_set:
  "distinct (map fst (acc @ map slot_json ext)) \<Longrightarrow>
   fold (\<lambda>(slot, rows). object_set (show_nat slot) (JObject [(''rows'', rows_to_json rows)])) ext acc = acc @ map slot_json ext"
proof (induction ext arbitrary: acc)
  case (Cons x ext)
  obtain slot rows where x: "x = (slot, rows)" by (cases x)
  have "object_set (show_nat slot) (JObject [(''rows'', rows_to_json rows)]) acc =
      acc @ [(show_nat slot, JObject [(''rows'', rows_to_json rows)])]"
    using Cons.prems by (intro object_set_new) (auto simp: x)
  with Cons.IH [of "acc @ [slot_json x]"] Cons.prems show ?case by (simp add: x)
qed simp

lemma distinct_slots: "distinct (map fst ext) \<Longrightarrow> distinct (map fst (map slot_json ext))"
proof -
  assume "distinct (map fst ext)"
  then have "distinct (map show_nat (map fst ext))" by (simp add: distinct_map inj_on_def del: map_map)
  moreover have "map show_nat (map fst ext) = map fst (map slot_json ext)" by (simp add: split_beta)
  ultimately show ?thesis by (simp only:)
qed

lemma external_back:
  "sets_sendable ext \<Longrightarrow> external_rows_from_json (map slot_json ext) m = Inr (m ++ map_of ext)"
proof (induction ext arbitrary: m)
  case (Cons x ext)
  obtain slot rows where x: "x = (slot, rows)" by (cases x)
  have "map_of ext slot = None" using Cons.prems x by (auto simp: sets_sendable_def map_of_eq_None_iff)
  then have "m(slot \<mapsto> rows) ++ map_of ext = m ++ map_of (x # ext)" by (auto simp: x map_add_def fun_eq_iff split: option.split)
  with Cons show ?case by (simp add: x sets_sendable_def rows_back stoul_show_nat del: map_of.simps)
qed simp

lemma plain_show_nat: "plain (show_nat n)"
  using show_dec_digits [of "int n"] by (force simp: plain_def show_nat_def isdigit_def)

lemma slots_json_ok: "sets_sendable ext \<Longrightarrow> json_ok (JObject (map slot_json ext))"
  using distinct_slots [of ext] by (auto simp: sets_sendable_def plain_show_nat plain_keys rows_json_ok)

section \<open>A request reaches the worker unchanged\<close>

abbreviation request_json :: "physical_plan \<Rightarrow> row_sets \<Rightarrow> json" where
  "request_json p ext \<equiv>
     JObject ((''plan'', plan_to_json (struct_of_plan p)) #
       (if ext = [] then [] else [(''external_rows'', JObject (map slot_json ext))]))"

lemma worker_request_json:
  assumes "plan_storable (struct_of_plan p)" "sets_sendable ext"
  shows "worker_request p ext = Inr (request_json p ext)" "json_ok (request_json p ext)"
proof -
  have "parse_json (serialize_plan (struct_of_plan p)) = Inr (plan_to_json (struct_of_plan p))"
    using assms(1) by (simp add: serialize_plan_def parse_json_written plan_json_ok)
  moreover have "fold (\<lambda>(slot, rows). object_set (show_nat slot) (JObject [(''rows'', rows_to_json rows)])) ext [] = map slot_json ext"
    using fold_object_set [of "[]" ext] distinct_slots [of ext] assms(2) by (simp add: sets_sendable_def)
  ultimately show "worker_request p ext = Inr (request_json p ext)" by (simp add: worker_request_def)
  show "json_ok (request_json p ext)"
    using slots_json_ok [OF assms(2)] plan_json_ok [OF assms(1)] by (simp add: plain_keys)
qed

definition response_sendable :: "response \<Rightarrow> bool" where
  "response_sendable r \<longleftrightarrow> (\<forall>c \<in> set (fst r). plain c) \<and> rows_sendable (snd r)"

definition response_json :: "response \<Rightarrow> json" where
  "response_json r = JObject [(''columns'', JArray (map JString (fst r))), (''rows'', rows_to_json (snd r))]"

lemma worker_execute_request:
  assumes "plan_storable (struct_of_plan p)" "sets_sendable ext"
  shows "worker_execute rt db (to_json (request_json p ext)) =
    rbind (execute_plan rt p db (map_of ext)) (\<lambda>r. Inr (to_json (response_json r)))"
proof -
  have plan: "deserialize_plan (to_json (plan_to_json (struct_of_plan p))) = Inr (struct_of_plan p)"
    using assms(1) by (simp add: deserialize_plan_def parse_json_written plan_json_ok plan_back)
  have find: "json_find (request_json p ext) ''plan'' = Some (plan_to_json (struct_of_plan p))"
    "(case json_find (request_json p ext) ''external_rows'' of
        Some (JObject kvs) \<Rightarrow> external_rows_from_json kvs Map.empty | _ \<Rightarrow> Inr Map.empty) = Inr (map_of ext)"
    using external_back [OF assms(2), of Map.empty] by simp_all
  have "parse_json (to_json (request_json p ext)) = Inr (request_json p ext)"
    by (rule parse_json_written [OF worker_request_json(2) [OF assms]])
  then show ?thesis
    unfolding worker_execute_def
    by (simp only: find plan plan_of_struct_of_plan rbind_simps option.case response_json_def) (simp only: case_prod_unfold)
qed

lemma response_back: "response_sendable r \<Longrightarrow> response_from_json (response_json r) = Inr r"
  by (cases r) (simp add: response_from_json_def response_json_def response_sendable_def rows_back comp_def)

lemma response_json_ok: "response_sendable r \<Longrightarrow> json_ok (response_json r)"
  by (auto simp: response_json_def response_sendable_def rows_json_ok plain_keys)

text \<open>The connection to a worker that serves its partition of a database.\<close>

definition serves :: "runtime \<Rightarrow> http \<Rightarrow> database \<Rightarrow> catalog \<Rightarrow> nat \<Rightarrow> nat \<Rightarrow> bool" where
  "serves rt http full cat n w \<longleftrightarrow>
     (\<forall>body text. worker_execute rt (filter_database_to_partition full cat w n) body = Inr text \<longrightarrow>
        http w body = Some (200, text))"

lemma call_served:
  assumes "serves rt http full cat n w" "plan_storable (struct_of_plan p)" "sets_sendable ext"
    and "execute_plan rt p (filter_database_to_partition full cat w n) (map_of ext) = Inr r" "response_sendable r"
  shows "call_worker_execute http w p ext = Inr (Some r)"
proof -
  have "http w (to_json (request_json p ext)) = Some (200, to_json (response_json r))"
    using assms(1) worker_execute_request [OF assms(2,3), of rt "filter_database_to_partition full cat w n"] assms(4)
    unfolding serves_def by simp
  moreover have "parse_json (to_json (response_json r)) = Inr (response_json r)"
    by (rule parse_json_written [OF response_json_ok [OF assms(5)]])
  ultimately show ?thesis
    unfolding call_worker_execute_def worker_request_json(1) [OF assms(2,3)]
    by (simp only: rbind_simps option.case prod.case response_back [OF assms(5)]) simp
qed

section \<open>Properties\<close>

text \<open>
  C16. A worker's answer and the coordinator's recomputation of it agree: the response to a plan and its external rows is the
  one of running the plan on the worker's partition, whether the worker serves the request or cannot be
  reached; only the list of recovered workers differs.
\<close>

theorem recovery_transparent:
  assumes "serves rt http (local_full_database ctx) (rc_catalog ctx) (num_workers ctx) w"
    and "plan_storable (struct_of_plan p)" "sets_sendable ext"
    and "execute_plan rt p (filter_database_to_partition (local_full_database ctx) (rc_catalog ctx) w (num_workers ctx))
           (map_of ext) = Inr r" "response_sendable r"
  shows "call_worker_or_recover rt http w p ext ctx = Inr (r, ctx) \<and>
    call_worker_or_recover rt (\<lambda>w body. None) w p ext ctx =
      Inr (r, ctx\<lparr>recovered_workers := recovered_workers ctx @ [w]\<rparr>)"
proof -
  have "call_worker_execute (\<lambda>w body. None) w p ext = Inr None"
    by (simp add: call_worker_execute_def worker_request_json(1) [OF assms(2,3)])
  with call_served [OF assms] assms(4) show ?thesis by (simp add: call_worker_or_recover_def)
qed

definition sample_worker :: "runtime \<Rightarrow> database \<Rightarrow> catalog \<Rightarrow> nat \<Rightarrow> http" where
  "sample_worker rt full cat n w body =
     (case worker_execute rt (filter_database_to_partition full cat w n) body of Inr text \<Rightarrow> Some (200, text) | Inl _ \<Rightarrow> None)"

lemma sample_worker_serves: "serves rt (sample_worker rt full cat n) full cat n w"
  by (simp add: serves_def sample_worker_def)

definition sample_recovery :: recovery_context where
  "sample_recovery =
     \<lparr>local_full_database = [(''t'', \<lparr>table_columns = [''id''], table_rows = [[Integer 4], [Integer 7]]\<rparr>)],
      rc_catalog = sample_catalog, num_workers = 2, recovered_workers = []\<rparr>"

definition scan_t :: physical_plan where
  "scan_t = SeqScan (make_info zero_cost 1 [] dzero) ''t'' None []"

theorem recovery_transparent_witness:
  "call_worker_or_recover reference_runtime
      (sample_worker reference_runtime (local_full_database sample_recovery) sample_catalog 2) 1 scan_t [] sample_recovery =
      Inr (([''t.id''], [[Integer 7]]), sample_recovery) \<and>
   call_worker_or_recover reference_runtime (\<lambda>w body. None) 1 scan_t [] sample_recovery =
      Inr (([''t.id''], [[Integer 7]]), sample_recovery\<lparr>recovered_workers := [1]\<rparr>)"
proof -
  have ctx: "rc_catalog sample_recovery = sample_catalog" "num_workers sample_recovery = 2"
    "recovered_workers sample_recovery = []" by (simp_all add: sample_recovery_def)
  have "execute_plan reference_runtime scan_t
      (filter_database_to_partition (local_full_database sample_recovery) sample_catalog 1 2) (map_of []) =
      Inr ([''t.id''], [[Integer 7]])" unfolding execute_plan_rows by code_simp
  moreover have "plan_storable (struct_of_plan scan_t)" "sets_sendable []" "response_sendable ([''t.id''], [[Integer 7]])"
    by code_simp+
  ultimately show ?thesis
    using recovery_transparent [of reference_runtime
        "sample_worker reference_runtime (local_full_database sample_recovery) sample_catalog 2" sample_recovery 1 scan_t "[]"
        "([''t.id''], [[Integer 7]])"]
      sample_worker_serves by (simp add: ctx)
qed

end
