(* ===== verification/Adaptive.thy ===== *)
theory Adaptive
  imports Plan_Serializer
begin

text \<open>
  The learning components: the epsilon-greedy bandit (\<^verbatim>\<open>adaptive/bandit.cpp\<close>) and the calibration of costs against
  measured times (\<^verbatim>\<open>adaptive/calibration.cpp\<close>), with their files.  The draws of the random generator are arguments:
  the unit draw and the index draw of one call.  Measured times are a tree with the shape of the
  executor tree.  A hash map is an association list with one entry per key.
\<close>

section \<open>The bandit\<close>

record arm_stats =
  arm_count :: nat
  average_reward :: double

type_synonym context_stats = "(string \<times> arm_stats) list"

record bandit_model =
  bm_epsilon :: double
  bm_stats :: "(string \<times> context_stats) list"

definition fresh_arm :: arm_stats where
  "fresh_arm = \<lparr>arm_count = 0, average_reward = dzero\<rparr>"

text \<open>\<^verbatim>\<open>stats_[context]\<close>, which creates an empty entry for a new context.\<close>

definition context_entry :: "string \<Rightarrow> (string \<times> context_stats) list \<Rightarrow> context_stats" where
  "context_entry c st = (case map_of st c of Some s \<Rightarrow> s | None \<Rightarrow> [])"

fun best_arm :: "context_stats \<Rightarrow> string list \<Rightarrow> (string \<times> double) option \<Rightarrow> (string \<times> double) option" where
  "best_arm st [] best = best"
| "best_arm st (arm # arms) best =
     best_arm st arms
       (case map_of st arm of
          None \<Rightarrow> best
        | Some s \<Rightarrow>
            if arm_count s = 0 then best
            else (case best of
                    None \<Rightarrow> Some (arm, average_reward s)
                  | Some (b, r) \<Rightarrow> if dlt r (average_reward s) then Some (arm, average_reward s) else best))"

definition bandit_choose :: "double \<Rightarrow> nat \<Rightarrow> string \<Rightarrow> string list \<Rightarrow> bandit_model \<Rightarrow> string \<times> bandit_model" where
  "bandit_choose unit pick c arms m =
     (let st = context_entry c (bm_stats m);
          m = m\<lparr>bm_stats := AList.update c st (bm_stats m)\<rparr>
      in case (if dlt unit (bm_epsilon m) then None else best_arm st arms None) of
           Some (b, _) \<Rightarrow> (b, m)
         | None \<Rightarrow> (arms ! pick, m))"

definition update_arm :: "double \<Rightarrow> arm_stats \<Rightarrow> arm_stats" where
  "update_arm reward s =
     \<lparr>arm_count = arm_count s + 1,
      average_reward =
        ddiv (dadd (dmul (average_reward s) (double_of_nat (arm_count s))) reward) (double_of_nat (arm_count s + 1))\<rparr>"

definition bandit_update :: "string \<Rightarrow> string \<Rightarrow> double \<Rightarrow> bandit_model \<Rightarrow> bandit_model" where
  "bandit_update c arm reward m =
     (let st = context_entry c (bm_stats m);
          s = (case map_of st arm of Some s \<Rightarrow> s | None \<Rightarrow> fresh_arm)
      in m\<lparr>bm_stats := AList.update c (AList.update arm (update_arm reward s) st) (bm_stats m)\<rparr>)"

section \<open>Saved bandits\<close>

definition arm_to_json :: "arm_stats \<Rightarrow> json" where
  "arm_to_json s = JObject [(''count'', JNumber (double_of_nat (arm_count s))), (''average_reward'', JNumber (average_reward s))]"

definition arm_from_json :: "json \<Rightarrow> arm_stats result" where
  "arm_from_json j =
     rbind (json_field j ''count'' 0 (\<lambda>v. size_of_double (as_number v))) (\<lambda>n.
     rbind (json_field j ''average_reward'' dzero (\<lambda>v. Inr (as_number v))) (\<lambda>r.
       Inr \<lparr>arm_count = n, average_reward = r\<rparr>))"

definition save_bandit :: "bandit_model \<Rightarrow> string" where
  "save_bandit m =
     to_json (JObject (map (\<lambda>(c, arms). (c, JObject (map (\<lambda>(a, s). (a, arm_to_json s)) arms))) (bm_stats m)))"

definition load_arm :: "string \<Rightarrow> (string \<times> context_stats) list \<Rightarrow> string \<times> json \<Rightarrow> (string \<times> context_stats) list result" where
  "load_arm c st aj =
     (case aj of (arm, j) \<Rightarrow>
        rbind (arm_from_json j) (\<lambda>s. Inr (AList.update c (AList.update arm s (context_entry c st)) st)))"

definition load_context :: "(string \<times> context_stats) list \<Rightarrow> string \<times> json \<Rightarrow> (string \<times> context_stats) list result" where
  "load_context st cj =
     (case cj of (c, JObject arms) \<Rightarrow> rfold (load_arm c) st arms | _ \<Rightarrow> Inr st)"

text \<open>The content of the file, or nothing when it cannot be opened.\<close>

definition load_bandit :: "string option \<Rightarrow> double \<Rightarrow> bandit_model result" where
  "load_bandit file eps =
     (case file of
        None \<Rightarrow> Inr \<lparr>bm_epsilon = eps, bm_stats = []\<rparr>
      | Some content \<Rightarrow>
          (case parse_json content of
             Inl e \<Rightarrow> Inr \<lparr>bm_epsilon = eps, bm_stats = []\<rparr>
           | Inr j \<Rightarrow>
               rbind (case j of JObject kvs \<Rightarrow> rfold load_context [] kvs | _ \<Rightarrow> Inr []) (\<lambda>st.
                 Inr \<lparr>bm_epsilon = eps, bm_stats = st\<rparr>)))"

section \<open>Calibration\<close>

definition kMinSamples :: nat where "kMinSamples = 3"

record fit =
  fit_n :: nat
  sum_x :: double
  sum_y :: double
  sum_xx :: double
  sum_xy :: double

definition fresh_fit :: fit where
  "fresh_fit = \<lparr>fit_n = 0, sum_x = dzero, sum_y = dzero, sum_xx = dzero, sum_xy = dzero\<rparr>"

definition fit_denom :: "fit \<Rightarrow> double" where
  "fit_denom f = dsub (dmul (double_of_nat (fit_n f)) (sum_xx f)) (dmul (sum_x f) (sum_x f))"

definition fit_scale :: "fit \<Rightarrow> double" where
  "fit_scale f =
     (if fit_n f < kMinSamples then Fin False 1
      else if deq (fit_denom f) dzero then dzero
      else ddiv (dsub (dmul (double_of_nat (fit_n f)) (sum_xy f)) (dmul (sum_x f) (sum_y f))) (fit_denom f))"

definition fit_bias :: "fit \<Rightarrow> double" where
  "fit_bias f =
     (if fit_n f < kMinSamples then dzero
      else if deq (fit_denom f) dzero then ddiv (sum_y f) (double_of_nat (fit_n f))
      else ddiv (dsub (sum_y f) (dmul (fit_scale f) (sum_x f))) (double_of_nat (fit_n f)))"

type_synonym calibration = "(string \<times> fit) list"

definition record_observation :: "string \<Rightarrow> double \<Rightarrow> double \<Rightarrow> calibration \<Rightarrow> calibration" where
  "record_observation kind predicted actual m =
     (let f = (case map_of m kind of Some f \<Rightarrow> f | None \<Rightarrow> fresh_fit)
      in AList.update kind
           \<lparr>fit_n = fit_n f + 1, sum_x = dadd (sum_x f) predicted, sum_y = dadd (sum_y f) actual,
            sum_xx = dadd (sum_xx f) (dmul predicted predicted), sum_xy = dadd (sum_xy f) (dmul predicted actual)\<rparr> m)"

definition calibrated_estimate_ms :: "string \<Rightarrow> double \<Rightarrow> calibration \<Rightarrow> double" where
  "calibrated_estimate_ms kind predicted m =
     (case map_of m kind of
        None \<Rightarrow> predicted
      | Some f \<Rightarrow>
          if fit_n f < kMinSamples then predicted else dadd (dmul (fit_scale f) predicted) (fit_bias f))"

datatype timing = Timing (elapsed_ms: double) (timing_children: "timing list")

fun kind_name :: "physical_plan \<Rightarrow> string" where
  "kind_name (SeqScan i t a cs) = ''SeqScan''"
| "kind_name (IndexScan i t a cs c v) = ''IndexScan''"
| "kind_name (PFilter i e p) = ''Filter''"
| "kind_name (PJoin k i jt c l r) =
     (case k of NestedLoopJoin \<Rightarrow> ''NestedLoopJoin'' | HashJoin \<Rightarrow> ''HashJoin'' | IndexNestedLoopJoin \<Rightarrow> ''IndexNestedLoopJoin'')"
| "kind_name (HashAggregate i g a p) = ''HashAggregate''"
| "kind_name (PProject i es p) = ''Project''"
| "kind_name (PSort i ob p) = ''Sort''"
| "kind_name (PLimit i n p) = ''Limit''"
| "kind_name (ExternalRows i t cs n g a) = ''ExternalRows''"

fun plan_children :: "physical_plan \<Rightarrow> physical_plan list" where
  "plan_children (PFilter i e p) = [p]"
| "plan_children (PJoin k i jt c l r) = [l, r]"
| "plan_children (HashAggregate i g a p) = [p]"
| "plan_children (PProject i es p) = [p]"
| "plan_children (PSort i ob p) = [p]"
| "plan_children (PLimit i n p) = [p]"
| "plan_children _ = []"

lemma size_plan_children [termination_simp]: "(q, t) \<in> set (zip (plan_children p) ts) \<Longrightarrow> size q < size p"
  by (drule set_zip_leftD) (cases p; auto)

fun record_plan_observations :: "physical_plan \<Rightarrow> timing \<Rightarrow> calibration \<Rightarrow> calibration" where
  "record_plan_observations p t m =
     fold (\<lambda>(q, u) m. record_plan_observations q u m) (zip (plan_children p) (timing_children t))
       (record_observation (kind_name p) (cost_total (cost_of p)) (elapsed_ms t) m)"

declare record_plan_observations.simps [simp del]

definition fit_to_json :: "fit \<Rightarrow> json" where
  "fit_to_json f =
     JObject [(''n'', JNumber (double_of_nat (fit_n f))), (''sum_x'', JNumber (sum_x f)), (''sum_y'', JNumber (sum_y f)),
       (''sum_xx'', JNumber (sum_xx f)), (''sum_xy'', JNumber (sum_xy f))]"

definition fit_from_json :: "json \<Rightarrow> fit result" where
  "fit_from_json j =
     rbind (json_field j ''n'' 0 (\<lambda>v. size_of_double (as_number v))) (\<lambda>n.
     rbind (json_field j ''sum_x'' dzero (\<lambda>v. Inr (as_number v))) (\<lambda>x.
     rbind (json_field j ''sum_y'' dzero (\<lambda>v. Inr (as_number v))) (\<lambda>y.
     rbind (json_field j ''sum_xx'' dzero (\<lambda>v. Inr (as_number v))) (\<lambda>xx.
     rbind (json_field j ''sum_xy'' dzero (\<lambda>v. Inr (as_number v))) (\<lambda>xy.
       Inr \<lparr>fit_n = n, sum_x = x, sum_y = y, sum_xx = xx, sum_xy = xy\<rparr>)))))"

definition save_calibration :: "calibration \<Rightarrow> string" where
  "save_calibration m = to_json (JObject (map (\<lambda>(k, f). (k, fit_to_json f)) m))"

definition load_fit :: "calibration \<Rightarrow> string \<times> json \<Rightarrow> calibration result" where
  "load_fit m kj = (case kj of (k, j) \<Rightarrow> rbind (fit_from_json j) (\<lambda>f. Inr (AList.update k f m)))"

definition load_calibration :: "string option \<Rightarrow> calibration result" where
  "load_calibration file =
     (case file of
        None \<Rightarrow> Inr []
      | Some content \<Rightarrow>
          (case parse_json content of
             Inl e \<Rightarrow> Inr []
           | Inr j \<Rightarrow> (case j of JObject kvs \<Rightarrow> rfold load_fit [] kvs | _ \<Rightarrow> Inr [])))"

section \<open>The bandit exploits the best arm it has seen\<close>

definition observed :: "context_stats \<Rightarrow> string list \<Rightarrow> (string \<times> double) set" where
  "observed st arms = {(a, average_reward s) | a s. a \<in> set arms \<and> map_of st a = Some s \<and> 0 < arm_count s}"

lemma observed_Cons:
  "observed st (a # arms) = (case map_of st a of Some s \<Rightarrow> if arm_count s = 0 then {} else {(a, average_reward s)} | None \<Rightarrow> {}) \<union>
     observed st arms"
  by (auto simp: observed_def split: option.splits)

lemma not_dlt_trans: "b \<noteq> NaN \<Longrightarrow> \<not> dlt a b \<Longrightarrow> \<not> dlt b c \<Longrightarrow> \<not> dlt a c"
  by (cases a; cases b; cases c) auto

lemma best_arm_spec:
  "(\<forall>(a, q) \<in> observed st arms \<union> set_option best. q \<noteq> NaN) \<Longrightarrow> case best_arm st arms best of
      None \<Rightarrow> best = None \<and> observed st arms = {}
    | Some (b, r) \<Rightarrow> ((b, r) \<in> observed st arms \<or> best = Some (b, r)) \<and>
        (\<forall>(a, q) \<in> observed st arms \<union> set_option best. \<not> dlt r q)"
proof (induction arms arbitrary: best)
  case Nil
  then show ?case by (cases best) (auto simp: observed_def)
next
  case (Cons arm arms)
  show ?case
  proof (cases "\<exists>s. map_of st arm = Some s \<and> 0 < arm_count s")
    case False
    then have "best_arm st (arm # arms) best = best_arm st arms best" "observed st (arm # arms) = observed st arms"
      by (auto simp: observed_Cons split: option.splits)
    with Cons show ?thesis by (simp only:)
  next
    case True
    then obtain s where s: "map_of st arm = Some s" "0 < arm_count s" by blast
    let ?x = "(arm, average_reward s)"
    have obs: "observed st (arm # arms) = insert ?x (observed st arms)" using s by (simp add: observed_Cons)
    show ?thesis
    proof (cases "best = None \<or> (\<exists>b r. best = Some (b, r) \<and> dlt r (average_reward s))")
      case True
      then have "best_arm st (arm # arms) best = best_arm st arms (Some ?x)" using s by auto
      moreover have "\<forall>(a, q) \<in> observed st arms \<union> set_option (Some ?x). q \<noteq> NaN" using Cons.prems unfolding obs by auto
      ultimately show ?thesis using Cons.IH [of "Some ?x"] True unfolding obs
        by (auto simp del: best_arm.simps split: option.splits dest: dlt_trans)
    next
      case False
      then obtain b r where b: "best = Some (b, r)" "\<not> dlt r (average_reward s)" by (cases best) auto
      then have "best_arm st (arm # arms) best = best_arm st arms best" using s by simp
      moreover have "r \<noteq> NaN" "\<forall>(a, q) \<in> observed st arms \<union> set_option best. q \<noteq> NaN"
        using Cons.prems b(1) unfolding obs by auto
      ultimately show ?thesis using Cons.IH [of best] b not_dlt_trans [of r _ "average_reward s"] unfolding obs
        by (auto simp del: best_arm.simps split: option.splits)
    qed
  qed
qed

lemma bandit_choose_member:
  assumes "pick < length arms"
  shows "fst (bandit_choose unit pick c arms m) \<in> set arms"
proof -
  have "b \<in> set arms" if "best_arm st xs best = Some (b, r)" "set xs \<subseteq> set arms" "\<forall>x. best = Some x \<longrightarrow> fst x \<in> set arms" for st xs best b r
    using that by (induction xs arbitrary: best) (auto split: option.splits if_splits)
  from this [where best = None and xs = arms] assms show ?thesis
    by (auto simp: bandit_choose_def Let_def split: option.split)
qed

section \<open>Saved state is read back\<close>

lemma update_new: "k \<notin> fst ` set kvs \<Longrightarrow> AList.update k v kvs = kvs @ [(k, v)]"
  by (induction kvs) auto

lemma update_last: "k \<notin> fst ` set kvs \<Longrightarrow> AList.update k v (kvs @ [(k, w)]) = kvs @ [(k, v)]"
  by (induction kvs) auto

definition arm_storable :: "string \<times> arm_stats \<Rightarrow> bool" where
  "arm_storable = (\<lambda>(a, s). plain a \<and> arm_count s < 2 ^ 53 \<and> storable (average_reward s))"

definition context_storable :: "string \<times> context_stats \<Rightarrow> bool" where
  "context_storable = (\<lambda>(c, arms). plain c \<and> arms \<noteq> [] \<and> distinct (map fst arms) \<and> (\<forall>a \<in> set arms. arm_storable a))"

definition bandit_storable :: "bandit_model \<Rightarrow> bool" where
  "bandit_storable m \<longleftrightarrow> distinct (map fst (bm_stats m)) \<and> (\<forall>c \<in> set (bm_stats m). context_storable c)"

abbreviation arm_json :: "string \<times> arm_stats \<Rightarrow> string \<times> json" where
  "arm_json \<equiv> \<lambda>(a, s). (a, arm_to_json s)"

abbreviation context_json :: "string \<times> context_stats \<Rightarrow> string \<times> json" where
  "context_json \<equiv> \<lambda>(c, arms). (c, JObject (map arm_json arms))"

lemma arm_back: "arm_storable (a, s) \<Longrightarrow> arm_from_json (arm_to_json s) = Inr s"
  by (simp add: arm_storable_def arm_from_json_def arm_to_json_def field_simps_found(1) size_of_double_of_nat)

lemma context_entry_last: "c \<notin> fst ` set acc \<Longrightarrow> context_entry c (acc @ [(c, pre)]) = pre"
  using map_of_eq_None_iff [of acc c] by (simp add: context_entry_def map_add_def)

lemma load_arms_more:
  assumes "c \<notin> fst ` set acc"
  shows "distinct (map fst (pre @ as)) \<Longrightarrow> \<forall>a \<in> set as. arm_storable a \<Longrightarrow>
    rfold (load_arm c) (acc @ [(c, pre)]) (map arm_json as) = Inr (acc @ [(c, pre @ as)])"
proof (induction as arbitrary: pre)
  case (Cons x as)
  obtain a s where x: "x = (a, s)" by (cases x)
  have "AList.update a s pre = pre @ [(a, s)]" using Cons.prems(1) x by (intro update_new) auto
  with Cons.IH [of "pre @ [x]"] Cons.prems assms show ?case
    using arm_back [of a s] by (simp add: x load_arm_def [of c "_ @ _"] context_entry_last update_last)
qed simp

lemma load_context_back:
  assumes "c \<notin> fst ` set acc" "context_storable (c, arms)"
  shows "load_context acc (context_json (c, arms)) = Inr (acc @ [(c, arms)])"
proof -
  obtain a s as where arms: "arms = (a, s) # as" using assms(2) by (cases arms) (auto simp: context_storable_def)
  have "context_entry c acc = []" using assms(1) map_of_eq_None_iff [of acc c] by (simp add: context_entry_def)
  moreover have "AList.update c [(a, s)] acc = acc @ [(c, [(a, s)])]" using update_new [OF assms(1)] .
  ultimately show ?thesis
    using load_arms_more [OF assms(1), of "[(a, s)]" as] assms(2)
    by (simp add: load_context_def arms load_arm_def [of c acc] context_storable_def arm_back [of a s])
qed

lemma load_contexts_back:
  "distinct (map fst (acc @ cs)) \<Longrightarrow> \<forall>c \<in> set cs. context_storable c \<Longrightarrow>
   rfold load_context acc (map context_json cs) = Inr (acc @ cs)"
proof (induction cs arbitrary: acc)
  case (Cons x cs)
  obtain c arms where x: "x = (c, arms)" by (cases x)
  have "load_context acc (context_json x) = Inr (acc @ [x])"
    unfolding x by (rule load_context_back) (use Cons.prems x in auto)
  with Cons.IH [of "acc @ [x]"] Cons.prems show ?case by (simp add: x)
qed simp

lemma json_ok_object:
  "distinct (map fst kvs) \<Longrightarrow> (\<And>k v. (k, v) \<in> set kvs \<Longrightarrow> plain k \<and> json_ok v) \<Longrightarrow> json_ok (JObject kvs)"
  by auto

lemma arms_json_ok: "context_storable (c, arms) \<Longrightarrow> json_ok (JObject (map arm_json arms))"
  by (auto simp: context_storable_def arm_storable_def arm_to_json_def plain_keys storable_nat split_beta comp_def)

lemma bandit_json_ok: "bandit_storable m \<Longrightarrow> json_ok (JObject (map context_json (bm_stats m)))"
proof -
  assume m: "bandit_storable m"
  have "map fst (map context_json (bm_stats m)) = map fst (bm_stats m)" by (simp add: split_beta comp_def)
  moreover have "plain c \<and> json_ok (JObject (map arm_json arms))" if "(c, arms) \<in> set (bm_stats m)" for c arms
  proof -
    have cs: "context_storable (c, arms)" using m that unfolding bandit_storable_def by blast
    from arms_json_ok [OF this] cs show ?thesis unfolding context_storable_def by blast
  qed
  ultimately show ?thesis using m unfolding bandit_storable_def
    by (intro json_ok_object) (auto simp del: json_ok.simps map_map)
qed

section \<open>Properties\<close>

text \<open>
  C35. The bandit chooses one of the arms it is offered; when it does not explore and has seen an arm, it chooses
  one with the greatest average reward among those it has seen.
\<close>

theorem bandit_exploits:
  assumes "pick < length arms" "\<not> dlt unit (bm_epsilon m)"
    and "observed (context_entry c (bm_stats m)) arms \<noteq> {}" "\<forall>(a, q) \<in> observed (context_entry c (bm_stats m)) arms. q \<noteq> NaN"
  shows "fst (bandit_choose unit pick c arms m) \<in> set arms \<and>
    (\<exists>r. (fst (bandit_choose unit pick c arms m), r) \<in> observed (context_entry c (bm_stats m)) arms \<and>
      (\<forall>(a, q) \<in> observed (context_entry c (bm_stats m)) arms. \<not> dlt r q))"
proof -
  let ?st = "context_entry c (bm_stats m)"
  obtain b r where b: "best_arm ?st arms None = Some (b, r)" "(b, r) \<in> observed ?st arms"
    "\<forall>(a, q) \<in> observed ?st arms. \<not> dlt r q"
    using best_arm_spec [of ?st arms None] assms(3,4) by (auto split: option.splits)
  moreover have "fst (bandit_choose unit pick c arms m) = b"
    using b(1) assms(2) by (simp add: bandit_choose_def Let_def)
  ultimately show ?thesis using bandit_choose_member [OF assms(1), of unit c m] by auto
qed

text \<open>
  A saved bandit is loaded with the statistics it was saved with.
\<close>

theorem bandit_roundtrip:
  assumes "bandit_storable m"
  shows "load_bandit (Some (save_bandit m)) eps = Inr (m\<lparr>bm_epsilon := eps\<rparr>)"
  using load_contexts_back [of "[]" "bm_stats m"] parse_json_written [OF bandit_json_ok [OF assms]] assms
  by (simp add: load_bandit_def save_bandit_def bandit_storable_def)

theorem bandit_exploits_witness:
  "\<exists>m r. m = bandit_update ''a:b'' ''shuffle'' (Fin True 4) (bandit_update ''a:b'' ''broadcast'' (Fin True 9)
       \<lparr>bm_epsilon = dzero, bm_stats = []\<rparr>) \<and>
     fst (bandit_choose (Fin False 1) 0 ''a:b'' [''broadcast'', ''shuffle''] m) \<in> {''broadcast'', ''shuffle''} \<and>
     (fst (bandit_choose (Fin False 1) 0 ''a:b'' [''broadcast'', ''shuffle''] m), r) \<in>
       observed (context_entry ''a:b'' (bm_stats m)) [''broadcast'', ''shuffle'']"
proof -
  let ?arms = "[''broadcast'', ''shuffle'']"
  define m where "m = bandit_update ''a:b'' ''shuffle'' (Fin True 4) (bandit_update ''a:b'' ''broadcast'' (Fin True 9)
       \<lparr>bm_epsilon = dzero, bm_stats = []\<rparr>)"
  define st where "st = context_entry ''a:b'' (bm_stats m)"
  have st: "st = [(''broadcast'', \<lparr>arm_count = 1, average_reward = Fin True 9\<rparr>), (''shuffle'', \<lparr>arm_count = 1, average_reward = Fin True 4\<rparr>)]"
    unfolding st_def m_def by code_simp
  have obs: "observed st ?arms = {(''broadcast'', Fin True 9), (''shuffle'', Fin True 4)}"
    by (simp add: observed_Cons st) (auto simp: observed_def)
  have eps: "\<not> dlt (Fin False 1) (bm_epsilon m)" unfolding m_def by code_simp
  have "observed st ?arms \<noteq> {}" "\<forall>(a, q) \<in> observed st ?arms. q \<noteq> NaN" unfolding obs by simp_all
  note chosen = bandit_exploits [of 0 ?arms "Fin False 1" m "''a:b''", folded st_def, OF _ eps this, simplified]
  obtain r where "(fst (bandit_choose (Fin False 1) 0 ''a:b'' ?arms m), r) \<in> observed st ?arms"
    using chosen by blast
  moreover have "fst (bandit_choose (Fin False 1) 0 ''a:b'' ?arms m) \<in> {''broadcast'', ''shuffle''}"
    using chosen by blast
  ultimately show ?thesis unfolding m_def st_def by blast
qed

definition sample_bandit :: bandit_model where
  "sample_bandit =
     \<lparr>bm_epsilon = dzero, bm_stats = [(''a:b'', [(''shuffle'', \<lparr>arm_count = 3, average_reward = dzero\<rparr>)])]\<rparr>"

theorem bandit_roundtrip_witness:
  "load_bandit (Some (save_bandit sample_bandit)) (Fin False 1) = Inr (sample_bandit\<lparr>bm_epsilon := Fin False 1\<rparr>)"
  by (rule bandit_roundtrip) (simp add: sample_bandit_def bandit_storable_def context_storable_def arm_storable_def plain_def)

end
