(* ===== verification/Resp.thy ===== *)
theory Resp
  imports Storage
begin

text \<open>
  The client side of the cache protocol (\<^verbatim>\<open>integration/cache_client.cpp\<close>): encoding commands, reading replies off
  a byte reader, and the client with its one connection.  \<^verbatim>\<open>ByteReader\<close> is an abstract class; a reader here is a
  pair of functions on the reader's state, and \<^verbatim>\<open>parse_reply\<close> takes them as arguments.  The two readers of
  the source are \<^verbatim>\<open>StringByteReader\<close>, whose state is the unread text, and \<^verbatim>\<open>SocketByteReader\<close>, whose state is the
  unread part of its buffer with the chunks that later calls of \<^verbatim>\<open>recv\<close> return; after the last
  chunk the connection is closed.
\<close>

section \<open>Commands\<close>

abbreviation crlf :: string where "crlf \<equiv> [CHR 0x0D, CHR 0x0A]"

definition encode_bulk :: "string \<Rightarrow> string" where
  "encode_bulk a = ''$'' @ show_nat (length a) @ crlf @ a @ crlf"

definition encode_command :: "string list \<Rightarrow> string" where
  "encode_command args = ''*'' @ show_nat (length args) @ crlf @ concat (map encode_bulk args)"

section \<open>Readers\<close>

type_synonym 's line_reader = "'s \<Rightarrow> (string \<times> 's) result"
type_synonym 's exact_reader = "nat \<Rightarrow> 's \<Rightarrow> (string \<times> 's) result"

definition drop_cr :: "string \<Rightarrow> string" where
  "drop_cr s = (if s \<noteq> [] \<and> last s = CHR 0x0D then butlast s else s)"

definition string_read_line :: "string line_reader" where
  "string_read_line s =
     (if CHR 0x0A \<in> set s
      then Inr (drop_cr (takeWhile (\<lambda>c. c \<noteq> CHR 0x0A) s), drop 1 (dropWhile (\<lambda>c. c \<noteq> CHR 0x0A) s))
      else Inl (RuntimeError ''resp: unexpected EOF reading line''))"

definition string_read_exact :: "string exact_reader" where
  "string_read_exact n s =
     (if length s < n then Inl (RuntimeError ''resp: unexpected EOF reading exact bytes'')
      else Inr (take n s, drop n s))"

type_synonym socket_state = "string \<times> string list"

definition recv_failed :: error where
  "recv_failed = RuntimeError ''cache_client: connection closed or recv failed''"

text \<open>One character off the socket, refilling the buffer when it is used up.\<close>

fun socket_next :: "string \<Rightarrow> string list \<Rightarrow> (char \<times> socket_state) result" where
  "socket_next (c # buf) cs = Inr (c, buf, cs)"
| "socket_next [] [] = Inl recv_failed"
| "socket_next [] ([] # cs) = Inl recv_failed"
| "socket_next [] ((c # buf) # cs) = Inr (c, buf, cs)"

abbreviation socket_size :: "socket_state \<Rightarrow> nat" where
  "socket_size s \<equiv> length (fst s) + length (concat (snd s))"

lemma socket_next_size: "socket_next buf cs = Inr (c, s) \<Longrightarrow> socket_size s < socket_size (buf, cs)"
  by (cases "(buf, cs)" rule: socket_next.cases) auto

text \<open>The loop of \<^verbatim>\<open>read_line\<close>; \<open>line\<close> is what it has read so far.\<close>

function socket_line :: "string \<Rightarrow> socket_state \<Rightarrow> (string \<times> socket_state) result" where
  "socket_line line s =
     (case socket_next (fst s) (snd s) of
        Inl e \<Rightarrow> Inl e
      | Inr (c, s) \<Rightarrow>
          (if line \<noteq> [] \<and> last line = CHR 0x0D \<and> c = CHR 0x0A then Inr (butlast line, s)
           else socket_line (line @ [c]) s))"
  by pat_completeness auto
termination
  by (relation "measure (\<lambda>(line, s). socket_size s)") (auto dest: socket_next_size)

declare socket_line.simps [simp del]

definition socket_read_line :: "socket_state line_reader" where
  "socket_read_line s = socket_line [] s"

text \<open>The loop of \<^verbatim>\<open>read_exact\<close>, which takes what the buffer has and refills it.\<close>

fun socket_exact :: "nat \<Rightarrow> string \<Rightarrow> string list \<Rightarrow> (string \<times> socket_state) result" where
  "socket_exact n buf [] = (if n \<le> length buf then Inr (take n buf, drop n buf, []) else Inl recv_failed)"
| "socket_exact n buf (c # cs) =
     (if n \<le> length buf then Inr (take n buf, drop n buf, c # cs)
      else if c = [] then Inl recv_failed
      else rbind (socket_exact (n - length buf) c cs) (\<lambda>(out, s). Inr (buf @ out, s)))"

definition socket_read_exact :: "socket_state exact_reader" where
  "socket_read_exact n s = socket_exact n (fst s) (snd s)"

section \<open>Replies\<close>

datatype reply = ROk string | RError string | RInteger int | RBulk string | RNull

definition kMaxBulkLength :: int where "kMaxBulkLength = 512 * 1024 * 1024"

definition stoi :: "string \<Rightarrow> int result" where
  "stoi s =
     rbind (case stoll s of Inl (InvalidArgument m) \<Rightarrow> Inl (InvalidArgument ''stoi'') | Inl _ \<Rightarrow> Inl (OutOfRange ''stoi'') | Inr i \<Rightarrow> Inr i)
       (\<lambda>i. if - (2 ^ 31) \<le> i \<and> i < 2 ^ 31 then Inr i else Inl (OutOfRange ''stoi''))"

definition parse_reply :: "'s line_reader \<Rightarrow> 's exact_reader \<Rightarrow> 's \<Rightarrow> (reply \<times> 's) result" where
  "parse_reply read_line read_exact s =
     rbind (read_line s) (\<lambda>(line, s).
       case line of
         [] \<Rightarrow> Inl (RuntimeError ''resp: empty reply line'')
       | prefix # rest \<Rightarrow>
           if prefix = CHR ''+'' then Inr (ROk rest, s)
           else if prefix = CHR ''-'' then Inr (RError rest, s)
           else if prefix = CHR '':'' then rbind (stoll rest) (\<lambda>i. Inr (RInteger i, s))
           else if prefix = CHR ''$'' then
             rbind (stoi rest) (\<lambda>n.
               if n = - 1 then Inr (RNull, s)
               else if n < 0 then Inl (RuntimeError ''resp: negative bulk length'')
               else if n > kMaxBulkLength then Inl (RuntimeError ''resp: bulk length exceeds max'')
               else rbind (read_exact (nat n + 2) s) (\<lambda>(payload, s). Inr (RBulk (take (nat n) payload), s)))
           else Inl (RuntimeError (''resp: unknown reply type byte '' @ [CHR 0x27, prefix, CHR 0x27])))"

text \<open>The server's encoding of a reply (\<^verbatim>\<open>cache/internal/resp/encoder.go\<close>).\<close>

fun write_resp :: "reply \<Rightarrow> string" where
  "write_resp (ROk s) = ''+'' @ s @ crlf"
| "write_resp (RError s) = ''-'' @ s @ crlf"
| "write_resp (RInteger i) = '':'' @ show_int i @ crlf"
| "write_resp (RBulk b) = ''$'' @ show_nat (length b) @ crlf @ b @ crlf"
| "write_resp RNull = ''$-1'' @ crlf"

text \<open>
  The replies the server sends: lines without line breaks, 64-bit integers, values of at most
  512 MiB.
\<close>

definition is_line :: "string \<Rightarrow> bool" where
  "is_line s \<longleftrightarrow> CHR 0x0A \<notin> set s \<and> CHR 0x0D \<notin> set s"

fun reply_ok :: "reply \<Rightarrow> bool" where
  "reply_ok (ROk s) = is_line s"
| "reply_ok (RError s) = is_line s"
| "reply_ok (RInteger i) = in_int64 i"
| "reply_ok (RBulk b) = (int (length b) \<le> kMaxBulkLength)"
| "reply_ok RNull = True"

section \<open>The client\<close>

text \<open>
  The network as the client sees it while one command runs: what the successive calls of \<^verbatim>\<open>send\<close> return
  (an entry 0 or the end of the list stands for a failure) and the chunks that \<^verbatim>\<open>recv\<close> returns, both
  depending on the request.
\<close>

type_synonym network = "string \<Rightarrow> nat list \<times> string list"

record cache_client =
  fd_open :: bool

fun send_all :: "nat list \<Rightarrow> string \<Rightarrow> bool" where
  "send_all ns [] = True"
| "send_all [] s = False"
| "send_all (n # ns) s = (if n = 0 then False else send_all ns (drop n s))"

definition close_connection :: "cache_client \<Rightarrow> cache_client" where
  "close_connection c = c\<lparr>fd_open := False\<rparr>"

definition send_command :: "network \<Rightarrow> cache_client \<Rightarrow> string list \<Rightarrow> reply option \<times> cache_client" where
  "send_command net c args =
     (if \<not> fd_open c then (None, c)
      else let encoded = encode_command args; (sends, chunks) = net encoded
        in if \<not> send_all sends encoded then (None, close_connection c)
           else case parse_reply socket_read_line socket_read_exact ([], chunks) of
                  Inl e \<Rightarrow> (None, close_connection c)
                | Inr (r, _) \<Rightarrow> (Some r, c))"

definition cache_get :: "network \<Rightarrow> cache_client \<Rightarrow> string \<Rightarrow> string option \<times> cache_client" where
  "cache_get net c key =
     (let (r, c) = send_command net c [''GET'', key]
      in (case r of Some (RBulk b) \<Rightarrow> Some b | _ \<Rightarrow> None, c))"

definition cache_set :: "network \<Rightarrow> cache_client \<Rightarrow> string \<Rightarrow> string \<Rightarrow> int \<Rightarrow> bool \<times> cache_client" where
  "cache_set net c key v ttl =
     (let (r, c) = send_command net c ([''SET'', key, v] @ (if ttl > 0 then [''EX'', show_int ttl] else []))
      in (case r of Some (ROk _) \<Rightarrow> True | _ \<Rightarrow> False, c))"

section \<open>Numbers in replies\<close>

lemma show_dec_first: "0 \<le> i \<Longrightarrow> \<exists>c cs. show_dec i = c # cs \<and> isdigit c"
  using show_dec_digits [of i] by (cases "show_dec i") auto

lemma stoll_show_int: "in_int64 i \<Longrightarrow> stoll (show_int i) = Inr i"
proof -
  assume i: "in_int64 i"
  have tw: "takeWhile isdigit (show_dec j) = show_dec j" if "0 \<le> j" for j
    using show_dec_digits [OF that] by simp
  obtain c cs where c: "show_dec \<bar>i\<bar> = c # cs" "isdigit c" using show_dec_first [of "\<bar>i\<bar>"] by auto
  then have "\<not> isspace c" "c \<noteq> CHR ''-''" "c \<noteq> CHR ''+''" "\<not> isspace CHR ''-''" by (auto simp: isdigit_def isspace_def)
  with c i tw [of "\<bar>i\<bar>"] read_dec_show_dec [of "\<bar>i\<bar>"] show ?thesis
    by (cases "i < 0") (simp_all add: show_int_def stoll_def Let_def del: read_dec_show_dec takeWhile_eq_all_conv)
qed

lemma stoi_show_nat: "int n \<le> kMaxBulkLength \<Longrightarrow> stoi (show_nat n) = Inr (int n)"
  using stoll_show_int [of "int n"]
  by (simp add: stoi_def kMaxBulkLength_def show_int_def show_nat_def in_int64_def int64_min_def int64_max_def)

lemma is_line_show_int: "is_line (show_int i)"
proof -
  have "is_line (show_dec j)" if "0 \<le> j" for j
    using show_dec_digits [OF that] by (force simp: is_line_def isdigit_def)
  from this [of "\<bar>i\<bar>"] show ?thesis by (cases "i < 0") (simp_all add: show_int_def, simp add: is_line_def)
qed

section \<open>What \<^verbatim>\<open>ByteReader\<close> promises\<close>

text \<open>
  \<open>pending\<close> gives the bytes a reader has still to deliver: a line is delivered without its terminator, a block
  exactly, and the rest stays pending.
\<close>

locale byte_reader =
  fixes read_line :: "'s line_reader"
    and read_exact :: "'s exact_reader"
    and pending :: "'s \<Rightarrow> string"
    and valid :: "'s \<Rightarrow> bool"
  assumes line: "valid s \<Longrightarrow> is_line l \<Longrightarrow> pending s = l @ crlf @ rest \<Longrightarrow>
      \<exists>s'. read_line s = Inr (l, s') \<and> pending s' = rest \<and> valid s'"
    and exact: "valid s \<Longrightarrow> n \<le> length (pending s) \<Longrightarrow>
      \<exists>s'. read_exact n s = Inr (take n (pending s), s') \<and> pending s' = drop n (pending s) \<and> valid s'"
begin

lemma reads_line:
  assumes "valid s" "is_line l" "pending s = l @ crlf @ rest" "l = p # x"
  obtains s' where "read_line s = Inr (p # x, s')" "pending s' = rest" "valid s'"
  using line [OF assms(1-3)] assms(4) by blast

text \<open>A reply is read back as the server wrote it, and nothing after it is consumed.\<close>

lemma reads_reply:
  assumes "valid s" "reply_ok r" "pending s = write_resp r @ rest"
  shows "\<exists>s'. parse_reply read_line read_exact s = Inr (r, s') \<and> pending s' = rest \<and> valid s'"
proof (cases r)
  case (ROk x)
  obtain s' where "read_line s = Inr (CHR ''+'' # x, s')" "pending s' = rest" "valid s'"
    by (rule reads_line [of s "CHR ''+'' # x"]) (use assms ROk in \<open>auto simp: is_line_def\<close>)
  then show ?thesis using ROk by (simp add: parse_reply_def)
next
  case (RError x)
  obtain s' where "read_line s = Inr (CHR ''-'' # x, s')" "pending s' = rest" "valid s'"
    by (rule reads_line [of s "CHR ''-'' # x"]) (use assms RError in \<open>auto simp: is_line_def\<close>)
  then show ?thesis using RError by (simp add: parse_reply_def)
next
  case (RInteger i)
  obtain s' where "read_line s = Inr (CHR '':'' # show_int i, s')" "pending s' = rest" "valid s'"
    by (rule reads_line [of s "CHR '':'' # show_int i"]) (use assms RInteger is_line_show_int in \<open>auto simp: is_line_def\<close>)
  then show ?thesis using RInteger assms(2) by (simp add: parse_reply_def stoll_show_int)
next
  case (RBulk b)
  let ?l = "CHR ''$'' # show_nat (length b)"
  have len: "int (length b) \<le> kMaxBulkLength" using assms(2) RBulk by simp
  obtain s' where s': "read_line s = Inr (?l, s')" "pending s' = b @ crlf @ rest" "valid s'"
    by (rule reads_line [of s ?l]) (use assms RBulk is_line_show_int [of "int (length b)"] in
      \<open>auto simp: is_line_def show_int_def show_nat_def\<close>)
  then obtain s'' where "read_exact (length b + 2) s' = Inr (b @ crlf, s'')" "pending s'' = rest" "valid s''"
    using exact [of s' "length b + 2"] by auto
  with s' len RBulk show ?thesis
    by (simp add: parse_reply_def stoi_show_nat)
next
  case RNull
  obtain s' where "read_line s = Inr (''$-1'', s')" "pending s' = rest" "valid s'"
    by (rule reads_line [of s "''$-1''"]) (use assms RNull in \<open>auto simp: is_line_def\<close>)
  moreover have "stoi ''-1'' = Inr (- 1)" by code_simp
  ultimately show ?thesis using RNull by (simp add: parse_reply_def)
qed

end

interpretation string_reader: byte_reader string_read_line string_read_exact "\<lambda>s. s" "\<lambda>s. True"
proof
  fix s l rest :: string
  assume l: "is_line l" "s = l @ crlf @ rest"
  then have "takeWhile (\<lambda>c. c \<noteq> CHR 0x0A) s = l @ [CHR 0x0D]" "dropWhile (\<lambda>c. c \<noteq> CHR 0x0A) s = CHR 0x0A # rest"
    by (auto simp: is_line_def takeWhile_append dropWhile_append)
  then show "\<exists>s'. string_read_line s = Inr (l, s') \<and> s' = rest \<and> True"
    using l(2) by (simp add: string_read_line_def drop_cr_def)
qed (simp add: string_read_exact_def)

definition socket_pending :: "socket_state \<Rightarrow> string" where
  "socket_pending s = fst s @ concat (snd s)"

definition socket_valid :: "socket_state \<Rightarrow> bool" where
  "socket_valid s \<longleftrightarrow> [] \<notin> set (snd s)"

lemma socket_next_pending:
  assumes "socket_valid s" "socket_pending s = c # rest"
  obtains s' where "socket_next (fst s) (snd s) = Inr (c, s')" "socket_pending s' = rest" "socket_valid s'"
  using assms by (cases "(fst s, snd s)" rule: socket_next.cases) (auto simp: socket_pending_def socket_valid_def)

lemma socket_line_pending:
  "socket_valid s \<Longrightarrow> CHR 0x0D \<notin> set line \<Longrightarrow> CHR 0x0D \<notin> set l \<Longrightarrow> socket_pending s = l @ crlf @ rest \<Longrightarrow>
     \<exists>s'. socket_line line s = Inr (line @ l, s') \<and> socket_pending s' = rest \<and> socket_valid s'"
proof (induction l arbitrary: line s)
  case Nil
  obtain s1 where s1: "socket_next (fst s) (snd s) = Inr (CHR 0x0D, s1)" "socket_pending s1 = CHR 0x0A # rest" "socket_valid s1"
    by (rule socket_next_pending [OF Nil.prems(1)]) (use Nil.prems in auto)
  obtain s2 where s2: "socket_next (fst s1) (snd s1) = Inr (CHR 0x0A, s2)" "socket_pending s2 = rest" "socket_valid s2"
    by (rule socket_next_pending [OF s1(3,2)])
  have "socket_line line s = Inr (line, s2)" by (subst socket_line.simps, simp add: s1, subst socket_line.simps, simp add: s2(1))
  with s2(2,3) show ?case by auto
next
  case (Cons c l)
  obtain s1 where s1: "socket_next (fst s) (snd s) = Inr (c, s1)" "socket_pending s1 = l @ crlf @ rest" "socket_valid s1"
    by (rule socket_next_pending [OF Cons.prems(1)]) (use Cons.prems in auto)
  have "line \<noteq> [] \<longrightarrow> last line \<noteq> CHR 0x0D" using Cons.prems(2) last_in_set by metis
  with Cons.IH [OF s1(3) _ _ s1(2), of "line @ [c]"] Cons.prems show ?case
    by (subst socket_line.simps) (auto simp: s1)
qed

lemma socket_exact_pending:
  "[] \<notin> set cs \<Longrightarrow> n \<le> length (buf @ concat cs) \<Longrightarrow>
     \<exists>s'. socket_exact n buf cs = Inr (take n (buf @ concat cs), s') \<and>
       socket_pending s' = drop n (buf @ concat cs) \<and> socket_valid s'"
  by (induction n buf cs rule: socket_exact.induct) (fastforce simp: socket_pending_def socket_valid_def)+

interpretation socket_reader: byte_reader socket_read_line socket_read_exact socket_pending socket_valid
proof
  fix s l rest
  assume "socket_valid s" "is_line l" "socket_pending s = l @ crlf @ rest"
  then show "\<exists>s'. socket_read_line s = Inr (l, s') \<and> socket_pending s' = rest \<and> socket_valid s'"
    using socket_line_pending [of s "[]" l rest] by (simp add: socket_read_line_def is_line_def)
next
  fix s n
  assume "socket_valid s" "n \<le> length (socket_pending s)"
  then show "\<exists>s'. socket_read_exact n s = Inr (take n (socket_pending s), s') \<and>
      socket_pending s' = drop n (socket_pending s) \<and> socket_valid s'"
    using socket_exact_pending [of "snd s" n "fst s"]
    by (simp add: socket_read_exact_def socket_valid_def [of s] socket_pending_def [of s])
qed

section \<open>Framing\<close>

lemma show_nat_framed:
  assumes "show_nat m @ CHR 0x0D # x = show_nat n @ CHR 0x0D # y"
  shows "m = n \<and> x = y"
proof -
  have tw: "takeWhile isdigit (show_nat k @ CHR 0x0D # z) = show_nat k" for k z
    using show_dec_digits [of "int k"] by (intro takeWhile_append_stop) (auto simp: show_nat_def isdigit_def)
  have "show_nat m = show_nat n" using assms tw by metis
  with assms show ?thesis by simp
qed

lemma encode_bulk_framed: "encode_bulk a @ x = encode_bulk b @ y \<longleftrightarrow> a = b \<and> x = y"
proof
  assume "encode_bulk a @ x = encode_bulk b @ y"
  then have "length a = length b \<and> CHR 0x0A # a @ crlf @ x = CHR 0x0A # b @ crlf @ y"
    by (intro show_nat_framed) (simp add: encode_bulk_def)
  then show "a = b \<and> x = y" by (elim conjE) simp
qed simp

lemma concat_bulks_framed:
  "length as = length bs \<Longrightarrow> concat (map encode_bulk as) @ x = concat (map encode_bulk bs) @ y \<longleftrightarrow> as = bs \<and> x = y"
  by (induction as bs rule: list_induct2) (auto simp: encode_bulk_framed)

section \<open>Properties\<close>

text \<open>
  Commands are framed: no encoded command is a prefix of another one, whatever bytes the arguments hold, so a
  stream of commands is taken apart in one way only.
\<close>

theorem encode_command_framed: "encode_command as @ x = encode_command bs @ y \<longleftrightarrow> as = bs \<and> x = y"
proof
  assume "encode_command as @ x = encode_command bs @ y"
  then have "length as = length bs \<and>
      CHR 0x0A # concat (map encode_bulk as) @ x = CHR 0x0A # concat (map encode_bulk bs) @ y"
    by (intro show_nat_framed) (simp add: encode_command_def)
  with concat_bulks_framed [of as bs x y] show "as = bs \<and> x = y" by simp
qed simp

text \<open>
  C12. A reply is read off the socket as the server wrote it, however \<^verbatim>\<open>recv\<close> cuts it into chunks; the reader over a
  string reads the same reply.
\<close>

theorem reply_roundtrip:
  assumes "reply_ok r" "concat chunks = write_resp r" "[] \<notin> set chunks"
  shows "\<exists>s s'. parse_reply socket_read_line socket_read_exact ([], chunks) = Inr (r, s) \<and> socket_pending s = [] \<and>
    parse_reply string_read_line string_read_exact (concat chunks) = Inr (r, s') \<and> s' = []"
  using socket_reader.reads_reply [of "([], chunks)" r "[]"] string_reader.reads_reply [of r "concat chunks" "[]"] assms
  by (auto simp: socket_valid_def socket_pending_def)

theorem reply_roundtrip_witness:
  "\<exists>s s'. parse_reply socket_read_line socket_read_exact ([], [''$5'' @ [CHR 0x0D], [CHR 0x0A] @ ''he'', ''llo'' @ crlf]) =
       Inr (RBulk ''hello'', s) \<and> socket_pending s = [] \<and>
     parse_reply string_read_line string_read_exact (concat [''$5'' @ [CHR 0x0D], [CHR 0x0A] @ ''he'', ''llo'' @ crlf]) =
       Inr (RBulk ''hello'', s') \<and> s' = []"
proof (rule reply_roundtrip)
  show "reply_ok (RBulk ''hello'')" by (simp add: kMaxBulkLength_def)
  show "concat [''$5'' @ [CHR 0x0D], [CHR 0x0A] @ ''he'', ''llo'' @ crlf] = write_resp (RBulk ''hello'')" by code_simp
qed simp

text \<open>A failed \<^verbatim>\<open>get\<close> closes the connection or leaves it as it was; it never makes a value up.\<close>

lemma cache_get_reply:
  assumes "fd_open c" "net (encode_command [''GET'', key]) = (sends, chunks)"
    and "send_all sends (encode_command [''GET'', key])" "reply_ok r" "concat chunks = write_resp r" "[] \<notin> set chunks"
  shows "cache_get net c key = (case r of RBulk b \<Rightarrow> Some b | _ \<Rightarrow> None, c)"
  using socket_reader.reads_reply [of "([], chunks)" r "[]"] assms
  by (auto simp: cache_get_def send_command_def socket_valid_def socket_pending_def split: reply.splits)

lemma cache_get_closed: "\<not> fd_open c \<Longrightarrow> cache_get net c key = (None, c)"
  by (simp add: cache_get_def send_command_def)

lemma cache_set_closed: "\<not> fd_open c \<Longrightarrow> cache_set net c key v ttl = (False, c)"
  by (simp add: cache_set_def send_command_def)

end
