(* ===== verification/Statistics.thy ===== *)
theory Statistics
  imports Cost Storage
begin

text \<open>
  Table statistics (\<^verbatim>\<open>statistics/histogram.hpp\<close>, \<^verbatim>\<open>statistics/column_stats.hpp\<close>,
  \<^verbatim>\<open>statistics/table_stats.hpp\<close>, \<^verbatim>\<open>statistics/statistics_catalog.hpp\<close>) and their computation from the rows
  of a table (\<^verbatim>\<open>statistics/analyzer.cpp\<close>).  The C++ hash maps are association lists with one entry per
  key.
\<close>

section \<open>Histograms\<close>

record histogram_bucket =
  bucket_lower :: double
  bucket_upper :: double
  bucket_frequency :: double

type_synonym histogram = "histogram_bucket list"

text \<open>\<^verbatim>\<open>std::clamp\<close>; a NaN is neither below nor above the bounds.\<close>

definition dclamp :: "double \<Rightarrow> double \<Rightarrow> double \<Rightarrow> double" where
  "dclamp d lo hi = (if dlt d lo then lo else if dlt hi d then hi else d)"

abbreviation clamp01 :: "double \<Rightarrow> double" where
  "clamp01 d \<equiv> dclamp d dzero (Fin False 1)"

definition bucket_overlap :: "double \<Rightarrow> double \<Rightarrow> double \<Rightarrow> histogram_bucket \<Rightarrow> double" where
  "bucket_overlap low high acc b =
     (let overlap_low = dmax (bucket_lower b) low;
          overlap_high = dmin (bucket_upper b) high;
          width = dsub (bucket_upper b) (bucket_lower b)
      in if dle overlap_high overlap_low then acc
         else if dle width dzero
         then (if dle low (bucket_lower b) \<and> dle (bucket_lower b) high
               then dadd acc (bucket_frequency b) else acc)
         else dadd acc (ddiv (dmul (bucket_frequency b) (dsub overlap_high overlap_low)) width))"

definition range_selectivity :: "histogram \<Rightarrow> double \<Rightarrow> double \<Rightarrow> double" where
  "range_selectivity h low high = clamp01 (foldl (bucket_overlap low high) dzero h)"

section \<open>Statistics of columns and tables\<close>

record column_stats =
  distinct_count :: double
  null_fraction :: double
  min_value :: "double option"
  max_value :: "double option"
  col_histogram :: "histogram option"

definition empty_column_stats :: column_stats where
  "empty_column_stats =
     \<lparr>distinct_count = dzero, null_fraction = dzero, min_value = None, max_value = None, col_histogram = None\<rparr>"

record table_stats =
  stats_row_count :: double
  stats_page_count :: double
  stats_columns :: "(string \<times> column_stats) list"

definition empty_table_stats :: table_stats where
  "empty_table_stats = \<lparr>stats_row_count = dzero, stats_page_count = dzero, stats_columns = []\<rparr>"

definition stats_column :: "table_stats \<Rightarrow> string \<Rightarrow> column_stats option" where
  "stats_column s name = map_of (stats_columns s) name"

type_synonym statistics = "(string \<times> table_stats) list"

definition register_stats :: "string \<Rightarrow> table_stats \<Rightarrow> statistics \<Rightarrow> statistics" where
  "register_stats name s cat = AList.update name s cat"

definition stats_get :: "statistics \<Rightarrow> string \<Rightarrow> table_stats option" where
  "stats_get cat name = map_of cat name"

section \<open>ANALYZE\<close>

definition kHistogramBuckets :: nat where "kHistogramBuckets = 10"
definition kAssumedPageBytes :: double where "kAssumedPageBytes = Fin False 8192"

fun literal_set_key :: "literal \<Rightarrow> string" where
  "literal_set_key (Integer i) = ''i:'' @ show_int i"
| "literal_set_key (Float d) = ''f:'' @ show_f6 d"
| "literal_set_key (Str s) = ''s:'' @ s"
| "literal_set_key (Boolean b) = (if b then ''b:1'' else ''b:0'')"
| "literal_set_key Null = ''n:''"

definition is_numeric_type :: "data_type \<Rightarrow> bool" where
  "is_numeric_type t \<longleftrightarrow> t = IntType \<or> t = FloatType"

fun as_double :: "literal \<Rightarrow> double" where
  "as_double (Integer i) = double_of_int i"
| "as_double (Float d) = d"
| "as_double _ = dzero"

fun approx_literal_bytes :: "literal \<Rightarrow> double" where
  "approx_literal_bytes (Str s) = double_of_nat (length s)"
| "approx_literal_bytes Null = dzero"
| "approx_literal_bytes _ = Fin False 8"

text \<open>
  The scan of one column, with the C++ locals: the distinct keys, the number of NULLs, the range seen so
  far and the running total of bytes.
\<close>

record column_scan =
  scan_distinct :: "string list"
  scan_nulls :: nat
  scan_range :: "(double \<times> double) option"
  scan_bytes :: double

definition scan_value :: "bool \<Rightarrow> literal \<Rightarrow> column_scan \<Rightarrow> column_scan" where
  "scan_value numeric v st =
     (let st = st\<lparr>scan_bytes := dadd (scan_bytes st) (approx_literal_bytes v)\<rparr>
      in if v = Null then st\<lparr>scan_nulls := Suc (scan_nulls st)\<rparr>
         else let st = st\<lparr>scan_distinct := List.insert (literal_set_key v) (scan_distinct st)\<rparr>
              in if numeric
                 then st\<lparr>scan_range :=
                   Some (case scan_range st of
                           None \<Rightarrow> (as_double v, as_double v)
                         | Some (lo, hi) \<Rightarrow> (dmin lo (as_double v), dmax hi (as_double v)))\<rparr>
                 else st)"

definition bucket_of :: "double \<Rightarrow> double \<Rightarrow> literal \<Rightarrow> nat result" where
  "bucket_of lo width v =
     rbind (size_of_double (ddiv (dsub (as_double v) lo) width)) (\<lambda>b. Inr (min b (kHistogramBuckets - 1)))"

definition build_bucket :: "double \<Rightarrow> double \<Rightarrow> double \<Rightarrow> nat list \<Rightarrow> nat \<Rightarrow> histogram_bucket" where
  "build_bucket lo hi width bs b =
     \<lparr>bucket_lower = dadd lo (dmul width (double_of_nat b)),
      bucket_upper = (if Suc b = kHistogramBuckets then hi else dadd lo (dmul width (double_of_nat (Suc b)))),
      bucket_frequency = ddiv (double_of_nat (count_list bs b)) (double_of_nat (length bs))\<rparr>"

definition build_histogram :: "double \<Rightarrow> double \<Rightarrow> literal list \<Rightarrow> histogram result" where
  "build_histogram lo hi vs =
     (if dle hi lo then Inr [\<lparr>bucket_lower = lo, bucket_upper = hi, bucket_frequency = Fin False 1\<rparr>]
      else let width = ddiv (dsub hi lo) (double_of_nat kHistogramBuckets)
           in rbind (rmap (bucket_of lo width) (filter (\<lambda>v. v \<noteq> Null) vs)) (\<lambda>bs.
                Inr (map (build_bucket lo hi width bs) [0 ..< kHistogramBuckets])))"

definition column_stats_of :: "column_scan \<Rightarrow> literal list \<Rightarrow> column_stats result" where
  "column_stats_of st vs =
     (let cs = empty_column_stats
            \<lparr>distinct_count := double_of_nat (length (scan_distinct st)),
             null_fraction := (if vs = [] then dzero
                               else ddiv (double_of_nat (scan_nulls st)) (double_of_nat (length vs)))\<rparr>
      in case scan_range st of
           Some (lo, hi) \<Rightarrow>
             rbind (build_histogram lo hi vs) (\<lambda>h.
               Inr (cs\<lparr>min_value := Some lo, max_value := Some hi, col_histogram := Some h\<rparr>))
         | None \<Rightarrow> Inr cs)"

definition analyze_column ::
  "table \<Rightarrow> table_schema \<Rightarrow> nat \<times> string \<Rightarrow> table_stats \<times> double \<Rightarrow> (table_stats \<times> double) result"
where
  "analyze_column t schema cn acc =
     (let (c, name) = cn; (stats, bytes) = acc
      in case get_column schema name of
           None \<Rightarrow> Inr acc
         | Some def \<Rightarrow>
             rbind (rmap (\<lambda>r. row_at r c) (table_rows t)) (\<lambda>vs.
               let st = fold (scan_value (is_numeric_type (col_type def))) vs
                     \<lparr>scan_distinct = [], scan_nulls = 0, scan_range = None, scan_bytes = bytes\<rparr>
               in rbind (column_stats_of st vs) (\<lambda>cs.
                    Inr (stats\<lparr>stats_columns := AList.update name cs (stats_columns stats)\<rparr>, scan_bytes st))))"

fun analyze_columns ::
  "table \<Rightarrow> table_schema \<Rightarrow> (nat \<times> string) list \<Rightarrow> table_stats \<times> double \<Rightarrow> (table_stats \<times> double) result"
where
  "analyze_columns t schema [] acc = Inr acc"
| "analyze_columns t schema (cn # cns) acc =
     rbind (analyze_column t schema cn acc) (analyze_columns t schema cns)"

definition analyze_table :: "table \<Rightarrow> table_schema \<Rightarrow> table_stats result" where
  "analyze_table t schema =
     (let n = double_of_nat (length (table_rows t))
      in rbind (analyze_columns t schema (enumerate 0 (table_columns t))
                  (empty_table_stats\<lparr>stats_row_count := n\<rparr>, dzero)) (\<lambda>(stats, bytes).
           let avg = (if table_rows t = [] then dzero else ddiv bytes n)
           in Inr (stats\<lparr>stats_page_count := dceil (ddiv (dmul n avg) kAssumedPageBytes)\<rparr>)))"

fun analyze_tables :: "database \<Rightarrow> catalog \<Rightarrow> string list \<Rightarrow> statistics \<Rightarrow> statistics result" where
  "analyze_tables db cat [] acc = Inr acc"
| "analyze_tables db cat (name # names) acc =
     (case (db_get db name, catalog_get cat name) of
        (Some t, Some schema) \<Rightarrow>
          rbind (analyze_table t schema) (\<lambda>s. analyze_tables db cat names (register_stats name s acc))
      | _ \<Rightarrow> analyze_tables db cat names acc)"

definition analyze_database :: "database \<Rightarrow> catalog \<Rightarrow> statistics result" where
  "analyze_database db cat = analyze_tables db cat (table_names cat) []"

end
