(* ===== verification/Selectivity.thy ===== *)
theory Selectivity
  imports Statistics
begin

text \<open>
  The selectivity estimator (\<^verbatim>\<open>optimizer/selectivity_estimator.cpp\<close>): the fraction of rows a predicate is
  expected to keep.
\<close>

definition kDefaultSelectivity :: double where "kDefaultSelectivity = double_of_rat (3 / 10)"

fun literal_as_number :: "literal \<Rightarrow> double option" where
  "literal_as_number (Integer i) = Some (double_of_int i)"
| "literal_as_number (Float d) = Some d"
| "literal_as_number _ = None"

definition usable_fraction :: "column_stats \<Rightarrow> double" where
  "usable_fraction cs = dmax dzero (dsub (Fin False 1) (null_fraction cs))"

definition estimate_equality :: "string \<Rightarrow> table_stats \<Rightarrow> double" where
  "estimate_equality c s =
     (case stats_column s c of
        None \<Rightarrow> kDefaultSelectivity
      | Some cs \<Rightarrow>
          if dle (distinct_count cs) dzero then kDefaultSelectivity
          else clamp01 (ddiv (usable_fraction cs) (distinct_count cs)))"

text \<open>The fraction of a uniform column above or below a value; \<open>None\<close> for the operators the switch leaves out.\<close>

fun uniform_fraction :: "binary_operator \<Rightarrow> double \<Rightarrow> double \<Rightarrow> double \<Rightarrow> double option" where
  "uniform_fraction Gt v lo hi =
     Some (if dle hi v then dzero else if dle v lo then Fin False 1 else ddiv (dsub hi v) (dsub hi lo))"
| "uniform_fraction Gte v lo hi =
     Some (if dle hi v then dzero else if dle v lo then Fin False 1 else ddiv (dsub hi v) (dsub hi lo))"
| "uniform_fraction Lt v lo hi =
     Some (if dle v lo then dzero else if dle hi v then Fin False 1 else ddiv (dsub v lo) (dsub hi lo))"
| "uniform_fraction Lte v lo hi =
     Some (if dle v lo then dzero else if dle hi v then Fin False 1 else ddiv (dsub v lo) (dsub hi lo))"
| "uniform_fraction _ v lo hi = None"

fun range_bounds :: "binary_operator \<Rightarrow> double \<Rightarrow> (double \<times> double) option" where
  "range_bounds Gt v = Some (v, Inf False)"
| "range_bounds Gte v = Some (v, Inf False)"
| "range_bounds Lt v = Some (Inf True, v)"
| "range_bounds Lte v = Some (Inf True, v)"
| "range_bounds _ v = None"

definition estimate_range :: "string \<Rightarrow> binary_operator \<Rightarrow> double \<Rightarrow> table_stats \<Rightarrow> double" where
  "estimate_range c op v s =
     (case stats_column s c of
        None \<Rightarrow> kDefaultSelectivity
      | Some cs \<Rightarrow>
          (case col_histogram cs of
             Some h \<Rightarrow>
               (case range_bounds op v of
                  Some (low, high) \<Rightarrow> range_selectivity h low high
                | None \<Rightarrow> kDefaultSelectivity)
           | None \<Rightarrow>
               (case (min_value cs, max_value cs) of
                  (Some lo, Some hi) \<Rightarrow>
                    if dle hi lo then kDefaultSelectivity
                    else (case uniform_fraction op v lo hi of
                            Some f \<Rightarrow> clamp01 (dmul f (usable_fraction cs))
                          | None \<Rightarrow> kDefaultSelectivity)
                | _ \<Rightarrow> kDefaultSelectivity)))"

text \<open>An operator with its operands exchanged.\<close>

fun flip_op :: "binary_operator \<Rightarrow> binary_operator" where
  "flip_op Lt = Gt"
| "flip_op Lte = Gte"
| "flip_op Gt = Lt"
| "flip_op Gte = Lte"
| "flip_op p = p"

definition compare_column :: "string \<Rightarrow> literal \<Rightarrow> binary_operator \<Rightarrow> binary_operator \<Rightarrow> table_stats \<Rightarrow> double" where
  "compare_column c l op normalized s =
     (if op = Eq then estimate_equality c s
      else if op = Neq then clamp01 (dsub (Fin False 1) (estimate_equality c s))
      else case literal_as_number l of
             None \<Rightarrow> kDefaultSelectivity
           | Some v \<Rightarrow> estimate_range c normalized v s)"

fun estimate_comparison :: "expression \<Rightarrow> binary_operator \<Rightarrow> expression \<Rightarrow> table_stats \<Rightarrow> double" where
  "estimate_comparison (Column t c) op (Lit l) s = compare_column c l op op s"
| "estimate_comparison (Lit l) op (Column t c) s = compare_column c l op (flip_op op) s"
| "estimate_comparison a op b s = kDefaultSelectivity"

definition is_comparison :: "binary_operator \<Rightarrow> bool" where
  "is_comparison p \<longleftrightarrow> p = Eq \<or> p = Neq \<or> p = Lt \<or> p = Lte \<or> p = Gt \<or> p = Gte"

fun estimate_selectivity :: "expression \<Rightarrow> table_stats \<Rightarrow> double" where
  "estimate_selectivity (BinaryOp l p r) s =
     (if p = And then clamp01 (dmul (estimate_selectivity l s) (estimate_selectivity r s))
      else if p = Or then
        (let a = estimate_selectivity l s; b = estimate_selectivity r s
         in clamp01 (dsub (dadd a b) (dmul a b)))
      else if is_comparison p then estimate_comparison l p r s
      else kDefaultSelectivity)"
| "estimate_selectivity (UnaryOp u e) s =
     (if u = UNot then clamp01 (dsub (Fin False 1) (estimate_selectivity e s)) else kDefaultSelectivity)"
| "estimate_selectivity _ s = kDefaultSelectivity"

section \<open>A selectivity is a fraction\<close>

fun unit_fraction :: "double \<Rightarrow> bool" where
  "unit_fraction (Fin s m) = (0 \<le> m \<and> 0 \<le> signed s m \<and> signed s m \<le> 1)"
| "unit_fraction _ = False"

lemma unit_default: "unit_fraction kDefaultSelectivity"
  by code_simp

lemma unit_clamp: "mag_ok d \<Longrightarrow> d \<noteq> NaN \<Longrightarrow> unit_fraction (clamp01 d)"
  by (cases d) (auto simp: dclamp_def signed_def)

lemma not_NaN_round [simp]: "round_double s m \<noteq> NaN" "double_of_rat x \<noteq> NaN" "double_of_int i \<noteq> NaN" "double_of_nat n \<noteq> NaN"
  by (simp_all add: round_double_def double_of_rat_def double_of_int_def double_of_nat_def Let_def)

lemma mag_ok_arith [simp]:
  "mag_ok (dadd a b)" "mag_ok (dsub a b)" "mag_ok (dmul a b)" "mag_ok (ddiv a b)"
  by (simp_all add: mag_ok_double)

lemma unit_dmul: "unit_fraction a \<Longrightarrow> unit_fraction b \<Longrightarrow> unit_fraction (clamp01 (dmul a b))"
  by (intro unit_clamp mag_ok_arith) (cases a; cases b; simp)

text \<open>Finite doubles: their sums, differences and products are never NaN.\<close>

fun is_fin :: "double \<Rightarrow> bool" where
  "is_fin (Fin s m) = True"
| "is_fin _ = False"

lemma unit_fin: "unit_fraction d \<Longrightarrow> is_fin d"
  by (cases d) auto

lemma fin_not_NaN:
  "is_fin a \<Longrightarrow> is_fin b \<Longrightarrow> dadd a b \<noteq> NaN" "is_fin a \<Longrightarrow> is_fin b \<Longrightarrow> dsub a b \<noteq> NaN"
  "is_fin a \<Longrightarrow> is_fin b \<Longrightarrow> dmul a b \<noteq> NaN" "is_fin a \<Longrightarrow> \<not> deq a b \<Longrightarrow> b \<noteq> NaN \<Longrightarrow> dsub a b \<noteq> NaN"
  by (cases a; cases b; auto simp: dsub_def Let_def)+

lemma unit_one_minus: "unit_fraction a \<Longrightarrow> unit_fraction (clamp01 (dsub (Fin False 1) a))"
  by (intro unit_clamp mag_ok_arith fin_not_NaN) (simp_all add: unit_fin)

lemma fin_round: "m \<le> 2 ^ k \<Longrightarrow> 52 \<le> k \<Longrightarrow> k \<le> 1023 \<Longrightarrow> is_fin (round_double s m)"
  using not_too_big_power [of "round_mag m" k] round_mag_le_power [of m k]
  by (simp add: round_double_def Let_def)

lemma unit_or:
  assumes "unit_fraction a" "unit_fraction b"
  shows "unit_fraction (clamp01 (dsub (dadd a b) (dmul a b)))"
proof (intro unit_clamp mag_ok_arith)
  obtain s m t n where ab: "a = Fin s m" "b = Fin t n" "0 \<le> m" "m \<le> 1" "0 \<le> n" "n \<le> 1"
    using assms by (cases a; cases b) (auto simp: signed_def split: if_splits)
  have "m * n \<le> 1" using ab by (simp add: mult_le_one)
  then have "is_fin (dmul a b)" using fin_round [of "m * n" 52] ab by simp
  moreover have "dadd a b \<noteq> NaN" by (simp add: ab Let_def)
  ultimately show "dsub (dadd a b) (dmul a b) \<noteq> NaN"
    by (cases "dadd a b"; cases "dmul a b") (auto simp: dsub_def Let_def)
qed

section \<open>Statistics that give fractions\<close>

text \<open>
  Representable values of at most \<open>2\<^sup>1\<^sup>0\<^sup>0\<^sup>0\<close>: the difference of two of them does not overflow, and is not
  rounded to zero unless they are equal.
\<close>

definition moderate_max :: rat where "moderate_max = 2 ^ 1000"

fun moderate :: "double \<Rightarrow> bool" where
  "moderate (Fin s m) = (0 \<le> m \<and> round_mag m = m \<and> m \<le> moderate_max)"
| "moderate _ = False"

definition bucket_ok :: "histogram_bucket \<Rightarrow> bool" where
  "bucket_ok b \<longleftrightarrow> moderate (bucket_lower b) \<and> moderate (bucket_upper b) \<and> dfinite (bucket_frequency b)"

definition column_stats_ok :: "column_stats \<Rightarrow> bool" where
  "column_stats_ok cs \<longleftrightarrow>
     moderate (distinct_count cs) \<and> moderate (null_fraction cs) \<and>
     pred_option moderate (min_value cs) \<and> pred_option moderate (max_value cs) \<and>
     pred_option (list_all bucket_ok) (col_histogram cs)"

definition stats_ok :: "table_stats \<Rightarrow> bool" where
  "stats_ok s \<longleftrightarrow> list_all (\<lambda>(name, cs). column_stats_ok cs) (stats_columns s)"

lemma fin_twice_moderate: "x \<le> 2 * moderate_max \<Longrightarrow> is_fin (round_double s x)"
  by (rule fin_round [of x 1001]) (simp_all only: moderate_max_def power_Suc [symmetric], simp_all)

lemma moderate_max_ge: "2 ^ 53 \<le> moderate_max"
  unfolding moderate_max_def by (rule power_increasing) simp_all

lemma moderateE:
  assumes "moderate d"
  obtains s m where "d = Fin s m" "0 \<le> m" "round_mag m = m" "m \<le> moderate_max"
  using assms by (cases d) auto

lemma abs_signed: "0 \<le> m \<Longrightarrow> \<bar>signed s m\<bar> = m"
  by (simp add: signed_def)

lemma moderate_dsub_fin:
  assumes "moderate a" "moderate b"
  shows "is_fin (dsub a b)"
proof -
  obtain s m t n where ab: "a = Fin s m" "0 \<le> m" "m \<le> moderate_max" "b = Fin t n" "0 \<le> n" "n \<le> moderate_max"
    using assms by (elim moderateE) blast
  let ?x = "signed s m + signed (\<not> t) n"
  have "\<bar>?x\<bar> \<le> m + n" using abs_triangle_ineq [of "signed s m" "signed (\<not> t) n"] ab by (simp add: abs_signed)
  also have "\<dots> \<le> 2 * moderate_max" using ab by simp
  finally have "is_fin (round_double (?x < 0) \<bar>?x\<bar>)" by (rule fin_twice_moderate)
  then show ?thesis by (simp add: ab dsub_def Let_def double_of_rat_def)
qed

lemma smallest_round: "round_mag (bpow 2 (- 1074)) = bpow 2 (- 1074)"
proof -
  have "ilog 2 (bpow 2 (- 1074)) = - 1074" by (rule ilog_eqI) simp_all
  then have "ulp_exp (of_int 1 * bpow 2 (- 1074)) \<le> - 1074" by (simp add: ulp_exp_def)
  from round_mag_exact [OF _ this] show ?thesis by simp
qed

lemma double_multiple:
  assumes "round_mag m = m" "0 \<le> m"
  shows "\<exists>k :: int. m = of_int k * bpow 2 (- 1074)"
proof (cases "m = 0")
  case False
  let ?u = "ulp_exp m"
  have "m = of_int (rne (m / bpow 2 ?u)) * bpow 2 ?u" using assms False by (simp add: round_mag_def)
  moreover have "bpow 2 ?u = of_int (2 ^ nat (?u + 1074)) * bpow 2 (- 1074)"
    using ulp_exp_ge [of m] bpow_add [of 2 "?u + 1074" "- 1074"] bpow_nat [of 2 "nat (?u + 1074)"] by simp
  ultimately have "m = of_int (rne (m / bpow 2 ?u) * 2 ^ nat (?u + 1074)) * bpow 2 (- 1074)"
    by (metis mult.assoc of_int_mult)
  then show ?thesis by blast
qed (auto intro: exI [of _ 0])

text \<open>Gradual underflow: distinct doubles have a nonzero difference.\<close>

lemma dsub_pos:
  assumes "moderate a" "moderate b" "dlt b a"
  shows "\<exists>m. dsub a b = Fin False m \<and> 0 < m"
proof -
  obtain s m t n where ab: "a = Fin s m" "0 \<le> m" "round_mag m = m" "b = Fin t n" "0 \<le> n" "round_mag n = n"
    using assms by (elim moderateE) blast
  obtain j k where jk: "m = of_int j * bpow 2 (- 1074)" "n = of_int k * bpow 2 (- 1074)"
    using double_multiple ab by blast
  let ?x = "signed s m + signed (\<not> t) n"
  have pos: "0 < ?x" using assms(3) ab by (auto simp: signed_def split: if_splits)
  have "\<exists>i :: int. ?x = of_int i * bpow 2 (- 1074)"
  proof -
    have "?x = of_int ((if s then - j else j) + (if t then k else - k)) * bpow 2 (- 1074)"
      by (auto simp: jk signed_def algebra_simps)
    then show ?thesis by blast
  qed
  then obtain i where i: "?x = of_int i * bpow 2 (- 1074)" by blast
  with pos have "0 < (of_int i :: rat)" using zero_less_mult_pos2 [of "of_int i" "bpow 2 (- 1074)"] by simp
  then have "1 \<le> (of_int i :: rat)" by simp
  from mult_right_mono [OF this, of "bpow 2 (- 1074)"] have "bpow 2 (- 1074) \<le> ?x" using i by (simp add: less_imp_le)
  from round_mag_mono [OF this] have "bpow 2 (- 1074) \<le> round_mag ?x" by (simp only: smallest_round)
  then have r: "0 < round_mag ?x" by (rule less_le_trans [rotated]) simp
  have "dsub a b = round_double False ?x" using pos ab by (simp add: dsub_def Let_def double_of_rat_def)
  with moderate_dsub_fin [OF assms(1,2)] r show ?thesis by (auto simp: round_double_def Let_def split: if_splits)
qed

lemma dmax_cases: "dmax a b = a \<or> (dmax a b = b \<and> dlt a b)"
  by (simp add: dmax_def)

lemma dmin_cases: "dmin a b = a \<or> (dmin a b = b \<and> dlt b a)"
  by (simp add: dmin_def)

lemma ddiv_pos_nonneg: "dnonneg a \<Longrightarrow> 0 < m \<Longrightarrow> dnonneg (ddiv a (Fin False m))"
  by (cases a) auto

lemma overlap_between:
  assumes "moderate lo" "moderate hi" "\<not> dle (dmin hi high) (dmax lo low)"
  obtains s m t n where "dmax lo low = Fin s m" "dmin hi high = Fin t n"
    "signed s m < signed t n" "\<bar>signed s m\<bar> \<le> moderate_max" "\<bar>signed t n\<bar> \<le> moderate_max"
proof -
  obtain a b where lo: "lo = Fin a b" "\<bar>signed a b\<bar> \<le> moderate_max" using assms(1) by (elim moderateE) (simp add: abs_signed)
  obtain c d where hi: "hi = Fin c d" "\<bar>signed c d\<bar> \<le> moderate_max" using assms(2) by (elim moderateE) (simp add: abs_signed)
  let ?ol = "dmax lo low" and ?oh = "dmin hi high"
  have "?ol \<noteq> NaN" "?oh \<noteq> NaN" using lo hi dmax_cases [of lo low] dmin_cases [of hi high] by (cases low; cases high; auto)+
  with dlt_linear [of ?ol ?oh] assms(3) have less: "dlt ?ol ?oh" by (auto simp: dle_def deq_sym)
  have low: "?ol = lo \<or> dlt lo ?ol" and high: "?oh = hi \<or> dlt ?oh hi"
    using dmax_cases [of lo low] dmin_cases [of hi high] by auto
  obtain s m where ol: "?ol = Fin s m" using low less lo by (cases ?ol; cases ?oh) auto
  obtain t n where oh: "?oh = Fin t n" using high less hi ol by (cases ?oh) auto
  have "signed s m < signed t n" "signed a b \<le> signed s m" "signed t n \<le> signed c d"
    using less low high lo hi ol oh by auto
  with that [OF ol oh] lo(2) hi(2) show thesis by (auto simp: abs_le_iff)
qed

lemma overlap_width_fin:
  assumes "moderate lo" "moderate hi" "\<not> dle (dmin hi high) (dmax lo low)"
  shows "dfinite (dsub (dmin hi high) (dmax lo low))"
proof -
  obtain s m t n where o: "dmax lo low = Fin s m" "dmin hi high = Fin t n" "signed s m < signed t n"
    "\<bar>signed s m\<bar> \<le> moderate_max" "\<bar>signed t n\<bar> \<le> moderate_max" by (rule overlap_between [OF assms])
  let ?x = "signed t n + signed (\<not> s) m"
  have neg: "signed (\<not> s) m = - signed s m" by (simp add: signed_def)
  then have x: "0 < ?x" "?x \<le> 2 * moderate_max" using o by (auto simp: abs_le_iff)
  have "is_fin (round_double False ?x)" using x by (intro fin_twice_moderate)
  then show ?thesis
    using x o by (auto simp: dsub_def Let_def double_of_rat_def round_double_def split: if_splits)
qed

lemma bucket_overlap_nonneg:
  assumes "dnonneg acc" "bucket_ok b"
  shows "dnonneg (bucket_overlap low high acc b)"
proof -
  let ?ol = "dmax (bucket_lower b) low" and ?oh = "dmin (bucket_upper b) high"
  let ?w = "dsub (bucket_upper b) (bucket_lower b)"
  have b: "moderate (bucket_lower b)" "moderate (bucket_upper b)" "dfinite (bucket_frequency b)"
    using assms(2) by (simp_all add: bucket_ok_def)
  have share: "dnonneg (ddiv (dmul (bucket_frequency b) (dsub ?oh ?ol)) ?w)" if ov: "\<not> dle ?oh ?ol" "\<not> dle ?w dzero"
  proof -
    have "is_fin ?w" "mag_ok ?w" using moderate_dsub_fin b by simp_all
    then obtain m where w: "?w = Fin False m" "0 < m"
      using ov(2) by (cases ?w) (auto simp: dle_def signed_def split: if_splits)
    have "dnonneg (dmul (bucket_frequency b) (dsub ?oh ?ol))"
      using b overlap_width_fin [OF b(1,2) ov(1)] by simp
    then show ?thesis by (simp add: w ddiv_pos_nonneg)
  qed
  show ?thesis
    using assms(1) b(3) share by (auto simp: bucket_overlap_def Let_def dfinite_nonneg intro!: dnonneg_dadd)
qed

lemma dnonneg_clamp: "dnonneg d \<Longrightarrow> unit_fraction (clamp01 d)"
  by (intro unit_clamp) (cases d; auto)+

lemma range_selectivity_unit:
  assumes "list_all bucket_ok h"
  shows "unit_fraction (range_selectivity h low high)"
proof -
  have "dnonneg (foldl (bucket_overlap low high) acc h)" if "dnonneg acc" for acc
    using assms that by (induction h arbitrary: acc) (simp_all add: bucket_overlap_nonneg)
  then show ?thesis unfolding range_selectivity_def by (intro dnonneg_clamp) simp
qed

lemma usable_ok:
  assumes "moderate (null_fraction cs)"
  shows "dfinite (usable_fraction cs)"
proof -
  have "moderate (Fin False 1)" using round_mag_int(1) [of 1] moderate_max_ge by simp
  from moderate_dsub_fin [OF this assms] have "is_fin (dsub (Fin False 1) (null_fraction cs))" .
  moreover have "mag_ok (dsub (Fin False 1) (null_fraction cs))" by simp
  ultimately show ?thesis unfolding usable_fraction_def
    by (cases "dsub (Fin False 1) (null_fraction cs)") (auto simp: dmax_def signed_def split: if_splits)
qed

lemma stats_column_ok: "stats_ok s \<Longrightarrow> stats_column s c = Some cs \<Longrightarrow> column_stats_ok cs"
  by (auto simp: stats_ok_def stats_column_def list_all_iff dest!: map_of_SomeD)

lemma estimate_equality_unit: "stats_ok s \<Longrightarrow> unit_fraction (estimate_equality c s)"
proof (cases "stats_column s c")
  case (Some cs)
  assume "stats_ok s"
  then have cs: "column_stats_ok cs" using Some by (rule stats_column_ok)
  have "dnonneg (ddiv (usable_fraction cs) (distinct_count cs))" if pos: "\<not> dle (distinct_count cs) dzero"
  proof -
    obtain m where "distinct_count cs = Fin False m" "0 < m"
      using cs pos unfolding column_stats_ok_def
      by (cases "distinct_count cs") (auto simp: dle_def signed_def split: if_splits)
    then show ?thesis using cs by (simp add: ddiv_pos_nonneg usable_ok dfinite_nonneg column_stats_ok_def)
  qed
  then show ?thesis using Some by (simp add: estimate_equality_def unit_default dnonneg_clamp)
qed (simp add: estimate_equality_def unit_default)

text \<open>A part of a finite interval over the whole of it is finite.\<close>

lemma ratio_fin:
  assumes "0 < x" "x \<le> y" "y \<le> 2 * moderate_max" "0 < round_mag y"
  shows "dfinite (ddiv (round_double False x) (round_double False y))"
proof -
  have fin: "is_fin (round_double False x)" "is_fin (round_double False y)"
    using assms by (auto intro!: fin_twice_moderate)
  then have eq: "round_double False x = Fin False (round_mag x)" "round_double False y = Fin False (round_mag y)"
    by (auto simp: round_double_def Let_def split: if_splits)
  have "round_mag x / round_mag y \<le> 1" using round_mag_mono [OF assms(2)] assms(4) by simp
  then have "is_fin (round_double False (round_mag x / round_mag y))" by (intro fin_round [of _ 52]) simp_all
  with assms(4) show ?thesis
    by (simp add: eq) (auto simp: round_double_def Let_def split: if_splits)
qed

lemma dsub_exact: "signed t n < signed s m \<Longrightarrow> dsub (Fin s m) (Fin t n) = round_double False (signed s m - signed t n)"
  by (auto simp: dsub_def Let_def double_of_rat_def signed_def split: if_splits)

lemma between_ratio:
  assumes "moderate lo" "moderate hi" "dlt lo v" "dlt v hi"
  shows "dfinite (ddiv (dsub hi v) (dsub hi lo))" "dfinite (ddiv (dsub v lo) (dsub hi lo))"
proof -
  obtain s m where lo: "lo = Fin s m" "\<bar>signed s m\<bar> \<le> moderate_max" using assms(1) by (elim moderateE) (simp add: abs_signed)
  obtain t n where hi: "hi = Fin t n" "\<bar>signed t n\<bar> \<le> moderate_max" using assms(2) by (elim moderateE) (simp add: abs_signed)
  obtain u p where v: "v = Fin u p" using assms(3,4) lo hi by (cases v) auto
  have less: "signed s m < signed u p" "signed u p < signed t n" using assms(3,4) lo hi v by auto
  then have "dlt lo hi" using lo hi by simp
  from dsub_pos [OF assms(2,1) this] obtain k where "dsub hi lo = Fin False k" "0 < k" by blast
  then have "0 < round_mag (signed t n - signed s m)"
    using dsub_exact [of s m t n] less lo hi by (auto simp: round_double_def Let_def split: if_splits)
  moreover have "signed t n - signed s m \<le> 2 * moderate_max" using lo hi by (auto simp: abs_le_iff)
  ultimately show "dfinite (ddiv (dsub hi v) (dsub hi lo))" "dfinite (ddiv (dsub v lo) (dsub hi lo))"
    using less lo hi v by (auto simp: dsub_exact intro!: ratio_fin)
qed

lemma uniform_fraction_fin:
  assumes "moderate lo" "moderate hi" "v \<noteq> NaN" "uniform_fraction op v lo hi = Some f"
  shows "dfinite f"
proof -
  have fin: "lo \<noteq> NaN" "hi \<noteq> NaN" using assms(1,2) by auto
  have "\<not> dle hi v \<Longrightarrow> dlt v hi" "\<not> dle v lo \<Longrightarrow> dlt lo v"
    using dlt_linear [OF fin(2) assms(3)] dlt_linear [OF assms(3) fin(1)] by (auto simp: dle_def)
  with assms(4) between_ratio [OF assms(1,2)] show ?thesis by (cases op) (auto split: if_splits)
qed

lemma estimate_range_unit:
  assumes "stats_ok s" "v \<noteq> NaN"
  shows "unit_fraction (estimate_range c op v s)"
proof (cases "stats_column s c")
  case (Some cs)
  then have cs: "column_stats_ok cs" using assms(1) by (intro stats_column_ok)
  show ?thesis
  proof (cases "col_histogram cs")
    case None
    have "unit_fraction (clamp01 (dmul f (usable_fraction cs)))"
      if "min_value cs = Some lo" "max_value cs = Some hi" "uniform_fraction op v lo hi = Some f" for lo hi f
      using that cs assms(2) uniform_fraction_fin [of lo hi v op f]
      by (intro dnonneg_clamp dnonneg_dmul) (auto simp: column_stats_ok_def usable_ok)
    with None Some show ?thesis by (auto simp: estimate_range_def unit_default split: option.splits)
  next
    case (Some h)
    then show ?thesis using cs \<open>stats_column s c = Some cs\<close>
      by (auto simp: estimate_range_def unit_default column_stats_ok_def range_selectivity_unit split: option.splits)
  qed
qed (simp add: estimate_range_def unit_default)

text \<open>The literals of a predicate are no NaN; the parser never makes one.\<close>

fun nan_free :: "expression \<Rightarrow> bool" where
  "nan_free (Lit l) = (l \<noteq> Float NaN)"
| "nan_free (BinaryOp a p b) = (nan_free a \<and> nan_free b)"
| "nan_free (UnaryOp u e) = nan_free e"
| "nan_free _ = True"

lemma compare_column_unit:
  assumes "stats_ok s" "l \<noteq> Float NaN"
  shows "unit_fraction (compare_column c l op op' s)"
proof -
  have "literal_as_number l \<noteq> Some NaN" using assms(2) by (cases l) auto
  then show ?thesis using assms
    by (auto simp: compare_column_def estimate_equality_unit unit_one_minus unit_default estimate_range_unit
        split: option.splits)
qed

lemma selectivity_unit: "stats_ok s \<Longrightarrow> nan_free e \<Longrightarrow> unit_fraction (estimate_selectivity e s)"
proof (induction e)
  case (BinaryOp a p b)
  have "unit_fraction (estimate_comparison a p b s)"
    using BinaryOp.prems by (cases "(a, p, b, s)" rule: estimate_comparison.cases) (auto simp: unit_default compare_column_unit)
  with BinaryOp show ?case by (auto simp: unit_default unit_dmul unit_or Let_def)
next
  case (UnaryOp u e)
  then show ?case by (auto simp: unit_default unit_one_minus)
qed (auto simp: unit_default)

lemma round_mag_numeral: "(numeral k :: int) < 2 ^ 53 \<Longrightarrow> round_mag (numeral k) = numeral k" "round_mag 1 = 1"
  using round_mag_int(1) [of "numeral k"] round_mag_int(1) [of 1] by simp_all

section \<open>Properties\<close>

text \<open>
  C22.  Every estimated selectivity is a fraction: a finite number from 0 to 1 and never NaN, for any
  predicate and any statistics whose numbers are representable and of moderate size.  Overflow,
  underflow and rounding in the intermediate results, NULL fractions above 1 and histogram frequencies
  that do not add up to 1 are all covered.
\<close>

theorem selectivity_is_fraction:
  assumes "stats_ok s" "nan_free e"
  shows "unit_fraction (estimate_selectivity e s)"
  by (rule selectivity_unit [OF assms])

definition sample_stats :: table_stats where
  "sample_stats = \<lparr>stats_row_count = Fin False 1000, stats_page_count = Fin False 8,
     stats_columns =
       [(''id'', empty_column_stats\<lparr>distinct_count := Fin False 1000, min_value := Some (Fin False 1),
           max_value := Some (Fin False 1000)\<rparr>),
        (''total'', empty_column_stats\<lparr>distinct_count := Fin False 40,
           col_histogram := Some
             [\<lparr>bucket_lower = dzero, bucket_upper = Fin False 50, bucket_frequency = Fin False (3 / 4)\<rparr>,
              \<lparr>bucket_lower = Fin False 50, bucket_upper = Fin False 100, bucket_frequency = Fin False (1 / 4)\<rparr>]\<rparr>)]\<rparr>"

definition sample_predicate :: expression where
  "sample_predicate = BinaryOp (BinaryOp (Column None ''total'') Gt (Lit (Integer 75))) Or
     (BinaryOp (Lit (Integer 10)) Gte (Column None ''id''))"

lemma sample_stats_ok: "stats_ok sample_stats"
  by (simp add: stats_ok_def sample_stats_def column_stats_ok_def empty_column_stats_def bucket_ok_def round_mag_numeral
      order_trans [OF _ moderate_max_ge])

theorem selectivity_is_fraction_witness: "unit_fraction (estimate_selectivity sample_predicate sample_stats)"
proof (rule selectivity_is_fraction)
  show "stats_ok sample_stats" by (rule sample_stats_ok)
  show "nan_free sample_predicate" by code_simp
qed

text \<open>
  A bucket of width zero, which ANALYZE builds for a column with a single value, never counts: the
  range selectivity is 0 even when the value lies inside the range, because the test for an empty
  overlap comes before the case for such buckets.
\<close>

theorem degenerate_bucket_ignored:
  "range_selectivity [\<lparr>bucket_lower = Fin s m, bucket_upper = Fin s m, bucket_frequency = f\<rparr>] low high = dzero"
proof -
  have "dle (dmin (Fin s m) high) (dmax (Fin s m) low)"
    by (cases high; cases low) (auto simp: dmin_def dmax_def dle_def)
  then show ?thesis by (simp add: range_selectivity_def bucket_overlap_def dclamp_def signed_def)
qed

end
