(* ===== verification/Cardinality_Estimator.thy ===== *)
theory Cardinality_Estimator
  imports Logical_Planner Selectivity
begin

text \<open>
  The cardinality estimator (\<^verbatim>\<open>optimizer/cardinality_estimator.cpp\<close>): row counts of logical operators with
  a confidence and an explanation.  Doubles are printed into the explanations as \<^verbatim>\<open>operator<<\<close> prints them,
  with six significant digits.
\<close>

record row_estimate =
  e_rows :: double
  e_confidence :: double
  e_reasoning :: string

definition make_estimate :: "double \<Rightarrow> double \<Rightarrow> string \<Rightarrow> row_estimate" where
  "make_estimate n c r = \<lparr>e_rows = n, e_confidence = c, e_reasoning = r\<rparr>"

abbreviation one_double :: double where "one_double \<equiv> Fin False 1"

definition tenths :: "nat \<Rightarrow> double" where
  "tenths n = double_of_rat (of_nat n / 10)"

definition quoted :: "string \<Rightarrow> string" where
  "quoted s = [CHR 0x27] @ s @ [CHR 0x27]"

fun resolve_single_table :: "logical_plan \<Rightarrow> (string \<times> string) option" where
  "resolve_single_table (Scan t a cs) = Some (t, case a of Some x \<Rightarrow> x | None \<Rightarrow> t)"
| "resolve_single_table (Filter e p) = resolve_single_table p"
| "resolve_single_table _ = None"

definition estimate_scan :: "statistics \<Rightarrow> string \<Rightarrow> row_estimate" where
  "estimate_scan cat t =
     (case stats_get cat t of
        None \<Rightarrow> make_estimate (Fin False 1000) (tenths 2)
          (''no statistics for table '' @ quoted t @ '' -- default row-count guess'')
      | Some s \<Rightarrow> make_estimate (stats_row_count s) one_double ''base row count from statistics catalog'')"

definition tenth_of :: "double \<Rightarrow> double" where
  "tenth_of n = dmax one_double (ddiv n (Fin False 10))"

definition no_statistics :: "string \<Rightarrow> string" where
  "no_statistics t = ''no statistics for table '' @ quoted t @ '' -- default 10% heuristic''"

definition estimate_filter :: "statistics \<Rightarrow> double \<Rightarrow> expression \<Rightarrow> logical_plan \<Rightarrow> row_estimate" where
  "estimate_filter cat n pred scope =
     (case resolve_single_table scope of
        None \<Rightarrow> make_estimate (tenth_of n) (tenths 2)
          ''predicate scope spans multiple relations -- default 10% heuristic''
      | Some (t, _) \<Rightarrow>
          (case stats_get cat t of
             None \<Rightarrow> make_estimate (tenth_of n) (tenths 2) (no_statistics t)
           | Some s \<Rightarrow>
               (let sel = estimate_selectivity pred s
                in make_estimate (dmax one_double (dmul n sel)) (tenths 8)
                     (''selectivity '' @ show_g 6 sel @ '' estimated from statistics for table '' @ quoted t))))"

definition join_fallback :: "double \<Rightarrow> double \<Rightarrow> row_estimate" where
  "join_fallback l r =
     make_estimate (tenth_of (dmul l r)) (tenths 2)
       ''default 10%-of-cartesian-product heuristic (non-equi condition or statistics unavailable)''"

definition qualifier_matches :: "string option \<Rightarrow> string \<Rightarrow> bool" where
  "qualifier_matches q name \<longleftrightarrow> (case q of None \<Rightarrow> True | Some x \<Rightarrow> x = name)"

text \<open>The columns of an equi-join condition, that of the left relation first.\<close>

fun join_columns :: "expression \<Rightarrow> string \<Rightarrow> string \<Rightarrow> (string \<times> string) option" where
  "join_columns (BinaryOp (Column q c) Eq (Column q' c')) lname rname =
     (if qualifier_matches q lname \<and> qualifier_matches q' rname then Some (c, c')
      else if qualifier_matches q' lname \<and> qualifier_matches q rname then Some (c', c)
      else None)"
| "join_columns _ lname rname = None"

definition column_ndv :: "statistics \<Rightarrow> string \<Rightarrow> string \<Rightarrow> double option" where
  "column_ndv cat t c =
     Option.bind (stats_get cat t) (\<lambda>s. map_option distinct_count (stats_column s c))"

definition estimate_join ::
  "statistics \<Rightarrow> double \<Rightarrow> double \<Rightarrow> expression \<Rightarrow> logical_plan \<Rightarrow> logical_plan \<Rightarrow> row_estimate"
where
  "estimate_join cat l r cond ls rs =
     (case (resolve_single_table ls, resolve_single_table rs) of
        (Some (lt, lname), Some (rt, rname)) \<Rightarrow>
          (case join_columns cond lname rname of
             None \<Rightarrow> join_fallback l r
           | Some (lc, rc) \<Rightarrow>
               (case (column_ndv cat lt lc, column_ndv cat rt rc) of
                  (Some lndv, Some rndv) \<Rightarrow>
                    if dle lndv dzero \<or> dle rndv dzero then join_fallback l r
                    else make_estimate (dmax one_double (ddiv (dmul l r) (dmax lndv rndv))) (tenths 7)
                           (''equi-join NDV formula: ('' @ show_g 6 l @ '' x '' @ show_g 6 r @ '') / max('' @
                            show_g 6 lndv @ '', '' @ show_g 6 rndv @ '') on '' @ lt @ ''.'' @ lc @ '' = '' @ rt @ ''.'' @ rc)
                | _ \<Rightarrow> join_fallback l r))
      | _ \<Rightarrow> join_fallback l r)"

text \<open>The product of the group columns' distinct counts, or the explanation of why there is none.\<close>

fun group_product :: "table_stats \<Rightarrow> expression list \<Rightarrow> double \<Rightarrow> string + double" where
  "group_product s [] acc = Inr acc"
| "group_product s (Column t c # es) acc =
     (case stats_column s c of
        Some cs \<Rightarrow>
          if dle (distinct_count cs) dzero
          then Inl (''no NDV statistic for GROUP BY column '' @ quoted c @ '' -- default 10% heuristic'')
          else group_product s es (dmul acc (distinct_count cs))
      | None \<Rightarrow> Inl (''no NDV statistic for GROUP BY column '' @ quoted c @ '' -- default 10% heuristic''))"
| "group_product s (e # es) acc = Inl ''non-column GROUP BY expression -- default 10% heuristic''"

definition estimate_aggregate :: "statistics \<Rightarrow> double \<Rightarrow> expression list \<Rightarrow> logical_plan \<Rightarrow> row_estimate" where
  "estimate_aggregate cat n g scope =
     (if g = [] then make_estimate one_double (tenths 9) ''no GROUP BY -- a single aggregate row''
      else case resolve_single_table scope of
        None \<Rightarrow> make_estimate (tenth_of n) (tenths 2)
          ''GROUP BY over a multi-relation scope -- default 10% heuristic''
      | Some (t, _) \<Rightarrow>
          (case stats_get cat t of
             None \<Rightarrow> make_estimate (tenth_of n) (tenths 2) (no_statistics t)
           | Some s \<Rightarrow>
               (case group_product s g one_double of
                  Inl why \<Rightarrow> make_estimate (tenth_of n) (tenths 2) why
                | Inr groups \<Rightarrow>
                    make_estimate (dmax one_double (dmin n groups)) (tenths 6)
                      (''product of GROUP BY column NDVs ('' @ show_g 6 groups @
                       ''), capped at input row count ('' @ show_g 6 n @ '')''))))"

definition estimate_project :: "double \<Rightarrow> row_estimate" where
  "estimate_project n = make_estimate n one_double ''projection does not change row count''"

definition estimate_sort :: "double \<Rightarrow> row_estimate" where
  "estimate_sort n = make_estimate n one_double ''sort does not change row count''"

definition estimate_limit :: "double \<Rightarrow> nat \<Rightarrow> row_estimate" where
  "estimate_limit n k =
     make_estimate (dmin n (double_of_nat k)) one_double (''min(input rows, LIMIT '' @ show_nat k @ '')'')"

section \<open>Estimates are at least one row\<close>

definition at_least_one :: "double \<Rightarrow> bool" where
  "at_least_one d \<longleftrightarrow> dle one_double d"

lemma at_least_one_dmax: "at_least_one (dmax one_double d)"
  by (cases d) (auto simp: at_least_one_def dmax_def dle_def)

lemma at_least_one_one: "at_least_one one_double"
  by (simp add: at_least_one_def dle_def)

lemma make_estimate_rows [simp]: "e_rows (make_estimate n c r) = n"
  by (simp add: make_estimate_def)

lemma estimates_at_least_one:
  "at_least_one (e_rows (estimate_filter cat n pred scope))"
  "at_least_one (e_rows (estimate_join cat l r cond ls rs))"
  "at_least_one (e_rows (estimate_aggregate cat n g scope))"
  by (auto simp: estimate_filter_def estimate_join_def estimate_aggregate_def join_fallback_def tenth_of_def Let_def
      at_least_one_dmax at_least_one_one split: option.splits sum.splits)

text \<open>Multiplying by a fraction does not increase a number.\<close>

lemma dmul_unit_le:
  assumes "is_double n" "dnonneg n" "n \<noteq> Inf False" "unit_fraction f"
  shows "dle (dmul n f) n"
proof -
  obtain m where n: "n = Fin False m" "0 \<le> m" "round_mag m = m" "\<not> too_big m"
    using assms(1-3) by (cases n) auto
  obtain s k where f: "f = Fin s k" "0 \<le> k" "signed s k \<le> 1" "0 \<le> signed s k" using assms(4) by (cases f) auto
  then have "k \<le> 1" by (auto simp: signed_def split: if_splits)
  then have "m * k \<le> m" using n f(2) by (simp add: mult_left_le)
  from round_mag_mono [OF this] n have le: "round_mag (m * k) \<le> m" by simp
  have "\<not> too_big (round_mag (m * k))"
    using le n(4) ilog_mono [of 2 "round_mag (m * k)" m] by (auto simp: too_big_def)
  with n f le show ?thesis
    by (auto simp: round_double_def Let_def dle_def signed_def)
qed

lemma dle_dmax: "dle a c \<Longrightarrow> dle b c \<Longrightarrow> dle (dmax a b) c"
  by (simp add: dmax_def)

lemma estimate_filter_le:
  assumes "stats_get cat t = Some s" "stats_ok s" "nan_free pred" "resolve_single_table scope = Some (t, a)"
    and "is_double n" "dnonneg n" "n \<noteq> Inf False" "at_least_one n"
  shows "dle (e_rows (estimate_filter cat n pred scope)) n"
  using assms dmul_unit_le [OF assms(5-7) selectivity_unit [OF assms(2,3)]]
  by (simp add: estimate_filter_def Let_def dle_dmax at_least_one_def)

section \<open>Properties\<close>

text \<open>
  A filter is never estimated to produce more rows than its input, nor less than one row, when the
  table's statistics are known: the estimate lies between 1 and the number of input rows.
\<close>

theorem filter_estimate_bounds:
  assumes "stats_get cat t = Some s" "stats_ok s" "nan_free pred" "resolve_single_table scope = Some (t, a)"
    and "is_double n" "dnonneg n" "n \<noteq> Inf False" "at_least_one n"
  shows "at_least_one (e_rows (estimate_filter cat n pred scope)) \<and>
    dle (e_rows (estimate_filter cat n pred scope)) n"
  using estimates_at_least_one(1) estimate_filter_le [OF assms] by blast

theorem filter_estimate_bounds_witness:
  "at_least_one (e_rows (estimate_filter [(''orders'', sample_stats)] (Fin False 1000) sample_predicate
     (Scan ''orders'' None []))) \<and>
   dle (e_rows (estimate_filter [(''orders'', sample_stats)] (Fin False 1000) sample_predicate
     (Scan ''orders'' None []))) (Fin False 1000)"
proof (rule filter_estimate_bounds)
  show "stats_get [(''orders'', sample_stats)] ''orders'' = Some sample_stats" by (simp add: stats_get_def)
  show "stats_ok sample_stats" by (rule sample_stats_ok)
  show "nan_free sample_predicate" by code_simp
  show "resolve_single_table (Scan ''orders'' None []) = Some (''orders'', ''orders'')" by simp
  show "is_double (Fin False 1000)" using round_mag_int [of 1000] by simp
  show "at_least_one (Fin False 1000)" by (simp add: at_least_one_def dle_def signed_def)
qed simp_all

end
