(* ===== verification/Join_Graph.thy ===== *)
theory Join_Graph
  imports Logical_Optimizer
begin

text \<open>
  The join graph (\<^verbatim>\<open>optimizer/join_graph.cpp\<close>): the relations of an all-inner join subtree, and its
  predicates sorted by the relations they mention.  A hash set of two relation numbers is iterated in
  an order the standard library chooses; that order is the parameter \<open>iter\<close>.
\<close>

record relation =
  rel_id :: nat
  rel_table :: string
  rel_alias :: "string option"
  local_filters :: "expression list"

record join_edge =
  edge_left :: nat
  edge_right :: nat
  edge_predicate :: expression

record join_graph =
  relations :: "relation list"
  edges :: "join_edge list"

definition rel_name :: "relation \<Rightarrow> string" where
  "rel_name r = (case rel_alias r of Some a \<Rightarrow> a | None \<Rightarrow> rel_table r)"

definition find_relation :: "relation list \<Rightarrow> string \<Rightarrow> nat option" where
  "find_relation rels name = map_option rel_id (find (\<lambda>r. rel_name r = name) rels)"

fun unwrap_filters :: "logical_plan \<Rightarrow> logical_plan" where
  "unwrap_filters (Filter e p) = unwrap_filters p"
| "unwrap_filters p = p"

fun is_join :: "logical_plan \<Rightarrow> bool" where
  "is_join (Join jt c l r) = True"
| "is_join p = False"

definition is_join_search_candidate :: "logical_plan \<Rightarrow> bool" where
  "is_join_search_candidate p \<longleftrightarrow> is_join (unwrap_filters p) \<and> all_inner (unwrap_filters p)"

text \<open>The recursion \<^verbatim>\<open>collect\<close> appends to the relations and predicates found so far.\<close>

fun collect ::
  "logical_plan \<Rightarrow> relation list \<times> expression list \<Rightarrow> (relation list \<times> expression list) result"
where
  "collect (Scan t a cs) (rels, preds) =
     Inr (rels @ [\<lparr>rel_id = length rels, rel_table = t, rel_alias = a, local_filters = []\<rparr>], preds)"
| "collect (Filter e p) (rels, preds) = collect p (rels, preds @ split_and e)"
| "collect (Join jt c l r) (rels, preds) =
     rbind (collect l (rels, preds @ split_and c)) (collect r)"
| "collect p out = Inl (LogicError ''join_graph: unexpected node kind inside a join-search subtree'')"

text \<open>The relation numbers an expression mentions, in the order of insertion into the set.\<close>

fun referenced_relation_ids :: "relation list \<Rightarrow> expression \<Rightarrow> nat list option" where
  "referenced_relation_ids rels (Column t c) =
     (case t of
        None \<Rightarrow> None
      | Some q \<Rightarrow> map_option (\<lambda>i. [i]) (find_relation rels q))"
| "referenced_relation_ids rels (BinaryOp l p r) =
     Option.bind (referenced_relation_ids rels l) (\<lambda>a.
     Option.bind (referenced_relation_ids rels r) (\<lambda>b. Some (fold List.insert b a)))"
| "referenced_relation_ids rels (UnaryOp u e) = referenced_relation_ids rels e"
| "referenced_relation_ids rels (Function f args) =
     fold (\<lambda>x acc. Option.bind acc (\<lambda>a. Option.bind x (\<lambda>b. Some (fold List.insert b a))))
       (map (referenced_relation_ids rels) args) (Some [])"
| "referenced_relation_ids rels (Lit l) = Some []"
| "referenced_relation_ids rels Wildcard = Some []"

definition add_local_filter :: "nat \<Rightarrow> expression \<Rightarrow> relation list \<Rightarrow> relation list" where
  "add_local_filter i e rels =
     rels[i := (rels ! i)\<lparr>local_filters := local_filters (rels ! i) @ [e]\<rparr>]"

definition classify_predicate ::
  "(nat list \<Rightarrow> nat list) \<Rightarrow> expression \<Rightarrow> join_graph \<times> expression list \<Rightarrow> join_graph \<times> expression list"
where
  "classify_predicate iter e g =
     (let (graph, residual) = g
      in case referenced_relation_ids (relations graph) e of
           None \<Rightarrow> (graph, residual @ [e])
         | Some refs \<Rightarrow>
             if length refs = 1
             then (graph\<lparr>relations := add_local_filter (hd refs) e (relations graph)\<rparr>, residual)
             else if length refs = 2
             then (let it = iter refs
                   in (graph\<lparr>edges := edges graph @
                         [\<lparr>edge_left = it ! 0, edge_right = it ! 1, edge_predicate = e\<rparr>]\<rparr>, residual))
             else (graph, residual @ [e]))"

definition build_join_graph ::
  "(nat list \<Rightarrow> nat list) \<Rightarrow> logical_plan \<Rightarrow> (join_graph \<times> expression list) result"
where
  "build_join_graph iter p =
     rbind (collect p ([], [])) (\<lambda>(rels, preds).
       Inr (fold (classify_predicate iter) preds (\<lparr>relations = rels, edges = []\<rparr>, [])))"

section \<open>Nothing is lost\<close>

text \<open>All predicates of a join subtree: the conjuncts of its filters and join conditions.\<close>

fun tree_predicates :: "logical_plan \<Rightarrow> expression list" where
  "tree_predicates (Filter e p) = split_and e @ tree_predicates p"
| "tree_predicates (Join jt c l r) = split_and c @ tree_predicates l @ tree_predicates r"
| "tree_predicates p = []"

definition fresh_relation :: "nat \<Rightarrow> string \<times> string option \<Rightarrow> relation" where
  "fresh_relation i ta = \<lparr>rel_id = i, rel_table = fst ta, rel_alias = snd ta, local_filters = []\<rparr>"

lemma collect_spec:
  "collect p (rels, preds) = Inr (rels', preds') \<Longrightarrow>
     rels' = rels @ map (\<lambda>(i, ta). fresh_relation i ta) (enumerate (length rels) (scans p)) \<and>
     preds' = preds @ tree_predicates p"
proof (induction p arbitrary: rels preds rels' preds')
  case (Join jt c l r)
  then obtain rels1 preds1 where l: "collect l (rels, preds @ split_and c) = Inr (rels1, preds1)"
    and r: "collect r (rels1, preds1) = Inr (rels', preds')" by auto
  from Join.IH(1) [OF l] Join.IH(2) [OF r] show ?case
    by (simp add: enumerate_append_eq)
next
  case (Filter e p)
  from Filter.IH Filter.prems show ?case by fastforce
qed (auto simp: fresh_relation_def)

definition graph_predicates :: "join_graph \<times> expression list \<Rightarrow> expression multiset" where
  "graph_predicates g =
     sum_list (map (mset \<circ> local_filters) (relations (fst g))) + mset (map edge_predicate (edges (fst g))) +
     mset (snd g)"

text \<open>Relations keep their number and name; only filters are added to them.\<close>

definition same_relations :: "relation list \<Rightarrow> relation list \<Rightarrow> bool" where
  "same_relations xs ys \<longleftrightarrow>
     map (\<lambda>r. (rel_id r, rel_table r, rel_alias r)) xs = map (\<lambda>r. (rel_id r, rel_table r, rel_alias r)) ys"

definition numbered :: "relation list \<Rightarrow> bool" where
  "numbered rels \<longleftrightarrow> map rel_id rels = [0 ..< length rels]"

lemma find_relation_bound:
  assumes "numbered rels" "find_relation rels name = Some i"
  shows "i < length rels"
proof -
  obtain r where "r \<in> set rels" "rel_id r = i"
    using assms(2) by (auto simp: find_relation_def find_Some_iff intro: nth_mem)
  then have "i \<in> set (map rel_id rels)" by force
  then show ?thesis using assms(1) by (simp add: numbered_def del: set_map)
qed

lemma set_fold_insert: "set (fold List.insert b a) = set b \<union> set a"
  by (induction b arbitrary: a) auto

lemma distinct_fold_insert: "distinct a \<Longrightarrow> distinct (fold List.insert b a)"
  by (induction b arbitrary: a) auto

lemma fold_ids_ok:
  "(\<And>x b. x \<in> set xs \<Longrightarrow> x = Some b \<Longrightarrow> distinct b \<and> set b \<subseteq> A) \<Longrightarrow> pred_option (\<lambda>a. distinct a \<and> set a \<subseteq> A) acc \<Longrightarrow>
     pred_option (\<lambda>a. distinct a \<and> set a \<subseteq> A)
       (fold (\<lambda>x acc. Option.bind acc (\<lambda>a. Option.bind x (\<lambda>b. Some (fold List.insert b a)))) xs acc)"
proof (induction xs arbitrary: acc)
  case (Cons x xs)
  have "pred_option (\<lambda>a. distinct a \<and> set a \<subseteq> A)
      (Option.bind acc (\<lambda>a. Option.bind x (\<lambda>b. Some (fold List.insert b a))))"
    using Cons.prems by (cases acc; cases x) (auto simp: set_fold_insert distinct_fold_insert)
  from Cons.IH [OF _ this] Cons.prems(1) show ?case by simp
qed simp

lemma referenced_ids_ok:
  assumes "numbered rels"
  shows "referenced_relation_ids rels e = Some refs \<Longrightarrow> distinct refs \<and> set refs \<subseteq> {0 ..< length rels}"
proof (induction e arbitrary: refs)
  case (Column t c)
  then show ?case using find_relation_bound [OF assms] by (auto split: option.splits)
next
  case (BinaryOp l p r)
  then obtain a b where "referenced_relation_ids rels l = Some a" "referenced_relation_ids rels r = Some b"
    "refs = fold List.insert b a" by (auto simp: bind_eq_Some_conv)
  with BinaryOp.IH(1) [of a] BinaryOp.IH(2) [of b] show ?case
    by (auto simp: set_fold_insert distinct_fold_insert)
next
  case (Function f args)
  have "pred_option (\<lambda>a. distinct a \<and> set a \<subseteq> {0 ..< length rels}) (referenced_relation_ids rels (Function f args))"
    unfolding referenced_relation_ids.simps
  proof (rule fold_ids_ok)
    fix x b
    assume "x \<in> set (map (referenced_relation_ids rels) args)" "x = Some b"
    then obtain a where "a \<in> set args" "referenced_relation_ids rels a = Some b" by auto
    then show "distinct b \<and> set b \<subseteq> {0 ..< length rels}" by (rule Function.IH)
  qed simp
  with Function.prems show ?case by simp
qed auto

lemma sum_list_local_update:
  "i < length rels \<Longrightarrow> sum_list (map (mset \<circ> local_filters) (add_local_filter i e rels)) =
     add_mset e (sum_list (map (mset \<circ> local_filters) rels))"
proof (induction rels arbitrary: i)
  case (Cons r rels)
  then show ?case by (cases i) (simp_all add: add_local_filter_def)
qed simp

lemma add_local_filter_same: "i < length rels \<Longrightarrow> same_relations (add_local_filter i e rels) rels"
  unfolding same_relations_def add_local_filter_def by (simp add: map_update list_update_same_conv)

definition graph_ok :: "join_graph \<Rightarrow> bool" where
  "graph_ok g \<longleftrightarrow>
     numbered (relations g) \<and>
     (\<forall>e \<in> set (edges g). edge_left e < length (relations g) \<and> edge_right e < length (relations g) \<and>
        edge_left e \<noteq> edge_right e)"

lemma same_relations_ok:
  assumes "same_relations xs ys"
  shows "numbered xs = numbered ys" "length xs = length ys" "find_relation xs = find_relation ys"
    "map (\<lambda>r. (rel_table r, rel_alias r)) xs = map (\<lambda>r. (rel_table r, rel_alias r)) ys"
proof -
  let ?f = "\<lambda>r. (rel_id r, rel_table r, rel_alias r)"
  have eq: "map ?f xs = map ?f ys" using assms by (simp add: same_relations_def)
  show len: "length xs = length ys" using arg_cong [OF eq, of length] by simp
  have "map fst (map ?f xs) = map fst (map ?f ys)" by (simp only: eq)
  with len show "numbered xs = numbered ys" by (simp add: numbered_def comp_def)
  have "map snd (map ?f xs) = map snd (map ?f ys)" by (simp only: eq)
  then show "map (\<lambda>r. (rel_table r, rel_alias r)) xs = map (\<lambda>r. (rel_table r, rel_alias r)) ys" by (simp add: comp_def)
  show "find_relation xs = find_relation ys"
    using eq
  proof (induction xs arbitrary: ys)
    case (Cons x xs)
    then obtain y ys' where "ys = y # ys'" "?f x = ?f y" "map ?f xs = map ?f ys'" by (cases ys) auto
    moreover from this have "rel_name x = rel_name y" by (simp add: rel_name_def split: option.split)
    ultimately show ?case using Cons.IH [of ys'] by (simp add: find_relation_def fun_eq_iff)
  qed simp
qed

lemma referenced_ids_same:
  assumes "find_relation xs = find_relation ys"
  shows "referenced_relation_ids xs e = referenced_relation_ids ys e"
proof (induction e)
  case (Function f args)
  then have "map (referenced_relation_ids xs) args = map (referenced_relation_ids ys) args" by (intro map_cong) auto
  then show ?case by (simp only: referenced_relation_ids.simps)
qed (use assms in \<open>auto split: option.split\<close>)

text \<open>What is assumed of the iteration over a hash set: it visits each element once.\<close>

definition iter_ok :: "(nat list \<Rightarrow> nat list) \<Rightarrow> bool" where
  "iter_ok iter \<longleftrightarrow> (\<forall>xs. mset (iter xs) = mset xs)"

lemma iter_pair:
  assumes "iter_ok iter" "length refs = 2" "distinct refs"
  shows "iter refs ! 0 \<in> set refs" "iter refs ! 1 \<in> set refs" "iter refs ! 0 \<noteq> iter refs ! 1"
proof -
  have m: "mset (iter refs) = mset refs" using assms(1) by (simp add: iter_ok_def)
  then have len: "length (iter refs) = 2" and set: "set (iter refs) = set refs" and "distinct (iter refs)"
    using assms(2,3) mset_eq_length mset_eq_setD mset_eq_imp_distinct_iff by metis+
  then show "iter refs ! 0 \<in> set refs" "iter refs ! 1 \<in> set refs" "iter refs ! 0 \<noteq> iter refs ! 1"
    by (auto simp: nth_eq_iff_index_eq simp flip: set)
qed

lemma classify_step:
  assumes "iter_ok iter" "graph_ok (fst g)"
  shows "graph_ok (fst (classify_predicate iter e g)) \<and>
    same_relations (relations (fst (classify_predicate iter e g))) (relations (fst g)) \<and>
    graph_predicates (classify_predicate iter e g) = add_mset e (graph_predicates g)"
proof -
  obtain graph residual where g: "g = (graph, residual)" by (cases g)
  have num: "numbered (relations graph)" using assms(2) g by (simp add: graph_ok_def)
  show ?thesis
  proof (cases "referenced_relation_ids (relations graph) e")
    case None
    then show ?thesis using assms(2) by (simp add: g classify_predicate_def graph_predicates_def same_relations_def)
  next
    case (Some refs)
    have refs: "distinct refs" "set refs \<subseteq> {0 ..< length (relations graph)}"
      using referenced_ids_ok [OF num Some] by auto
    consider "length refs = 1" | "length refs = 2" | "length refs \<noteq> 1" "length refs \<noteq> 2" by blast
    then show ?thesis
    proof cases
      case 1
      then have hd: "hd refs < length (relations graph)" using refs by (cases refs) auto
      note same = add_local_filter_same [OF hd, of e]
      show ?thesis using assms(2) 1 Some same same_relations_ok [OF same]
        by (simp add: g classify_predicate_def graph_predicates_def graph_ok_def sum_list_local_update [OF hd])
    next
      case 2
      note it = iter_pair [OF assms(1) 2 refs(1)]
      show ?thesis using assms(2) 2 Some it refs(2)
        by (auto simp: g classify_predicate_def graph_predicates_def graph_ok_def same_relations_def Let_def)
    next
      case 3
      then show ?thesis using assms(2) Some
        by (simp add: g classify_predicate_def graph_predicates_def same_relations_def)
    qed
  qed
qed

lemma classify_fold:
  assumes "iter_ok iter"
  shows "graph_ok (fst g) \<Longrightarrow> graph_ok (fst (fold (classify_predicate iter) es g)) \<and>
    same_relations (relations (fst (fold (classify_predicate iter) es g))) (relations (fst g)) \<and>
    graph_predicates (fold (classify_predicate iter) es g) = mset es + graph_predicates g"
proof (induction es arbitrary: g)
  case (Cons e es)
  from classify_step [OF assms Cons.prems, of e] Cons.IH [of "classify_predicate iter e g"] show ?case
    by (simp add: same_relations_def)
qed (simp add: same_relations_def)

lemma numbered_fresh: "numbered (map (\<lambda>(i, ta). fresh_relation i ta) (enumerate 0 xs))"
  by (simp add: numbered_def fresh_relation_def split_beta comp_def map_fst_enumerate [simplified])

lemma fresh_filters: "sum_list (map (mset \<circ> local_filters) (map (\<lambda>(i, ta). fresh_relation i ta) xs)) = {#}"
  by (induction xs) (auto simp: fresh_relation_def)

lemma build_join_graph_spec:
  assumes "iter_ok iter" "build_join_graph iter p = Inr g"
  shows "graph_ok (fst g)" "map (\<lambda>r. (rel_table r, rel_alias r)) (relations (fst g)) = scans p"
    "graph_predicates g = mset (tree_predicates p)"
proof -
  obtain rels preds where c: "collect p ([], []) = Inr (rels, preds)"
    and g: "g = fold (classify_predicate iter) preds (\<lparr>relations = rels, edges = []\<rparr>, [])"
    using assms(2) by (auto simp: build_join_graph_def)
  have rels: "rels = map (\<lambda>(i, ta). fresh_relation i ta) (enumerate 0 (scans p))" and preds: "preds = tree_predicates p"
    using collect_spec [OF c] by simp_all
  have "graph_ok \<lparr>relations = rels, edges = []\<rparr>" using numbered_fresh by (simp add: graph_ok_def rels)
  from classify_fold [OF assms(1), of "(\<lparr>relations = rels, edges = []\<rparr>, [])" preds] this
  have ok: "graph_ok (fst g)" "same_relations (relations (fst g)) rels"
    and gp: "graph_predicates g = mset preds + graph_predicates (\<lparr>relations = rels, edges = []\<rparr>, [])"
    by (simp_all add: g)
  show "graph_ok (fst g)" by (rule ok)
  show "map (\<lambda>r. (rel_table r, rel_alias r)) (relations (fst g)) = scans p"
    using same_relations_ok(4) [OF ok(2)] by (simp add: rels fresh_relation_def comp_def split_beta)
  show "graph_predicates g = mset (tree_predicates p)"
    using gp fresh_filters [of "enumerate 0 (scans p)"] by (simp add: graph_predicates_def rels preds)
qed

section \<open>Properties\<close>

text \<open>
  C23.  The join graph of a plan has one relation per scan, in their order and numbered from 0, and keeps
  every predicate: the local filters, the edge predicates and the residual filters together are exactly
  the conjuncts of the plan's filters and join conditions, and every edge connects two different
  relations of the graph.
\<close>

theorem join_graph_keeps_predicates:
  assumes "iter_ok iter" "build_join_graph iter p = Inr g"
  shows "graph_ok (fst g) \<and> map (\<lambda>r. (rel_table r, rel_alias r)) (relations (fst g)) = scans p \<and>
    graph_predicates g = mset (tree_predicates p)"
  using build_join_graph_spec [OF assms] by blast

definition col :: "string \<Rightarrow> string \<Rightarrow> expression" where
  "col t c = Column (Some t) c"

definition triangle :: logical_plan where
  "triangle =
     Join Inner (BinaryOp (BinaryOp (col ''b'' ''x'') Eq (col ''c'' ''x'')) And (BinaryOp (col ''a'' ''y'') Eq (col ''c'' ''y'')))
       (Join Inner (BinaryOp (col ''a'' ''x'') Eq (col ''b'' ''x'')) (Scan ''a'' None []) (Scan ''b'' None []))
       (Scan ''c'' None [])"

theorem join_graph_keeps_predicates_witness:
  "\<exists>g. build_join_graph id triangle = Inr g \<and> graph_ok (fst g) \<and>
     map (\<lambda>r. (rel_table r, rel_alias r)) (relations (fst g)) = scans triangle \<and>
     graph_predicates g = mset (tree_predicates triangle)"
proof -
  have "build_join_graph id triangle \<noteq> Inl e" for e by (simp add: triangle_def build_join_graph_def)
  then obtain g where g: "build_join_graph id triangle = Inr g" by (cases "build_join_graph id triangle") auto
  have "iter_ok id" by (simp add: iter_ok_def)
  from join_graph_keeps_predicates [OF this g] g show ?thesis by blast
qed

text \<open>
  An outer join below a pushed-down filter escapes the test for inner joins, which stops at the
  filter: predicate pushdown turns this plan, whose inner input is a LEFT join, into a candidate of the
  join search, which then treats the LEFT join as an inner one.
\<close>

theorem outer_join_search_candidate:
  "\<not> is_join_search_candidate
       (Filter (BinaryOp (col ''a'' ''x'') Eq (Lit (Integer 1)))
         (Join Inner (BinaryOp (col ''b'' ''y'') Eq (col ''c'' ''y''))
           (Join Left (BinaryOp (col ''a'' ''x'') Eq (col ''b'' ''x'')) (Scan ''a'' None []) (Scan ''b'' None []))
           (Scan ''c'' None []))) \<and>
   is_join_search_candidate (push_predicates
       (Filter (BinaryOp (col ''a'' ''x'') Eq (Lit (Integer 1)))
         (Join Inner (BinaryOp (col ''b'' ''y'') Eq (col ''c'' ''y''))
           (Join Left (BinaryOp (col ''a'' ''x'') Eq (col ''b'' ''x'')) (Scan ''a'' None []) (Scan ''b'' None []))
           (Scan ''c'' None []))))"
  by (simp add: is_join_search_candidate_def push_filter_into_def goes_left_def goes_right_def touches_def col_def
      wrap_filters_def)

end
