(* ===== verification/Access_Paths.thy ===== *)
theory Access_Paths
  imports Cardinality_Estimator Physical_Plan Join_Graph
begin

text \<open>
  The access path of one relation (\<^verbatim>\<open>optimizer/access_path_generator.cpp\<close>): a sequential scan under its
  local filters, or an index scan for one of them under the others, whichever is cheaper.
\<close>

record planner_context =
  pc_schemas :: catalog
  pc_stats :: statistics

definition rows_to_size :: "double \<Rightarrow> nat result" where
  "rows_to_size d = size_of_double (dmax one_double (dround d))"

text \<open>The page count of the statistics, or one derived from the row count.\<close>

definition scan_pages :: "statistics \<Rightarrow> string \<Rightarrow> nat \<Rightarrow> double" where
  "scan_pages cat t rows =
     (case stats_get cat t of
        Some s \<Rightarrow> if dlt dzero (stats_page_count s) then stats_page_count s else pages_for rows 64
      | None \<Rightarrow> pages_for rows 64)"

definition plan_info_of :: "cost \<Rightarrow> nat \<Rightarrow> row_estimate \<Rightarrow> plan_info" where
  "plan_info_of c rows est = make_info c rows (e_reasoning est) (e_confidence est)"

fun equality_column :: "expression \<Rightarrow> string option" where
  "equality_column (BinaryOp (Column t c) Eq (Lit v)) = Some c"
| "equality_column (BinaryOp (Lit v) Eq (Column t c)) = Some c"
| "equality_column _ = None"

definition find_indexed_equality :: "relation \<Rightarrow> table_schema \<Rightarrow> nat option" where
  "find_indexed_equality rel schema =
     position (\<lambda>e. case equality_column e of Some c \<Rightarrow> has_index_on schema c | None \<Rightarrow> False)
       (local_filters rel)"

text \<open>
  The two sides of such an equality; an expression of another form has none, and the column of an
  expression that is no column is the empty string of a default \<^verbatim>\<open>Expression\<close>.
\<close>

fun literal_side_of :: "expression \<Rightarrow> expression" where
  "literal_side_of (BinaryOp (Lit v) p r) = Lit v"
| "literal_side_of (BinaryOp l p r) = r"
| "literal_side_of e = e"

fun column_side_of :: "expression \<Rightarrow> expression" where
  "column_side_of (BinaryOp (Column t c) p r) = Column t c"
| "column_side_of (BinaryOp l p r) = r"
| "column_side_of e = e"

fun column_name :: "expression \<Rightarrow> string" where
  "column_name (Column t c) = c"
| "column_name _ = []"

text \<open>One round of the loops that stack filters on a scan; the state is the plan and the running row estimate.\<close>

definition stack_filter ::
  "statistics \<Rightarrow> logical_plan \<Rightarrow> physical_plan \<times> double \<Rightarrow> expression \<Rightarrow> (physical_plan \<times> double) result"
where
  "stack_filter cat scope st e =
     (let (p, running) = st; est = estimate_filter cat running e scope
      in rbind (rows_to_size (e_rows est)) (\<lambda>rows.
         rbind (rows_to_size running) (\<lambda>input.
           Inr (PFilter (plan_info_of (cost_add (cost_of p) (cost_filter input)) rows est) e p, e_rows est))))"

definition seq_path :: "planner_context \<Rightarrow> relation \<Rightarrow> physical_plan result" where
  "seq_path ctx rel =
     (let cat = pc_stats ctx; est = estimate_scan cat (rel_table rel);
          scope = Scan (rel_table rel) (rel_alias rel) []
      in rbind (rows_to_size (e_rows est)) (\<lambda>base.
         rbind (rfold (stack_filter cat scope)
                 (SeqScan (plan_info_of (cost_seq_scan base (scan_pages cat (rel_table rel) base)) base est)
                    (rel_table rel) (rel_alias rel) [], e_rows est)
                 (local_filters rel)) (\<lambda>(p, _).
           Inr p)))"

definition index_path :: "planner_context \<Rightarrow> relation \<Rightarrow> nat \<Rightarrow> physical_plan result" where
  "index_path ctx rel i =
     (let cat = pc_stats ctx; e = local_filters rel ! i;
          scope = Scan (rel_table rel) (rel_alias rel) [];
          est = estimate_filter cat (e_rows (estimate_scan cat (rel_table rel))) e scope
      in rbind (rows_to_size (e_rows est)) (\<lambda>matched.
         rbind (rfold (stack_filter cat scope)
                 (IndexScan (plan_info_of (cost_index_scan matched) matched est) (rel_table rel) (rel_alias rel) []
                    (column_name (column_side_of e)) (literal_side_of e), e_rows est)
                 (take i (local_filters rel) @ drop (Suc i) (local_filters rel))) (\<lambda>(p, _).
           Inr p)))"

definition cheaper :: "physical_plan \<Rightarrow> physical_plan \<Rightarrow> bool" where
  "cheaper p q \<longleftrightarrow> dlt (cost_total (cost_of p)) (cost_total (cost_of q))"

definition best_access_path :: "planner_context \<Rightarrow> relation \<Rightarrow> physical_plan result" where
  "best_access_path ctx rel =
     rbind (seq_path ctx rel) (\<lambda>seq.
       case catalog_get (pc_schemas ctx) (rel_table rel) of
         None \<Rightarrow> Inr seq
       | Some schema \<Rightarrow>
           (case find_indexed_equality rel schema of
              None \<Rightarrow> Inr seq
            | Some i \<Rightarrow> rbind (index_path ctx rel i) (\<lambda>idx. Inr (if cheaper idx seq then idx else seq))))"

section \<open>Estimates of an access path\<close>

text \<open>What is assumed of the statistics: their counts are doubles.\<close>

definition counts_ok :: "statistics \<Rightarrow> bool" where
  "counts_ok cat \<longleftrightarrow> (\<forall>(t, s) \<in> set cat. is_double (stats_row_count s) \<and> is_double (stats_page_count s))"

lemma counts_ok_get: "counts_ok cat \<Longrightarrow> stats_get cat t = Some s \<Longrightarrow>
    mag_ok (stats_row_count s) \<and> mag_ok (stats_page_count s)"
  unfolding counts_ok_def stats_get_def by (auto dest!: map_of_SomeD intro: mag_ok_double)

lemma size_of_double_ge_one: "mag_ok d \<Longrightarrow> size_of_double (dmax one_double d) = Inr n \<Longrightarrow> 1 \<le> n \<and> n \<le> size_max"
proof -
  assume ok: "mag_ok d" and n: "size_of_double (dmax one_double d) = Inr n"
  from ok obtain m where m: "dmax one_double d = Fin False m \<and> 1 \<le> m \<or> dmax one_double d = Inf False"
    by (cases d) (force simp: dmax_def signed_def split: if_splits)+
  then have m: "dmax one_double d = Fin False m" "1 \<le> m" using n by auto
  with n have lt: "m < 2 ^ 64" and nm: "n = nat \<lfloor>m\<rfloor>" by (auto split: if_splits)
  from lt have "\<lfloor>m\<rfloor> < 2 ^ 64" by (simp add: floor_less_iff)
  moreover have "1 \<le> \<lfloor>m\<rfloor>" using m by simp
  ultimately show ?thesis using nm by (auto simp: size_max_def le_nat_iff nat_le_iff)
qed

lemma mag_ok_dround: "mag_ok d \<Longrightarrow> mag_ok (dround d)"
  by (cases d) auto

lemma rows_to_size_ok: "mag_ok d \<Longrightarrow> rows_to_size d = Inr n \<Longrightarrow> 1 \<le> n \<and> n \<le> size_max"
  unfolding rows_to_size_def by (rule size_of_double_ge_one [OF mag_ok_dround])

lemma mag_ok_estimates:
  "mag_ok (e_rows (estimate_filter cat n e scope))"
  "mag_ok (e_rows (estimate_join cat l r e ls rs))"
  by (auto simp: estimate_filter_def estimate_join_def join_fallback_def tenth_of_def dmax_def Let_def
      intro: mag_ok_double split: option.splits)

lemma mag_ok_scan: "counts_ok cat \<Longrightarrow> mag_ok (e_rows (estimate_scan cat t))"
  using counts_ok_get by (auto simp: estimate_scan_def split: option.splits)

lemma mag_ok_scan_pages: "counts_ok cat \<Longrightarrow> mag_ok (scan_pages cat t n)"
  using counts_ok_get by (auto simp: scan_pages_def mag_ok_pages split: option.splits)

text \<open>A plan whose estimates are usable: row counts of 64 bits and at least one, costs never negative or NaN.\<close>

definition estimates_ok :: "physical_plan \<Rightarrow> bool" where
  "estimates_ok p \<longleftrightarrow> rows_ok p \<and> cost_ok (cost_of p)"

lemma plan_info_simps [simp]: "est_cost (plan_info_of c n est) = c" "est_rows (plan_info_of c n est) = n"
  by (simp_all add: plan_info_of_def)

lemma stack_filter_ok:
  assumes "stack_filter cat scope (p, d) e = Inr (q, d')" "estimates_ok p" "mag_ok d"
  shows "\<exists>i. q = PFilter i e p \<and> estimates_ok q \<and> mag_ok d'"
proof -
  obtain rows input where rows: "rows_to_size (e_rows (estimate_filter cat d e scope)) = Inr rows"
    and input: "rows_to_size d = Inr input"
    and q: "q = PFilter (plan_info_of (cost_add (cost_of p) (cost_filter input)) rows (estimate_filter cat d e scope)) e p"
    and d': "d' = e_rows (estimate_filter cat d e scope)"
    using assms(1) by (auto simp: stack_filter_def Let_def)
  have "cost_ok (cost_filter input)" using rows_to_size_ok [OF assms(3) input] cost_ok_operators(3) by blast
  then show ?thesis
    using assms(2) rows_to_size_ok [OF mag_ok_estimates(1) rows] mag_ok_estimates(1)
    by (simp add: q d' estimates_ok_def cost_ok_add)
qed

fun unstack :: "physical_plan \<Rightarrow> expression list \<times> physical_plan" where
  "unstack (PFilter i e p) = (let (es, q) = unstack p in (es @ [e], q))"
| "unstack p = ([], p)"

lemma stack_filters_ok:
  "rfold (stack_filter cat scope) (p, d) es = Inr (q, d') \<Longrightarrow> estimates_ok p \<Longrightarrow> mag_ok d \<Longrightarrow>
     estimates_ok q \<and> unstack q = (fst (unstack p) @ es, snd (unstack p))"
proof (induction es arbitrary: p d)
  case (Cons e es)
  then obtain p1 d1 where step: "stack_filter cat scope (p, d) e = Inr (p1, d1)"
    and rest: "rfold (stack_filter cat scope) (p1, d1) es = Inr (q, d')" by auto
  obtain i where "p1 = PFilter i e p" "estimates_ok p1" "mag_ok d1"
    using stack_filter_ok [OF step Cons.prems(2,3)] by blast
  with Cons.IH [OF rest] show ?case by (simp add: split_beta)
qed simp

lemma cost_ok_seq: "counts_ok cat \<Longrightarrow> n \<le> size_max \<Longrightarrow> cost_ok (cost_seq_scan n (scan_pages cat t n))"
  using cost_ok_operators(1) mag_ok_scan_pages by blast

text \<open>
  What an access path is: a stack of filters over a sequential scan that together are the relation's local
  filters, or over an index scan that stands for one more of them.
\<close>

fun reads :: "relation \<Rightarrow> expression list \<times> physical_plan \<Rightarrow> bool" where
  "reads rel (es, SeqScan i t a cs) \<longleftrightarrow>
     t = rel_table rel \<and> a = rel_alias rel \<and> cs = [] \<and> es = local_filters rel"
| "reads rel (es, IndexScan i t a cs c v) \<longleftrightarrow>
     t = rel_table rel \<and> a = rel_alias rel \<and> cs = [] \<and>
     (\<exists>e xs ys. local_filters rel = xs @ e # ys \<and> es = xs @ ys \<and> equality_column e = Some c \<and> literal_side_of e = v)"
| "reads rel (es, p) \<longleftrightarrow> False"

definition access_path :: "relation \<Rightarrow> physical_plan \<Rightarrow> bool" where
  "access_path rel p \<longleftrightarrow> reads rel (unstack p) \<and> estimates_ok p"

lemma seq_path_ok:
  assumes "counts_ok (pc_stats ctx)" "seq_path ctx rel = Inr p"
  shows "access_path rel p"
proof -
  let ?cat = "pc_stats ctx"
  let ?est = "estimate_scan ?cat (rel_table rel)"
  let ?scan = "\<lambda>n. SeqScan (plan_info_of (cost_seq_scan n (scan_pages ?cat (rel_table rel) n)) n ?est)
      (rel_table rel) (rel_alias rel) []"
  obtain base d where base: "rows_to_size (e_rows ?est) = Inr base"
    and fold: "rfold (stack_filter ?cat (Scan (rel_table rel) (rel_alias rel) [])) (?scan base, e_rows ?est)
      (local_filters rel) = Inr (p, d)"
    using assms(2) by (auto simp: seq_path_def Let_def)
  note mag = mag_ok_scan [OF assms(1), of "rel_table rel"]
  have "estimates_ok (?scan base)"
    using rows_to_size_ok [OF mag base] cost_ok_seq [OF assms(1)] by (simp add: estimates_ok_def)
  from stack_filters_ok [OF fold this mag] show ?thesis by (simp add: access_path_def)
qed

lemma equality_column_side: "equality_column e = Some c \<Longrightarrow> column_name (column_side_of e) = c"
  by (induction e rule: equality_column.induct) auto

lemma index_path_ok:
  assumes "index_path ctx rel i = Inr p" "i < length (local_filters rel)"
    and "equality_column (local_filters rel ! i) = Some c"
  shows "access_path rel p"
proof -
  let ?cat = "pc_stats ctx"
  let ?e = "local_filters rel ! i"
  let ?scope = "Scan (rel_table rel) (rel_alias rel) []"
  let ?est = "estimate_filter ?cat (e_rows (estimate_scan ?cat (rel_table rel))) ?e ?scope"
  let ?scan = "\<lambda>n. IndexScan (plan_info_of (cost_index_scan n) n ?est) (rel_table rel) (rel_alias rel) []
      (column_name (column_side_of ?e)) (literal_side_of ?e)"
  obtain n d where n: "rows_to_size (e_rows ?est) = Inr n"
    and fold: "rfold (stack_filter ?cat ?scope) (?scan n, e_rows ?est)
      (take i (local_filters rel) @ drop (Suc i) (local_filters rel)) = Inr (p, d)"
    using assms(1) by (auto simp: index_path_def Let_def)
  have "estimates_ok (?scan n)"
    using rows_to_size_ok [OF mag_ok_estimates(1) n] cost_ok_operators(2) [of n n] by (simp add: estimates_ok_def)
  from stack_filters_ok [OF fold this mag_ok_estimates(1)]
  have "estimates_ok p" "unstack p = (take i (local_filters rel) @ drop (Suc i) (local_filters rel), ?scan n)"
    by simp_all
  moreover have "\<exists>e xs ys. local_filters rel = xs @ e # ys \<and>
      take i (local_filters rel) @ drop (Suc i) (local_filters rel) = xs @ ys \<and>
      equality_column e = Some c \<and> literal_side_of e = literal_side_of ?e"
    using id_take_nth_drop [OF assms(2)] assms(3) by blast
  ultimately show ?thesis by (simp add: access_path_def equality_column_side [OF assms(3)])
qed

lemma best_access_path_ok:
  assumes "counts_ok (pc_stats ctx)" "best_access_path ctx rel = Inr p"
  shows "access_path rel p"
proof -
  obtain seq where seq: "seq_path ctx rel = Inr seq" using assms(2) by (auto simp: best_access_path_def)
  note ok = seq_path_ok [OF assms(1) seq]
  consider "p = seq" | i schema where "find_indexed_equality rel schema = Some i" "index_path ctx rel i = Inr p"
    using assms(2) seq by (auto simp: best_access_path_def split: option.splits if_splits)
  then show ?thesis
  proof cases
    case 2
    from position_Some [OF 2(1) [unfolded find_indexed_equality_def]] index_path_ok [OF 2(2)]
    show ?thesis by (auto split: option.splits)
  qed (use ok in simp)
qed

end
