(* ===== verification/Join_Enumerator.thy ===== *)
theory Join_Enumerator
  imports Access_Paths "HOL-Library.Word"
begin

text \<open>
  The join-order search (\<^verbatim>\<open>optimizer/join_enumerator.cpp\<close>): dynamic programming over sets of relations,
  held as 64-bit masks, that builds left-deep plans and chooses the join algorithm of each step.
\<close>

unbundle bit_operations_syntax

type_synonym relation_mask = "64 word"

section \<open>Masks\<close>

definition popcount :: "relation_mask \<Rightarrow> nat" where
  "popcount m = length (filter (bit m) [0 ..< 64])"

text \<open>The loop runs up to the first set bit; it is only called on masks that have one.\<close>

definition index_of_only_set_bit :: "relation_mask \<Rightarrow> nat" where
  "index_of_only_set_bit m = length (takeWhile (\<lambda>i. \<not> bit m i) [0 ..< 64])"

text \<open>
  \<^verbatim>\<open>RelationMask(1) << i\<close>.  Shifting by 64 or more is undefined; relation numbers are below the number of
  relations, whose excess over 64 \<open>find_best_plan\<close> reports.
\<close>

definition relation_bit :: "nat \<Rightarrow> relation_mask" where
  "relation_bit i = push_bit i 1"

definition synthetic_scope_for_mask :: "relation_mask \<Rightarrow> join_graph \<Rightarrow> logical_plan" where
  "synthetic_scope_for_mask m g =
     (if popcount m = 1
      then let rel = relations g ! index_of_only_set_bit m in Scan (rel_table rel) (rel_alias rel) []
      else Join Inner (Lit (Boolean True)) (Scan ''<multi-relation>'' None []) (Scan ''<multi-relation>'' None []))"

section \<open>Candidates for one join step\<close>

definition connects :: "relation_mask \<Rightarrow> relation_mask \<Rightarrow> join_edge \<Rightarrow> bool" where
  "connects l r e \<longleftrightarrow>
     l AND relation_bit (edge_left e) \<noteq> 0 \<and> r AND relation_bit (edge_right e) \<noteq> 0 \<or>
     l AND relation_bit (edge_right e) \<noteq> 0 \<and> r AND relation_bit (edge_left e) \<noteq> 0"

definition find_connecting_edge :: "relation_mask \<Rightarrow> relation_mask \<Rightarrow> join_graph \<Rightarrow> join_edge option" where
  "find_connecting_edge l r g = find (connects l r) (edges g)"

text \<open>The column of an equality between two columns that belongs to a relation.\<close>

fun column_for_alias :: "expression \<Rightarrow> string \<Rightarrow> string option" where
  "column_for_alias (BinaryOp (Column t c) p (Column t' c')) name =
     (if t = Some name then Some c else if t' = Some name then Some c' else None)"
| "column_for_alias _ name = None"

text \<open>Is the side with this mask a single relation with an index on its join column?\<close>

definition index_probe :: "planner_context \<Rightarrow> join_graph \<Rightarrow> expression \<Rightarrow> relation_mask \<Rightarrow> bool" where
  "index_probe ctx g e m \<longleftrightarrow>
     popcount m = 1 \<and>
     (let rel = relations g ! index_of_only_set_bit m
      in case (column_for_alias e (rel_name rel), catalog_get (pc_schemas ctx) (rel_table rel)) of
           (Some c, Some schema) \<Rightarrow> has_index_on schema c
         | _ \<Rightarrow> False)"

definition make_join ::
  "join_algorithm \<Rightarrow> expression \<Rightarrow> cost \<Rightarrow> nat \<Rightarrow> row_estimate \<Rightarrow> physical_plan \<Rightarrow> physical_plan \<Rightarrow> physical_plan"
where
  "make_join k e c out est l r = PJoin k (plan_info_of c out est) Inner e l r"

definition try_index_nested_loop ::
  "planner_context \<Rightarrow> join_graph \<Rightarrow> relation_mask \<Rightarrow> relation_mask \<Rightarrow> physical_plan \<Rightarrow> physical_plan \<Rightarrow>
   expression \<Rightarrow> nat \<Rightarrow> row_estimate \<Rightarrow> physical_plan option"
where
  "try_index_nested_loop ctx g lm rm l r e out est =
     (if index_probe ctx g e rm
      then Some (make_join IndexNestedLoopJoin e
             (cost_add (cost_of l) (cost_index_nested_loop_join (rows_of l) out)) out est l r)
      else if index_probe ctx g e lm
      then Some (make_join IndexNestedLoopJoin e
             (cost_add (cost_of r) (cost_index_nested_loop_join (rows_of r) out)) out est r l)
      else None)"

fun is_equi :: "expression \<Rightarrow> bool" where
  "is_equi (BinaryOp l p r) \<longleftrightarrow> p = Eq"
| "is_equi e \<longleftrightarrow> False"

text \<open>The cost of a nested-loop join that reruns its inner input for every outer row.\<close>

definition rescan_cost :: "physical_plan \<Rightarrow> physical_plan \<Rightarrow> cost" where
  "rescan_cost l r =
     cost_add
       ((cost_of l)\<lparr>cpu := dadd (cpu (cost_of l)) (dmul (double_of_nat (rows_of l)) (cost_total (cost_of r)))\<rparr>)
       (cost_nested_loop_join (rows_of l) (rows_of r))"

definition hash_cost :: "physical_plan \<Rightarrow> physical_plan \<Rightarrow> cost" where
  "hash_cost l r = cost_add (cost_add (cost_of l) (cost_of r)) (cost_hash_join (rows_of l) (rows_of r))"

definition join_candidates ::
  "planner_context \<Rightarrow> join_graph \<Rightarrow> relation_mask \<Rightarrow> relation_mask \<Rightarrow> physical_plan \<Rightarrow> physical_plan \<Rightarrow>
   expression \<Rightarrow> nat \<Rightarrow> row_estimate \<Rightarrow> physical_plan list"
where
  "join_candidates ctx g lm rm l r e out est =
     [make_join NestedLoopJoin e (rescan_cost l r) out est l r,
      make_join NestedLoopJoin e (rescan_cost r l) out est r l] @
     (if is_equi e
      then make_join HashJoin e (hash_cost l r) out est l r #
        (case try_index_nested_loop ctx g lm rm l r e out est of Some p \<Rightarrow> [p] | None \<Rightarrow> [])
      else [])"

definition cheapest :: "physical_plan list \<Rightarrow> physical_plan" where
  "cheapest ps = foldl (\<lambda>best p. if cheaper p best then p else best) (hd ps) (tl ps)"

definition generate_best_candidate ::
  "planner_context \<Rightarrow> join_graph \<Rightarrow> relation_mask \<Rightarrow> relation_mask \<Rightarrow> physical_plan \<Rightarrow> physical_plan \<Rightarrow>
   join_edge \<Rightarrow> physical_plan result"
where
  "generate_best_candidate ctx g lm rm l r edge =
     (let e = edge_predicate edge;
          est = estimate_join (pc_stats ctx) (double_of_nat (rows_of l)) (double_of_nat (rows_of r)) e
                  (synthetic_scope_for_mask lm g) (synthetic_scope_for_mask rm g)
      in rbind (rows_to_size (e_rows est)) (\<lambda>out.
           Inr (cheapest (join_candidates ctx g lm rm l r e out est))))"

section \<open>The search\<close>

type_synonym memo = "relation_mask \<rightharpoonup> physical_plan"

text \<open>One round of the loop of \<^verbatim>\<open>solve_subset\<close>, for the relation joined last.\<close>

definition solve_step ::
  "planner_context \<Rightarrow> join_graph \<Rightarrow> memo \<Rightarrow> relation_mask \<Rightarrow> physical_plan option \<Rightarrow> nat \<Rightarrow> physical_plan option result"
where
  "solve_step ctx g memo sub best r =
     (let rm = relation_bit r; lm = sub AND NOT rm
      in if sub AND rm = 0 \<or> lm = 0 then Inr best
         else case (memo lm, memo rm, find_connecting_edge lm rm g) of
                (Some l, Some q, Some edge) \<Rightarrow>
                  rbind (generate_best_candidate ctx g lm rm l q edge) (\<lambda>cand.
                    Inr (case best of
                           None \<Rightarrow> Some cand
                         | Some b \<Rightarrow> if cheaper cand b then Some cand else best))
              | _ \<Rightarrow> Inr best)"

definition solve_subset ::
  "planner_context \<Rightarrow> join_graph \<Rightarrow> memo \<Rightarrow> relation_mask \<Rightarrow> memo result"
where
  "solve_subset ctx g memo sub =
     rbind (rfold (solve_step ctx g memo sub) None [0 ..< length (relations g)]) (\<lambda>best.
       Inr (case best of Some p \<Rightarrow> memo(sub \<mapsto> p) | None \<Rightarrow> memo))"

definition base_step :: "planner_context \<Rightarrow> join_graph \<Rightarrow> memo \<Rightarrow> nat \<Rightarrow> memo result" where
  "base_step ctx g memo i =
     (if 64 \<le> i then Inl (UndefinedBehaviour ''shift'')
      else rbind (best_access_path ctx (relations g ! i)) (\<lambda>p. Inr (memo(relation_bit i \<mapsto> p))))"

definition mask_limit :: "nat \<Rightarrow> relation_mask" where
  "mask_limit n = (if n = 64 then NOT 0 else push_bit n 1)"

definition full_mask :: "nat \<Rightarrow> relation_mask" where
  "full_mask n = (if n = 64 then NOT 0 else push_bit n 1 - 1)"

text \<open>The masks of the inner loop, in order.\<close>

definition subsets_of_size :: "nat \<Rightarrow> nat \<Rightarrow> relation_mask list" where
  "subsets_of_size n sz =
     filter (\<lambda>m. popcount m = sz) (map word_of_nat [1 ..< unat (mask_limit n)])"

definition search_memo :: "planner_context \<Rightarrow> join_graph \<Rightarrow> memo result" where
  "search_memo ctx g =
     (let n = length (relations g)
      in rbind (rfold (base_step ctx g) Map.empty [0 ..< n]) (\<lambda>memo.
           rfold (\<lambda>memo sz. rfold (solve_subset ctx g) memo (subsets_of_size n sz)) memo [2 ..< Suc n]))"

definition not_connected :: error where
  "not_connected = RuntimeError (''join_enumerator: relations are not fully connected by join predicates -- '' @
     ''a cartesian product would be required, which this search refuses to generate'')"

definition find_best_plan :: "planner_context \<Rightarrow> join_graph \<Rightarrow> physical_plan result" where
  "find_best_plan ctx g =
     (let n = length (relations g)
      in if n = 0 then Inl (LogicError ''join_enumerator: empty join graph'')
         else rbind (search_memo ctx g) (\<lambda>memo.
                case memo (full_mask n) of Some p \<Rightarrow> Inr p | None \<Rightarrow> Inl not_connected))"


section \<open>Masks are sets of relation numbers\<close>

definition mask_set :: "relation_mask \<Rightarrow> nat set" where
  "mask_set m = {i. bit m i}"

lemma mask_set_lt: "i \<in> mask_set m \<Longrightarrow> i < 64"
  using bit_imp_le_length [of m i] by (simp add: mask_set_def)

lemma mask_set_eqI:
  fixes m k :: relation_mask
  assumes "\<And>i. i < 64 \<Longrightarrow> bit m i \<longleftrightarrow> bit k i"
  shows "m = k"
  using assms by (intro bit_word_eqI) simp

lemma popcount_card: "popcount m = card (mask_set m)"
proof -
  have "mask_set m = set (filter (bit m) [0 ..< 64])" using mask_set_lt by (auto simp: mask_set_def)
  then show ?thesis unfolding popcount_def by (simp only: distinct_card distinct_filter distinct_upt)
qed

lemma bit_relation_bit [simp]: "i < 64 \<Longrightarrow> bit (relation_bit i) j \<longleftrightarrow> j = i"
  by (auto simp: relation_bit_def push_bit_of_1 bit_exp_iff)

lemma mask_set_relation_bit: "i < 64 \<Longrightarrow> mask_set (relation_bit i) = {i}"
  by (auto simp: mask_set_def)

lemma mask_set_zero: "mask_set m = {} \<longleftrightarrow> m = 0"
  using mask_set_eqI [of m 0] by (auto simp: mask_set_def)

lemma mask_set_and: "mask_set (m AND k) = mask_set m \<inter> mask_set k"
  by (auto simp: mask_set_def bit_and_iff)

lemma and_relation_bit: "i < 64 \<Longrightarrow> m AND relation_bit i = 0 \<longleftrightarrow> i \<notin> mask_set m"
  by (simp add: mask_set_and mask_set_relation_bit flip: mask_set_zero)

lemma mask_set_remove: "i < 64 \<Longrightarrow> mask_set (m AND NOT (relation_bit i)) = mask_set m - {i}"
  using mask_set_lt by (auto simp: mask_set_def bit_and_iff bit_not_iff)

lemma mask_set_inject: "mask_set m = mask_set k \<longleftrightarrow> m = k"
  using mask_set_eqI [of m k] by (auto simp: mask_set_def)

lemma full_mask_mask: "n \<le> 64 \<Longrightarrow> full_mask n = mask n"
  by (auto simp: full_mask_def mask_eq_exp_minus_1 push_bit_of_1 simp flip: mask_full)

lemma mask_set_full: "n \<le> 64 \<Longrightarrow> mask_set (full_mask n) = {..< n}"
  by (auto simp: full_mask_mask mask_set_def bit_mask_iff)


section \<open>Plans of the search\<close>

text \<open>
  What a plan for a set of relations is: an access path for one relation, or a join of a plan with the
  access path of one more relation, in either order, on the predicate of an edge between them.
\<close>

definition links :: "join_edge \<Rightarrow> nat set \<Rightarrow> nat \<Rightarrow> bool" where
  "links e A r \<longleftrightarrow> edge_left e \<in> A \<and> edge_right e = r \<or> edge_right e \<in> A \<and> edge_left e = r"

inductive left_deep :: "join_graph \<Rightarrow> nat set \<Rightarrow> physical_plan \<Rightarrow> bool" for g where
  base: "r < length (relations g) \<Longrightarrow> access_path (relations g ! r) p \<Longrightarrow> left_deep g {r} p"
| join: "left_deep g A l \<Longrightarrow> r < length (relations g) \<Longrightarrow> r \<notin> A \<Longrightarrow> access_path (relations g ! r) q \<Longrightarrow>
    e \<in> set (edges g) \<Longrightarrow> links e A r \<Longrightarrow> k = NestedLoopJoin \<or> is_equi (edge_predicate e) \<Longrightarrow>
    x = l \<and> y = q \<or> x = q \<and> y = l \<Longrightarrow> estimates_ok (PJoin k i Inner (edge_predicate e) x y) \<Longrightarrow>
    left_deep g (insert r A) (PJoin k i Inner (edge_predicate e) x y)"

lemma left_deep_relations: "left_deep g A p \<Longrightarrow> A \<noteq> {} \<and> finite A \<and> A \<subseteq> {..< length (relations g)}"
  by (induction rule: left_deep.induct) auto

lemma left_deep_estimates: "left_deep g A p \<Longrightarrow> estimates_ok p"
  by (induction rule: left_deep.induct) (auto simp: access_path_def)

lemma left_deep_single: "left_deep g {r} p \<Longrightarrow> access_path (relations g ! r) p"
  by (cases rule: left_deep.cases) (auto dest!: left_deep_relations)

section \<open>Candidates are plans\<close>

lemma cheapest_member: "ps \<noteq> [] \<Longrightarrow> cheapest ps \<in> set ps"
proof -
  have "foldl (\<lambda>best p. if cheaper p best then p else best) b qs \<in> insert b (set qs)" for b qs
    by (induction qs arbitrary: b) auto
  then show "ps \<noteq> [] \<Longrightarrow> ?thesis" unfolding cheapest_def by (cases ps) auto
qed

lemma cost_ok_rescan:
  assumes "estimates_ok l" "estimates_ok r"
  shows "cost_ok (rescan_cost l r)"
proof -
  note rows = rows_ok_bounds [of l] rows_ok_bounds [of r]
  have "dnonneg (dmul (double_of_nat (rows_of l)) (cost_total (cost_of r)))"
    using assms rows by (intro dnonneg_rows_times cost_ok_total) (auto simp: estimates_ok_def)
  with assms rows cost_ok_operators(4) [of "rows_of l" "rows_of r"] show ?thesis
    by (auto simp: rescan_cost_def estimates_ok_def cost_ok_def [of "_\<lparr>cpu := _\<rparr>"] cost_ok_def [of "cost_of l"]
        intro!: cost_ok_add)
qed

lemma cost_ok_hash: "estimates_ok l \<Longrightarrow> estimates_ok r \<Longrightarrow> cost_ok (hash_cost l r)"
  using rows_ok_bounds [of l] rows_ok_bounds [of r] cost_ok_operators(5) [of "rows_of l" "rows_of r"]
  by (auto simp: hash_cost_def estimates_ok_def intro!: cost_ok_add)

lemma cost_ok_index: "estimates_ok l \<Longrightarrow> n \<le> size_max \<Longrightarrow>
    cost_ok (cost_add (cost_of l) (cost_index_nested_loop_join (rows_of l) n))"
  using rows_ok_bounds [of l] cost_ok_operators(6) [of "rows_of l" n] by (auto simp: estimates_ok_def intro!: cost_ok_add)

lemma make_join_ok: "estimates_ok l \<Longrightarrow> estimates_ok r \<Longrightarrow> 1 \<le> out \<Longrightarrow> out \<le> size_max \<Longrightarrow> cost_ok c \<Longrightarrow>
    estimates_ok (make_join k e c out est l r)"
  by (simp add: estimates_ok_def make_join_def)

text \<open>Every candidate joins the two plans in one of the two orders, with an algorithm that can run the predicate.\<close>

lemma join_candidate:
  assumes "p \<in> set (join_candidates ctx g lm rm l r e out est)" "estimates_ok l" "estimates_ok r"
    and "1 \<le> out" "out \<le> size_max"
  shows "\<exists>k i x y. p = PJoin k i Inner e x y \<and> (x = l \<and> y = r \<or> x = r \<and> y = l) \<and>
    (k = NestedLoopJoin \<or> is_equi e) \<and> estimates_ok p"
proof -
  note ok = make_join_ok [OF assms(2,3,4,5)] make_join_ok [OF assms(3,2,4,5)]
  note costs = cost_ok_rescan [OF assms(2,3)] cost_ok_rescan [OF assms(3,2)] cost_ok_hash [OF assms(2,3)]
    cost_ok_index [OF assms(2,5)] cost_ok_index [OF assms(3,5)]
  have "estimates_ok p" using assms(1) ok costs
    by (auto simp: join_candidates_def try_index_nested_loop_def split: if_splits)
  moreover have "\<exists>k i x y. p = PJoin k i Inner e x y \<and> (x = l \<and> y = r \<or> x = r \<and> y = l) \<and>
      (k = NestedLoopJoin \<or> is_equi e)"
    using assms(1)
    by (auto simp: join_candidates_def try_index_nested_loop_def make_join_def split: if_splits)
  ultimately show ?thesis by blast
qed

lemma candidate_left_deep:
  assumes "generate_best_candidate ctx g lm rm l q edge = Inr p" "left_deep g A l" "left_deep g {r} q"
    and "r \<notin> A" "edge \<in> set (edges g)" "links edge A r"
  shows "left_deep g (insert r A) p"
proof -
  let ?est = "estimate_join (pc_stats ctx) (double_of_nat (rows_of l)) (double_of_nat (rows_of q)) (edge_predicate edge)
    (synthetic_scope_for_mask lm g) (synthetic_scope_for_mask rm g)"
  obtain out where out: "rows_to_size (e_rows ?est) = Inr out"
    and p: "p = cheapest (join_candidates ctx g lm rm l q (edge_predicate edge) out ?est)"
    using assms(1) by (auto simp: generate_best_candidate_def Let_def)
  have mem: "p \<in> set (join_candidates ctx g lm rm l q (edge_predicate edge) out ?est)"
    unfolding p by (rule cheapest_member) (simp add: join_candidates_def)
  from join_candidate [OF mem left_deep_estimates [OF assms(2)] left_deep_estimates [OF assms(3)]]
    rows_to_size_ok [OF mag_ok_estimates(2) out]
  obtain k i x y where "p = PJoin k i Inner (edge_predicate edge) x y" "x = l \<and> y = q \<or> x = q \<and> y = l"
    "k = NestedLoopJoin \<or> is_equi (edge_predicate edge)" "estimates_ok p" by blast
  moreover have "r < length (relations g)" using left_deep_relations [OF assms(3)] by simp
  ultimately show ?thesis
    using left_deep.join [OF assms(2) _ assms(4) left_deep_single [OF assms(3)] assms(5,6)] by blast
qed

section \<open>The memo holds plans\<close>

definition memo_ok :: "join_graph \<Rightarrow> memo \<Rightarrow> bool" where
  "memo_ok g memo \<longleftrightarrow> (\<forall>m p. memo m = Some p \<longrightarrow> left_deep g (mask_set m) p)"

text \<open>A graph the search can run on: well formed, with relation numbers that fit into a mask.\<close>

definition searchable :: "join_graph \<Rightarrow> bool" where
  "searchable g \<longleftrightarrow> graph_ok g \<and> length (relations g) \<le> 64"

lemma edge_bounds: "searchable g \<Longrightarrow> e \<in> set (edges g) \<Longrightarrow> edge_left e < 64 \<and> edge_right e < 64"
  by (fastforce simp: searchable_def graph_ok_def)

lemma connects_links:
  assumes "searchable g" "e \<in> set (edges g)" "r < 64"
  shows "connects m (relation_bit r) e \<longleftrightarrow> links e (mask_set m) r"
  using edge_bounds [OF assms(1,2)] assms(3)
  by (auto simp: connects_def links_def and_relation_bit mask_set_relation_bit)

lemma find_edge:
  assumes "searchable g" "r < 64"
  shows "find_connecting_edge m (relation_bit r) g = Some e \<Longrightarrow> e \<in> set (edges g) \<and> links e (mask_set m) r"
    and "find_connecting_edge m (relation_bit r) g = None \<Longrightarrow> e \<in> set (edges g) \<Longrightarrow> \<not> links e (mask_set m) r"
  using connects_links [OF assms(1) _ assms(2), of _ m]
  by (auto simp: find_connecting_edge_def find_Some_iff find_None_iff)

lemma solve_step_ok:
  assumes "searchable g" "memo_ok g memo" "r < length (relations g)"
    and "solve_step ctx g memo sub best r = Inr best'" "pred_option (left_deep g (mask_set sub)) best"
  shows "pred_option (left_deep g (mask_set sub)) best'"
proof -
  let ?lm = "sub AND NOT (relation_bit r)"
  have r: "r < 64" using assms(1,3) by (simp add: searchable_def)
  consider "best' = best" | l q edge cand where "r \<in> mask_set sub" "memo ?lm = Some l" "memo (relation_bit r) = Some q"
    "find_connecting_edge ?lm (relation_bit r) g = Some edge"
    "generate_best_candidate ctx g ?lm (relation_bit r) l q edge = Inr cand" "best' = Some cand"
    using assms(4) r by (auto simp: solve_step_def Let_def and_relation_bit split: if_splits option.splits)
  then show ?thesis
  proof cases
    case 2
    have A: "mask_set ?lm = mask_set sub - {r}" by (rule mask_set_remove [OF r])
    have "left_deep g (mask_set sub - {r}) l" "left_deep g {r} q"
      using assms(2) 2(2,3) A mask_set_relation_bit [OF r] unfolding memo_ok_def by metis+
    from candidate_left_deep [OF 2(5) this] find_edge(1) [OF assms(1) r 2(4)] A 2(1,6) show ?thesis
      by (simp add: insert_absorb)
  qed (use assms(5) in simp)
qed

lemma solve_subset_ok:
  assumes "searchable g" "memo_ok g memo" "solve_subset ctx g memo sub = Inr memo'"
  shows "memo_ok g memo'"
proof -
  obtain best where fold: "rfold (solve_step ctx g memo sub) None [0 ..< length (relations g)] = Inr best"
    and m: "memo' = (case best of Some p \<Rightarrow> memo(sub \<mapsto> p) | None \<Rightarrow> memo)"
    using assms(3) by (auto simp: solve_subset_def)
  have "pred_option (left_deep g (mask_set sub)) best"
    by (rule rfold_invariant [OF fold]) (auto intro: solve_step_ok [OF assms(1,2)])
  with assms(2) show ?thesis by (auto simp: m memo_ok_def split: option.splits)
qed

lemma base_step_ok:
  assumes "counts_ok (pc_stats ctx)" "memo_ok g memo" "i < length (relations g)" "base_step ctx g memo i = Inr memo'"
  shows "memo_ok g memo'"
proof -
  obtain p where p: "best_access_path ctx (relations g ! i) = Inr p" "memo' = memo(relation_bit i \<mapsto> p)" "i < 64"
    using assms(4) by (auto simp: base_step_def split: if_splits)
  have "left_deep g {i} p" using assms(3) best_access_path_ok [OF assms(1) p(1)] by (rule left_deep.base)
  then show ?thesis using assms(2) p by (simp add: memo_ok_def mask_set_relation_bit)
qed

lemma search_memo_ok:
  assumes "searchable g" "counts_ok (pc_stats ctx)" "search_memo ctx g = Inr memo"
  shows "memo_ok g memo"
proof -
  let ?n = "length (relations g)"
  obtain memo0 where base: "rfold (base_step ctx g) Map.empty [0 ..< ?n] = Inr memo0"
    and rest: "rfold (\<lambda>memo sz. rfold (solve_subset ctx g) memo (subsets_of_size ?n sz)) memo0 [2 ..< Suc ?n] = Inr memo"
    using assms(3) by (auto simp: search_memo_def Let_def)
  have "memo_ok g memo0"
    by (rule rfold_invariant [OF base]) (auto simp: memo_ok_def [of _ Map.empty] intro: base_step_ok [OF assms(2)])
  then show ?thesis
    by (rule rfold_invariant [OF rest]) (blast intro: rfold_invariant [where P = "memo_ok g"] solve_subset_ok [OF assms(1)])
qed

lemma search_fits: "search_memo ctx g = Inr memo \<Longrightarrow> length (relations g) \<le> 64"
proof -
  assume "search_memo ctx g = Inr memo"
  then obtain memo0 where base: "rfold (base_step ctx g) Map.empty [0 ..< length (relations g)] = Inr memo0"
    by (auto simp: search_memo_def Let_def)
  have "rfold (base_step ctx g) m xs = Inr m' \<Longrightarrow> \<forall>i \<in> set xs. i < 64" for m m' xs
    by (induction xs arbitrary: m) (auto simp: base_step_def split: if_splits)
  from this [OF base] show ?thesis by (cases "64 < length (relations g)") auto
qed

lemma find_best_plan_left_deep:
  assumes "graph_ok g" "counts_ok (pc_stats ctx)" "find_best_plan ctx g = Inr p"
  shows "left_deep g {..< length (relations g)} p"
proof -
  obtain memo where memo: "search_memo ctx g = Inr memo" "memo (full_mask (length (relations g))) = Some p"
    using assms(3) by (auto simp: find_best_plan_def Let_def split: if_splits option.splits)
  note fits = search_fits [OF memo(1)]
  then have "searchable g" using assms(1) by (simp add: searchable_def)
  from search_memo_ok [OF this assms(2) memo(1)] memo(2) mask_set_full [OF fits] show ?thesis
    by (metis memo_ok_def)
qed


section \<open>What a plan scans and applies\<close>

fun plan_scans :: "physical_plan \<Rightarrow> (string \<times> string option) list" where
  "plan_scans (SeqScan i t a cs) = [(t, a)]"
| "plan_scans (IndexScan i t a cs c v) = [(t, a)]"
| "plan_scans (PFilter i e p) = plan_scans p"
| "plan_scans (PJoin k i jt c l r) = plan_scans l @ plan_scans r"
| "plan_scans (HashAggregate i g as p) = plan_scans p"
| "plan_scans (PProject i es p) = plan_scans p"
| "plan_scans (PSort i ob p) = plan_scans p"
| "plan_scans (PLimit i n p) = plan_scans p"
| "plan_scans (ExternalRows i t cs n g as) = []"

fun plan_conditions :: "physical_plan \<Rightarrow> expression list" where
  "plan_conditions (PJoin k i jt c l r) = c # plan_conditions l @ plan_conditions r"
| "plan_conditions (PFilter i e p) = plan_conditions p"
| "plan_conditions (HashAggregate i g as p) = plan_conditions p"
| "plan_conditions (PProject i es p) = plan_conditions p"
| "plan_conditions (PSort i ob p) = plan_conditions p"
| "plan_conditions (PLimit i n p) = plan_conditions p"
| "plan_conditions p = []"

definition rel_key :: "relation \<Rightarrow> string \<times> string option" where
  "rel_key r = (rel_table r, rel_alias r)"

lemma unstack_scans: "plan_scans p = plan_scans (snd (unstack p)) \<and> plan_conditions p = plan_conditions (snd (unstack p))"
  by (induction p rule: unstack.induct) (auto simp: split_beta)

lemma access_path_scans: "access_path rel p \<Longrightarrow> plan_scans p = [rel_key rel] \<and> plan_conditions p = []"
  using unstack_scans [of p] by (cases "unstack p"; cases "snd (unstack p)") (auto simp: access_path_def rel_key_def)

lemma left_deep_scans:
  "left_deep g A p \<Longrightarrow> mset (plan_scans p) = image_mset (\<lambda>r. rel_key (relations g ! r)) (mset_set A) \<and>
     Suc (length (plan_conditions p)) = card A \<and> set (plan_conditions p) \<subseteq> edge_predicate ` set (edges g)"
proof (induction rule: left_deep.induct)
  case (join A l r q e k x y i)
  have "finite A" using left_deep_relations [OF join(1)] by simp
  with join access_path_scans [OF join(4)] show ?case by (auto simp: ac_simps)
qed (simp add: access_path_scans)

lemma all_relations: "image_mset (\<lambda>r. rel_key (relations g ! r)) (mset_set {..< length (relations g)}) =
    mset (map rel_key (relations g))"
proof -
  let ?h = "\<lambda>r. rel_key (relations g ! r)"
  have "map rel_key (relations g) = map ?h [0 ..< length (relations g)]" by (rule nth_equalityI) simp_all
  then have "mset (map rel_key (relations g)) = image_mset ?h (mset [0 ..< length (relations g)])" by (simp only: mset_map)
  then show ?thesis by (simp only: mset_upt lessThan_atLeast0)
qed

section \<open>The search finds a plan exactly for connected graphs\<close>

text \<open>Every nonempty proper set of relations has an edge to the others.\<close>

definition crosses :: "nat set \<Rightarrow> join_edge \<Rightarrow> bool" where
  "crosses A e \<longleftrightarrow> (edge_left e \<in> A) \<noteq> (edge_right e \<in> A)"

definition connected :: "join_graph \<Rightarrow> bool" where
  "connected g \<longleftrightarrow>
     (\<forall>A. A \<noteq> {} \<and> A \<subset> {..< length (relations g)} \<longrightarrow> (\<exists>e \<in> set (edges g). crosses A e))"

inductive solvable :: "join_graph \<Rightarrow> nat set \<Rightarrow> bool" for g where
  single: "r < length (relations g) \<Longrightarrow> solvable g {r}"
| extend: "solvable g A \<Longrightarrow> r < length (relations g) \<Longrightarrow> r \<notin> A \<Longrightarrow> e \<in> set (edges g) \<Longrightarrow> links e A r \<Longrightarrow>
    solvable g (insert r A)"

lemma left_deep_solvable: "left_deep g A p \<Longrightarrow> solvable g A"
  by (induction rule: left_deep.induct) (auto intro: solvable.intros)

lemma solvable_relations: "solvable g A \<Longrightarrow> A \<noteq> {} \<and> finite A \<and> A \<subseteq> {..< length (relations g)}"
  by (induction rule: solvable.induct) auto

lemma solvable_crossing:
  "solvable g B \<Longrightarrow> \<not> B \<subseteq> A \<Longrightarrow> B \<inter> A \<noteq> {} \<Longrightarrow> \<exists>e \<in> set (edges g). crosses A e"
proof (induction rule: solvable.induct)
  case (extend B r e)
  show ?case
  proof (cases "\<not> B \<subseteq> A \<and> B \<inter> A \<noteq> {}")
    case False
    then have "crosses A e" using extend.prems extend.hyps by (auto simp: crosses_def links_def)
    with extend.hyps(4) show ?thesis by blast
  qed (use extend.IH in blast)
qed auto

lemma solvable_connected:
  assumes "solvable g {..< length (relations g)}"
  shows "connected g"
  unfolding connected_def
proof (intro allI impI)
  fix A assume A: "A \<noteq> {} \<and> A \<subset> {..< length (relations g)}"
  show "\<exists>e \<in> set (edges g). crosses A e" by (rule solvable_crossing [OF assms]) (use A in auto)
qed

lemma connected_grows:
  assumes "connected g" "graph_ok g" "solvable g A" "A \<noteq> {..< length (relations g)}"
  shows "\<exists>r. r \<notin> A \<and> solvable g (insert r A)"
proof -
  have A: "A \<noteq> {}" "A \<subset> {..< length (relations g)}" using solvable_relations [OF assms(3)] assms(4) by auto
  then obtain e where e: "e \<in> set (edges g)" "crosses A e" using assms(1) unfolding connected_def by blast
  then obtain r where "r \<notin> A" "links e A r" "r < length (relations g)"
    using assms(2) by (auto simp: crosses_def links_def graph_ok_def)
  with e(1) assms(3) show ?thesis by (blast intro: solvable.extend)
qed

lemma connected_solvable:
  assumes "connected g" "graph_ok g" "0 < length (relations g)"
  shows "solvable g {..< length (relations g)}"
proof (rule ccontr)
  let ?N = "{..< length (relations g)}"
  assume not: "\<not> solvable g ?N"
  have "\<exists>A. solvable g A \<and> card A = Suc k" for k
  proof (induction k)
    case 0
    show ?case using solvable.single [OF assms(3)] by force
  next
    case (Suc k)
    then obtain A where A: "solvable g A" "card A = Suc k" by blast
    then obtain r where "r \<notin> A" "solvable g (insert r A)"
      using connected_grows [OF assms(1,2)] not by metis
    with A solvable_relations [OF A(1)] show ?case by force
  qed
  then obtain A where "solvable g A" "card A = Suc (card ?N)" by blast
  with solvable_relations [of g A] card_mono [of ?N A] show False by simp
qed


definition complete :: "join_graph \<Rightarrow> nat \<Rightarrow> memo \<Rightarrow> bool" where
  "complete g k memo \<longleftrightarrow> (\<forall>m. solvable g (mask_set m) \<and> card (mask_set m) \<le> k \<longrightarrow> memo m \<noteq> None)"

lemma solve_subset_keeps:
  "solve_subset ctx g memo sub = Inr memo' \<Longrightarrow> memo m \<noteq> None \<Longrightarrow> memo' m \<noteq> None"
  by (auto simp: solve_subset_def split: option.splits if_splits)

lemma solve_subset_finds:
  assumes "searchable g" "complete g k memo" "card (mask_set sub) = Suc k" "solvable g (mask_set sub)" "1 \<le> k"
    and "solve_subset ctx g memo sub = Inr memo'"
  shows "memo' sub \<noteq> None"
proof -
  obtain best where fold: "rfold (solve_step ctx g memo sub) None [0 ..< length (relations g)] = Inr best"
    and m: "memo' = (case best of Some p \<Rightarrow> memo(sub \<mapsto> p) | None \<Rightarrow> memo)"
    using assms(6) by (auto simp: solve_subset_def)
  from assms(4) obtain A r e where A: "mask_set sub = insert r A" "solvable g A" "r < length (relations g)" "r \<notin> A"
    "e \<in> set (edges g)" "links e A r"
    by (cases rule: solvable.cases) (use assms(3,5) in auto)
  have r: "r < 64" using A(3) assms(1) by (simp add: searchable_def)
  let ?lm = "sub AND NOT (relation_bit r)"
  have lm: "mask_set ?lm = A" using A(1,4) by (simp add: mask_set_remove [OF r])
  have fin: "finite A" "A \<noteq> {}" using solvable_relations [OF A(2)] by auto
  have "card A = k" using assms(3) A(1,4) fin by simp
  then have "memo ?lm \<noteq> None" using assms(2) A(2) lm by (simp add: complete_def)
  moreover have "memo (relation_bit r) \<noteq> None"
    using assms(2,5) solvable.single [OF A(3)] by (simp add: complete_def mask_set_relation_bit [OF r])
  moreover have "find_connecting_edge ?lm (relation_bit r) g \<noteq> None"
    using find_edge(2) [OF assms(1) r, of ?lm e] A(5,6) lm by auto
  moreover have "sub AND relation_bit r \<noteq> 0" "?lm \<noteq> 0"
    using A(1) fin lm mask_set_zero [of ?lm] by (simp_all add: and_relation_bit [OF r])
  ultimately have "best \<noteq> None"
    by (intro rfold_reaches [OF fold, of r "\<lambda>_. True" "\<lambda>b. b \<noteq> None"])
      (use A(3) in \<open>auto simp: solve_step_def Let_def split: option.splits if_splits\<close>)
  then show ?thesis by (auto simp: m)
qed

lemma subset_enumerated:
  assumes "mask_set m \<subseteq> {..< n}" "n < 64" "m \<noteq> 0"
  shows "m \<in> set (subsets_of_size n (popcount m))"
proof -
  have "take_bit n m = m"
    by (rule bit_eqI) (use assms(1) in \<open>auto simp: bit_take_bit_iff mask_set_def\<close>)
  then have "unat m = take_bit n (unat m)" by (metis unsigned_take_bit_eq)
  then have "unat m < 2 ^ n" using take_bit_nat_less_exp [of n "unat m"] by simp
  moreover have "unat (push_bit n (1 :: relation_mask)) = 2 ^ n"
  proof -
    have "(2 :: nat) ^ n < 2 ^ 64" using assms(2) by (intro power_strict_increasing) auto
    then have "unat (word_of_nat (2 ^ n) :: relation_mask) = 2 ^ n" by (subst unat_of_nat) simp
    then show ?thesis by (simp add: push_bit_of_1)
  qed
  moreover have "1 \<le> unat m" using assms(3) by (simp add: Suc_le_eq unat_gt_0)
  ultimately have "unat m \<in> set [1 ..< unat (mask_limit n)]" using assms(2) by (simp add: mask_limit_def)
  then have "word_of_nat (unat m) \<in> set (map word_of_nat [1 ..< unat (mask_limit n)] :: relation_mask list)"
    by (simp only: set_map image_eqI)
  then show ?thesis by (simp add: subsets_of_size_def)
qed

lemma complete_size:
  assumes "searchable g" "length (relations g) < 64" "complete g k memo" "1 \<le> k"
    and "rfold (solve_subset ctx g) memo (subsets_of_size (length (relations g)) (Suc k)) = Inr memo'"
  shows "complete g (Suc k) memo'"
  unfolding complete_def
proof (intro allI impI)
  fix m assume m: "solvable g (mask_set m) \<and> card (mask_set m) \<le> Suc k"
  show "memo' m \<noteq> None"
  proof (cases "card (mask_set m) \<le> k")
    case True
    then have "memo m \<noteq> None" using assms(3) m by (simp add: complete_def)
    then show ?thesis by (rule rfold_invariant [OF assms(5)]) (rule solve_subset_keeps)
  next
    case False
    then have card: "card (mask_set m) = Suc k" using m by simp
    then have "m \<noteq> 0" by (auto simp flip: mask_set_zero)
    from subset_enumerated [OF _ assms(2) this] solvable_relations [of g "mask_set m"] m card
    have mem: "m \<in> set (subsets_of_size (length (relations g)) (Suc k))" by (simp add: popcount_card)
    show ?thesis
    proof (rule rfold_reaches [where I = "complete g k" and P = "\<lambda>memo. memo m \<noteq> None", OF assms(5) mem assms(3)])
      fix a b y assume "solve_subset ctx g a y = Inr b" "complete g k a"
      then show "complete g k b \<and> (a m \<noteq> None \<longrightarrow> b m \<noteq> None)"
        using solve_subset_keeps [of ctx g a y b] unfolding complete_def by blast
    next
      fix a b assume "solve_subset ctx g a m = Inr b" "complete g k a"
      then show "b m \<noteq> None" using solve_subset_finds [OF assms(1) _ card _ assms(4)] m by blast
    qed
  qed
qed

lemma complete_base:
  assumes "searchable g" "rfold (base_step ctx g) Map.empty [0 ..< length (relations g)] = Inr memo"
  shows "complete g 1 memo"
  unfolding complete_def
proof (intro allI impI)
  fix m assume m: "solvable g (mask_set m) \<and> card (mask_set m) \<le> 1"
  with solvable_relations [of g "mask_set m"] have "card (mask_set m) = 1"
    by (metis card_0_eq le_antisym less_one linorder_not_le)
  then obtain r where r: "mask_set m = {r}" by (rule card_1_singletonE)
  then have n: "r < length (relations g)" using solvable_relations [of g "mask_set m"] m by simp
  then have "r < 64" using assms(1) by (simp add: searchable_def)
  then have "m = relation_bit r" using r by (simp add: mask_set_relation_bit flip: mask_set_inject)
  then show "memo m \<noteq> None"
    by (intro rfold_reaches [OF assms(2), of r "\<lambda>_. True" "\<lambda>memo. memo m \<noteq> None"])
      (use n in \<open>auto simp: base_step_def split: if_splits\<close>)
qed

text \<open>A property of the memo after each round of the outer loop.\<close>

lemma search_rounds:
  assumes "search_memo ctx g = Inr memo" "1 \<le> length (relations g)"
    and base: "\<And>a. rfold (base_step ctx g) Map.empty [0 ..< length (relations g)] = Inr a \<Longrightarrow> P 1 a"
    and step: "\<And>k a b. 1 \<le> k \<Longrightarrow> P k a \<Longrightarrow>
      rfold (solve_subset ctx g) a (subsets_of_size (length (relations g)) (Suc k)) = Inr b \<Longrightarrow> P (Suc k) b"
  shows "P (length (relations g)) memo"
proof -
  let ?n = "length (relations g)"
  let ?f = "\<lambda>memo sz. rfold (solve_subset ctx g) memo (subsets_of_size ?n sz)"
  obtain memo0 where memo0: "rfold (base_step ctx g) Map.empty [0 ..< ?n] = Inr memo0"
    and rest: "rfold ?f memo0 [2 ..< Suc ?n] = Inr memo"
    using assms(1) by (auto simp: search_memo_def Let_def)
  have "P (Suc k) memo'" if "rfold ?f memo0 [2 ..< Suc (Suc k)] = Inr memo'" for k memo'
    using that
  proof (induction k arbitrary: memo')
    case 0
    then show ?case using base [OF memo0] by simp
  next
    case (Suc k)
    then obtain memo1 where "rfold ?f memo0 [2 ..< Suc (Suc k)] = Inr memo1" "?f memo1 (Suc (Suc k)) = Inr memo'"
      by (auto simp: rfold_snoc)
    with Suc.IH step show ?case by simp
  qed
  moreover obtain k where k: "?n = Suc k" using assms(2) by (cases ?n) auto
  ultimately show ?thesis using rest by (simp only: k)
qed

lemma search_memo_complete:
  assumes "searchable g" "length (relations g) < 64" "search_memo ctx g = Inr memo" "1 \<le> length (relations g)"
  shows "complete g (length (relations g)) memo"
  by (rule search_rounds [OF assms(3,4), where P = "complete g"])
    (blast intro: complete_base [OF assms(1)] complete_size [OF assms(1,2)])+

section \<open>The memo holds the cheapest plans\<close>

lemma dlt_trans_nonneg: "dnonneg a \<Longrightarrow> dnonneg b \<Longrightarrow> dnonneg c \<Longrightarrow> \<not> dlt a b \<Longrightarrow> \<not> dlt b c \<Longrightarrow> \<not> dlt a c"
  by (cases a; cases b; cases c) (auto simp: Doubles.signed_def)

lemma dlt_asym_nonneg: "dnonneg a \<Longrightarrow> dnonneg b \<Longrightarrow> dlt a b \<Longrightarrow> \<not> dlt b a"
  by (cases a; cases b) (auto simp: Doubles.signed_def)

lemma cheaper_trans:
  assumes "estimates_ok p" "estimates_ok b" "estimates_ok c" "\<not> cheaper p b" "cheaper c b"
  shows "\<not> cheaper p c"
proof -
  have "dnonneg (cost_total (cost_of p))" "dnonneg (cost_total (cost_of b))" "dnonneg (cost_total (cost_of c))"
    using assms(1-3) by (auto simp: estimates_ok_def intro: cost_ok_total)
  then show ?thesis using dlt_trans_nonneg dlt_asym_nonneg assms(4,5) unfolding cheaper_def by blast
qed

lemma not_cheaper_refl: "estimates_ok p \<Longrightarrow> \<not> cheaper p p"
  using dlt_asym_nonneg cost_ok_total unfolding cheaper_def estimates_ok_def by blast

lemma cheapest_least:
  assumes "\<And>p. p \<in> set ps \<Longrightarrow> estimates_ok p" "p \<in> set ps"
  shows "\<not> cheaper p (cheapest ps)"
proof -
  have "\<not> cheaper p (foldl (\<lambda>best p. if cheaper p best then p else best) b qs)"
    if "estimates_ok b" "estimates_ok p" "\<forall>q \<in> set qs. estimates_ok q" "\<not> cheaper p b \<or> p \<in> set qs" for b qs
    using that
  proof (induction qs arbitrary: b)
    case (Cons q qs)
    let ?b = "if cheaper q b then q else b"
    have "\<not> cheaper p ?b \<or> p \<in> set qs"
      using Cons.prems cheaper_trans [of p b q] not_cheaper_refl [of p] by auto
    with Cons.IH [of ?b] Cons.prems(1-3) show ?case by simp
  qed simp
  then show ?thesis using assms not_cheaper_refl unfolding cheapest_def by (cases ps) auto
qed

text \<open>A memo entry is at most as expensive as every way to join its last relation onto the rest.\<close>

definition optimal_at :: "planner_context \<Rightarrow> join_graph \<Rightarrow> memo \<Rightarrow> relation_mask \<Rightarrow> bool" where
  "optimal_at ctx g memo m \<longleftrightarrow>
     (\<forall>r l q e. r \<in> mask_set m \<and> memo (m AND NOT (relation_bit r)) = Some l \<and> memo (relation_bit r) = Some q \<and>
        find_connecting_edge (m AND NOT (relation_bit r)) (relation_bit r) g = Some e \<longrightarrow>
        (\<exists>c p. generate_best_candidate ctx g (m AND NOT (relation_bit r)) (relation_bit r) l q e = Inr c \<and>
           memo m = Some p \<and> \<not> cheaper c p))"

lemma mask_removal:
  assumes "r \<in> mask_set m" "2 \<le> card (mask_set m)"
  shows "card (mask_set (m AND NOT (relation_bit r))) = card (mask_set m) - 1" "m AND NOT (relation_bit r) \<noteq> 0"
    "m AND NOT (relation_bit r) \<noteq> m" "relation_bit r \<noteq> m"
proof -
  have r: "r < 64" using assms(1) by (rule mask_set_lt)
  show card: "card (mask_set (m AND NOT (relation_bit r))) = card (mask_set m) - 1"
    unfolding mask_set_remove [OF r] using assms(1) by (rule card_Diff_singleton)
  show "m AND NOT (relation_bit r) \<noteq> 0" using card assms(2) by (auto simp flip: mask_set_zero)
  show "m AND NOT (relation_bit r) \<noteq> m" "relation_bit r \<noteq> m"
    using card assms(2) mask_set_relation_bit [OF r] by auto
qed

text \<open>One round of the loop, for a relation that can be joined last.\<close>

lemma solve_step_at:
  assumes "r \<in> mask_set sub" "2 \<le> card (mask_set sub)" "memo (sub AND NOT (relation_bit r)) = Some l"
    "memo (relation_bit r) = Some q" "find_connecting_edge (sub AND NOT (relation_bit r)) (relation_bit r) g = Some e"
  shows "solve_step ctx g memo sub best r =
      rbind (generate_best_candidate ctx g (sub AND NOT (relation_bit r)) (relation_bit r) l q e) (\<lambda>c.
        Inr (case best of None \<Rightarrow> Some c | Some b \<Rightarrow> if cheaper c b then Some c else best))"
  using assms mask_removal(2) [OF assms(1,2)]
  by (simp add: solve_step_def Let_def and_relation_bit [OF mask_set_lt [OF assms(1)]])

text \<open>Any other round keeps the best plan or replaces it by a cheaper one.\<close>

lemma solve_step_cheaper:
  "solve_step ctx g memo sub (Some b) r = Inr best \<Longrightarrow> \<exists>b'. best = Some b' \<and> (b' = b \<or> cheaper b' b)"
  by (auto simp: solve_step_def Let_def split: if_splits option.splits)

lemma solve_loop_least:
  assumes "searchable g" "memo_ok g memo"
    and "rfold (solve_step ctx g memo sub) None [0 ..< length (relations g)] = Inr best"
    and "r \<in> mask_set sub" "2 \<le> card (mask_set sub)" "memo (sub AND NOT (relation_bit r)) = Some l"
    "memo (relation_bit r) = Some q" "find_connecting_edge (sub AND NOT (relation_bit r)) (relation_bit r) g = Some e"
  shows "\<exists>c p. generate_best_candidate ctx g (sub AND NOT (relation_bit r)) (relation_bit r) l q e = Inr c \<and>
    best = Some p \<and> \<not> cheaper c p"
proof -
  let ?ok = "left_deep g (mask_set sub)"
  let ?P = "\<lambda>best. \<exists>c p. generate_best_candidate ctx g (sub AND NOT (relation_bit r)) (relation_bit r) l q e = Inr c \<and>
    ?ok c \<and> best = Some p \<and> \<not> cheaper c p"
  note step = solve_step_at [where memo = memo and g = g, OF assms(4-8)]
  have "left_deep g {r} q"
    using assms(2,7) mask_set_relation_bit [OF mask_set_lt [OF assms(4)]] unfolding memo_ok_def by metis
  then have r: "r \<in> set [0 ..< length (relations g)]" using left_deep_relations by fastforce
  have "?P best"
  proof (rule rfold_reaches [where I = "pred_option ?ok" and P = ?P, OF assms(3) r])
    show "pred_option ?ok None" by simp
  next
    fix a b y assume y: "y \<in> set [0 ..< length (relations g)]" "solve_step ctx g memo sub a y = Inr b" "pred_option ?ok a"
    then have b: "pred_option ?ok b" using solve_step_ok [OF assms(1,2)] by simp
    have "?P b" if P: "?P a"
    proof -
      obtain c p where c: "generate_best_candidate ctx g (sub AND NOT (relation_bit r)) (relation_bit r) l q e = Inr c"
        "?ok c" "a = Some p" "\<not> cheaper c p" using P by blast
      then obtain p' where "b = Some p'" "p' = p \<or> cheaper p' p" using solve_step_cheaper y(2) by blast
      with c b y(3) show ?thesis using cheaper_trans [of c p p'] left_deep_estimates by fastforce
    qed
    with b show "pred_option ?ok b \<and> (?P a \<longrightarrow> ?P b)" by blast
  next
    fix a b assume ab: "solve_step ctx g memo sub a r = Inr b" "pred_option ?ok a"
    then obtain c where c: "generate_best_candidate ctx g (sub AND NOT (relation_bit r)) (relation_bit r) l q e = Inr c"
      by (auto simp: step)
    have "solve_step ctx g memo sub None r = Inr (Some c)" by (simp add: step c)
    from solve_step_ok [OF assms(1,2) _ this] r have ok: "?ok c" by simp
    have "b = Some c \<or> (\<exists>p. b = Some p \<and> \<not> cheaper c p)"
      using ab(1) by (auto simp: step c split: option.splits if_splits)
    with c ok not_cheaper_refl [OF left_deep_estimates [OF ok]] show "?P b" by blast
  qed
  then show ?thesis by blast
qed

lemma solve_subset_optimal:
  assumes "searchable g" "memo_ok g memo" "solve_subset ctx g memo sub = Inr memo'" "2 \<le> card (mask_set sub)"
  shows "optimal_at ctx g memo' sub"
  unfolding optimal_at_def
proof (intro allI impI, elim conjE)
  fix r l q e
  let ?lm = "sub AND NOT (relation_bit r)"
  assume r: "r \<in> mask_set sub" and l: "memo' ?lm = Some l" and q: "memo' (relation_bit r) = Some q"
    and e: "find_connecting_edge ?lm (relation_bit r) g = Some e"
  obtain best where fold: "rfold (solve_step ctx g memo sub) None [0 ..< length (relations g)] = Inr best"
    and m: "memo' = (case best of Some p \<Rightarrow> memo(sub \<mapsto> p) | None \<Rightarrow> memo)"
    using assms(3) by (auto simp: solve_subset_def)
  have "memo ?lm = Some l" "memo (relation_bit r) = Some q"
    using l q mask_removal(3,4) [OF r assms(4)] by (auto simp: m split: option.splits)
  from solve_loop_least [OF assms(1,2) fold r assms(4) this e]
  show "\<exists>c p. generate_best_candidate ctx g ?lm (relation_bit r) l q e = Inr c \<and> memo' sub = Some p \<and> \<not> cheaper c p"
    by (auto simp: m)
qed

text \<open>Solving a mask leaves the entries of every smaller mask and of its peers alone.\<close>

lemma optimal_at_kept:
  assumes "solve_subset ctx g memo sub = Inr memo'" "optimal_at ctx g memo m" "m \<noteq> sub"
    and "2 \<le> card (mask_set m)" "card (mask_set m) \<le> card (mask_set sub)"
  shows "optimal_at ctx g memo' m"
proof -
  have other: "memo' k = memo k" if "k \<noteq> sub" for k
    using assms(1) that by (auto simp: solve_subset_def split: option.splits)
  have "m AND NOT (relation_bit r) \<noteq> sub" "relation_bit r \<noteq> sub" if r: "r \<in> mask_set m" for r
  proof -
    have "card (mask_set (m AND NOT (relation_bit r))) < card (mask_set sub)"
      using mask_removal(1) [OF r assms(4)] assms(4,5) by linarith
    moreover have "card (mask_set (relation_bit r)) < card (mask_set sub)"
      using mask_set_relation_bit [OF mask_set_lt [OF r]] assms(4,5) by simp
    ultimately show "m AND NOT (relation_bit r) \<noteq> sub" "relation_bit r \<noteq> sub" by auto
  qed
  with other assms(2,3) show ?thesis unfolding optimal_at_def by metis
qed

definition optimal_upto :: "planner_context \<Rightarrow> join_graph \<Rightarrow> nat \<Rightarrow> memo \<Rightarrow> bool" where
  "optimal_upto ctx g k memo \<longleftrightarrow>
     (\<forall>m. mask_set m \<subseteq> {..< length (relations g)} \<and> 2 \<le> card (mask_set m) \<and> card (mask_set m) \<le> k \<longrightarrow>
        optimal_at ctx g memo m)"

lemma optimal_size:
  assumes "searchable g" "length (relations g) < 64" "memo_ok g memo" "optimal_upto ctx g k memo" "1 \<le> k"
    and "rfold (solve_subset ctx g) memo (subsets_of_size (length (relations g)) (Suc k)) = Inr memo'"
  shows "optimal_upto ctx g (Suc k) memo'"
  unfolding optimal_upto_def
proof (intro allI impI)
  let ?xs = "subsets_of_size (length (relations g)) (Suc k)"
  fix m assume m: "mask_set m \<subseteq> {..< length (relations g)} \<and> 2 \<le> card (mask_set m) \<and> card (mask_set m) \<le> Suc k"
  have size: "card (mask_set y) = Suc k" if "y \<in> set ?xs" for y
    using that by (simp add: subsets_of_size_def popcount_card)
  have keep: "memo_ok g b \<and> (optimal_at ctx g a m \<longrightarrow> optimal_at ctx g b m)"
    if "y \<in> set ?xs" "solve_subset ctx g a y = Inr b" "memo_ok g a" for a b y
    using solve_subset_ok [OF assms(1) that(3,2)] solve_subset_optimal [OF assms(1) that(3,2)]
      optimal_at_kept [OF that(2)] size [OF that(1)] m assms(5) by (cases "m = y") auto
  show "optimal_at ctx g memo' m"
  proof (cases "card (mask_set m) \<le> k")
    case True
    then have "optimal_at ctx g memo m" using assms(4) m by (simp add: optimal_upto_def)
    with assms(3) have "memo_ok g memo' \<and> optimal_at ctx g memo' m"
      by (intro rfold_invariant [OF assms(6), of "\<lambda>a. memo_ok g a \<and> optimal_at ctx g a m"]) (use keep in auto)
    then show ?thesis ..
  next
    case False
    then have card: "card (mask_set m) = Suc k" using m by simp
    then have "m \<noteq> 0" by (auto simp flip: mask_set_zero)
    from subset_enumerated [OF _ assms(2) this] m card have mem: "m \<in> set ?xs" by (simp add: popcount_card)
    show ?thesis
    proof (rule rfold_reaches [where I = "memo_ok g" and P = "\<lambda>a. optimal_at ctx g a m", OF assms(6) mem assms(3)])
      fix a b assume "solve_subset ctx g a m = Inr b" "memo_ok g a"
      then show "optimal_at ctx g b m" using solve_subset_optimal [OF assms(1)] m by blast
    qed (rule keep)
  qed
qed


lemma base_memo_ok:
  "counts_ok (pc_stats ctx) \<Longrightarrow> rfold (base_step ctx g) Map.empty [0 ..< length (relations g)] = Inr memo \<Longrightarrow> memo_ok g memo"
  by (rule rfold_invariant [where P = "memo_ok g"]) (auto simp: memo_ok_def [of _ Map.empty] intro: base_step_ok)

lemma search_memo_optimal:
  assumes "searchable g" "length (relations g) < 64" "counts_ok (pc_stats ctx)" "search_memo ctx g = Inr memo"
    "1 \<le> length (relations g)"
  shows "optimal_upto ctx g (length (relations g)) memo"
proof -
  have "memo_ok g memo \<and> optimal_upto ctx g (length (relations g)) memo"
  proof (rule search_rounds [OF assms(4,5), where P = "\<lambda>k a. memo_ok g a \<and> optimal_upto ctx g k a"])
    fix k a b assume "1 \<le> k" "memo_ok g a \<and> optimal_upto ctx g k a"
      "rfold (solve_subset ctx g) a (subsets_of_size (length (relations g)) (Suc k)) = Inr b"
    then show "memo_ok g b \<and> optimal_upto ctx g (Suc k) b"
      using optimal_size [OF assms(1,2)] solve_subset_ok [OF assms(1)] rfold_invariant [where P = "memo_ok g"] by blast
  qed (use base_memo_ok [OF assms(3)] in \<open>auto simp: optimal_upto_def\<close>)
  then show ?thesis ..
qed

section \<open>Errors\<close>

definition undefined_only :: "'a result \<Rightarrow> bool" where
  "undefined_only r \<longleftrightarrow> (\<forall>e. r = Inl e \<longrightarrow> (\<exists>m. e = UndefinedBehaviour m))"

lemma undefined_only_bind: "undefined_only r \<Longrightarrow> (\<And>x. r = Inr x \<Longrightarrow> undefined_only (f x)) \<Longrightarrow> undefined_only (rbind r f)"
  by (cases r) (auto simp: undefined_only_def)

lemma undefined_only_Inr [simp]: "undefined_only (Inr x)"
  by (simp add: undefined_only_def)

lemma undefined_only_fold: "(\<And>a x. undefined_only (f a x)) \<Longrightarrow> undefined_only (rfold f acc xs)"
  by (induction xs arbitrary: acc) (auto simp: undefined_only_def)

lemma undefined_only_rows: "undefined_only (rows_to_size d)"
  unfolding rows_to_size_def by (cases "dmax one_double (dround d)") (auto simp: undefined_only_def)

lemmas undefined_only_rules = undefined_only_rows undefined_only_bind undefined_only_fold

lemma undefined_only_access_path: "undefined_only (best_access_path ctx rel)"
proof -
  have stack: "undefined_only (stack_filter cat scope st e)" for cat scope st e
    unfolding stack_filter_def Let_def split_beta by (intro undefined_only_rules undefined_only_Inr)
  have "undefined_only (seq_path ctx rel)" "undefined_only (index_path ctx rel i)" for i
    unfolding seq_path_def index_path_def Let_def split_beta
    by (intro undefined_only_rules undefined_only_Inr stack)+
  then show ?thesis
    by (auto simp: best_access_path_def undefined_only_def split: option.splits)
qed

lemma undefined_only_search: "undefined_only (search_memo ctx g)"
proof -
  have base: "undefined_only (base_step ctx g memo i)" for memo i
    using undefined_only_access_path
    by (auto simp: base_step_def undefined_only_def)
  have "undefined_only (solve_step ctx g memo sub best r)" for memo sub best r
    using undefined_only_rows
    by (auto simp: solve_step_def generate_best_candidate_def Let_def undefined_only_def split: option.splits)
  then have "undefined_only (solve_subset ctx g memo sub)" for memo sub
    unfolding solve_subset_def by (intro undefined_only_rules undefined_only_Inr)
  then show ?thesis
    unfolding search_memo_def Let_def by (intro undefined_only_rules base)
qed

lemma search_outcome:
  assumes "graph_ok g" "counts_ok (pc_stats ctx)" "0 < length (relations g)" "length (relations g) < 64"
  shows "case find_best_plan ctx g of
      Inr p \<Rightarrow> connected g
    | Inl e \<Rightarrow> e = not_connected \<and> \<not> connected g \<or> (\<exists>m. e = UndefinedBehaviour m)"
proof -
  have ok: "searchable g" using assms(1,4) by (simp add: searchable_def)
  have "\<not> connected g" if "search_memo ctx g = Inr memo" "memo (full_mask (length (relations g))) = None" for memo
  proof
    assume "connected g"
    then have "solvable g {..< length (relations g)}" using connected_solvable assms(1,3) by blast
    then have "solvable g (mask_set (full_mask (length (relations g))))"
      "card (mask_set (full_mask (length (relations g)))) \<le> length (relations g)"
      using assms(4) by (simp_all add: mask_set_full)
    moreover have "complete g (length (relations g)) memo"
      using search_memo_complete [OF ok assms(4) that(1)] assms(3) by simp
    ultimately show False using that(2) unfolding complete_def by blast
  qed
  moreover have "connected g" if "find_best_plan ctx g = Inr p" for p
    using find_best_plan_left_deep [OF assms(1,2) that] left_deep_solvable solvable_connected by blast
  ultimately show ?thesis
    using undefined_only_search [of ctx g] assms(3)
    by (auto simp: find_best_plan_def undefined_only_def Let_def split: sum.splits option.splits)
qed

section \<open>A search that cannot fail\<close>

text \<open>When every table has one row and no relation has a filter, every estimate is one row.\<close>

lemma rfold_total:
  assumes "I acc" "\<And>a x. x \<in> set xs \<Longrightarrow> I a \<Longrightarrow> \<exists>b. f a x = Inr b \<and> I b"
  shows "\<exists>out. rfold f acc xs = Inr out \<and> I out"
  using assms
proof (induction xs arbitrary: acc)
  case (Cons x xs)
  obtain b where "f acc x = Inr b" "I b" using Cons.prems by fastforce
  with Cons.IH [of b] Cons.prems(2) show ?case by simp
qed simp

definition one_row :: "planner_context \<Rightarrow> relation \<Rightarrow> bool" where
  "one_row ctx rel \<longleftrightarrow> local_filters rel = [] \<and>
     stats_get (pc_stats ctx) (rel_table rel) = Some \<lparr>stats_row_count = one_double, stats_page_count = one_double, stats_columns = []\<rparr>"

lemma rows_to_size_one: "rows_to_size one_double = Inr 1"
proof -
  have "\<lfloor>3 / 2 :: rat\<rfloor> = 1" by (simp add: floor_eq_iff)
  then show ?thesis by (simp add: rows_to_size_def dmax_def Doubles.signed_def)
qed

lemma one_row_access_path:
  assumes "one_row ctx rel"
  shows "\<exists>p. best_access_path ctx rel = Inr p \<and> rows_of p = 1"
proof -
  have "find_indexed_equality rel schema = None" for schema using assms by (simp add: find_indexed_equality_def one_row_def)
  then show ?thesis
    using assms rows_to_size_one
    by (auto simp: best_access_path_def seq_path_def one_row_def estimate_scan_def Let_def make_estimate_def split: option.split)
qed

lemma tenth_of_one: "tenth_of (dmul one_double one_double) = one_double"
proof -
  have "dmul one_double one_double = one_double" using double_of_int_exact [of 1] by (simp add: double_of_int_def double_of_rat_def)
  moreover have "\<not> dlt one_double (ddiv one_double (Fin False 10))"
  proof -
    have le: "round_mag (1 / 10) \<le> 1" using round_mag_mono [of "1 / 10" 1] round_mag_int(1) [of 1] by simp
    then have "\<not> too_big (round_mag (1 / 10))" using not_too_big_power [of _ 0] by simp
    with le show ?thesis by (simp add: round_double_def Let_def Doubles.signed_def)
  qed
  ultimately show ?thesis by (simp add: tenth_of_def dmax_def)
qed


lemma double_of_one: "double_of_nat 1 = one_double"
  using double_of_int_exact [of 1] by (simp add: double_of_int_def double_of_nat_def)

text \<open>Row counts of one and no column statistics: a join is estimated at one row.\<close>

definition one_row_stats :: "statistics \<Rightarrow> bool" where
  "one_row_stats cat \<longleftrightarrow> (\<forall>(t, s) \<in> set cat. s = \<lparr>stats_row_count = one_double, stats_page_count = one_double, stats_columns = []\<rparr>)"

lemma one_row_ndv: "one_row_stats cat \<Longrightarrow> column_ndv cat t c = None"
  by (cases "map_of cat t")
    (auto simp: column_ndv_def stats_get_def one_row_stats_def stats_column_def dest!: map_of_SomeD)

lemma one_row_join: "one_row_stats cat \<Longrightarrow>
    e_rows (estimate_join cat (double_of_nat 1) (double_of_nat 1) e ls rs) = one_double"
  unfolding double_of_one estimate_join_def
  by (auto simp: one_row_ndv join_fallback_def tenth_of_one simp del: dmul.simps split: option.split)

lemma cheapest_rows: "\<forall>p \<in> set ps. rows_of p = n \<Longrightarrow> ps \<noteq> [] \<Longrightarrow> rows_of (cheapest ps) = n"
  using cheapest_member by blast

lemma one_row_candidate:
  assumes "one_row_stats (pc_stats ctx)" "rows_of l = 1" "rows_of q = 1"
  shows "\<exists>p. generate_best_candidate ctx g lm rm l q edge = Inr p \<and> rows_of p = 1"
proof -
  have "rows_of (cheapest (join_candidates ctx g lm rm l q e 1 est)) = 1" for e est
    by (rule cheapest_rows)
      (auto simp: join_candidates_def try_index_nested_loop_def make_join_def split: if_splits option.split_asm)
  then show ?thesis
    using one_row_join [OF assms(1)] rows_to_size_one assms(2,3) by (simp add: generate_best_candidate_def Let_def)
qed

definition one_row_memo :: "memo \<Rightarrow> bool" where
  "one_row_memo memo \<longleftrightarrow> (\<forall>m p. memo m = Some p \<longrightarrow> rows_of p = 1)"

lemma one_row_step:
  assumes "one_row_stats (pc_stats ctx)" "one_row_memo memo" "pred_option (\<lambda>p. rows_of p = 1) best"
  shows "\<exists>b. solve_step ctx g memo sub best r = Inr b \<and> pred_option (\<lambda>p. rows_of p = 1) b"
proof (cases "\<exists>l q e. memo (sub AND NOT (relation_bit r)) = Some l \<and> memo (relation_bit r) = Some q \<and>
    find_connecting_edge (sub AND NOT (relation_bit r)) (relation_bit r) g = Some e")
  case True
  then obtain l q e where lqe: "memo (sub AND NOT (relation_bit r)) = Some l" "memo (relation_bit r) = Some q"
    "find_connecting_edge (sub AND NOT (relation_bit r)) (relation_bit r) g = Some e" by blast
  with assms(2) have "rows_of l = 1" "rows_of q = 1" by (auto simp: one_row_memo_def)
  from one_row_candidate [OF assms(1) this, of g "sub AND NOT (relation_bit r)" "relation_bit r" e]
  obtain c where "generate_best_candidate ctx g (sub AND NOT (relation_bit r)) (relation_bit r) l q e = Inr c"
    "rows_of c = 1" by blast
  with lqe assms(3) show ?thesis by (cases best) (simp_all add: solve_step_def Let_def)
next
  case False
  with assms(3) show ?thesis by (auto simp: solve_step_def Let_def split: option.split)
qed

lemma one_row_solve:
  assumes "one_row_stats (pc_stats ctx)" "one_row_memo memo"
  shows "\<exists>memo'. solve_subset ctx g memo sub = Inr memo' \<and> one_row_memo memo'"
proof -
  have "\<exists>best. rfold (solve_step ctx g memo sub) None [0 ..< length (relations g)] = Inr best \<and>
      pred_option (\<lambda>p. rows_of p = 1) best"
    by (rule rfold_total [where I = "pred_option (\<lambda>p. rows_of p = 1)"]) (simp, rule one_row_step [OF assms])
  then obtain best where "rfold (solve_step ctx g memo sub) None [0 ..< length (relations g)] = Inr best"
    "pred_option (\<lambda>p. rows_of p = 1) best" by blast
  with assms(2) show ?thesis by (cases best) (auto simp: solve_subset_def one_row_memo_def)
qed

lemma one_row_search:
  assumes "one_row_stats (pc_stats ctx)" "\<forall>rel \<in> set (relations g). one_row ctx rel" "length (relations g) \<le> 64"
  shows "\<exists>memo. search_memo ctx g = Inr memo"
proof -
  have "\<exists>b. base_step ctx g a i = Inr b \<and> one_row_memo b"
    if "i \<in> set [0 ..< length (relations g)]" "one_row_memo a" for a i
    using one_row_access_path [of ctx "relations g ! i"] assms(2,3) that
    by (auto simp: base_step_def one_row_memo_def)
  then have "\<exists>memo. rfold (base_step ctx g) Map.empty [0 ..< length (relations g)] = Inr memo \<and> one_row_memo memo"
    by (intro rfold_total [where I = one_row_memo]) (simp_all add: one_row_memo_def)
  then obtain memo where memo: "rfold (base_step ctx g) Map.empty [0 ..< length (relations g)] = Inr memo" "one_row_memo memo"
    by blast
  have "\<exists>out. rfold (solve_subset ctx g) a xs = Inr out \<and> one_row_memo out" if "one_row_memo a" for a xs
    by (rule rfold_total [where I = one_row_memo, OF that]) (rule one_row_solve [OF assms(1)])
  then have "\<exists>out. rfold (\<lambda>memo sz. rfold (solve_subset ctx g) memo (subsets_of_size (length (relations g)) sz)) memo
      [2 ..< Suc (length (relations g))] = Inr out \<and> one_row_memo out"
    by (intro rfold_total [where I = one_row_memo, OF memo(2)])
  with memo(1) show ?thesis by (auto simp: search_memo_def Let_def)
qed

section \<open>A cyclic example\<close>

definition sample_relation :: "nat \<Rightarrow> string \<Rightarrow> relation" where
  "sample_relation i t = \<lparr>rel_id = i, rel_table = t, rel_alias = None, local_filters = []\<rparr>"

definition sample_graph :: join_graph where
  "sample_graph =
     \<lparr>relations = [sample_relation 0 ''a'', sample_relation 1 ''b'', sample_relation 2 ''c''],
      edges =
        [\<lparr>edge_left = 2, edge_right = 1, edge_predicate = BinaryOp (col ''b'' ''x'') Eq (col ''c'' ''x'')\<rparr>,
         \<lparr>edge_left = 2, edge_right = 0, edge_predicate = BinaryOp (col ''a'' ''y'') Eq (col ''c'' ''y'')\<rparr>,
         \<lparr>edge_left = 1, edge_right = 0, edge_predicate = BinaryOp (col ''a'' ''x'') Eq (col ''b'' ''x'')\<rparr>]\<rparr>"

lemma sample_graph_built: "build_join_graph id triangle = Inr (sample_graph, [])"
  by code_simp

lemma sample_graph_ok: "graph_ok sample_graph" "length (relations sample_graph) = 3"
  by code_simp+

definition sample_context :: planner_context where
  "sample_context =
     \<lparr>pc_schemas = [],
      pc_stats = map (\<lambda>t. (t, \<lparr>stats_row_count = one_double, stats_page_count = one_double, stats_columns = []\<rparr>))
        [''a'', ''b'', ''c'']\<rparr>"

lemma sample_counts_ok: "counts_ok (pc_stats sample_context)"
  using round_mag_int [of 1] by (simp add: counts_ok_def sample_context_def)

lemma sample_connected: "connected sample_graph"
proof -
  note e = sample_graph_def
  have "solvable sample_graph {0}" by (rule solvable.single) (simp add: e)
  then have "solvable sample_graph (insert 1 {0})"
    by (rule solvable.extend [where e = "edges sample_graph ! 2"]) (simp_all add: e links_def)
  then have "solvable sample_graph (insert 2 (insert 1 {0}))"
    by (rule solvable.extend [where e = "edges sample_graph ! 0"]) (simp_all add: e links_def)
  moreover have "insert 2 (insert 1 {0}) = {..< length (relations sample_graph)}" by (auto simp: e)
  ultimately show ?thesis using solvable_connected [of sample_graph] by simp
qed

lemma sample_search: "\<exists>memo. search_memo sample_context sample_graph = Inr memo"
  by (rule one_row_search)
    (simp_all add: one_row_stats_def one_row_def sample_context_def sample_graph_def sample_relation_def stats_get_def)

lemma sample_plan: "\<exists>p. find_best_plan sample_context sample_graph = Inr p"
proof -
  obtain memo where "search_memo sample_context sample_graph = Inr memo" using sample_search by blast
  then have "find_best_plan sample_context sample_graph \<noteq> Inl (UndefinedBehaviour m)" for m
    by (simp add: find_best_plan_def Let_def not_connected_def split: option.split)
  then show ?thesis
    using search_outcome [OF sample_graph_ok(1) sample_counts_ok] sample_connected sample_graph_ok(2)
    by (auto split: sum.splits)
qed

section \<open>Properties\<close>

text \<open>
  C5.  A plan that the join search returns is left-deep: it reads every relation of the graph exactly once
  through an access path that applies all of its local filters, joins one relation at a time on the
  predicate of an edge that links it to the relations before, and uses the hash and index algorithms on
  equalities only.  Every row estimate in it is a 64-bit number of at least one, and no cost is negative or NaN.
\<close>

theorem search_plan_left_deep:
  assumes "graph_ok g" "counts_ok (pc_stats ctx)" "find_best_plan ctx g = Inr p"
  shows "left_deep g {..< length (relations g)} p \<and> estimates_ok p \<and>
    mset (plan_scans p) = mset (map rel_key (relations g))"
  using find_best_plan_left_deep [OF assms] left_deep_estimates left_deep_scans all_relations by metis

theorem search_plan_left_deep_witness:
  "\<exists>p. find_best_plan sample_context sample_graph = Inr p \<and>
     left_deep sample_graph {..< length (relations sample_graph)} p \<and> estimates_ok p \<and>
     mset (plan_scans p) = mset (map rel_key (relations sample_graph))"
  using sample_plan search_plan_left_deep [OF sample_graph_ok(1) sample_counts_ok] by blast

text \<open>
  C6.  For a graph of fewer than 64 relations the search returns a plan exactly when the join predicates
  connect all relations; the only other outcome besides the exception that says so is an estimate
  outside the range of \<^verbatim>\<open>size_t\<close>, which is undefined behaviour.
\<close>

theorem search_finds_connected:
  assumes "graph_ok g" "counts_ok (pc_stats ctx)" "0 < length (relations g)" "length (relations g) < 64"
  shows "case find_best_plan ctx g of
      Inr p \<Rightarrow> connected g
    | Inl e \<Rightarrow> e = not_connected \<and> \<not> connected g \<or> (\<exists>m. e = UndefinedBehaviour m)"
  using assms by (rule search_outcome)

theorem search_finds_connected_witness:
  "connected sample_graph \<and>
   (case find_best_plan sample_context sample_graph of
      Inr p \<Rightarrow> connected sample_graph
    | Inl e \<Rightarrow> e = not_connected \<and> \<not> connected sample_graph \<or> (\<exists>m. e = UndefinedBehaviour m))"
  using search_finds_connected [OF sample_graph_ok(1) sample_counts_ok] sample_graph_ok(2) sample_connected by simp




end
