(* ===== verification/Pushdown.thy ===== *)
theory Pushdown
  imports Equivalences
begin

text \<open>
  Predicate pushdown keeps the rows of a query.  A logical plan is given its meaning by running it as
  written: every scan sequentially, every join as a nested loop.  The theorem compares the rows of a
  filtered join before and after the filter's conjuncts have been pushed to its inputs.
\<close>

lemma decides_code [code]:
  "decides p sch A \<longleftrightarrow> (\<forall>r \<in> A. case eval_truthy p r sch of Inl e \<Rightarrow> False | Inr b \<Rightarrow> True)"
proof -
  have "(\<exists>b. x = Inr b) \<longleftrightarrow> (case x of Inl e \<Rightarrow> False | Inr b \<Rightarrow> True)" for x :: "bool result"
    by (cases x) simp_all
  then show ?thesis by (simp add: decides_def)
qed

section \<open>A plan run as written\<close>

fun naive_executor :: "logical_plan \<Rightarrow> database \<Rightarrow> executor result" where
  "naive_executor (Scan t a cs) db =
     (case db_get db t of None \<Rightarrow> Inl (no_table t) | Some tab \<Rightarrow> Inr (make_seq_scan t a tab))"
| "naive_executor (Filter e p) db = rbind (naive_executor p db) (\<lambda>x. Inr (FilterExec e x))"
| "naive_executor (Join jt c l r) db =
     rbind (naive_executor l db) (\<lambda>x. rbind (naive_executor r db) (\<lambda>y. Inr (make_nested_loop c x y)))"
| "naive_executor (Aggregate g as p) db =
     rbind (naive_executor p db) (\<lambda>x. Inr (HashAggregateExec g as x (aggregate_schema g as) [] 0))"
| "naive_executor (Project es p) db =
     rbind (naive_executor p db) (\<lambda>x. Inr (ProjectExec es x (project_schema es)))"
| "naive_executor (Sort ob p) db = rbind (naive_executor p db) (\<lambda>x. Inr (SortExec ob x [] 0))"
| "naive_executor (Limit n p) db = rbind (naive_executor p db) (\<lambda>x. Inr (LimitExec n x 0))"

text \<open>Plans made of scans, filters and joins, as the planner puts them below a WHERE clause.\<close>

fun join_tree :: "logical_plan \<Rightarrow> bool" where
  "join_tree (Scan t a cs) = True"
| "join_tree (Filter e p) = join_tree p"
| "join_tree (Join jt c l r) = (join_tree l \<and> join_tree r)"
| "join_tree p = False"

definition qualifiers :: "row_schema \<Rightarrow> string option set" where
  "qualifiers sch = fst ` set (entries sch)"

lemma qualifiers_join_tree:
  "join_tree p \<Longrightarrow> naive_executor p db = Inr x \<Longrightarrow> qualifiers (exec_schema x) \<subseteq> Some ` scan_aliases p"
proof (induction p arbitrary: x)
  case (Scan t a cs)
  then show ?case
    by (auto simp: qualifiers_def make_seq_scan_def entries_scan_schema split: option.splits)
next
  case (Join jt c l r)
  then obtain y z where "naive_executor l db = Inr y" "naive_executor r db = Inr z" "x = make_nested_loop c y z"
    by auto
  with Join show ?case by (simp add: qualifiers_def make_nested_loop_def image_Un) blast
qed auto

section \<open>Names that decide the side\<close>

text \<open>Every column of the expression is qualified and there is an entry for it.\<close>

fun bound_in :: "row_schema \<Rightarrow> expression \<Rightarrow> bool" where
  "bound_in s (Column t c) = (t \<noteq> None \<and> resolve s t c \<noteq> None)"
| "bound_in s (Lit l) = True"
| "bound_in s (BinaryOp a p b) = (bound_in s a \<and> bound_in s b)"
| "bound_in s (UnaryOp u e) = bound_in s e"
| "bound_in s _ = False"

lemma resolve_foreign: "Some q \<notin> qualifiers s \<Longrightarrow> q \<noteq> [] \<or> None \<notin> qualifiers s \<Longrightarrow> resolve s (Some q) c = None"
  by (force simp: resolve_def position_None qualifiers_def split: option.splits)

lemma bound_left:
  assumes "qualifiers t \<subseteq> Some ` A" "referenced_tables e \<inter> A = {}"
  shows "bound_in (schema_extend s t) e \<Longrightarrow> left_only s e"
  using assms(2)
proof (induction e)
  case (Column q c)
  then obtain x where q: "q = Some x" "x \<notin> A" by auto
  then have "resolve t q c = None" using assms(1) resolve_foreign [of x t c] by fastforce
  with q Column.prems(1) resolve_extend_right [of s x c t] have "resolve s q c \<noteq> None"
    by (cases "resolve s q c") simp_all
  with q show ?case by simp
qed auto

lemma bound_right:
  assumes "qualifiers s \<subseteq> Some ` A" "referenced_tables e \<inter> A = {}"
  shows "bound_in (schema_extend s t) e \<Longrightarrow> right_only s t e"
  using assms(2)
proof (induction e)
  case (Column q c)
  then obtain x where q: "q = Some x" "x \<notin> A" by auto
  then have "resolve s q c = None" using assms(1) resolve_foreign [of x s c] by fastforce
  moreover from this have "resolve t q c \<noteq> None"
    using Column.prems q resolve_extend_right [of s x c t] by auto
  ultimately show ?case using q by simp
qed auto

section \<open>Conjunctions\<close>

lemma eval_truthy_And:
  "eval_truthy a r sch = Inr x \<Longrightarrow> eval_truthy b r sch = Inr y \<Longrightarrow> eval_truthy (BinaryOp a And b) r sch = Inr (x \<and> y)"
  by (cases "evaluate a r sch"; cases "evaluate b r sch"; cases x) (simp_all add: eval_truthy_def)

lemma holds_split:
  assumes "\<And>e. e \<in> set (split_and p) \<Longrightarrow> decides e sch A" "r \<in> A"
  shows "eval_truthy p r sch = Inr (\<forall>e \<in> set (split_and p). holds e sch r)"
  using assms
proof (induction p rule: split_and.induct)
  case (1 l q)
  then have "eval_truthy l r sch = Inr (\<forall>e \<in> set (split_and l). holds e sch r)"
    "eval_truthy q r sch = Inr (\<forall>e \<in> set (split_and q). holds e sch r)" by simp_all
  from eval_truthy_And [OF this] show ?case by (simp add: ball_Un)
qed (auto simp: decides_def holds_def)

lemma decides_split:
  "(\<And>e. e \<in> set (split_and p) \<Longrightarrow> decides e sch A) \<Longrightarrow> decides p sch A"
  using holds_split [of p sch A] by (simp add: decides_def)

lemma filter_split:
  "(\<And>e. e \<in> set (split_and p) \<Longrightarrow> decides e sch (set rs)) \<Longrightarrow>
     filter (holds p sch) rs = filter (\<lambda>r. \<forall>e \<in> set (split_and p). holds e sch r) rs"
  using holds_split [of p sch "set rs"] by (auto simp: holds_def intro: filter_cong)

text \<open>Stacked filters, innermost first.\<close>

definition filter_exec :: "expression list \<Rightarrow> executor \<Rightarrow> executor" where
  "filter_exec fs x = foldl (\<lambda>x f. FilterExec f x) x fs"

lemma filter_exec_schema [simp]: "exec_schema (filter_exec fs x) = exec_schema x"
  by (induction fs arbitrary: x) (simp_all add: filter_exec_def)

lemma naive_wrap_filters:
  "naive_executor (wrap_filters p fs) db = rbind (naive_executor p db) (\<lambda>x. Inr (filter_exec fs x))"
proof (induction fs arbitrary: p)
  case Nil
  then show ?case by (cases "naive_executor p db") (simp_all add: wrap_filters_def filter_exec_def)
next
  case (Cons f fs)
  then show ?case
    by (cases "naive_executor p db") (simp_all add: wrap_filters_def filter_exec_def)
qed

lemma filter_exec_rows:
  assumes "rows_are rt x rs" "\<And>f. f \<in> set fs \<Longrightarrow> decides f (exec_schema x) (set rs)"
  shows "rows_are rt (filter_exec fs x) (filter (\<lambda>r. \<forall>f \<in> set fs. holds f (exec_schema x) r) rs)"
  using assms
proof (induction fs arbitrary: x rs)
  case Nil
  then show ?case by (simp add: filter_exec_def)
next
  case (Cons f fs)
  have "rows_are rt (FilterExec f x) (filter (holds f (exec_schema x)) rs)"
    using Cons.prems by (intro filter_rows) simp_all
  moreover have "decides e (exec_schema x) (set (filter (holds f (exec_schema x)) rs))" if "e \<in> set fs" for e
    using Cons.prems(2) that by (auto intro: decides_mono)
  ultimately show ?case
    using Cons.IH [of "FilterExec f x" "filter (holds f (exec_schema x)) rs"] by (simp add: filter_exec_def)
qed

section \<open>Pushing a filter into a join\<close>

lemma pushed_rows:
  assumes l: "rows_are rt l ls" and r: "rows_are rt r rs" and fit: "fits (exec_schema l) ls"
    and sch: "sch = schema_extend (exec_schema l) (exec_schema r)"
    and c: "decides c sch (set (joined ls rs))"
    and lf: "\<And>e. e \<in> set lf \<Longrightarrow> left_only (exec_schema l) e \<and> decides e (exec_schema l) (set ls)"
    and rf: "\<And>e. e \<in> set rf \<Longrightarrow> right_only (exec_schema l) (exec_schema r) e \<and> decides e (exec_schema r) (set rs)"
    and rem: "\<And>e. e \<in> set rem \<Longrightarrow> decides e sch (set (joined ls rs))"
  shows "rows_are rt (filter_exec rem (make_nested_loop c (filter_exec lf l) (filter_exec rf r)))
    (filter (\<lambda>x. \<forall>e \<in> set lf \<union> set rf \<union> set rem. holds e sch x) (filter (holds c sch) (joined ls rs)))"
proof -
  let ?ls = "filter (\<lambda>x. \<forall>e \<in> set lf. holds e (exec_schema l) x) ls"
  let ?rs = "filter (\<lambda>x. \<forall>e \<in> set rf. holds e (exec_schema r) x) rs"
  have sub: "set (joined ?ls ?rs) \<subseteq> set (joined ls rs)" by (auto simp: set_joined)
  have l': "rows_are rt (filter_exec lf l) ?ls" and r': "rows_are rt (filter_exec rf r) ?rs"
    using l r lf rf by (intro filter_exec_rows; simp)+
  have join: "rows_are rt (make_nested_loop c (filter_exec lf l) (filter_exec rf r))
      (filter (holds c sch) (joined ?ls ?rs))"
    using make_nested_loop_rows [OF l' r', of c] decides_mono [OF c sub] sch by simp
  have left: "filter (\<lambda>x. \<forall>e \<in> set lf. holds e sch x) (joined ls rs) = joined ?ls rs"
    using fit lf sch by (intro filter_joined_left) (auto simp: fits_def holds_left)
  have right: "filter (\<lambda>x. \<forall>e \<in> set rf. holds e sch x) (joined ?ls rs) = joined ?ls ?rs"
    using fit rf sch by (intro filter_joined_right) (auto simp: fits_def holds_right)
  have schema: "exec_schema (make_nested_loop c (filter_exec lf l) (filter_exec rf r)) = sch"
    by (simp add: make_nested_loop_def sch)
  have "decides e sch (set (filter (holds c sch) (joined ?ls ?rs)))" if "e \<in> set rem" for e
    by (rule decides_mono [OF rem [OF that]]) (use sub in auto)
  from filter_exec_rows [OF join, unfolded schema, OF this] show ?thesis
    unfolding right [symmetric] left [symmetric] filter_filter
    by (rule arg_cong [where f = "rows_are rt _", THEN iffD1, rotated]) (auto intro!: filter_cong)
qed

text \<open>
  What the theorem asks of a filter over a join: the inputs run without an exception and their rows fit
  their schemas, the join condition and the conjuncts are decided wherever their columns are bound, and
  the conjuncts mention only qualified columns that exist.
\<close>

definition pushable :: "runtime \<Rightarrow> expression \<Rightarrow> expression \<Rightarrow> executor \<Rightarrow> executor \<Rightarrow> row list \<Rightarrow> row list \<Rightarrow> bool" where
  "pushable rt p c l r ls rs \<longleftrightarrow>
     rows_are rt l ls \<and> rows_are rt r rs \<and> fits (exec_schema l) ls \<and>
     decides c (schema_extend (exec_schema l) (exec_schema r)) (set (joined ls rs)) \<and>
     (\<forall>e \<in> set (split_and p).
        bound_in (schema_extend (exec_schema l) (exec_schema r)) e \<and>
        decides e (schema_extend (exec_schema l) (exec_schema r)) (set (joined ls rs)) \<and>
        (left_only (exec_schema l) e \<longrightarrow> decides e (exec_schema l) (set ls)) \<and>
        (right_only (exec_schema l) (exec_schema r) e \<longrightarrow> decides e (exec_schema r) (set rs)))"

lemma naive_pushed:
  assumes "naive_executor l db = Inr x" "naive_executor r db = Inr y"
  shows "naive_executor (push_filter_into p (Join jt c l r)) db =
    Inr (filter_exec (filter (\<lambda>e. \<not> goes_left l r e \<and> \<not> goes_right l r e) (split_and p))
      (make_nested_loop c (filter_exec (filter (goes_left l r) (split_and p)) x)
        (filter_exec (filter (goes_right l r) (split_and p)) y)))"
  using assms by (simp add: push_filter_into_def Let_def naive_wrap_filters)

lemma push_filter_rows:
  assumes t: "join_tree l" "join_tree r"
    and x: "naive_executor l db = Inr x" and y: "naive_executor r db = Inr y"
    and ok: "pushable rt p c x y ls rs"
  shows "\<exists>before after. naive_executor (Filter p (Join jt c l r)) db = Inr before \<and>
    naive_executor (push_filter_into p (Join jt c l r)) db = Inr after \<and>
    exec_rows rt before = exec_rows rt after \<and> (\<exists>out. rows_are rt before out)"
proof -
  let ?s = "exec_schema x" and ?t = "exec_schema y"
  let ?sch = "schema_extend ?s ?t" and ?es = "split_and p"
  let ?lf = "filter (goes_left l r) ?es" and ?rf = "filter (goes_right l r) ?es"
  let ?rem = "filter (\<lambda>e. \<not> goes_left l r e \<and> \<not> goes_right l r e) ?es"
  from ok have rows: "rows_are rt x ls" "rows_are rt y rs" "fits ?s ls"
    and c: "decides c ?sch (set (joined ls rs))"
    and es: "\<And>e. e \<in> set ?es \<Longrightarrow> bound_in ?sch e \<and> decides e ?sch (set (joined ls rs))"
    and sides: "\<And>e. e \<in> set ?es \<Longrightarrow> left_only ?s e \<Longrightarrow> decides e ?s (set ls)"
      "\<And>e. e \<in> set ?es \<Longrightarrow> right_only ?s ?t e \<Longrightarrow> decides e ?t (set rs)"
    by (simp_all add: pushable_def)
  have lf: "left_only ?s e \<and> decides e ?s (set ls)" if "e \<in> set ?lf" for e
  proof -
    have "left_only ?s e"
      using that es qualifiers_join_tree [OF t(2) y]
      by (intro bound_left [of ?t "scan_aliases r" e ?s]) (auto simp: goes_left_def touches_def)
    with that sides(1) show ?thesis by simp
  qed
  have rf: "right_only ?s ?t e \<and> decides e ?t (set rs)" if "e \<in> set ?rf" for e
  proof -
    have "right_only ?s ?t e"
      using that es qualifiers_join_tree [OF t(1) x]
      by (intro bound_right [of ?s "scan_aliases l" e ?t]) (auto simp: goes_right_def touches_def)
    with that sides(2) show ?thesis by simp
  qed
  have rem: "decides e ?sch (set (joined ls rs))" if "e \<in> set ?rem" for e using that es by simp
  let ?out = "filter (\<lambda>x. \<forall>e \<in> set ?es. holds e ?sch x) (filter (holds c ?sch) (joined ls rs))"
  have all: "set ?lf \<union> set ?rf \<union> set ?rem = set ?es" by auto
  let ?after = "filter_exec ?rem (make_nested_loop c (filter_exec ?lf x) (filter_exec ?rf y))"
  have pushed: "rows_are rt ?after ?out"
    using pushed_rows [of rt x ls y rs ?sch c ?lf ?rf ?rem, OF rows(1-3) refl c lf rf rem] unfolding all .
  have dec: "decides p ?sch (set (joined ls rs))" by (rule decides_split) (use es in simp)
  have eq: "filter (holds c ?sch) (filter (holds p ?sch) (joined ls rs)) = ?out"
    using filter_split [of p ?sch "joined ls rs"] es by (simp add: conj_commute)
  let ?before = "FilterExec p (make_nested_loop c x y)"
  have filtered: "rows_are rt ?before ?out"
    using filter_nested_loop [OF rows(1,2) refl c dec] by (simp only: eq)
  have "naive_executor (Filter p (Join jt c l r)) db = Inr ?before" using x y by simp
  moreover have "exec_rows rt ?before = exec_rows rt ?after"
    using filtered pushed by (simp only: rows_are_def)
  ultimately show ?thesis using naive_pushed [OF x y, of p jt c] filtered by blast
qed

text \<open>The plans below the WHERE clause of a statement are scans and joins only; pushdown leaves them.\<close>

fun joins_only :: "logical_plan \<Rightarrow> bool" where
  "joins_only (Scan t a cs) = True"
| "joins_only (Join jt c l r) = (joins_only l \<and> joins_only r)"
| "joins_only p = False"

lemma joins_only_fold: "joins_only p \<Longrightarrow> joins_only (fold_joins js p)"
  by (induction js arbitrary: p) (simp_all add: scan_ref_def)

lemma joins_only_tree: "joins_only p \<Longrightarrow> join_tree p"
  by (induction p) simp_all

lemma push_predicates_joins: "joins_only p \<Longrightarrow> push_predicates p = p"
  by (induction p) simp_all

section \<open>Properties\<close>

text \<open>
  C4.  Predicate pushdown keeps the rows of a filtered join, in their order: running the plan before and
  after \<^verbatim>\<open>push_predicates\<close> gives the same stream of rows and no exception, when the inputs are scans and
  joins, every conjunct of the filter uses qualified columns that exist, and the condition and the
  conjuncts have a truth value on the rows they meet.
\<close>

theorem pushdown_keeps_rows:
  assumes "joins_only l" "joins_only r" "naive_executor l db = Inr x" "naive_executor r db = Inr y"
    and "pushable rt p c x y ls rs"
  shows "\<exists>before after out. naive_executor (Filter p (Join jt c l r)) db = Inr before \<and>
    naive_executor (push_predicates (Filter p (Join jt c l r))) db = Inr after \<and>
    exec_rows rt before = Inr (out, None) \<and> exec_rows rt after = Inr (out, None)"
  using push_filter_rows [OF joins_only_tree joins_only_tree assms(3-5), of jt] assms(1,2)
  by (auto simp: push_predicates_joins rows_are_def)

definition sample_db :: database where
  "sample_db = [(''customers'', customers), (''orders'', orders)]"

definition sample_filter :: expression where
  "sample_filter = BinaryOp (BinaryOp (Column (Some ''c'') ''name'') Eq (Lit (Str ''bob''))) And
     (BinaryOp (Column (Some ''o'') ''total'') Gt (Lit (Integer 40)))"

theorem pushdown_keeps_rows_witness:
  "\<exists>before after out.
     naive_executor (Filter sample_filter (Join Inner on_customer (Scan ''customers'' (Some ''c'') [])
       (Scan ''orders'' (Some ''o'') []))) sample_db = Inr before \<and>
     naive_executor (push_predicates (Filter sample_filter (Join Inner on_customer (Scan ''customers'' (Some ''c'') [])
       (Scan ''orders'' (Some ''o'') [])))) sample_db = Inr after \<and>
     exec_rows reference_runtime before = Inr (out, None) \<and> exec_rows reference_runtime after = Inr (out, None)"
proof (rule pushdown_keeps_rows)
  show "joins_only (Scan ''customers'' (Some ''c'') [])" "joins_only (Scan ''orders'' (Some ''o'') [])" by simp_all
  show "naive_executor (Scan ''customers'' (Some ''c'') []) sample_db = Inr (scan_c customers)"
    "naive_executor (Scan ''orders'' (Some ''o'') []) sample_db = Inr (scan_o orders)" by code_simp+
  show "pushable reference_runtime sample_filter on_customer (scan_c customers) (scan_o orders)
      (table_rows customers) (table_rows orders)" by code_simp
qed

end
