(* ===== verification/Physical_Planner.thy ===== *)
theory Physical_Planner
  imports Join_Enumerator Pushdown
begin

text \<open>
  The physical planner (\<^verbatim>\<open>physical/physical_planner.cpp\<close>): it hands all-inner join subtrees to the join
  search and chooses scans and join algorithms for the rest.  The base-2 logarithm of the C library and
  the iteration order of hash sets are the parameters \<open>lg\<close> and \<open>iter\<close>.
\<close>

definition plan_scan :: "planner_context \<Rightarrow> string \<Rightarrow> string option \<Rightarrow> string list \<Rightarrow> physical_plan result" where
  "plan_scan ctx t a cs =
     (let est = estimate_scan (pc_stats ctx) t
      in rbind (rows_to_size (e_rows est)) (\<lambda>rows.
           Inr (SeqScan (plan_info_of (cost_seq_scan rows (scan_pages (pc_stats ctx) t rows)) rows est) t a cs)))"

text \<open>
  The equality \<open>column = literal\<close> on this table that an index can answer, with the literal; a qualifier
  other than the name of the scan excludes it.
\<close>

fun index_equality :: "string \<Rightarrow> expression \<Rightarrow> (string \<times> expression) option" where
  "index_equality ident (BinaryOp (Column t c) Eq (Lit v)) =
     (if qualifier_matches t ident then Some (c, Lit v) else None)"
| "index_equality ident (BinaryOp (Lit v) Eq (Column t c)) =
     (if qualifier_matches t ident then Some (c, Lit v) else None)"
| "index_equality ident e = None"

definition try_index_scan ::
  "planner_context \<Rightarrow> expression \<Rightarrow> string \<Rightarrow> string option \<Rightarrow> string list \<Rightarrow> physical_plan option result"
where
  "try_index_scan ctx e t a cs =
     (case index_equality (case a of Some x \<Rightarrow> x | None \<Rightarrow> t) e of
        None \<Rightarrow> Inr None
      | Some (c, v) \<Rightarrow>
          (case catalog_get (pc_schemas ctx) t of
             None \<Rightarrow> Inr None
           | Some schema \<Rightarrow>
               if \<not> has_index_on schema c then Inr None
               else let scan_est = estimate_scan (pc_stats ctx) t;
                        filter_est = estimate_filter (pc_stats ctx) (e_rows scan_est) e (Scan t a cs)
                    in rbind (rows_to_size (e_rows scan_est)) (\<lambda>rows.
                       rbind (rows_to_size (e_rows filter_est)) (\<lambda>matched.
                         let index_cost = cost_index_scan matched;
                             seq_cost = cost_add (cost_seq_scan rows (scan_pages (pc_stats ctx) t rows)) (cost_filter rows)
                         in if dle (cost_total seq_cost) (cost_total index_cost) then Inr None
                            else Inr (Some (IndexScan (plan_info_of index_cost matched filter_est) t a cs c v))))))"

text \<open>Only a filter directly over a scan is tried.\<close>

fun try_index_over :: "planner_context \<Rightarrow> expression \<Rightarrow> logical_plan \<Rightarrow> physical_plan option result" where
  "try_index_over ctx e (Scan t a cs) = try_index_scan ctx e t a cs"
| "try_index_over ctx e p = Inr None"

definition choose_join_strategy ::
  "planner_context \<Rightarrow> join_type \<Rightarrow> expression \<Rightarrow> physical_plan \<Rightarrow> physical_plan \<Rightarrow> logical_plan \<Rightarrow> logical_plan \<Rightarrow>
   physical_plan result"
where
  "choose_join_strategy ctx jt e l r ls rs =
     (let est = estimate_join (pc_stats ctx) (double_of_nat (rows_of l)) (double_of_nat (rows_of r)) e ls rs
      in rbind (rows_to_size (e_rows est)) (\<lambda>out.
           Inr (if is_equi e \<and> dlt (cost_total (hash_cost l r)) (cost_total (rescan_cost l r))
                then PJoin HashJoin (plan_info_of (hash_cost l r) out est) jt e l r
                else PJoin NestedLoopJoin (plan_info_of (rescan_cost l r) out est) jt e l r)))"

definition residual_filter :: "physical_plan \<Rightarrow> expression \<Rightarrow> physical_plan" where
  "residual_filter p e =
     PFilter (make_info (cost_add (cost_of p) (cost_filter (rows_of p))) (max (rows_of p div 10) 1)
       ''residual predicate spanning more than two relations or an unresolvable column -- default 10% heuristic''
       (tenths 2)) e p"

definition plan_join_search ::
  "(nat list \<Rightarrow> nat list) \<Rightarrow> planner_context \<Rightarrow> logical_plan \<Rightarrow> physical_plan result"
where
  "plan_join_search iter ctx p =
     rbind (build_join_graph iter p) (\<lambda>(g, residual).
     rbind (find_best_plan ctx g) (\<lambda>best. Inr (foldl residual_filter best residual)))"

text \<open>The node above a planned input, with the cost of its operator added and its own row estimate.\<close>

definition above :: "physical_plan \<Rightarrow> row_estimate \<Rightarrow> (nat \<Rightarrow> cost) \<Rightarrow> (plan_info \<Rightarrow> physical_plan) \<Rightarrow> physical_plan result"
where
  "above input est c node =
     rbind (rows_to_size (e_rows est)) (\<lambda>rows. Inr (node (plan_info_of (cost_add (cost_of input) (c rows)) rows est)))"

fun plan_node ::
  "(double \<Rightarrow> double) \<Rightarrow> (nat list \<Rightarrow> nat list) \<Rightarrow> planner_context \<Rightarrow> logical_plan \<Rightarrow> physical_plan result"
where
  "plan_node lg iter ctx (Scan t a cs) = plan_scan ctx t a cs"
| "plan_node lg iter ctx (Filter e p) =
     (if is_join_search_candidate (Filter e p) then plan_join_search iter ctx (Filter e p)
      else rbind (try_index_over ctx e p) (\<lambda>idx.
             case idx of
               Some q \<Rightarrow> Inr q
             | None \<Rightarrow>
                 rbind (plan_node lg iter ctx p) (\<lambda>input.
                   above input (estimate_filter (pc_stats ctx) (double_of_nat (rows_of input)) e p)
                     (\<lambda>_. cost_filter (rows_of input)) (\<lambda>i. PFilter i e input))))"
| "plan_node lg iter ctx (Join jt c l r) =
     (if is_join_search_candidate (Join jt c l r) then plan_join_search iter ctx (Join jt c l r)
      else rbind (plan_node lg iter ctx l) (\<lambda>pl.
           rbind (plan_node lg iter ctx r) (\<lambda>pr. choose_join_strategy ctx jt c pl pr l r)))"
| "plan_node lg iter ctx (Aggregate g as p) =
     rbind (plan_node lg iter ctx p) (\<lambda>input.
       above input (estimate_aggregate (pc_stats ctx) (double_of_nat (rows_of input)) g p)
         (cost_hash_aggregate (rows_of input)) (\<lambda>i. HashAggregate i g as input))"
| "plan_node lg iter ctx (Project es p) =
     rbind (plan_node lg iter ctx p) (\<lambda>input.
       above input (estimate_project (double_of_nat (rows_of input)))
         (\<lambda>_. cost_project (rows_of input)) (\<lambda>i. PProject i es input))"
| "plan_node lg iter ctx (Sort ob p) =
     rbind (plan_node lg iter ctx p) (\<lambda>input.
       above input (estimate_sort (double_of_nat (rows_of input)))
         (\<lambda>_. cost_sort lg (rows_of input)) (\<lambda>i. PSort i ob input))"
| "plan_node lg iter ctx (Limit n p) =
     rbind (plan_node lg iter ctx p) (\<lambda>input.
       above input (estimate_limit (double_of_nat (rows_of input)) n)
         (\<lambda>_. cost_limit (rows_of input)) (\<lambda>i. PLimit i n input))"

definition generate_physical_plan ::
  "(double \<Rightarrow> double) \<Rightarrow> (nat list \<Rightarrow> nat list) \<Rightarrow> planner_context \<Rightarrow> logical_plan \<Rightarrow> physical_plan result"
where
  "generate_physical_plan lg iter ctx p = plan_node lg iter ctx p"

section \<open>A planned query reads the same tables\<close>

definition planned :: "logical_plan \<Rightarrow> physical_plan \<Rightarrow> bool" where
  "planned lp p \<longleftrightarrow> mset (plan_scans p) = mset (scans lp) \<and> estimates_ok p"

lemma plan_scan_ok: "counts_ok (pc_stats ctx) \<Longrightarrow> plan_scan ctx t a cs = Inr p \<Longrightarrow> planned (Scan t a cs) p"
  using rows_to_size_ok [OF mag_ok_scan, of "pc_stats ctx" t] cost_ok_seq
  by (fastforce simp: plan_scan_def Let_def planned_def estimates_ok_def)

lemma try_index_scan_ok:
  assumes "try_index_scan ctx e t a cs = Inr (Some p)"
  shows "planned (Filter e (Scan t a cs)) p"
proof -
  let ?est = "estimate_filter (pc_stats ctx) (e_rows (estimate_scan (pc_stats ctx) t)) e (Scan t a cs)"
  obtain matched c v where m: "rows_to_size (e_rows ?est) = Inr matched"
    and p: "p = IndexScan (plan_info_of (cost_index_scan matched) matched ?est) t a cs c v"
    using assms by (auto simp: try_index_scan_def Let_def split: option.splits if_splits)
  from rows_to_size_ok [OF mag_ok_estimates(1) m] cost_ok_operators(2) [of matched matched] show ?thesis
    by (simp add: p planned_def estimates_ok_def)
qed

lemma try_index_over_ok: "try_index_over ctx e lp = Inr (Some p) \<Longrightarrow> planned (Filter e lp) p"
  using try_index_scan_ok by (cases lp) auto

lemma choose_join_ok:
  assumes "choose_join_strategy ctx jt e l r ls rs = Inr p" "planned ls l" "planned rs r"
  shows "planned (Join jt e ls rs) p"
proof -
  let ?est = "estimate_join (pc_stats ctx) (double_of_nat (rows_of l)) (double_of_nat (rows_of r)) e ls rs"
  obtain out k c where out: "rows_to_size (e_rows ?est) = Inr out"
    and p: "p = PJoin k (plan_info_of c out ?est) jt e l r" "c = hash_cost l r \<or> c = rescan_cost l r"
    using assms(1) by (auto simp: choose_join_strategy_def Let_def split: if_splits)
  have ok: "estimates_ok l" "estimates_ok r" using assms(2,3) by (auto simp: planned_def)
  have "cost_ok c" using p(2) cost_ok_hash [OF ok] cost_ok_rescan [OF ok] by auto
  with rows_to_size_ok [OF mag_ok_estimates(2) out] ok assms(2,3) show ?thesis
    by (simp add: p(1) planned_def estimates_ok_def)
qed

lemma residual_filter_ok: "estimates_ok p \<Longrightarrow> estimates_ok (residual_filter p e) \<and> plan_scans (residual_filter p e) = plan_scans p"
  using rows_ok_bounds [of p] cost_ok_operators(3) [of "rows_of p" "rows_of p"]
  by (auto simp: residual_filter_def estimates_ok_def intro!: cost_ok_add)

lemma residual_filters_ok:
  "estimates_ok p \<Longrightarrow> estimates_ok (foldl residual_filter p es) \<and> plan_scans (foldl residual_filter p es) = plan_scans p"
  by (induction es arbitrary: p) (simp_all add: residual_filter_ok)

lemma plan_join_search_ok:
  assumes "iter_ok iter" "counts_ok (pc_stats ctx)" "plan_join_search iter ctx lp = Inr p"
  shows "planned lp p"
proof -
  obtain g residual best where g: "build_join_graph iter lp = Inr (g, residual)"
    and best: "find_best_plan ctx g = Inr best" and p: "p = foldl residual_filter best residual"
    using assms(3) by (auto simp: plan_join_search_def)
  note graph = build_join_graph_spec [OF assms(1) g]
  from graph(1) have ok: "graph_ok g" by simp
  note deep = find_best_plan_left_deep [OF ok assms(2) best]
  have "mset (plan_scans best) = mset (map rel_key (relations g))"
    using left_deep_scans [OF deep] by (simp only: all_relations)
  also have "map rel_key (relations g) = scans lp" using graph(2) by (simp add: rel_key_def [abs_def])
  finally show ?thesis
    using residual_filters_ok [OF left_deep_estimates [OF deep]] by (simp add: planned_def p)
qed

lemma above_ok:
  assumes "above input est c node = Inr p" "mag_ok (e_rows est)" "planned lp input"
    and "\<And>rows. rows \<le> size_max \<Longrightarrow> cost_ok (c rows)"
    and "\<And>i. info (node i) = i \<and> plan_scans (node i) = plan_scans input \<and>
      (rows_ok (node i) \<longleftrightarrow> 1 \<le> est_rows i \<and> est_rows i \<le> size_max \<and> rows_ok input)"
  shows "mset (plan_scans p) = mset (scans lp) \<and> estimates_ok p"
proof -
  obtain rows where rows: "rows_to_size (e_rows est) = Inr rows"
    and p: "p = node (plan_info_of (cost_add (cost_of input) (c rows)) rows est)"
    using assms(1) by (auto simp: above_def)
  from rows_to_size_ok [OF assms(2) rows] assms(3-5) show ?thesis
    by (simp add: p planned_def estimates_ok_def cost_ok_add)
qed

lemma mag_ok_group_product: "group_product s es acc = Inr d \<Longrightarrow> mag_ok acc \<Longrightarrow> mag_ok d"
  by (induction s es acc rule: group_product.induct) (auto split: option.splits if_splits intro: mag_ok_double)

lemma mag_ok_aggregate: "mag_ok n \<Longrightarrow> mag_ok (e_rows (estimate_aggregate cat n g scope))"
  by (auto simp: estimate_aggregate_def tenth_of_def dmax_def dmin_def Let_def
      intro: mag_ok_double mag_ok_group_product split: option.splits sum.splits)

lemma mag_ok_nat: "mag_ok (double_of_nat n)"
  by (simp add: double_of_nat_def double_of_rat_def mag_ok_double)

lemma plan_node_ok:
  assumes "log2_ok lg" "iter_ok iter" "counts_ok (pc_stats ctx)"
  shows "plan_node lg iter ctx lp = Inr p \<Longrightarrow> planned lp p"
proof (induction lp arbitrary: p)
  case (Scan t a cs)
  then show ?case using plan_scan_ok [OF assms(3)] by simp
next
  case (Filter e lp)
  consider "plan_join_search iter ctx (Filter e lp) = Inr p"
    | "try_index_over ctx e lp = Inr (Some p)"
    | input where "plan_node lg iter ctx lp = Inr input"
      "above input (estimate_filter (pc_stats ctx) (double_of_nat (rows_of input)) e lp)
         (\<lambda>_. cost_filter (rows_of input)) (\<lambda>i. PFilter i e input) = Inr p"
    using Filter.prems by (auto split: if_splits option.splits)
  then show ?case
  proof cases
    case 1
    then show ?thesis by (rule plan_join_search_ok [OF assms(2,3)])
  next
    case 2
    then show ?thesis by (rule try_index_over_ok)
  next
    case (3 input)
    note input = Filter.IH [OF 3(1)]
    then have "cost_ok (cost_filter (rows_of input))"
      using rows_ok_bounds cost_ok_operators(3) by (fastforce simp: planned_def estimates_ok_def)
    from above_ok [OF 3(2) mag_ok_estimates(1) input this] show ?thesis by (simp add: planned_def)
  qed
next
  case (Join jt c l r)
  then show ?case
    using plan_join_search_ok [OF assms(2,3)] choose_join_ok
    by (auto split: if_splits)
next
  case (Aggregate g as lp)
  then obtain input where input: "plan_node lg iter ctx lp = Inr input"
    and node: "above input (estimate_aggregate (pc_stats ctx) (double_of_nat (rows_of input)) g lp)
      (cost_hash_aggregate (rows_of input)) (\<lambda>i. HashAggregate i g as input) = Inr p" by auto
  note ok = Aggregate.IH [OF input]
  then have "cost_ok (cost_hash_aggregate (rows_of input) n)" if "n \<le> size_max" for n
    using rows_ok_bounds cost_ok_operators(7) that by (fastforce simp: planned_def estimates_ok_def)
  from above_ok [OF node mag_ok_aggregate [OF mag_ok_nat] ok this] show ?case by (simp add: planned_def)
next
  case (Project es lp)
  then obtain input where input: "plan_node lg iter ctx lp = Inr input"
    and node: "above input (estimate_project (double_of_nat (rows_of input)))
      (\<lambda>_. cost_project (rows_of input)) (\<lambda>i. PProject i es input) = Inr p" by auto
  note ok = Project.IH [OF input]
  then have "cost_ok (cost_project (rows_of input))"
    using rows_ok_bounds cost_ok_operators(8) by (fastforce simp: planned_def estimates_ok_def)
  from above_ok [OF node _ ok this] mag_ok_nat show ?case by (simp add: planned_def estimate_project_def)
next
  case (Sort ob lp)
  then obtain input where input: "plan_node lg iter ctx lp = Inr input"
    and node: "above input (estimate_sort (double_of_nat (rows_of input)))
      (\<lambda>_. cost_sort lg (rows_of input)) (\<lambda>i. PSort i ob input) = Inr p" by auto
  note ok = Sort.IH [OF input]
  then have "cost_ok (cost_sort lg (rows_of input))"
    using rows_ok_bounds cost_ok_sort [OF assms(1)] by (fastforce simp: planned_def estimates_ok_def)
  from above_ok [OF node _ ok this] mag_ok_nat show ?case by (simp add: planned_def estimate_sort_def)
next
  case (Limit n lp)
  then obtain input where input: "plan_node lg iter ctx lp = Inr input"
    and node: "above input (estimate_limit (double_of_nat (rows_of input)) n)
      (\<lambda>_. cost_limit (rows_of input)) (\<lambda>i. PLimit i n input) = Inr p" by auto
  note ok = Limit.IH [OF input]
  then have "cost_ok (cost_limit (rows_of input))"
    using rows_ok_bounds cost_ok_operators(9) by (fastforce simp: planned_def estimates_ok_def)
  from above_ok [OF node _ ok this] mag_ok_nat show ?case by (simp add: planned_def estimate_limit_def dmin_def)
qed

section \<open>How planning can fail\<close>

text \<open>Plans in which nothing but scans, filters and joins is below a join.\<close>

fun well_shaped :: "logical_plan \<Rightarrow> bool" where
  "well_shaped (Scan t a cs) = True"
| "well_shaped (Filter e p) = well_shaped p"
| "well_shaped (Join jt c l r) = (join_tree l \<and> join_tree r)"
| "well_shaped (Aggregate g as p) = well_shaped p"
| "well_shaped (Project es p) = well_shaped p"
| "well_shaped (Sort ob p) = well_shaped p"
| "well_shaped (Limit n p) = well_shaped p"

definition plan_error :: "error \<Rightarrow> bool" where
  "plan_error e \<longleftrightarrow> e = not_connected \<or> (\<exists>m. e = UndefinedBehaviour m)"

lemma join_tree_shaped: "join_tree p \<Longrightarrow> well_shaped p"
  by (induction p) auto

lemma collect_total: "join_tree p \<Longrightarrow> \<exists>out. collect p acc = Inr out"
proof (induction p arbitrary: acc)
  case (Join jt c l r)
  obtain rels preds where acc: "acc = (rels, preds)" by (cases acc)
  obtain a where "collect l (rels, preds @ split_and c) = Inr a" using Join by fastforce
  moreover obtain b where "collect r a = Inr b" using Join by fastforce
  ultimately show ?case by (simp add: acc)
qed (auto simp: split_paired_all)

lemma candidate_join_tree: "well_shaped p \<Longrightarrow> is_join (unwrap_filters p) \<Longrightarrow> join_tree p"
  by (induction p) auto

lemma scans_nonempty: "scans p \<noteq> []"
  by (induction p) auto

lemma plan_join_search_error:
  assumes "iter_ok iter" "join_tree lp" "plan_join_search iter ctx lp = Inl e"
  shows "plan_error e"
proof -
  obtain out where "collect lp ([], []) = Inr out" using collect_total [OF assms(2)] by blast
  then obtain g residual where g: "build_join_graph iter lp = Inr (g, residual)"
    by (cases "build_join_graph iter lp") (auto simp: build_join_graph_def split: prod.splits)
  have "length (relations g) \<noteq> 0"
    using arg_cong [OF build_join_graph_spec(2) [OF assms(1) g], of length] scans_nonempty [of lp] by auto
  with assms(3) g undefined_only_search [of ctx g] show ?thesis
    by (auto simp: plan_join_search_def find_best_plan_def Let_def plan_error_def undefined_only_def rbind_eq_Inl
        split: option.splits)
qed

lemma rows_error: "rows_to_size d = Inl e \<Longrightarrow> plan_error e"
  using undefined_only_rows [of d] by (auto simp: undefined_only_def plan_error_def)

lemma above_error: "above input est c node = Inl e \<Longrightarrow> plan_error e"
  by (auto simp: above_def rbind_eq_Inl dest: rows_error)

lemma try_index_error: "try_index_over ctx c p = Inl e \<Longrightarrow> plan_error e"
  by (cases p) (auto simp: try_index_scan_def Let_def rbind_eq_Inl split: option.splits if_splits dest: rows_error)

lemma plan_node_error:
  assumes "iter_ok iter"
  shows "well_shaped lp \<Longrightarrow> plan_node lg iter ctx lp = Inl e \<Longrightarrow> plan_error e"
proof (induction lp)
  case (Scan t a cs)
  then show ?case by (auto simp: plan_scan_def Let_def rbind_eq_Inl dest: rows_error)
next
  case (Filter c lp)
  show ?case
  proof (cases "is_join_search_candidate (Filter c lp)")
    case True
    then have "join_tree (Filter c lp)"
      using Filter.prems(1) candidate_join_tree unfolding is_join_search_candidate_def by blast
    from plan_join_search_error [OF assms this] Filter.prems(2) True show ?thesis by simp
  next
    case False
    then show ?thesis using Filter
      by (auto simp: rbind_eq_Inl dest: above_error try_index_error split: option.splits)
  qed
next
  case (Join jt c l r)
  show ?case
  proof (cases "is_join_search_candidate (Join jt c l r)")
    case True
    then show ?thesis using plan_join_search_error [OF assms, of "Join jt c l r"] Join.prems by simp
  next
    case False
    have "plan_error e" if "choose_join_strategy ctx jt c pl pr l r = Inl e" for pl pr
      using that by (auto simp: choose_join_strategy_def Let_def rbind_eq_Inl dest: rows_error)
    then show ?thesis using Join False join_tree_shaped by (auto simp: rbind_eq_Inl)
  qed
qed (auto simp: rbind_eq_Inl dest: above_error)


lemma fold_joins_tree: "join_tree p \<Longrightarrow> join_tree (fold_joins js p)"
  by (induction js arbitrary: p) (simp_all add: scan_ref_def)

lemma plan_statement_shaped: "well_shaped (fst (plan_statement m s))"
proof -
  have "well_shaped (fold_joins (joins s) (scan_ref (from_table s)))"
    by (intro join_tree_shaped fold_joins_tree) (simp add: scan_ref_def)
  then show ?thesis by (auto simp: plan_statement_def Let_def split_beta split: option.splits)
qed

section \<open>Properties\<close>

text \<open>
  A physical plan reads exactly the relations of the logical plan, each as often and under its alias,
  whatever join order and access paths are chosen; every row estimate in it is a 64-bit number of at
  least one, and its cost is never negative or NaN.
\<close>

theorem physical_plan_reads:
  assumes "log2_ok lg" "iter_ok iter" "counts_ok (pc_stats ctx)" "generate_physical_plan lg iter ctx lp = Inr p"
  shows "mset (plan_scans p) = mset (scans lp) \<and> rows_ok p \<and> cost_ok (cost_of p)"
  using plan_node_ok [OF assms(1-3)] assms(4) by (simp add: generate_physical_plan_def planned_def estimates_ok_def)

definition five :: "double \<Rightarrow> double" where
  "five d = Fin False 5"

lemma five_ok: "log2_ok five"
  by (simp add: log2_ok_def five_def)

lemma iter_id: "iter_ok id"
  by (simp add: iter_ok_def)

theorem physical_plan_reads_witness:
  "\<exists>p. generate_physical_plan five id sample_context triangle = Inr p \<and>
     mset (plan_scans p) = mset (scans triangle) \<and> rows_ok p \<and> cost_ok (cost_of p)"
proof -
  have "is_join_search_candidate triangle" by code_simp
  then have "generate_physical_plan five id sample_context triangle = plan_join_search id sample_context triangle"
    by (simp add: generate_physical_plan_def triangle_def)
  then have "\<exists>p. generate_physical_plan five id sample_context triangle = Inr p"
    using sample_plan by (auto simp: plan_join_search_def sample_graph_built)
  then show ?thesis using physical_plan_reads [OF five_ok iter_id sample_counts_ok] by blast
qed


definition cross_statement :: select_statement where
  "cross_statement =
     \<lparr>columns = [SelectWildcard], from_table = \<lparr>ref_table_name = ''a'', ref_alias = None\<rparr>,
      joins = [\<lparr>join_kind = Inner, join_table = \<lparr>ref_table_name = ''b'', ref_alias = None\<rparr>, join_condition = Lit (Boolean True)\<rparr>],
      where_clause = None, group_by = [], having = None, order_by = [], limit = None\<rparr>"


definition cross_graph :: join_graph where
  "cross_graph = \<lparr>relations = [sample_relation 0 ''a'', sample_relation 1 ''b''], edges = []\<rparr>"

lemma cross_graph_fails: "\<exists>e. find_best_plan ctx cross_graph = Inl e" if "counts_ok (pc_stats ctx)"
proof (rule ccontr)
  assume "\<nexists>e. find_best_plan ctx cross_graph = Inl e"
  then obtain p where p: "find_best_plan ctx cross_graph = Inr p" by (cases "find_best_plan ctx cross_graph") auto
  have "graph_ok cross_graph" by code_simp
  from left_deep_solvable [OF find_best_plan_left_deep [OF this that p]] have "connected cross_graph"
    by (rule solvable_connected)
  moreover have "{0} \<subset> {..< length (relations cross_graph)}" by (auto simp: cross_graph_def)
  ultimately show False unfolding connected_def by (auto simp: cross_graph_def)
qed


end
