(* ===== verification/Sql_Printer.thy ===== *)
theory Sql_Printer
  imports Parser
begin

text \<open>
  The canonical SQL text of a statement (\<^verbatim>\<open>parser/sql_printer.cpp\<close>), the first half of a plan-cache
  key.  The theory proves that lexing and parsing the canonical text gives the statement back,
  for every statement the parser can produce that has no float literal and no \<^verbatim>\<open>NOT\<close> directly below
  an arithmetic or comparison operator or a minus sign; on these statements the canonical text
  therefore identifies the statement.  Both exclusions are necessary: floats are printed with six
  significant digits, and the printer writes no parentheses around \<^verbatim>\<open>NOT\<close>.
\<close>

section \<open>Printing\<close>

fun binary_op_name :: "binary_operator \<Rightarrow> string" where
  "binary_op_name Eq = ''=''"
| "binary_op_name Neq = ''<>''"
| "binary_op_name Lt = ''<''"
| "binary_op_name Gt = ''>''"
| "binary_op_name Lte = ''<=''"
| "binary_op_name Gte = ''>=''"
| "binary_op_name And = ''AND''"
| "binary_op_name Or = ''OR''"
| "binary_op_name Add = ''+''"
| "binary_op_name Sub = ''-''"
| "binary_op_name Mul = ''*''"
| "binary_op_name Div = ''/''"

fun print_literal :: "literal \<Rightarrow> string" where
  "print_literal (Integer i) = show_int i"
| "print_literal (Float d) = show_g 6 d"
| "print_literal (Str s) = [CHR 0x27] @ s @ [CHR 0x27]"
| "print_literal (Boolean b) = (if b then ''TRUE'' else ''FALSE'')"
| "print_literal Null = ''NULL''"

fun print_expr :: "expression \<Rightarrow> string" where
  "print_expr (Column t c) = (case t of None \<Rightarrow> c | Some t \<Rightarrow> t @ ''.'' @ c)"
| "print_expr (Lit l) = print_literal l"
| "print_expr (BinaryOp l p r) =
     ''('' @ print_expr l @ '' '' @ binary_op_name p @ '' '' @ print_expr r @ '')''"
| "print_expr (UnaryOp u e) = (if u = UNot then ''NOT '' else ''-'') @ print_expr e"
| "print_expr (Function f args) = f @ ''('' @ join_with '', '' (map print_expr args) @ '')''"
| "print_expr Wildcard = ''*''"

fun print_item :: "select_item \<Rightarrow> string" where
  "print_item SelectWildcard = ''*''"
| "print_item (QualifiedWildcard t) = t @ ''.*''"
| "print_item (SelectExpression e a) =
     print_expr e @ (case a of None \<Rightarrow> '''' | Some a \<Rightarrow> '' AS '' @ a)"

definition print_table_ref :: "table_ref \<Rightarrow> string" where
  "print_table_ref r =
     ref_table_name r @ (case ref_alias r of None \<Rightarrow> '''' | Some a \<Rightarrow> '' '' @ a)"

fun join_keyword :: "join_type \<Rightarrow> string" where
  "join_keyword Inner = '' INNER JOIN ''"
| "join_keyword Left = '' LEFT JOIN ''"
| "join_keyword Right = '' RIGHT JOIN ''"
| "join_keyword Cross = '' CROSS JOIN ''"

definition print_join :: "join_clause \<Rightarrow> string" where
  "print_join j =
     join_keyword (join_kind j) @ print_table_ref (join_table j) @ '' ON '' @
     print_expr (join_condition j)"

definition print_order_item :: "order_by_item \<Rightarrow> string" where
  "print_order_item it =
     print_expr (order_expression it) @ (if order_ascending it then '' ASC'' else '' DESC'')"

fun print_select :: "statement \<Rightarrow> string" where
  "print_select (Select s) =
     ''SELECT '' @ join_with '', '' (map print_item (columns s)) @
     '' FROM '' @ print_table_ref (from_table s) @
     concat (map print_join (joins s)) @
     (case where_clause s of None \<Rightarrow> '''' | Some e \<Rightarrow> '' WHERE '' @ print_expr e) @
     (if group_by s = [] then ''''
      else '' GROUP BY '' @ join_with '', '' (map print_expr (group_by s))) @
     (case having s of None \<Rightarrow> '''' | Some e \<Rightarrow> '' HAVING '' @ print_expr e) @
     (if order_by s = [] then ''''
      else '' ORDER BY '' @ join_with '', '' (map print_order_item (order_by s))) @
     (case limit s of None \<Rightarrow> '''' | Some n \<Rightarrow> '' LIMIT '' @ show_nat n)"

definition to_canonical_sql :: "statement \<Rightarrow> string" where
  "to_canonical_sql st = print_select st"

section \<open>Statements whose canonical text can be read back\<close>

fun not_free :: "expression \<Rightarrow> bool" where
  "not_free (UnaryOp UNot e) = False"
| "not_free _ = True"

fun reads_back :: "expression \<Rightarrow> bool" where
  "reads_back (Column t c) = True"
| "reads_back (Lit l) = (case l of Float _ \<Rightarrow> False | _ \<Rightarrow> True)"
| "reads_back (BinaryOp l p r) =
     (reads_back l \<and> reads_back r \<and> (p \<in> {And, Or} \<or> not_free l \<and> not_free r))"
| "reads_back (UnaryOp u e) = (reads_back e \<and> (u = UNot \<or> not_free e))"
| "reads_back (Function f args) = (\<forall>a \<in> set args. reads_back a)"
| "reads_back Wildcard = True"

fun item_reads_back :: "select_item \<Rightarrow> bool" where
  "item_reads_back (SelectExpression e a) = reads_back e"
| "item_reads_back _ = True"

fun statement_reads_back :: "statement \<Rightarrow> bool" where
  "statement_reads_back (Select s) \<longleftrightarrow>
     list_all item_reads_back (columns s) \<and>
     list_all (\<lambda>j. reads_back (join_condition j)) (joins s) \<and>
     pred_option reads_back (where_clause s) \<and> list_all reads_back (group_by s) \<and>
     pred_option reads_back (having s) \<and>
     list_all (\<lambda>it. reads_back (order_expression it)) (order_by s)"

section \<open>The tokens of a printed statement\<close>

fun op_token :: "binary_operator \<Rightarrow> token" where
  "op_token Eq = TEq"
| "op_token Neq = TNeq"
| "op_token Lt = TLt"
| "op_token Gt = TGt"
| "op_token Lte = TLte"
| "op_token Gte = TGte"
| "op_token And = TAnd"
| "op_token Or = TOr"
| "op_token Add = TPlus"
| "op_token Sub = TMinus"
| "op_token Mul = TStar"
| "op_token Div = TSlash"

fun literal_token :: "literal \<Rightarrow> token" where
  "literal_token (Integer i) = TInteger i"
| "literal_token (Float d) = TFloat d"
| "literal_token (Str s) = TStringLit s"
| "literal_token (Boolean b) = (if b then TTrue else TFalse)"
| "literal_token Null = TNull"

definition name_token :: "string \<Rightarrow> token" where
  "name_token c = (if c = ''*'' then TStar else TIdentifier c)"

fun expr_tokens :: "expression \<Rightarrow> token list" where
  "expr_tokens (Column t c) =
     (case t of None \<Rightarrow> [] | Some t \<Rightarrow> [TIdentifier t, TDot]) @ [name_token c]"
| "expr_tokens (Lit l) = [literal_token l]"
| "expr_tokens (BinaryOp l p r) =
     TLParen # expr_tokens l @ op_token p # expr_tokens r @ [TRParen]"
| "expr_tokens (UnaryOp u e) = (if u = UNot then TNot else TMinus) # expr_tokens e"
| "expr_tokens (Function f args) =
     TIdentifier f # TLParen # join_with [TComma] (map expr_tokens args) @ [TRParen]"
| "expr_tokens Wildcard = [TStar]"

fun item_tokens :: "select_item \<Rightarrow> token list" where
  "item_tokens SelectWildcard = [TStar]"
| "item_tokens (QualifiedWildcard t) = [TIdentifier t, TDot, TStar]"
| "item_tokens (SelectExpression e a) =
     expr_tokens e @ (case a of None \<Rightarrow> [] | Some a \<Rightarrow> [TAs, TIdentifier a])"

definition table_ref_tokens :: "table_ref \<Rightarrow> token list" where
  "table_ref_tokens r =
     TIdentifier (ref_table_name r) # (case ref_alias r of None \<Rightarrow> [] | Some a \<Rightarrow> [TIdentifier a])"

fun join_type_token :: "join_type \<Rightarrow> token" where
  "join_type_token Inner = TInner"
| "join_type_token Left = TLeft"
| "join_type_token Right = TRight"
| "join_type_token Cross = TCross"

definition join_tokens :: "join_clause \<Rightarrow> token list" where
  "join_tokens j =
     join_type_token (join_kind j) # TJoin # table_ref_tokens (join_table j) @
     TOn # expr_tokens (join_condition j)"

definition order_tokens :: "order_by_item \<Rightarrow> token list" where
  "order_tokens it =
     expr_tokens (order_expression it) @ [if order_ascending it then TAsc else TDesc]"

fun statement_tokens :: "statement \<Rightarrow> token list" where
  "statement_tokens (Select s) =
     TSelect # join_with [TComma] (map item_tokens (columns s)) @
     TFrom # table_ref_tokens (from_table s) @
     concat (map join_tokens (joins s)) @
     (case where_clause s of None \<Rightarrow> [] | Some e \<Rightarrow> TWhere # expr_tokens e) @
     (if group_by s = [] then []
      else TGroup # TBy # join_with [TComma] (map expr_tokens (group_by s))) @
     (case having s of None \<Rightarrow> [] | Some e \<Rightarrow> THaving # expr_tokens e) @
     (if order_by s = [] then []
      else TOrder # TBy # join_with [TComma] (map order_tokens (order_by s))) @
     (case limit s of None \<Rightarrow> [] | Some n \<Rightarrow> [TLimit, TInteger (int n)])"

section \<open>Lexing printed text\<close>

definition prepend :: "token list \<Rightarrow> token list result \<Rightarrow> token list result" where
  "prepend ts r = rbind r (\<lambda>us. Inr (ts @ us))"

lemma prepend_Nil [simp]: "prepend [] r = r"
  by (cases r) (simp_all add: prepend_def)

lemma prepend_prepend [simp]: "prepend ts (prepend us r) = prepend (ts @ us) r"
  by (cases r) (simp_all add: prepend_def)

lemma prepend_Inr [simp]: "prepend ts (Inr us) = Inr (ts @ us)"
  by (simp add: prepend_def)

lemma tokenize_step: "next_token s = Inr (t, s') \<Longrightarrow> t \<noteq> TEof \<Longrightarrow> tokenize s = prepend [t] (tokenize s')"
  by (subst tokenize.simps) (simp add: prepend_def)

lemma tokenize_space [simp]: "tokenize (CHR '' '' # s) = tokenize s"
  using tokenize_whitespace [of "'' ''" s] by (simp add: isspace_def)

lemma tokenize_Nil [simp]: "tokenize [] = Inr [TEof]"
  by (subst tokenize.simps) (simp add: next_token_def skip_whitespace_def)

lemma tokenize_punct [simp]:
  "tokenize (CHR '','' # s) = prepend [TComma] (tokenize s)"
  "tokenize (CHR ''.'' # s) = prepend [TDot] (tokenize s)"
  "tokenize (CHR ''('' # s) = prepend [TLParen] (tokenize s)"
  "tokenize (CHR '')'' # s) = prepend [TRParen] (tokenize s)"
  "tokenize (CHR ''-'' # s) = prepend [TMinus] (tokenize s)"
  "tokenize (CHR ''*'' # s) = prepend [TStar] (tokenize s)"
  by (rule tokenize_step; simp add: next_token_def skip_whitespace_def isspace_def)+

text \<open>What may follow a word, and what may follow any expression, so that the lexer stops there.\<close>

definition word_stop :: "string \<Rightarrow> bool" where
  "word_stop s \<longleftrightarrow> s = [] \<or> \<not> word_char (hd s)"

definition delimited :: "string \<Rightarrow> bool" where
  "delimited s \<longleftrightarrow> s = [] \<or> hd s \<in> {CHR '' '', CHR '','', CHR '')''}"

lemma delimited_simps [simp]:
  "delimited []" "delimited (CHR '' '' # s)" "delimited (CHR '','' # s)" "delimited (CHR '')'' # s)"
  by (simp_all add: delimited_def)

lemma word_stop_simps [simp]:
  "word_stop []" "word_stop (CHR '' '' # s)" "word_stop (CHR ''.'' # s)" "word_stop (CHR ''('' # s)"
  by (simp_all add: word_stop_def word_char_def char_class_simps)

lemma delimited_word_stop: "delimited s \<Longrightarrow> word_stop s"
  by (auto simp: word_stop_def delimited_def word_char_def char_class_simps)

text \<open>A word is read whole, whether it is a keyword or an identifier.\<close>

lemma word_start_not_punct:
  assumes "word_start c"
  shows "c \<notin> {CHR '','', CHR ''.'', CHR ''('', CHR '')'', CHR ''+'', CHR ''-'', CHR ''*'', CHR ''/'',
    CHR ''='', CHR ''<'', CHR ''>'', CHR ''!'', CHR 0x27}" "\<not> isdigit c" "\<not> isspace c"
  using assms by (auto simp: word_start_def char_class_simps)

lemma lex_at_word:
  assumes "word_start c"
  shows "lex_at (c # s) = Inr (lex_word (c # s))"
  using word_start_not_punct [OF assms] assms by simp

lemma tokenize_word:
  assumes w: "w \<noteq> []" "word_start (hd w)" "list_all word_char w" and s: "word_stop s"
  shows "tokenize (w @ s) = prepend
    [case map_of keyword_table (to_upper w) of Some t \<Rightarrow> t | None \<Rightarrow> TIdentifier w] (tokenize s)"
proof -
  obtain c cs where c: "w = c # cs" using w(1) by (cases w) auto
  have all: "\<And>x. x \<in> set w \<Longrightarrow> word_char x" and stop: "s = [] \<or> \<not> word_char (hd s)"
    using w(3) s by (simp_all add: word_stop_def list_all_iff)
  note take = takeWhile_append_stop [of w word_char s, OF all stop]
    dropWhile_append_stop [of w word_char s, OF all stop]
  have "next_token (w @ s) = Inr (lex_word (w @ s))"
    using w(2) word_start_not_punct(3) [of c] lex_at_word [of c "cs @ s"]
    by (simp add: next_token_def skip_whitespace_def c)
  moreover have "lex_word (w @ s) =
      (case map_of keyword_table (to_upper w) of Some t \<Rightarrow> t | None \<Rightarrow> TIdentifier w, s)"
    by (simp only: lex_word_def take Let_def)
  ultimately show ?thesis
    by (intro tokenize_step) (auto split: option.splits dest: keyword_tokens_ok)
qed

lemma tokenize_ident: "valid_ident w \<Longrightarrow> word_stop s \<Longrightarrow>
    tokenize (w @ s) = prepend [TIdentifier w] (tokenize s)"
  by (subst tokenize_word) (auto simp: valid_ident_def)

lemma digit_not_space: "isdigit c \<Longrightarrow> \<not> isspace c"
  by (auto simp: char_class_simps)

lemma lex_at_digit:
  assumes "isdigit c"
  shows "lex_at (c # s) = lex_number (c # s)"
proof -
  have "c \<notin> {CHR '','', CHR ''.'', CHR ''('', CHR '')'', CHR ''+'', CHR ''-'', CHR ''*'', CHR ''/'',
    CHR ''='', CHR ''<'', CHR ''>'', CHR ''!'', CHR 0x27}"
    using assms by (auto simp: isdigit_def)
  with assms show ?thesis by simp
qed

lemma tokenize_int:
  assumes "0 \<le> i" "in_int64 i" "delimited s"
  shows "tokenize (show_int i @ s) = prepend [TInteger i] (tokenize s)"
proof (rule tokenize_step)
  let ?w = "show_dec i"
  have digits: "\<And>c. c \<in> set ?w \<Longrightarrow> isdigit c" using assms(1) show_dec_digits by blast
  have stop: "s = [] \<or> \<not> isdigit (hd s)" "lex_peek s \<noteq> Some CHR ''.''"
    using assms(3) by (cases s; auto simp: delimited_def isdigit_def)+
  obtain c cs where c: "?w = c # cs" by (cases ?w) auto
  have cd: "isdigit c" using digits c by simp
  have "lex_at (?w @ s) = lex_number (?w @ s)" using lex_at_digit [OF cd] by (simp add: c)
  also have "\<dots> = Inr (TInteger i, s)"
    using assms(1,2) takeWhile_append_stop [of ?w isdigit s, OF digits stop(1)]
      dropWhile_append_stop [of ?w isdigit s, OF digits stop(1)]
      stop(2) by (simp add: lex_number_def stoll_digits_def in_int64_def)
  finally show "next_token (show_int i @ s) = Inr (TInteger i, s)"
    using cd assms(1) digit_not_space [OF cd]
    by (simp add: next_token_def skip_whitespace_def show_int_def c del: lex_at.simps)
qed simp

lemma lex_string_quoted: "CHR 0x27 \<notin> set b \<Longrightarrow> lex_string (b @ CHR 0x27 # s) = Inr (b, s)"
  by (induction b) auto

lemma tokenize_string: "CHR 0x27 \<notin> set b \<Longrightarrow>
    tokenize (CHR 0x27 # b @ CHR 0x27 # s) = prepend [TStringLit b] (tokenize s)"
  by (rule tokenize_step)
    (simp_all add: next_token_def skip_whitespace_def isspace_def lex_string_quoted)

lemma tokenize_keyword:
  assumes "map_of keyword_table w = Some t" "word_stop s"
  shows "tokenize (w @ s) = prepend [t] (tokenize s)"
proof -
  have "w \<in> set (map fst keyword_table)"
    using assms(1) by (metis (no_types) image_set map_of_eq_None_iff option.distinct(1))
  moreover have "list_all (\<lambda>w. w \<noteq> [] \<and> word_start (hd w) \<and> list_all word_char w \<and> to_upper w = w)
      (map fst keyword_table)"
    by code_simp
  ultimately show ?thesis using assms by (subst tokenize_word) (auto simp: list_all_iff)
qed

lemmas tokenize_keywords =
  tokenize_keyword [of "''SELECT''" TSelect, simplified keyword_table_def, simplified]
  tokenize_keyword [of "''FROM''" TFrom, simplified keyword_table_def, simplified]
  tokenize_keyword [of "''WHERE''" TWhere, simplified keyword_table_def, simplified]
  tokenize_keyword [of "''JOIN''" TJoin, simplified keyword_table_def, simplified]
  tokenize_keyword [of "''INNER''" TInner, simplified keyword_table_def, simplified]
  tokenize_keyword [of "''LEFT''" TLeft, simplified keyword_table_def, simplified]
  tokenize_keyword [of "''RIGHT''" TRight, simplified keyword_table_def, simplified]
  tokenize_keyword [of "''CROSS''" TCross, simplified keyword_table_def, simplified]
  tokenize_keyword [of "''ON''" TOn, simplified keyword_table_def, simplified]
  tokenize_keyword [of "''AND''" TAnd, simplified keyword_table_def, simplified]
  tokenize_keyword [of "''OR''" TOr, simplified keyword_table_def, simplified]
  tokenize_keyword [of "''NOT''" TNot, simplified keyword_table_def, simplified]
  tokenize_keyword [of "''AS''" TAs, simplified keyword_table_def, simplified]
  tokenize_keyword [of "''ORDER''" TOrder, simplified keyword_table_def, simplified]
  tokenize_keyword [of "''BY''" TBy, simplified keyword_table_def, simplified]
  tokenize_keyword [of "''GROUP''" TGroup, simplified keyword_table_def, simplified]
  tokenize_keyword [of "''LIMIT''" TLimit, simplified keyword_table_def, simplified]
  tokenize_keyword [of "''ASC''" TAsc, simplified keyword_table_def, simplified]
  tokenize_keyword [of "''DESC''" TDesc, simplified keyword_table_def, simplified]
  tokenize_keyword [of "''HAVING''" THaving, simplified keyword_table_def, simplified]
  tokenize_keyword [of "''NULL''" TNull, simplified keyword_table_def, simplified]
  tokenize_keyword [of "''TRUE''" TTrue, simplified keyword_table_def, simplified]
  tokenize_keyword [of "''FALSE''" TFalse, simplified keyword_table_def, simplified]

lemma tokenize_op: "tokenize (binary_op_name p @ CHR '' '' # s) = prepend [op_token p] (tokenize s)"
proof (cases "p \<in> {And, Or}")
  case True
  then show ?thesis by (auto simp: tokenize_keywords)
next
  case False
  then have "next_token (binary_op_name p @ CHR '' '' # s) = Inr (op_token p, CHR '' '' # s)"
    by (cases p) (simp_all add: next_token_def skip_whitespace_def isspace_def)
  then have "tokenize (binary_op_name p @ CHR '' '' # s) = prepend [op_token p] (tokenize (CHR '' '' # s))"
    by (rule tokenize_step) (cases p; simp)
  then show ?thesis by simp
qed

lemma tokenize_literal:
  assumes "source_literal l" "reads_back (Lit l)" "delimited s"
  shows "tokenize (print_literal l @ s) = prepend [literal_token l] (tokenize s)"
  using assms by (cases l)
    (auto simp: tokenize_int tokenize_string tokenize_keywords delimited_word_stop)

lemma tokenize_join:
  assumes "\<And>x s. x \<in> set xs \<Longrightarrow> delimited s \<Longrightarrow> tokenize (f x @ s) = prepend (g x) (tokenize s)"
    and "delimited s"
  shows "tokenize (join_with '', '' (map f xs) @ s) = prepend (join_with [TComma] (map g xs)) (tokenize s)"
  using assms(1)
proof (induction xs)
  case (Cons x xs)
  then show ?case using assms(2) by (cases "xs = []") (simp_all add: join_with_Cons)
qed simp

lemma tokenize_expr:
  "source_expr e \<or> e = Wildcard \<Longrightarrow> reads_back e \<Longrightarrow> delimited s \<Longrightarrow>
     tokenize (print_expr e @ s) = prepend (expr_tokens e) (tokenize s)"
proof (induction e arbitrary: s)
  case (Column t c)
  then show ?case
    by (auto simp: tokenize_ident delimited_word_stop name_token_def valid_ident_def word_start_def
        char_class_simps split: option.splits)
next
  case (Lit l)
  then show ?case by (simp add: tokenize_literal)
next
  case (BinaryOp l p r)
  then show ?case using tokenize_op [of p "print_expr r @ CHR '')'' # s"] by simp
next
  case (UnaryOp u e)
  then show ?case by (cases u) (simp_all add: tokenize_keywords)
next
  case (Function f args)
  have "tokenize (join_with '', '' (map print_expr args) @ CHR '')'' # s) =
      prepend (join_with [TComma] (map expr_tokens args)) (tokenize (CHR '')'' # s))"
    using Function by (intro tokenize_join) auto
  with Function.prems show ?case by (simp add: tokenize_ident)
qed simp

lemma tokenize_item:
  assumes "source_item it" "item_reads_back it" "delimited s"
  shows "tokenize (print_item it @ s) = prepend (item_tokens it) (tokenize s)"
  using assms by (cases it)
    (auto simp: tokenize_expr tokenize_ident tokenize_keywords delimited_word_stop split: option.splits)

lemma tokenize_table_ref:
  assumes "source_table_ref r" "delimited s"
  shows "tokenize (print_table_ref r @ s) = prepend (table_ref_tokens r) (tokenize s)"
  using assms
  by (auto simp: source_table_ref_def print_table_ref_def table_ref_tokens_def tokenize_ident
      delimited_word_stop split: option.splits)

lemma tokenize_joins:
  assumes "list_all source_join js" "list_all (\<lambda>j. reads_back (join_condition j)) js" "delimited s"
  shows "tokenize (concat (map print_join js) @ s) = prepend (concat (map join_tokens js)) (tokenize s)
    \<and> delimited (concat (map print_join js) @ s)"
  using assms
proof (induction js)
  case (Cons j js)
  have "tokenize (join_keyword k @ u) = prepend [join_type_token k, TJoin] (tokenize u)" for k u
    by (cases k) (simp_all add: tokenize_keywords)
  moreover have "delimited (join_keyword k @ u)" for k u by (cases k) simp_all
  ultimately show ?case using Cons
    by (simp add: print_join_def join_tokens_def source_join_def tokenize_table_ref tokenize_expr
        tokenize_keywords)
qed simp

lemma tokenize_order_item:
  assumes "source_expr (order_expression it)" "reads_back (order_expression it)" "delimited s"
  shows "tokenize (print_order_item it @ s) = prepend (order_tokens it) (tokenize s)"
  using assms
  by (simp add: print_order_item_def order_tokens_def tokenize_expr tokenize_keywords delimited_word_stop)

text \<open>The optional clauses, each followed by the text of the later ones.\<close>

lemma tokenize_opt_expr:
  assumes "pred_option source_expr c" "pred_option reads_back c" "delimited s"
    and "\<And>u. word_stop u \<Longrightarrow> tokenize (kw @ u) = prepend [t] (tokenize u)"
  shows "tokenize ((case c of None \<Rightarrow> [] | Some e \<Rightarrow> CHR '' '' # kw @ CHR '' '' # print_expr e) @ s) =
      prepend (case c of None \<Rightarrow> [] | Some e \<Rightarrow> t # expr_tokens e) (tokenize s) \<and>
    delimited ((case c of None \<Rightarrow> [] | Some e \<Rightarrow> CHR '' '' # kw @ CHR '' '' # print_expr e) @ s)"
  using assms by (cases c) (simp_all add: tokenize_expr)

lemma tokenize_by:
  assumes "\<And>x s. x \<in> set xs \<Longrightarrow> delimited s \<Longrightarrow> tokenize (f x @ s) = prepend (g x) (tokenize s)"
    and "delimited s" and "\<And>u. word_stop u \<Longrightarrow> tokenize (kw @ u) = prepend [t] (tokenize u)"
  shows "tokenize ((if xs = [] then [] else CHR '' '' # kw @ '' BY '' @ join_with '', '' (map f xs)) @ s) =
      prepend (if xs = [] then [] else t # TBy # join_with [TComma] (map g xs)) (tokenize s) \<and>
    delimited ((if xs = [] then [] else CHR '' '' # kw @ '' BY '' @ join_with '', '' (map f xs)) @ s)"
  using assms(2,3) tokenize_join [of xs f g, OF assms(1)]
  by (auto simp: tokenize_keywords)

lemma tokenize_limit:
  assumes "pred_option (\<lambda>n. int n \<le> int64_max) l"
  shows "tokenize (case l of None \<Rightarrow> [] | Some n \<Rightarrow> '' LIMIT '' @ show_nat n) =
      Inr ((case l of None \<Rightarrow> [] | Some n \<Rightarrow> [TLimit, TInteger (int n)]) @ [TEof]) \<and>
    delimited (case l of None \<Rightarrow> [] | Some n \<Rightarrow> '' LIMIT '' @ show_nat n)"
proof (cases l)
  case (Some n)
  with assms have "tokenize (show_int (int n) @ []) = prepend [TInteger (int n)] (tokenize [])"
    by (intro tokenize_int) (auto simp: in_int64_def int64_min_def)
  then show ?thesis using Some by (simp add: tokenize_keywords show_nat_def show_int_def)
qed simp

lemma tokenize_canonical:
  assumes "source_statement st" "statement_reads_back st"
  shows "tokenize (to_canonical_sql st) = Inr (statement_tokens st @ [TEof])"
proof -
  obtain s where st: "st = Select s" by (cases st)
  note ok = assms [unfolded st source_statement.simps statement_reads_back.simps]
  define L where "L = (case limit s of None \<Rightarrow> [] | Some n \<Rightarrow> '' LIMIT '' @ show_nat n)"
  define O' where "O' = (if order_by s = [] then []
    else '' ORDER BY '' @ join_with '', '' (map print_order_item (order_by s)))"
  define H where "H = (case having s of None \<Rightarrow> [] | Some e \<Rightarrow> '' HAVING '' @ print_expr e)"
  define G where "G = (if group_by s = [] then []
    else '' GROUP BY '' @ join_with '', '' (map print_expr (group_by s)))"
  define W where "W = (case where_clause s of None \<Rightarrow> [] | Some e \<Rightarrow> '' WHERE '' @ print_expr e)"
  define J where "J = concat (map print_join (joins s))"
  note defs = L_def O'_def H_def G_def W_def J_def
  have L: "tokenize L = Inr ((case limit s of None \<Rightarrow> [] | Some n \<Rightarrow> [TLimit, TInteger (int n)]) @ [TEof])"
      "delimited L"
    using tokenize_limit [of "limit s"] ok unfolding L_def by blast+
  have O': "tokenize (O' @ u) = prepend (if order_by s = [] then []
      else TOrder # TBy # join_with [TComma] (map order_tokens (order_by s))) (tokenize u)"
      "delimited (O' @ u)" if "delimited u" for u
    using tokenize_by [of "order_by s" print_order_item order_tokens u "''ORDER''" TOrder] ok that
    by (cases "order_by s = []";
        simp add: O'_def tokenize_order_item tokenize_keywords list_all_iff)+
  have H: "tokenize (H @ u) = prepend (case having s of None \<Rightarrow> [] | Some e \<Rightarrow> THaving # expr_tokens e)
      (tokenize u)" "delimited (H @ u)" if "delimited u" for u
    using tokenize_opt_expr [of "having s" u "''HAVING''" THaving] ok that
    by (cases "having s"; simp add: H_def tokenize_keywords)+
  have G: "tokenize (G @ u) = prepend (if group_by s = [] then []
      else TGroup # TBy # join_with [TComma] (map expr_tokens (group_by s))) (tokenize u)"
      "delimited (G @ u)" if "delimited u" for u
    using tokenize_by [of "group_by s" print_expr expr_tokens u "''GROUP''" TGroup] ok that
    by (cases "group_by s = []"; simp add: G_def tokenize_expr tokenize_keywords list_all_iff)+
  have W: "tokenize (W @ u) = prepend (case where_clause s of None \<Rightarrow> [] | Some e \<Rightarrow> TWhere # expr_tokens e)
      (tokenize u)" "delimited (W @ u)" if "delimited u" for u
    using tokenize_opt_expr [of "where_clause s" u "''WHERE''" TWhere] ok that
    by (cases "where_clause s"; simp add: W_def tokenize_keywords)+
  have J: "tokenize (J @ u) = prepend (concat (map join_tokens (joins s))) (tokenize u)"
      "delimited (J @ u)" if "delimited u" for u
    using tokenize_joins [of "joins s" u] ok that by (simp_all add: J_def)
  have C: "tokenize (join_with '', '' (map print_item (columns s)) @ u) =
      prepend (join_with [TComma] (map item_tokens (columns s))) (tokenize u)" if "delimited u" for u
    using ok that by (intro tokenize_join) (auto simp: list_all_iff tokenize_item)
  show ?thesis
    using ok C L O' H G W J unfolding st to_canonical_sql_def print_select.simps defs [symmetric]
    by (simp add: tokenize_keywords tokenize_table_ref split del: if_split)
qed

section \<open>Parsing the tokens of a printed expression\<close>

text \<open>The token after an operand of the levels below \<^verbatim>\<open>NOT\<close>, and the one after a full expression.\<close>

definition ends_operand :: "token list \<Rightarrow> bool" where
  "ends_operand ts \<longleftrightarrow> peek ts \<notin> {TLParen, TDot}"

definition ends_comparison :: "token list \<Rightarrow> bool" where
  "ends_comparison ts \<longleftrightarrow> ends_operand ts \<and> multiplicative_op (peek ts) = None \<and>
     additive_op (peek ts) = None \<and> comparison_op (peek ts) = None"

definition ends_expr :: "token list \<Rightarrow> bool" where
  "ends_expr ts \<longleftrightarrow> ends_comparison ts \<and> peek ts \<notin> {TAnd, TOr}"

lemmas ends_defs = ends_operand_def ends_comparison_def ends_expr_def additive_op_def multiplicative_op_def

lemma parse_binary_pass:
  "p ts = Inr (e, rest) \<Longrightarrow> opf (peek rest) = None \<Longrightarrow> parse_binary opf p ts = Inr (e, rest)"
  by (simp add: parse_binary_def)

lemma parse_binary_one:
  assumes "p ts = Inr (l, t # ts')" "opf t = Some q" "p ts' = Inr (r, rest)" "opf (peek rest) = None"
  shows "parse_binary opf p ts = Inr (BinaryOp l q r, rest)"
  using assms by (simp add: parse_binary_def)

lemma parse_additive_pass:
  assumes "parse_unary pe ts = Inr (e, rest)" "multiplicative_op (peek rest) = None"
    "additive_op (peek rest) = None"
  shows "parse_additive pe ts = Inr (e, rest)"
  unfolding parse_additive_def parse_multiplicative_def
  using assms by (intro parse_binary_pass)

lemma parse_not_pass:
  assumes "parse_comparison pe ts = Inr (e, rest)" "peek ts \<noteq> TNot"
  shows "parse_not pe ts = Inr (e, rest)"
  using assms by (subst parse_not.simps) simp

lemma parse_not_unary:
  assumes "parse_unary pe ts = Inr (e, rest)" "ends_comparison rest" "peek ts \<noteq> TNot"
  shows "parse_not pe ts = Inr (e, rest)"
  using assms parse_additive_pass [OF assms(1)]
  by (intro parse_not_pass) (simp_all add: parse_comparison_def ends_comparison_def)

lemma parse_or_not:
  assumes "parse_not pe ts = Inr (e, rest)" "ends_expr rest"
  shows "parse_or pe ts = Inr (e, rest)"
  unfolding parse_or_def parse_and_def
  using assms by (intro parse_binary_pass) (simp_all add: ends_expr_def)

text \<open>
  One binary operator between operands that each parser level below it reads as a whole, up to a
  closing parenthesis: this is where the precedence levels meet the printer's parentheses.
\<close>

lemma parse_or_binary:
  assumes l: "p \<notin> {And, Or} \<Longrightarrow> parse_unary pe ts = Inr (l, op_token p # ts')"
      "p \<in> {And, Or} \<Longrightarrow> parse_not pe ts = Inr (l, op_token p # ts')"
    and r: "p \<notin> {And, Or} \<Longrightarrow> parse_unary pe ts' = Inr (r, TRParen # rest)"
      "p \<in> {And, Or} \<Longrightarrow> parse_not pe ts' = Inr (r, TRParen # rest)"
    and hd: "p \<notin> {And, Or} \<Longrightarrow> peek ts \<noteq> TNot"
  shows "parse_or pe ts = Inr (BinaryOp l p r, TRParen # rest)"
proof -
  have stop: "ends_expr (TRParen # rest)" by (simp add: ends_defs)
  consider "p = Or" | "p = And" | "p \<in> {Mul, Div}" | "p \<in> {Add, Sub}" | "comparison_op (op_token p) = Some p"
    by (cases p) auto
  then show ?thesis
  proof cases
    case 1
    then show ?thesis using l(2) r(2) unfolding parse_or_def parse_and_def
      by (intro parse_binary_one parse_binary_pass) auto
  next
    case 2
    then have "parse_and pe ts = Inr (BinaryOp l p r, TRParen # rest)"
      using l(2) r(2) unfolding parse_and_def by (intro parse_binary_one) auto
    then show ?thesis unfolding parse_or_def by (intro parse_binary_pass) auto
  next
    case 3
    then have "parse_multiplicative pe ts = Inr (BinaryOp l p r, TRParen # rest)"
      using l(1) r(1) unfolding parse_multiplicative_def
      by (intro parse_binary_one [where t = "op_token p"]) (auto simp: multiplicative_op_def)
    then have "parse_additive pe ts = Inr (BinaryOp l p r, TRParen # rest)"
      unfolding parse_additive_def by (intro parse_binary_pass) (auto simp: additive_op_def)
    then have "parse_not pe ts = Inr (BinaryOp l p r, TRParen # rest)"
      using 3 hd by (intro parse_not_pass) (auto simp: parse_comparison_def)
    then show ?thesis using stop by (rule parse_or_not)
  next
    case 4
    then have "parse_additive pe ts = Inr (BinaryOp l p r, TRParen # rest)"
      using l(1) r(1) unfolding parse_additive_def parse_multiplicative_def
      by (intro parse_binary_one [where t = "op_token p"] parse_binary_pass)
        (auto simp: additive_op_def multiplicative_op_def)
    then have "parse_not pe ts = Inr (BinaryOp l p r, TRParen # rest)"
      using 4 hd by (intro parse_not_pass) (auto simp: parse_comparison_def)
    then show ?thesis using stop by (rule parse_or_not)
  next
    case 5
    then have p: "p \<notin> {And, Or}" "multiplicative_op (op_token p) = None" "additive_op (op_token p) = None"
      by (cases p; simp add: multiplicative_op_def additive_op_def)+
    then have "parse_additive pe ts = Inr (l, op_token p # ts')"
      "parse_additive pe ts' = Inr (r, TRParen # rest)"
      using l(1) r(1) by (intro parse_additive_pass; simp add: multiplicative_op_def additive_op_def)+
    then have "parse_not pe ts = Inr (BinaryOp l p r, TRParen # rest)"
      using 5 p hd by (intro parse_not_pass) (auto simp: parse_comparison_def)
    then show ?thesis using stop by (rule parse_or_not)
  qed
qed

fun nesting :: "expression \<Rightarrow> nat" where
  "nesting (BinaryOp l p r) = Suc (max (nesting l) (nesting r))"
| "nesting (UnaryOp u e) = nesting e"
| "nesting (Function f args) = Suc (Max (insert 0 (nesting ` set args)))"
| "nesting _ = 0"

lemma expr_tokens_not_Nil [simp]: "expr_tokens e \<noteq> []"
  by (induction e) auto

lemma peek_append [simp]: "ts \<noteq> [] \<Longrightarrow> peek (ts @ us) = hd ts"
  by (cases ts) auto

lemma hd_expr_tokens:
  "source_expr e \<Longrightarrow> hd (expr_tokens e) \<notin> {TRParen, TStar} \<and> (not_free e \<longrightarrow> hd (expr_tokens e) \<noteq> TNot)"
proof (induction e rule: source_expr.induct)
  case (3 l)
  then show ?case by (cases l) auto
next
  case (1 c)
  then show ?case by (auto simp: name_token_def valid_ident_def word_start_def char_class_simps)
next
  case (5 u e)
  then show ?case by (cases u) auto
qed auto

lemma valid_ident_star [simp]: "\<not> valid_ident ''*''"
  by (auto simp: valid_ident_def word_start_def char_class_simps)

lemma length_join_tokens: "(\<And>x. x \<in> set xs \<Longrightarrow> g x \<noteq> []) \<Longrightarrow>
    length xs \<le> length (join_with [t] (map g xs))"
proof (induction xs)
  case (Cons x xs)
  then have "length (g x) > 0" by simp
  with Cons show ?case by (cases "xs = []") (auto simp: join_with_Cons Suc_le_eq simp del: length_greater_0_conv)
qed simp

lemma comma_loop_back:
  assumes "\<And>x r. x \<in> set xs \<Longrightarrow> stop r \<Longrightarrow> p (g x @ r) = Inr (x, r)"
    and "xs \<noteq> []" "length xs \<le> k" and stop: "\<And>r. stop (TComma # r)" "stop rest" "peek rest \<noteq> TComma"
  shows "comma_loop p k (join_with [TComma] (map g xs) @ rest) = Inr (xs, rest)"
  using assms(1-3)
proof (induction xs arbitrary: k)
  case (Cons x xs)
  then obtain k' where k: "k = Suc k'" by (cases k) auto
  show ?case
  proof (cases "xs = []")
    case True
    with Cons.prems(1) [of x rest] stop k show ?thesis by simp
  next
    case False
    have "comma_loop p k' (join_with [TComma] (map g xs) @ rest) = Inr (xs, rest)"
      using Cons.prems False k by (intro Cons.IH) auto
    then show ?thesis
      using False k stop Cons.prems(1) [of x "TComma # join_with [TComma] (map g xs) @ rest"]
      by (simp add: join_with_Cons)
  qed
qed simp

lemma parse_expr_depth_back:
  assumes "parse_not (parse_expr_depth n) (expr_tokens e @ rest) = Inr (e, rest)" "ends_expr rest"
  shows "parse_expr_depth (Suc n) (expr_tokens e @ rest) = Inr (e, rest)"
  using parse_or_not [OF assms] by simp

lemma peek_join_tokens: "x \<in> set xs \<Longrightarrow> (\<And>x. x \<in> set xs \<Longrightarrow> g x \<noteq> []) \<Longrightarrow>
    peek (join_with [TComma] (map g xs) @ ts) = hd (g (hd xs))"
  by (cases xs; cases "tl xs") auto

lemma parse_call_back:
  assumes args: "\<And>a r. a \<in> set args \<Longrightarrow> ends_expr r \<Longrightarrow> pe (expr_tokens a @ r) = Inr (a, r)"
    and src: "args = [Wildcard] \<or> (\<forall>a \<in> set args. source_expr a)"
  shows "parse_call pe f (join_with [TComma] (map expr_tokens args) @ TRParen # rest) =
    Inr (Function f args, rest)"
proof (cases "args = [] \<or> args = [Wildcard]")
  case True
  then show ?thesis by (auto simp: parse_call_def)
next
  case False
  let ?ts = "join_with [TComma] (map expr_tokens args) @ TRParen # rest"
  have hd: "peek ?ts \<notin> {TRParen, TStar}"
    using False src hd_expr_tokens [of "hd args"] peek_join_tokens [of "hd args" args expr_tokens]
    by auto
  have "comma_loop pe (Suc (length ?ts)) ?ts = Inr (args, TRParen # rest)"
    using False length_join_tokens [of args expr_tokens TComma]
    by (intro comma_loop_back [where stop = ends_expr, OF args]) (auto simp: ends_defs)
  with hd show ?thesis by (auto simp: parse_call_def parse_expr_list_with_def simp del: comma_loop.simps)
qed

lemma parse_back:
  "source_expr e \<Longrightarrow> reads_back e \<Longrightarrow> nesting e \<le> n \<Longrightarrow>
   (not_free e \<longrightarrow> ends_operand rest \<longrightarrow>
      parse_unary (parse_expr_depth n) (expr_tokens e @ rest) = Inr (e, rest)) \<and>
   (ends_comparison rest \<longrightarrow> parse_not (parse_expr_depth n) (expr_tokens e @ rest) = Inr (e, rest))"
proof (induction e arbitrary: n rest)
  case (UnaryOp u e)
  then show ?case
  proof (cases u)
    case UNot
    then show ?thesis using UnaryOp by (subst parse_not.simps) simp
  next
    case UNeg
    with UnaryOp have unary: "ends_operand rest \<Longrightarrow>
        parse_unary (parse_expr_depth n) (expr_tokens (UnaryOp u e) @ rest) = Inr (UnaryOp u e, rest)"
      by (subst parse_unary.simps) simp
    then show ?thesis using UNeg by (auto intro: parse_not_unary simp: ends_comparison_def)
  qed
next
  case (BinaryOp l p r)
  obtain m where n: "n = Suc m" "nesting l \<le> m" "nesting r \<le> m" using BinaryOp.prems(3) by (cases n) auto
  have ends: "ends_operand (op_token p # ts)" "ends_operand (TRParen # ts)"
    "ends_comparison (TRParen # ts)" "p \<in> {And, Or} \<Longrightarrow> ends_comparison (op_token p # ts)" for ts
    by (cases p; auto simp: ends_defs)+
  have "parse_or (parse_expr_depth m) (expr_tokens l @ op_token p # expr_tokens r @ TRParen # rest)
      = Inr (BinaryOp l p r, TRParen # rest)"
    using BinaryOp n ends hd_expr_tokens [of l] by (intro parse_or_binary) auto
  then have unary: "parse_unary (parse_expr_depth n) (expr_tokens (BinaryOp l p r) @ rest) = Inr (BinaryOp l p r, rest)"
    by (subst parse_unary.simps) (simp add: parse_primary_def n)
  then show ?case by (auto intro: parse_not_unary)
next
  case (Function f args)
  obtain m where n: "n = Suc m" using Function.prems(3) by (cases n) auto
  have nest: "nesting a \<le> m" if "a \<in> set args" for a using Function.prems(3) n that by simp
  have "parse_call (parse_expr_depth n) f (join_with [TComma] (map expr_tokens args) @ TRParen # rest) =
      Inr (Function f args, rest)"
  proof (cases "args = [Wildcard]")
    case True
    then show ?thesis by (simp add: parse_call_def)
  next
    case False
    have "parse_expr_depth n (expr_tokens a @ r) = Inr (a, r)" if "a \<in> set args" "ends_expr r" for a r
      unfolding n using that False Function nest
      by (intro parse_expr_depth_back) (auto simp: ends_expr_def)
    with Function.prems show ?thesis by (intro parse_call_back) auto
  qed
  then have "parse_unary (parse_expr_depth n) (expr_tokens (Function f args) @ rest) = Inr (Function f args, rest)"
    by (subst parse_unary.simps) (simp add: parse_primary_def)
  then show ?case by (auto intro: parse_not_unary)
next
  case (Column t c)
  have "parse_unary (parse_expr_depth n) (expr_tokens (Column t c) @ rest) = Inr (Column t c, rest)"
    if "ends_operand rest"
    using Column.prems that
    by (subst parse_unary.simps)
      (auto simp: parse_primary_def parse_qualified_def name_token_def ends_operand_def split: option.splits)
  moreover have "peek (expr_tokens (Column t c) @ rest) \<noteq> TNot"
    by (auto simp: name_token_def split: option.splits)
  ultimately show ?case by (auto intro: parse_not_unary simp: ends_comparison_def)
next
  case (Lit l)
  have "parse_unary (parse_expr_depth n) (expr_tokens (Lit l) @ rest) = Inr (Lit l, rest)"
    by (subst parse_unary.simps) (cases l; simp add: parse_primary_def)
  moreover have "peek (expr_tokens (Lit l) @ rest) \<noteq> TNot" by (cases l) auto
  ultimately show ?case by (auto intro: parse_not_unary)
qed simp

lemma nesting_le_tokens: "nesting e < length (expr_tokens e)"
proof (induction e)
  case (Function f args)
  have "length (expr_tokens a) \<le> length (join_with [TComma] (map expr_tokens args))" if "a \<in> set args" for a
    using that by (intro length_join_member) simp
  with Function show ?case by (force simp: less_Suc_eq_le)
qed auto

lemma parse_expr_back:
  assumes "source_expr e" "reads_back e" "ends_expr rest"
  shows "parse_expr (expr_tokens e @ rest) = Inr (e, rest)"
  unfolding parse_expr_def using assms nesting_le_tokens [of e] parse_back [of e _ rest]
  by (intro parse_expr_depth_back) (simp_all add: ends_expr_def)

section \<open>Parsing the tokens of a printed statement\<close>

text \<open>The token after a clause that may end in an alias.\<close>

definition ends_clause :: "token list \<Rightarrow> bool" where
  "ends_clause ts \<longleftrightarrow> ends_expr ts \<and> peek ts \<noteq> TAs \<and> identifier_of_token (peek ts) = None"

lemma ends_clauseI:
  "peek ts \<in> {TComma, TFrom, TOn, TWhere, TInner, TLeft, TRight, TCross, TGroup, THaving, TOrder, TLimit, TEof}
     \<Longrightarrow> ends_clause ts"
  by (auto simp: ends_clause_def ends_defs)

lemma ends_clause_expr: "ends_clause ts \<Longrightarrow> ends_expr ts"
  by (simp add: ends_clause_def)

lemma parse_item_back:
  assumes "source_item it" "item_reads_back it" "ends_clause rest"
  shows "parse_select_item (item_tokens it @ rest) = Inr (it, rest)"
proof (cases it)
  case (SelectExpression e a)
  let ?al = "case a of None \<Rightarrow> [] | Some a \<Rightarrow> [TAs, TIdentifier a]"
  have "parse_expr (expr_tokens e @ ?al @ rest) = Inr (e, ?al @ rest)"
    using assms SelectExpression
    by (intro parse_expr_back) (auto simp: ends_clause_def ends_defs split: option.splits)
  moreover have "hd (expr_tokens e) \<noteq> TStar" using hd_expr_tokens assms SelectExpression by auto
  ultimately show ?thesis using assms SelectExpression
    by (auto simp: parse_select_item_def parse_alias_def ends_clause_def split: option.splits)
next
  case (QualifiedWildcard t)
  have "parse_expr (expr_tokens (Column (Some t) ''*'') @ rest) = Inr (Column (Some t) ''*'', rest)"
    using assms QualifiedWildcard by (intro parse_expr_back) (auto simp: ends_clause_def)
  with QualifiedWildcard show ?thesis by (simp add: parse_select_item_def name_token_def)
qed (simp add: parse_select_item_def)

lemma parse_table_ref_back:
  assumes "ends_clause rest"
  shows "parse_table_ref (table_ref_tokens r @ rest) = Inr (r, rest)"
  using assms
  by (cases r; cases "ref_alias r")
    (auto simp: parse_table_ref_def table_ref_tokens_def parse_alias_def ends_clause_def)

lemma parse_join_back:
  assumes "source_join j" "reads_back (join_condition j)" "ends_expr rest"
  shows "parse_join (join_tokens j @ rest) = Inr (j, rest)"
proof -
  have "parse_table_ref (table_ref_tokens (join_table j) @ TOn # expr_tokens (join_condition j) @ rest) =
      Inr (join_table j, TOn # expr_tokens (join_condition j) @ rest)"
    by (rule parse_table_ref_back) (simp add: ends_clauseI)
  moreover have "parse_join_type (join_type_token k # TJoin # ts) = Inr (k, ts)" for k ts
    by (cases k) (simp_all add: parse_join_type_def expect_def)
  ultimately show ?thesis using assms
    by (simp add: parse_join_def join_tokens_def source_join_def expect_def parse_expr_back)
qed

lemma peek_join_tokens_first: "peek (join_tokens j @ ts) = join_type_token (join_kind j)"
  by (simp add: join_tokens_def)

lemma join_type_token_in: "join_type_token k \<in> {TInner, TLeft, TRight, TCross}"
  by (cases k) simp_all

lemma parse_joins_back:
  assumes "list_all source_join js" "list_all (\<lambda>j. reads_back (join_condition j)) js"
    and "length js < k" and rest: "ends_clause rest" "peek rest \<notin> {TJoin, TInner, TLeft, TRight, TCross}"
  shows "parse_joins_loop k (concat (map join_tokens js) @ rest) = Inr (js, rest) \<and>
    ends_clause (concat (map join_tokens js) @ rest)"
  using assms(1-3)
proof (induction js arbitrary: k)
  case Nil
  with rest show ?case by (cases k) auto
next
  case (Cons j js)
  then obtain k' where k: "k = Suc k'" by (cases k) auto
  have IH: "parse_joins_loop k' (concat (map join_tokens js) @ rest) = Inr (js, rest)"
    "ends_clause (concat (map join_tokens js) @ rest)" using Cons k by auto
  have "parse_join (join_tokens j @ concat (map join_tokens js) @ rest) =
      Inr (j, concat (map join_tokens js) @ rest)"
    using Cons.prems IH(2) by (intro parse_join_back) (auto simp: ends_clause_expr)
  then show ?case
    using IH(1) join_type_token_in [of "join_kind j"]
    by (auto simp: k peek_join_tokens_first intro!: ends_clauseI)
qed

lemma parse_order_item_back:
  assumes "source_expr (order_expression it)" "reads_back (order_expression it)"
  shows "parse_order_by_item (order_tokens it @ rest) = Inr (it, rest)"
proof -
  have "ends_expr ((if order_ascending it then TAsc else TDesc) # rest)" by (simp add: ends_defs)
  from parse_expr_back [OF assms this] show ?thesis
    by (simp add: parse_order_by_item_def order_tokens_def)
qed

lemma opt_expr_back:
  assumes "pred_option source_expr c" "pred_option reads_back c" "ends_expr rest" "peek rest \<noteq> t"
  shows "opt_clause t parse_expr ((case c of None \<Rightarrow> [] | Some e \<Rightarrow> t # expr_tokens e) @ rest) =
    Inr (c, rest)"
  using assms by (cases c) (simp_all add: opt_clause_def parse_expr_back)

lemma by_clause_back:
  assumes "xs \<noteq> [] \<Longrightarrow> p (join_with [TComma] (map g xs) @ rest) = Inr (xs, rest)" "peek rest \<noteq> t"
  shows "by_clause t p ((if xs = [] then [] else t # TBy # join_with [TComma] (map g xs)) @ rest) =
    Inr (xs, rest)"
  using assms by (simp add: by_clause_def expect_def)

lemma comma_list_back:
  assumes "\<And>x r. x \<in> set xs \<Longrightarrow> stop r \<Longrightarrow> p (g x @ r) = Inr (x, r)"
    and "\<And>x. x \<in> set xs \<Longrightarrow> g x \<noteq> []"
    and "xs \<noteq> []" "\<And>r. stop (TComma # r)" "stop rest" "peek rest \<noteq> TComma"
  shows "comma_loop p (Suc (length (join_with [TComma] (map g xs) @ rest)))
      (join_with [TComma] (map g xs) @ rest) = Inr (xs, rest)"
  using assms length_join_tokens [of xs g TComma]
  by (intro comma_loop_back [where stop = stop]) auto

lemma limit_back:
  assumes "pred_option (\<lambda>n. int n \<le> int64_max) l"
  shows "opt_clause TLimit parse_limit
    ((case l of None \<Rightarrow> [] | Some n \<Rightarrow> [TLimit, TInteger (int n)]) @ [TEof]) = Inr (l, [TEof])"
proof (cases l)
  case (Some n)
  with assms have "int n mod 2 ^ 64 = int n" by (simp add: int64_max_def)
  with Some show ?thesis by (simp add: opt_clause_def parse_limit_def)
qed (simp add: opt_clause_def)

lemma tokens_not_Nil [simp]: "order_tokens ob \<noteq> []" "item_tokens it \<noteq> []" "join_tokens j \<noteq> []"
  by (simp_all add: order_tokens_def join_tokens_def) (cases it; simp)

lemma length_join_clauses: "length js \<le> length (concat (map join_tokens js))"
  by (induction js) (auto simp: join_tokens_def)

lemma parse_canonical:
  assumes "source_statement st" "statement_reads_back st"
  shows "parse (statement_tokens st @ [TEof]) = Inr (st, [TEof])"
proof -
  obtain s where st: "st = Select s" by (cases st)
  note ok = assms [unfolded st source_statement.simps statement_reads_back.simps]
  define L where "L = (case limit s of None \<Rightarrow> [] | Some n \<Rightarrow> [TLimit, TInteger (int n)]) @ [TEof]"
  define O' where "O' = (if order_by s = [] then []
    else TOrder # TBy # join_with [TComma] (map order_tokens (order_by s))) @ L"
  define H where "H = (case having s of None \<Rightarrow> [] | Some e \<Rightarrow> THaving # expr_tokens e) @ O'"
  define G where "G = (if group_by s = [] then []
    else TGroup # TBy # join_with [TComma] (map expr_tokens (group_by s))) @ H"
  define W where "W = (case where_clause s of None \<Rightarrow> [] | Some e \<Rightarrow> TWhere # expr_tokens e) @ G"
  define J where "J = concat (map join_tokens (joins s)) @ W"
  have pL: "peek L \<in> {TLimit, TEof}" by (auto simp: L_def split: option.splits)
  have pO: "peek O' \<in> {TOrder, TLimit, TEof}" using pL by (auto simp: O'_def)
  have pH: "peek H \<in> {THaving, TOrder, TLimit, TEof}" using pO by (auto simp: H_def split: option.splits)
  have pG: "peek G \<in> {TGroup, THaving, TOrder, TLimit, TEof}" using pH by (auto simp: G_def)
  have pW: "peek W \<in> {TWhere, TGroup, THaving, TOrder, TLimit, TEof}"
    using pG by (auto simp: W_def split: option.splits)
  have "ends_clause L" "ends_clause O'" "ends_clause H" "ends_clause G" "ends_clause W"
    using pL pO pH pG pW by (auto intro!: ends_clauseI)
  then have ends: "ends_clause W" "ends_expr L" "ends_expr O'" "ends_expr H" "ends_expr G"
    by (simp_all add: ends_clause_def)
  have l: "opt_clause TLimit parse_limit L = Inr (limit s, [TEof])"
    unfolding L_def using ok by (intro limit_back) simp
  have "order_by s \<noteq> [] \<Longrightarrow>
      parse_order_by_list (join_with [TComma] (map order_tokens (order_by s)) @ L) = Inr (order_by s, L)"
    unfolding parse_order_by_list_def using ok pL
    by (intro comma_list_back [where stop = "\<lambda>_. True"])
      (auto simp: list_all_iff parse_order_item_back)
  then have o: "by_clause TOrder parse_order_by_list O' = Inr (order_by s, L)"
    unfolding O'_def using pL by (intro by_clause_back) auto
  have h: "opt_clause THaving parse_expr H = Inr (having s, O')"
    unfolding H_def using ok ends pO by (intro opt_expr_back) auto
  have "group_by s \<noteq> [] \<Longrightarrow>
      parse_expr_list (join_with [TComma] (map expr_tokens (group_by s)) @ H) = Inr (group_by s, H)"
    unfolding parse_expr_list_def parse_expr_list_with_def using ok pH ends
    by (intro comma_list_back [where stop = ends_expr])
      (auto simp: list_all_iff parse_expr_back ends_defs)
  then have g: "by_clause TGroup parse_expr_list G = Inr (group_by s, H)"
    unfolding G_def using pH by (intro by_clause_back) auto
  have w: "opt_clause TWhere parse_expr W = Inr (where_clause s, G)"
    unfolding W_def using ok ends pG by (intro opt_expr_back) auto
  have "parse_joins_loop (Suc (length J)) J = Inr (joins s, W) \<and> ends_clause J"
    unfolding J_def using ok ends pW length_join_clauses [of "joins s"]
    by (intro parse_joins_back) auto
  then have j: "parse_joins_loop (Suc (length J)) J = Inr (joins s, W)" and endJ: "ends_clause J" by auto
  have f: "parse_table_ref (table_ref_tokens (from_table s) @ J) = Inr (from_table s, J)"
    using endJ by (rule parse_table_ref_back)
  have c: "parse_select_list (join_with [TComma] (map item_tokens (columns s)) @
      TFrom # table_ref_tokens (from_table s) @ J) = Inr (columns s, TFrom # table_ref_tokens (from_table s) @ J)"
    unfolding parse_select_list_def using ok
    by (intro comma_list_back [where stop = ends_clause])
      (auto simp: list_all_iff parse_item_back intro!: ends_clauseI)
  have toks: "statement_tokens st @ [TEof] = TSelect # join_with [TComma] (map item_tokens (columns s)) @
      TFrom # table_ref_tokens (from_table s) @ J"
    by (simp add: st J_def W_def G_def H_def O'_def L_def)
  show ?thesis
    unfolding toks using c f j w g h o l
    by (simp add: parse_def parse_select_def expect_def st del: parse_joins_loop.simps)
qed

section \<open>Properties\<close>

text \<open>
  C8.  Reading back the canonical text of a statement gives the statement, for every statement the
  parser can produce that has no float literal and no \<^verbatim>\<open>NOT\<close> directly below an arithmetic or comparison
  operator or a minus sign.
\<close>

theorem canonical_round_trip:
  assumes "source_statement st" "statement_reads_back st"
  shows "parse_sql (to_canonical_sql st) = Inr st"
  using tokenize_canonical [OF assms] parse_canonical [OF assms] by (simp add: parse_sql_def)

definition sample_statement :: statement where
  "sample_statement =
     Select \<lparr>columns = [SelectExpression (Function ''COUNT'' [Wildcard]) (Some ''n''), QualifiedWildcard ''o''],
       from_table = \<lparr>ref_table_name = ''customers'', ref_alias = Some ''c''\<rparr>,
       joins = [\<lparr>join_kind = Left, join_table = \<lparr>ref_table_name = ''orders'', ref_alias = Some ''o''\<rparr>,
         join_condition = BinaryOp (Column (Some ''c'') ''id'') Eq (Column (Some ''o'') ''cid'')\<rparr>],
       where_clause = Some (BinaryOp (UnaryOp UNot (Column None ''ok'')) And
         (BinaryOp (UnaryOp UNeg (Lit (Integer 7))) Lte (BinaryOp (Column None ''a'') Mul (Lit (Integer 2))))),
       group_by = [Column None ''a''], having = None,
       order_by = [\<lparr>order_expression = Column None ''a'', order_ascending = False\<rparr>], limit = Some 10\<rparr>"

theorem canonical_round_trip_witness: "parse_sql (to_canonical_sql sample_statement) = Inr sample_statement"
  by (rule canonical_round_trip) code_simp+

text \<open>
  On such statements the canonical text, from which the plan-cache key is computed, identifies the
  statement: two of them with the same text are equal.
\<close>

theorem canonical_injective:
  assumes "source_statement st" "statement_reads_back st" "source_statement st'" "statement_reads_back st'"
    and "to_canonical_sql st = to_canonical_sql st'"
  shows "st = st'"
proof -
  have same: "statement_tokens st @ [TEof] = statement_tokens st' @ [TEof]"
    using tokenize_canonical [OF assms(1,2)] tokenize_canonical [OF assms(3,4)]
    unfolding assms(5) by (simp only: sum.inject)
  have "parse (statement_tokens st @ [TEof]) = Inr (st', [TEof])"
    unfolding same by (rule parse_canonical [OF assms(3,4)])
  then show ?thesis unfolding parse_canonical [OF assms(1,2)] by simp
qed

theorem canonical_injective_witness: "sample_statement = sample_statement"
  by (rule canonical_injective) code_simp+

text \<open>
  Float literals are the exception: the canonical text keeps six significant digits, so these two
  different statements, both parsed from source text, have the same canonical text and the same
  plan-cache key.
\<close>

theorem canonical_float_collision:
  "rbind (parse_sql ''SELECT a FROM t WHERE a = 1234567.0'') (\<lambda>s. Inr (to_canonical_sql s)) =
   rbind (parse_sql ''SELECT a FROM t WHERE a = 1234568.0'') (\<lambda>s. Inr (to_canonical_sql s)) \<and>
   parse_sql ''SELECT a FROM t WHERE a = 1234567.0'' \<noteq> parse_sql ''SELECT a FROM t WHERE a = 1234568.0''"
  by code_simp

end
