(* ===== verification/Plan_Cache.thy ===== *)
theory Plan_Cache
  imports Plan_Serializer Resp Physical_Planner Sql_Printer "HOL-Library.Word"
begin

text \<open>
  The plan cache: the 64-bit hash (\<^verbatim>\<open>util/hash.hpp\<close>), the versioned keys
  (\<^verbatim>\<open>integration/cache_key.cpp\<close>) and the planner that consults the cache before it plans
  (\<^verbatim>\<open>integration/cached_planner.cpp\<close>).  The server is the network argument of the client; the timing
  fields of the result are not modelled.
\<close>

unbundle bit_operations_syntax

section \<open>Hashes\<close>

type_synonym hash64 = "64 word"

definition fnv1a64 :: "string \<Rightarrow> hash64" where
  "fnv1a64 s = foldl (\<lambda>h c. (h XOR word_of_nat (code c)) * 1099511628211) 1469598103934665603 s"

fun hex_loop :: "nat \<Rightarrow> hash64 \<Rightarrow> string" where
  "hex_loop 0 v = []"
| "hex_loop (Suc i) v = hex_loop i (drop_bit 4 v) @ [hex_digit (unat (v AND 15))]"

definition hex64 :: "hash64 \<Rightarrow> string" where
  "hex64 v = hex_loop 16 v"

section \<open>Keys\<close>

record cache_versions =
  schema_version :: hash64
  stats_version :: hash64

fun data_type_name :: "data_type \<Rightarrow> string" where
  "data_type_name IntType = ''Int''"
| "data_type_name FloatType = ''Float''"
| "data_type_name TextType = ''Text''"
| "data_type_name BooleanType = ''Boolean''"

abbreviation nul :: string where "nul \<equiv> [CHR 0x00]"

definition column_dump :: "column_def \<Rightarrow> string" where
  "column_dump c = col_name c @ '':'' @ data_type_name (col_type c) @ '':'' @ (if col_nullable c then ''1'' else ''0'') @ nul"

definition table_dump :: "catalog \<Rightarrow> string \<Rightarrow> string" where
  "table_dump cat name =
     (case catalog_get cat name of
        None \<Rightarrow> []
      | Some s \<Rightarrow>
          name @ nul @ show_nat (row_count (schema_stats s)) @ nul @ show_nat (avg_row_bytes (schema_stats s)) @ nul @
          concat (map column_dump (schema_columns s)) @ concat (map (\<lambda>i. i @ nul) (indexed_columns s)))"

definition compute_schema_version :: "catalog \<Rightarrow> hash64" where
  "compute_schema_version cat = fnv1a64 (concat (map (table_dump cat) (table_names cat)))"

definition show_hash :: "hash64 \<Rightarrow> string" where
  "show_hash h = show_nat (unat h)"

definition build_cache_key :: "statement \<Rightarrow> cache_versions \<Rightarrow> string" where
  "build_cache_key st v =
     ''plan:'' @ hex64 (fnv1a64 (to_canonical_sql st)) @ '':'' @ show_hash (schema_version v) @ '':'' @ show_hash (stats_version v)"

section \<open>The cached planner\<close>

record cached_plan_result =
  result_plan :: plan_struct
  cache_hit :: bool

text \<open>The pipeline behind a miss.\<close>

definition compute_plan ::
  "(double \<Rightarrow> double) \<Rightarrow> (string set \<Rightarrow> string list) \<Rightarrow> (nat list \<Rightarrow> nat list) \<Rightarrow> planner_context \<Rightarrow> statement \<Rightarrow>
   physical_plan result"
where
  "compute_plan lg iter iter' ctx st =
     (case st of Select s \<Rightarrow>
        generate_physical_plan lg iter' ctx (optimize iter (pc_schemas ctx) (fst (plan_statement [] s))))"

definition plan_with_cache ::
  "(double \<Rightarrow> double) \<Rightarrow> (string set \<Rightarrow> string list) \<Rightarrow> (nat list \<Rightarrow> nat list) \<Rightarrow> planner_context \<Rightarrow>
   network \<Rightarrow> cache_client \<Rightarrow> cache_versions \<Rightarrow> int \<Rightarrow> string \<Rightarrow> (cached_plan_result \<times> cache_client) result"
where
  "plan_with_cache lg iter iter' ctx net cache versions ttl sql =
     rbind (parse_sql sql) (\<lambda>st.
       let key = build_cache_key st versions;
           (cached, cache) = cache_get net cache key
       in case cached of
            Some text \<Rightarrow> rbind (deserialize_plan text) (\<lambda>p. Inr (\<lparr>result_plan = p, cache_hit = True\<rparr>, cache))
          | None \<Rightarrow>
              rbind (compute_plan lg iter iter' ctx st) (\<lambda>p.
                let p = struct_of_plan p; (_, cache) = cache_set net cache key (serialize_plan p) ttl
                in Inr (\<lparr>result_plan = p, cache_hit = False\<rparr>, cache)))"

section \<open>Keys identify the hash and the versions\<close>

lemma length_hex_loop [simp]: "length (hex_loop n v) = n"
  by (induction n arbitrary: v) auto

lemma hex_digit_inject: "a < 16 \<Longrightarrow> b < 16 \<Longrightarrow> hex_digit a = hex_digit b \<longleftrightarrow> a = b"
proof -
  have "distinct ''0123456789abcdef''" by simp
  then show "a < 16 \<Longrightarrow> b < 16 \<Longrightarrow> hex_digit a = hex_digit b \<longleftrightarrow> a = b"
    unfolding hex_digit_def by (subst nth_eq_iff_index_eq) simp_all
qed

lemma hex_loop_inject: "unat v < 16 ^ n \<Longrightarrow> unat w < 16 ^ n \<Longrightarrow> hex_loop n v = hex_loop n w \<longleftrightarrow> v = w"
proof (induction n arbitrary: v w)
  case (Suc n)
  have div: "unat (drop_bit 4 x) = unat x div 16" for x :: hash64 by (simp add: drop_bit_eq_div unat_div_distrib)
  have "x AND 15 = x mod 16" for x :: hash64
    using take_bit_eq_mask [of 4 x] by (simp add: take_bit_eq_mod mask_eq_exp_minus_1)
  then have mod: "unat (x AND 15) = unat x mod 16" for x :: hash64 by (simp add: unat_mod_distrib)
  have "hex_loop (Suc n) v = hex_loop (Suc n) w \<longleftrightarrow> drop_bit 4 v = drop_bit 4 w \<and> unat v mod 16 = unat w mod 16"
    using Suc.IH [of "drop_bit 4 v" "drop_bit 4 w"] Suc.prems hex_digit_inject
    by (simp add: div mod div_less_iff_less_mult mult.commute)
  also have "\<dots> \<longleftrightarrow> unat v div 16 = unat w div 16 \<and> unat v mod 16 = unat w mod 16"
    using div by (metis word_unat_eq_iff)
  also have "\<dots> \<longleftrightarrow> v = w" by (metis div_mult_mod_eq word_unat_eq_iff)
  finally show ?case .
qed (simp add: word_unat_eq_iff)

lemma hex64_inject: "hex64 v = hex64 w \<longleftrightarrow> v = w"
proof -
  have "unat x < 16 ^ 16" for x :: hash64 using unsigned_less [of x, where 'a = nat] by simp
  then show ?thesis unfolding hex64_def by (intro hex_loop_inject)
qed

lemma show_nat_colon:
  assumes "show_nat m @ '':'' @ x = show_nat n @ '':'' @ y"
  shows "m = n \<and> x = y"
proof -
  have tw: "takeWhile isdigit (show_nat k @ '':'' @ z) = show_nat k" for k z
    using show_dec_digits [of "int k"] by (intro takeWhile_append_stop) (auto simp: show_nat_def isdigit_def)
  have "show_nat m = show_nat n" using assms tw by metis
  with assms show ?thesis by simp
qed

lemma show_nat_pair: "show_nat a @ '':'' @ show_nat b = show_nat a' @ '':'' @ show_nat b' \<longleftrightarrow> a = a' \<and> b = b'"
  using show_nat_colon [of a "show_nat b" a' "show_nat b'"] show_nat_inject [of b b'] by blast

text \<open>
  Two statements have the same cache key under two versions exactly when the hashes of their canonical texts agree and
  the schema and statistics versions agree: a change of either version never reuses a key.
\<close>

theorem cache_key_segments:
  "build_cache_key st v = build_cache_key st' v' \<longleftrightarrow>
     fnv1a64 (to_canonical_sql st) = fnv1a64 (to_canonical_sql st') \<and>
     schema_version v = schema_version v' \<and> stats_version v = stats_version v'"
proof -
  let ?h = "\<lambda>st. hex64 (fnv1a64 (to_canonical_sql st))"
  have len: "length (?h st) = length (?h st')" by (simp add: hex64_def)
  have "build_cache_key st v = build_cache_key st' v' \<longleftrightarrow>
      ?h st = ?h st' \<and> show_hash (schema_version v) @ '':'' @ show_hash (stats_version v) =
        show_hash (schema_version v') @ '':'' @ show_hash (stats_version v')"
    using len by (simp add: build_cache_key_def)
  also have "\<dots> \<longleftrightarrow> ?h st = ?h st' \<and> schema_version v = schema_version v' \<and> stats_version v = stats_version v'"
    unfolding show_hash_def show_nat_pair by (simp only: word_unat_eq_iff)
  finally show ?thesis by (simp add: hex64_inject)
qed

section \<open>The cache changes no plan\<close>

lemma plan_with_cache_miss:
  assumes "parse_sql sql = Inr st" "cache_get net c (build_cache_key st v) = (None, c')"
  shows "plan_with_cache lg iter iter' ctx net c v ttl sql =
    rbind (compute_plan lg iter iter' ctx st) (\<lambda>p. Inr (\<lparr>result_plan = struct_of_plan p, cache_hit = False\<rparr>,
      snd (cache_set net c' (build_cache_key st v) (serialize_plan (struct_of_plan p)) ttl)))"
  using assms by (simp add: plan_with_cache_def split_beta Let_def)

text \<open>The server holds a value under a key: it answers \<^verbatim>\<open>GET\<close> with it, in some chunks.\<close>

definition holds :: "network \<Rightarrow> string \<Rightarrow> string \<Rightarrow> bool" where
  "holds net key v \<longleftrightarrow>
     (case net (encode_command [''GET'', key]) of (sends, chunks) \<Rightarrow>
        send_all sends (encode_command [''GET'', key]) \<and> concat chunks = write_resp (RBulk v) \<and> [] \<notin> set chunks)"

lemma cache_get_holds:
  assumes "fd_open c" "holds net key v" "int (length v) \<le> kMaxBulkLength"
  shows "cache_get net c key = (Some v, c)"
  using cache_get_reply [of c net key _ _ "RBulk v"] assms by (auto simp: holds_def)

section \<open>A run of the cached planner\<close>

definition sample_sql :: string where
  "sample_sql = ''SELECT * FROM a x''"

definition sample_statement :: statement where
  "sample_statement =
     Select \<lparr>columns = [SelectWildcard], from_table = \<lparr>ref_table_name = ''a'', ref_alias = Some ''x''\<rparr>, joins = [],
       where_clause = None, group_by = [], having = None, order_by = [], limit = None\<rparr>"

definition sample_stored :: physical_plan where
  "sample_stored =
     SeqScan (make_info (cost_seq_scan 1 one_double) 1
       ''base row count from statistics catalog'' one_double) ''a'' (Some ''x'') []"

definition sample_versions :: cache_versions where
  "sample_versions = \<lparr>schema_version = 1, stats_version = 2\<rparr>"

abbreviation sample_plan_with_cache :: "network \<Rightarrow> cache_client \<Rightarrow> (cached_plan_result \<times> cache_client) result" where
  "sample_plan_with_cache net c \<equiv>
     plan_with_cache five sorted_list_of_set id sample_context net c sample_versions 300 sample_sql"

text \<open>A server that holds nothing, and one that answers with a fixed value in two chunks.\<close>

definition null_server :: network where
  "null_server req = ([length req], [write_resp RNull])"

definition text_server :: "string \<Rightarrow> network" where
  "text_server v req = ([2, length req], [''$'', drop 1 (write_resp (RBulk v))])"

lemma sample_parsed: "parse_sql sample_sql = Inr sample_statement"
  by code_simp

lemma sample_computed: "compute_plan five sorted_list_of_set id sample_context sample_statement = Inr sample_stored"
proof -
  let ?lp = "optimize sorted_list_of_set [] (fst (plan_statement [] (case sample_statement of Select s \<Rightarrow> s)))"
  have lp: "?lp = Scan ''a'' (Some ''x'') []"
    by (simp add: sample_statement_def plan_statement_def optimize_def scan_ref_def)
  have "scan_pages (pc_stats sample_context) ''a'' 1 = one_double" by code_simp
  moreover have "estimate_scan (pc_stats sample_context) ''a'' =
      make_estimate one_double one_double ''base row count from statistics catalog''"
    by (simp add: estimate_scan_def sample_context_def stats_get_def)
  ultimately have "plan_scan sample_context ''a'' (Some ''x'') [] = Inr sample_stored"
    unfolding plan_scan_def sample_stored_def plan_info_of_def make_estimate_def Let_def
    by (simp only: rows_to_size_one rbind_simps row_estimate.simps)
  with lp show ?thesis by (simp add: compute_plan_def sample_statement_def generate_physical_plan_def sample_context_def)
qed

lemma sample_fits:
  "plan_storable (struct_of_plan sample_stored)"
  "int (length (serialize_plan (struct_of_plan sample_stored))) \<le> kMaxBulkLength"
  by code_simp+

lemma send_all_enough: "length s \<le> n \<Longrightarrow> send_all [n] s"
  by (cases s) auto

lemma send_all_length: "send_all [length s] s" "send_all [2, length s] s"
proof -
  have "send_all [length s] (drop 2 s)" by (rule send_all_enough) simp
  then show "send_all [2, length s] s" by (cases s) simp_all
qed (simp add: send_all_enough)

lemma text_server_holds: "holds (text_server v) key v"
  by (simp add: holds_def text_server_def send_all_length)

lemma null_server_get: "fd_open c \<Longrightarrow> cache_get null_server c key = (None, c)"
  using cache_get_reply [of c null_server key _ _ RNull] by (simp add: null_server_def send_all_length)

section \<open>Properties\<close>

text \<open>
  Without a connection the cached planner is the planner: it returns what parsing, planning and optimizing the
  statement return, errors included, reports no hit and leaves the client as it was.
\<close>

theorem plan_without_cache:
  "\<not> fd_open c \<Longrightarrow>
   plan_with_cache lg iter iter' ctx net c v ttl sql =
     rbind (parse_sql sql) (\<lambda>st. rbind (compute_plan lg iter iter' ctx st) (\<lambda>p.
       Inr (\<lparr>result_plan = struct_of_plan p, cache_hit = False\<rparr>, c)))"
  by (cases "parse_sql sql") (simp_all add: plan_with_cache_miss cache_get_closed cache_set_closed, simp add: plan_with_cache_def)

theorem plan_without_cache_witness:
  "sample_plan_with_cache null_server \<lparr>fd_open = False\<rparr> =
     Inr (\<lparr>result_plan = struct_of_plan sample_stored, cache_hit = False\<rparr>, \<lparr>fd_open = False\<rparr>)"
proof -
  have "\<not> fd_open \<lparr>fd_open = False\<rparr>" by simp
  from plan_without_cache [OF this, of five sorted_list_of_set id sample_context null_server sample_versions 300 sample_sql]
  show ?thesis by (simp add: sample_parsed sample_computed)
qed



text \<open>
  A value under the key that is no JSON text makes the cached planner throw, although planning the statement would
  succeed: trouble in the cache can surface as an exception.
\<close>

theorem malformed_entry_throws:
  assumes "parse_sql sql = Inr st" "fd_open c" "holds net (build_cache_key st v) ''stale''"
  shows "plan_with_cache lg iter iter' ctx net c v ttl sql = Inl (RuntimeError ''json: invalid number at position 0'')"
proof -
  have "deserialize_plan ''stale'' = Inl (RuntimeError ''json: invalid number at position 0'')" by code_simp
  with assms show ?thesis by (simp add: plan_with_cache_def cache_get_holds kMaxBulkLength_def)
qed

theorem malformed_entry_throws_witness:
  "sample_plan_with_cache (text_server ''stale'') \<lparr>fd_open = True\<rparr> =
     Inl (RuntimeError ''json: invalid number at position 0'')"
  by (rule malformed_entry_throws [OF sample_parsed _ text_server_holds]) simp

end
