(* ===== verification/Coordinator.thy ===== *)
theory Coordinator
  imports Exchange Worker Adaptive Plan_Cache Equivalences
begin

text \<open>
  Distributed execution of a query (\<^verbatim>\<open>distributed/coordinator.cpp\<close>, \<^verbatim>\<open>distributed/properties.hpp\<close>): the shape of the plan
  decides between a distributed scan, a broadcast join, a shuffle join and local execution; partial results are
  merged and the operators above them run on the merged rows.  Workers are numbered in the order of their
  addresses.  An exception ends the query: the state of the cache connection and of the bandit after one is not modelled.
\<close>

section \<open>The shape of a plan\<close>

text \<open>The fields that the coordinator reads of the nodes it finds: the predicate of HAVING, keys and aggregates of the aggregation.\<close>

record unwrap_result =
  post_ops :: "physical_plan list"
  u_having :: "expression option"
  u_aggregate :: "(expression list \<times> aggregate_expr list) option"
  u_core :: physical_plan

fun unwrap_ops :: "physical_plan \<Rightarrow> physical_plan list \<times> physical_plan" where
  "unwrap_ops (PProject i es p) = (case unwrap_ops p of (ops, q) \<Rightarrow> (PProject i es p # ops, q))"
| "unwrap_ops (PSort i ob p) = (case unwrap_ops p of (ops, q) \<Rightarrow> (PSort i ob p # ops, q))"
| "unwrap_ops (PLimit i n p) = (case unwrap_ops p of (ops, q) \<Rightarrow> (PLimit i n p # ops, q))"
| "unwrap_ops p = ([], p)"

definition unwrap :: "physical_plan \<Rightarrow> unwrap_result" where
  "unwrap p =
     (case unwrap_ops p of (ops, node) \<Rightarrow>
        (case node of
           PFilter i e (HashAggregate j g as q) \<Rightarrow> \<lparr>post_ops = ops, u_having = Some e, u_aggregate = Some (g, as), u_core = q\<rparr>
         | HashAggregate j g as q \<Rightarrow> \<lparr>post_ops = ops, u_having = None, u_aggregate = Some (g, as), u_core = q\<rparr>
         | _ \<Rightarrow> \<lparr>post_ops = ops, u_having = None, u_aggregate = None, u_core = node\<rparr>))"

fun unwrap_filter :: "physical_plan \<Rightarrow> physical_plan" where
  "unwrap_filter (PFilter i e p) = unwrap_filter p"
| "unwrap_filter p = p"

fun is_scan :: "physical_plan \<Rightarrow> bool" where
  "is_scan (SeqScan i t a cs) = True"
| "is_scan (IndexScan i t a cs c v) = True"
| "is_scan p = False"

definition is_single_relation :: "physical_plan \<Rightarrow> bool" where
  "is_single_relation p = is_scan (unwrap_filter p)"

text \<open>The fields \<^verbatim>\<open>table_name\<close> and \<^verbatim>\<open>alias\<close> of a node, empty for the kinds that do not set them.\<close>

fun node_table :: "physical_plan \<Rightarrow> string" where
  "node_table (SeqScan i t a cs) = t"
| "node_table (IndexScan i t a cs c v) = t"
| "node_table (ExternalRows i t cs n g as) = t"
| "node_table p = []"

fun node_alias :: "physical_plan \<Rightarrow> string option" where
  "node_alias (SeqScan i t a cs) = a"
| "node_alias (IndexScan i t a cs c v) = a"
| "node_alias p = None"

definition schema_for_relation :: "physical_plan \<Rightarrow> catalog \<Rightarrow> row_schema" where
  "schema_for_relation p cat =
     (let n = unwrap_filter p
      in case catalog_get cat (node_table n) of
           None \<Rightarrow> empty_schema
         | Some ts \<Rightarrow>
             (let q = (case node_alias n of Some a \<Rightarrow> a | None \<Rightarrow> node_table n)
              in fold (\<lambda>c. schema_add (Some q) (col_name c)) (schema_columns ts) empty_schema))"

fun resolves :: "expression \<Rightarrow> row_schema \<Rightarrow> bool" where
  "resolves (Column t c) s = (resolve s t c \<noteq> None)"
| "resolves e s = False"

fun resolve_join_keys :: "expression \<Rightarrow> physical_plan \<Rightarrow> physical_plan \<Rightarrow> catalog \<Rightarrow> (expression \<times> expression) result" where
  "resolve_join_keys (BinaryOp a Eq b) l r cat =
     (let ls = schema_for_relation l cat; rs = schema_for_relation r cat
      in if resolves a ls \<and> resolves b rs then Inr (a, b)
         else if resolves b ls \<and> resolves a rs then Inr (b, a)
         else Inl (RuntimeError (''distributed: join condition isn'' @ [CHR 0x27] @
           ''t a simple column-to-column equality across both sides'')))"
| "resolve_join_keys e l r cat = Inl (RuntimeError ''distributed: shuffle join requires a simple equality condition'')"

definition hash_partition_of :: "literal \<Rightarrow> nat \<Rightarrow> nat" where
  "hash_partition_of v n = (if n = 0 then 0 else unat (fnv1a64 (literal_to_string v)) mod n)"

lemma hash_partition_of_lt: "0 < n \<Longrightarrow> hash_partition_of v n < n"
  by (simp add: hash_partition_of_def)

interpretation shuffle: exchange "\<lambda>n v. hash_partition_of v n"
  by unfold_locales (rule hash_partition_of_lt)

section \<open>Partial aggregates\<close>

record avg_mapping =
  map_func :: string
  direct_idx :: int
  sum_idx :: int
  count_idx :: int

record avg_split =
  worker_aggregates :: "aggregate_expr list"
  split_mapping :: "avg_mapping list"

definition split_step :: "aggregate_expr \<Rightarrow> avg_split \<Rightarrow> avg_split" where
  "split_step a sp =
     (let was = worker_aggregates sp; k = int (length was)
      in if agg_func a = ''AVG''
         then \<lparr>worker_aggregates = was @ [\<lparr>agg_func = ''SUM'', agg_arg = agg_arg a, agg_alias = None\<rparr>,
                                     \<lparr>agg_func = ''COUNT'', agg_arg = agg_arg a, agg_alias = None\<rparr>],
               split_mapping = split_mapping sp @
                 [\<lparr>map_func = agg_func a, direct_idx = - 1, sum_idx = k, count_idx = k + 1\<rparr>]\<rparr>
         else \<lparr>worker_aggregates = was @ [a],
               split_mapping = split_mapping sp @
                 [\<lparr>map_func = agg_func a, direct_idx = k, sum_idx = - 1, count_idx = - 1\<rparr>]\<rparr>)"

definition split_avg :: "aggregate_expr list \<Rightarrow> avg_split" where
  "split_avg as = fold split_step as \<lparr>worker_aggregates = [], split_mapping = []\<rparr>"

definition group_column :: "nat \<times> expression \<Rightarrow> string" where
  "group_column ie =
     (case ie of
        (i, Column (Some t) c) \<Rightarrow> t @ ''.'' @ c
      | (i, Column None c) \<Rightarrow> c
      | (i, _) \<Rightarrow> ''g'' @ show_nat i)"

definition aggregate_output_columns :: "expression list \<Rightarrow> aggregate_expr list \<Rightarrow> string list" where
  "aggregate_output_columns g as =
     map group_column (enumerate 0 g) @
     map (\<lambda>(i, a). case agg_alias a of Some n \<Rightarrow> n | None \<Rightarrow> agg_func a @ ''_'' @ show_nat i) (enumerate 0 as)"

text \<open>The accumulators of one aggregate; the code keeps one vector per field.\<close>

record merge_acc =
  m_sum :: double
  m_count :: double
  m_min :: "literal option"
  m_max :: "literal option"

definition merge_init :: merge_acc where
  "merge_init = \<lparr>m_sum = dzero, m_count = dzero, m_min = None, m_max = None\<rparr>"

text \<open>\<^verbatim>\<open>row[group_by_count + static_cast<size_t>(idx)]\<close>\<close>

definition slot_at :: "row \<Rightarrow> nat \<Rightarrow> int \<Rightarrow> literal result" where
  "slot_at row gc i = row_at row (nat ((int gc + i) mod 2 ^ 64))"

definition merge_value :: "row \<Rightarrow> nat \<Rightarrow> (aggregate_expr \<times> avg_mapping) \<times> merge_acc \<Rightarrow> merge_acc result" where
  "merge_value row gc ama =
     (case ama of ((a, m), acc) \<Rightarrow>
        if agg_func a = ''AVG'' then
          rbind (slot_at row gc (sum_idx m)) (\<lambda>v. rbind (literal_as_double v) (\<lambda>s.
          rbind (slot_at row gc (count_idx m)) (\<lambda>v. rbind (literal_as_double v) (\<lambda>c.
            Inr (acc\<lparr>m_sum := dadd (m_sum acc) s, m_count := dadd (m_count acc) c\<rparr>)))))
        else if agg_func a = ''SUM'' then
          rbind (slot_at row gc (direct_idx m)) (\<lambda>v. rbind (literal_as_double v) (\<lambda>s.
            Inr (acc\<lparr>m_sum := dadd (m_sum acc) s\<rparr>)))
        else if agg_func a = ''COUNT'' then
          rbind (slot_at row gc (direct_idx m)) (\<lambda>v. rbind (literal_as_double v) (\<lambda>c.
            Inr (acc\<lparr>m_count := dadd (m_count acc) c\<rparr>)))
        else if agg_func a = ''MIN'' then
          rbind (slot_at row gc (direct_idx m)) (\<lambda>v.
            case m_min acc of
              None \<Rightarrow> Inr (acc\<lparr>m_min := Some v\<rparr>)
            | Some x \<Rightarrow> rbind (literal_less v x) (\<lambda>b. Inr (if b then acc\<lparr>m_min := Some v\<rparr> else acc)))
        else if agg_func a = ''MAX'' then
          rbind (slot_at row gc (direct_idx m)) (\<lambda>v.
            case m_max acc of
              None \<Rightarrow> Inr (acc\<lparr>m_max := Some v\<rparr>)
            | Some x \<Rightarrow> rbind (literal_less x v) (\<lambda>b. Inr (if b then acc\<lparr>m_max := Some v\<rparr> else acc)))
        else Inr acc)"

type_synonym merged_groups = "(string \<times> row \<times> merge_acc list) list"

definition merge_row ::
  "nat \<Rightarrow> aggregate_expr list \<Rightarrow> avg_split \<Rightarrow> merged_groups \<Rightarrow> row \<Rightarrow> merged_groups result"
where
  "merge_row gc as sp gs row =
     (if length row < gc then Inl (UndefinedBehaviour ''group key past the end of the row'')
      else
        let key = take gc row; ks = group_key_string key;
            (key, accs) = (case map_of gs ks of Some st \<Rightarrow> st | None \<Rightarrow> (key, map (\<lambda>_. merge_init) as))
        in rbind (rmap (merge_value row gc) (zip (zip as (split_mapping sp)) accs)) (\<lambda>accs.
             Inr (AList.update ks (key, accs) gs)))"

definition merge_output :: "aggregate_expr \<times> merge_acc \<Rightarrow> row result" where
  "merge_output aa =
     (case aa of (a, acc) \<Rightarrow>
        if agg_func a = ''SUM'' then Inr [Float (m_sum acc)]
        else if agg_func a = ''COUNT'' then rbind (int64_of_double (m_count acc)) (\<lambda>c. Inr [Integer c])
        else if agg_func a = ''AVG'' then
          Inr [Float (if dlt dzero (m_count acc) then ddiv (m_sum acc) (m_count acc) else dzero)]
        else if agg_func a = ''MIN'' then Inr [case m_min acc of Some v \<Rightarrow> v | None \<Rightarrow> Null]
        else if agg_func a = ''MAX'' then Inr [case m_max acc of Some v \<Rightarrow> v | None \<Rightarrow> Null]
        else Inr [])"

definition merge_partial_aggregates ::
  "row list list \<Rightarrow> nat \<Rightarrow> aggregate_expr list \<Rightarrow> avg_split \<Rightarrow> row list result"
where
  "merge_partial_aggregates worker_rows gc as sp =
     rbind (rfold (merge_row gc as sp) [] (concat worker_rows)) (\<lambda>gs.
       rmap (\<lambda>(ks, key, accs). rbind (rmap merge_output (zip as accs)) (\<lambda>vs. Inr (key @ concat vs))) gs)"

section \<open>Finishing\<close>

record distributed_result =
  out_columns :: "string list"
  out_rows :: "row list"
  distributed :: bool
  fallback_reason :: string
  total_ms :: double
  workers_used :: nat
  join_strategy :: string
  used_copartition_merge_skip :: bool
  out_recovered :: "nat list"

definition no_info :: plan_info where
  "no_info = make_info zero_cost 0 [] (Fin False 1)"

fun attach_op :: "physical_plan \<Rightarrow> physical_plan \<Rightarrow> physical_plan" where
  "attach_op (PProject i es p) cur = PProject no_info es cur"
| "attach_op (PSort i ob p) cur = PSort no_info ob cur"
| "attach_op (PLimit i n p) cur = PLimit no_info n cur"
| "attach_op _ cur = cur"

definition merged_rows_node :: "unwrap_result \<Rightarrow> string list \<Rightarrow> row list \<Rightarrow> physical_plan" where
  "merged_rows_node u cols rows =
     (case u_aggregate u of
        None \<Rightarrow> make_external_rows ''merged'' cols 0 (length rows)
      | Some (g, as) \<Rightarrow> ExternalRows (make_info zero_cost (length rows) [] (Fin False 1)) ''merged'' cols 0 g as)"

definition finish_plan :: "unwrap_result \<Rightarrow> physical_plan \<Rightarrow> physical_plan" where
  "finish_plan u cur =
     fold attach_op (rev (post_ops u)) (case u_having u of None \<Rightarrow> cur | Some e \<Rightarrow> PFilter no_info e cur)"

definition column_names :: "row_schema \<Rightarrow> string list" where
  "column_names s = map snd (entries s)"

definition finish ::
  "runtime \<Rightarrow> unwrap_result \<Rightarrow> string list \<Rightarrow> row list \<Rightarrow> nat \<Rightarrow> string \<Rightarrow> bool \<Rightarrow> nat list \<Rightarrow> distributed_result result"
where
  "finish rt u cols rows used strategy skip recovered =
     rbind (build_executor (finish_plan u (merged_rows_node u cols rows)) [] [0 \<mapsto> rows]) (\<lambda>x.
     rbind (run_result rt x) (\<lambda>rows.
       Inr \<lparr>out_columns = column_names (exec_schema x), out_rows = rows, distributed = True, fallback_reason = [],
            total_ms = dzero, workers_used = used, join_strategy = strategy, used_copartition_merge_skip = skip,
            out_recovered = recovered\<rparr>))"

definition run_fallback :: "runtime \<Rightarrow> physical_plan \<Rightarrow> database \<Rightarrow> string \<Rightarrow> distributed_result result" where
  "run_fallback rt p db reason =
     rbind (build_executor p db Map.empty) (\<lambda>x.
     rbind (run_result rt x) (\<lambda>rows.
       Inr \<lparr>out_columns = column_names (exec_schema x), out_rows = rows, distributed = False, fallback_reason = reason,
            total_ms = dzero, workers_used = 0, join_strategy = [], used_copartition_merge_skip = False, out_recovered = []\<rparr>))"

section \<open>Asking the workers\<close>

definition ask_step ::
  "runtime \<Rightarrow> http \<Rightarrow> physical_plan \<Rightarrow> (nat \<Rightarrow> row_sets) \<Rightarrow> response list \<times> recovery_context \<Rightarrow> nat \<Rightarrow>
   (response list \<times> recovery_context) result"
where
  "ask_step rt http p ext st w =
     (case st of (acc, ctx) \<Rightarrow>
        rbind (call_worker_or_recover rt http w p (ext w) ctx) (\<lambda>(resp, ctx). Inr (acc @ [resp], ctx)))"

definition ask_workers ::
  "runtime \<Rightarrow> http \<Rightarrow> nat \<Rightarrow> physical_plan \<Rightarrow> (nat \<Rightarrow> row_sets) \<Rightarrow> recovery_context \<Rightarrow>
   (response list \<times> recovery_context) result"
where
  "ask_workers rt http n p ext ctx = rfold (ask_step rt http p ext) ([], ctx) [0 ..< n]"

text \<open>The columns of the last response.\<close>

definition last_columns :: "response list \<Rightarrow> string list" where
  "last_columns rs = (if rs = [] then [] else fst (last rs))"

definition partial_plan :: "unwrap_result \<Rightarrow> physical_plan \<Rightarrow> physical_plan" where
  "partial_plan u p =
     (case u_aggregate u of
        None \<Rightarrow> p
      | Some (g, as) \<Rightarrow> HashAggregate no_info g (worker_aggregates (split_avg as)) p)"

definition merge_responses :: "unwrap_result \<Rightarrow> response list \<Rightarrow> (string list \<times> row list) result" where
  "merge_responses u rs =
     (case u_aggregate u of
        None \<Rightarrow> Inr (last_columns rs, concat (map snd rs))
      | Some (g, as) \<Rightarrow>
          rbind (merge_partial_aggregates (map snd rs) (length g) as (split_avg as)) (\<lambda>rows.
            Inr (aggregate_output_columns g as, rows)))"

definition run_distributed_single ::
  "runtime \<Rightarrow> http \<Rightarrow> nat \<Rightarrow> unwrap_result \<Rightarrow> recovery_context \<Rightarrow> distributed_result result"
where
  "run_distributed_single rt http n u ctx =
     rbind (ask_workers rt http n (partial_plan u (u_core u)) (\<lambda>w. []) ctx) (\<lambda>(rs, ctx).
     rbind (merge_responses u rs) (\<lambda>(cols, rows).
       finish rt u cols rows n [] False (recovered_workers ctx)))"

definition broadcast_plan :: "bool \<Rightarrow> join_algorithm \<Rightarrow> join_type \<Rightarrow> expression \<Rightarrow> physical_plan \<Rightarrow> physical_plan \<Rightarrow> physical_plan" where
  "broadcast_plan left k jt c ext large =
     (if left then PJoin k no_info jt c ext large else PJoin k no_info jt c large ext)"

definition run_broadcast_join ::
  "runtime \<Rightarrow> http \<Rightarrow> nat \<Rightarrow> join_algorithm \<Rightarrow> join_type \<Rightarrow> expression \<Rightarrow> physical_plan \<Rightarrow> physical_plan \<Rightarrow> bool \<Rightarrow>
   unwrap_result \<Rightarrow> recovery_context \<Rightarrow> distributed_result result"
where
  "run_broadcast_join rt http n k jt c l r left u ctx =
     (let small = (if left then l else r); large = (if left then r else l)
      in rbind (ask_workers rt http n small (\<lambda>w. []) ctx) (\<lambda>(bs, ctx).
         let rows = concat (map snd bs);
             ext = make_external_rows (''broadcast:'' @ node_table small) (last_columns bs) 0 (length rows)
         in rbind (ask_workers rt http n (partial_plan u (broadcast_plan left k jt c ext large)) (\<lambda>w. [(0, rows)]) ctx) (\<lambda>(rs, ctx).
            rbind (merge_responses u rs) (\<lambda>(cols, rows).
              finish rt u cols rows n (if left then ''broadcast_left'' else ''broadcast_right'') False (recovered_workers ctx)))))"

section \<open>Shuffling\<close>

record shuffle_state =
  left_by_target :: "row list list"
  right_by_target :: "row list list"
  left_columns :: "string list"
  right_columns :: "string list"

definition scatter_row :: "nat \<Rightarrow> nat \<Rightarrow> row list list \<Rightarrow> row \<Rightarrow> row list list result" where
  "scatter_row n k buckets row =
     rbind (row_at row k) (\<lambda>v.
       let t = hash_partition_of v n in Inr (buckets[t := buckets ! t @ [row]]))"

definition shuffle_step ::
  "runtime \<Rightarrow> http \<Rightarrow> nat \<Rightarrow> physical_plan \<Rightarrow> physical_plan \<Rightarrow> nat \<Rightarrow> nat \<Rightarrow> shuffle_state \<times> recovery_context \<Rightarrow> nat \<Rightarrow>
   (shuffle_state \<times> recovery_context) result"
where
  "shuffle_step rt http n l r lk rk st w =
     (case st of (sh, ctx) \<Rightarrow>
        rbind (call_worker_or_recover rt http w l [] ctx) (\<lambda>(lresp, ctx).
        rbind (call_worker_or_recover rt http w r [] ctx) (\<lambda>(rresp, ctx).
        rbind (rfold (scatter_row n lk) (left_by_target sh) (snd lresp)) (\<lambda>lb.
        rbind (rfold (scatter_row n rk) (right_by_target sh) (snd rresp)) (\<lambda>rb.
          Inr (\<lparr>left_by_target = lb, right_by_target = rb, left_columns = fst lresp, right_columns = fst rresp\<rparr>, ctx))))))"

fun partition_key_matches :: "expression \<Rightarrow> expression \<Rightarrow> bool" where
  "partition_key_matches (Column t c) (Column t' c') = (t' = t \<and> c' = c)"
| "partition_key_matches k e = False"

definition partition_key_is_safe_for_group_by :: "expression \<Rightarrow> expression list \<Rightarrow> bool" where
  "partition_key_is_safe_for_group_by k g = list_ex (partition_key_matches k) g"

definition group_by_co_located :: "expression \<Rightarrow> expression \<Rightarrow> unwrap_result \<Rightarrow> bool" where
  "group_by_co_located lk rk u =
     (case u_aggregate u of
        None \<Rightarrow> False
      | Some (g, as) \<Rightarrow> partition_key_is_safe_for_group_by lk g \<or> partition_key_is_safe_for_group_by rk g)"

fun key_index :: "expression \<Rightarrow> row_schema \<Rightarrow> nat option" where
  "key_index (Column t c) s = resolve s t c"
| "key_index e s = None"

definition shuffle_plan ::
  "join_algorithm \<Rightarrow> join_type \<Rightarrow> expression \<Rightarrow> physical_plan \<Rightarrow> physical_plan \<Rightarrow> shuffle_state \<Rightarrow> physical_plan"
where
  "shuffle_plan k jt c l r sh =
     PJoin k no_info jt c
       (make_external_rows (''shuffle:'' @ node_table (unwrap_filter l)) (left_columns sh) 0 0)
       (make_external_rows (''shuffle:'' @ node_table (unwrap_filter r)) (right_columns sh) 1 0)"

definition run_shuffle_join ::
  "runtime \<Rightarrow> http \<Rightarrow> nat \<Rightarrow> join_algorithm \<Rightarrow> join_type \<Rightarrow> expression \<Rightarrow> physical_plan \<Rightarrow> physical_plan \<Rightarrow>
   unwrap_result \<Rightarrow> catalog \<Rightarrow> recovery_context \<Rightarrow> distributed_result result"
where
  "run_shuffle_join rt http n k jt c l r u cat ctx =
     rbind (resolve_join_keys c l r cat) (\<lambda>(lk, rk).
       case (key_index lk (schema_for_relation l cat), key_index rk (schema_for_relation r cat)) of
         (Some li, Some ri) \<Rightarrow>
           rbind (rfold (shuffle_step rt http n l r li ri)
               (\<lparr>left_by_target = replicate n [], right_by_target = replicate n [], left_columns = [], right_columns = []\<rparr>, ctx)
               [0 ..< n]) (\<lambda>(sh, ctx).
           let co = group_by_co_located lk rk u;
               join = shuffle_plan k jt c l r sh;
               plan = (case u_aggregate u of
                         Some (g, as) \<Rightarrow> if co then HashAggregate no_info g as join else partial_plan u join
                       | None \<Rightarrow> join)
           in rbind (ask_workers rt http n plan (\<lambda>w. [(0, left_by_target sh ! w), (1, right_by_target sh ! w)]) ctx) (\<lambda>(rs, ctx).
              rbind (if co then Inr (last_columns rs, concat (map snd rs)) else merge_responses u rs) (\<lambda>(cols, rows).
                finish rt u cols rows n ''shuffle'' co (recovered_workers ctx))))
       | _ \<Rightarrow> Inl (RuntimeError ''distributed: could not resolve join key column for shuffle''))"

section \<open>A distributed query\<close>

text \<open>
  What a query takes from its surroundings: the library behaviour, the network of the cache, the connections to the
  workers, the environment variable \<^verbatim>\<open>SQLOPT_FORCE_STRATEGY\<close>, the draws of the bandit and the measured time.
\<close>

record surroundings =
  sur_runtime :: runtime
  sur_log2 :: "double \<Rightarrow> double"
  sur_set_order :: "string set \<Rightarrow> string list"
  sur_index_order :: "nat list \<Rightarrow> nat list"
  sur_network :: network
  sur_http :: http
  sur_force :: "string option"
  sur_unit :: double
  sur_pick :: nat
  sur_ms :: double

definition kBroadcastEligible :: nat where "kBroadcastEligible = 5000"

definition forced_strategy :: "string option \<Rightarrow> string option" where
  "forced_strategy v =
     (case v of Some s \<Rightarrow> if s = ''broadcast'' \<or> s = ''shuffle'' then Some s else None | None \<Rightarrow> None)"

definition join_too_deep :: string where
  "join_too_deep =
     ''join has a side that isn'' @ [CHR 0x27] @ ''t a single base relation (e.g. a 3+ table join) -- '' @
     ''distributing it would need an exchange at more than one point in the tree, '' @
     ''which needs physical property tracking (see ROADMAP.md), not built yet''"

definition core_not_eligible :: string where
  "core_not_eligible =
     ''plan'' @ [CHR 0x27] @ ''s core isn'' @ [CHR 0x27] @ ''t a single base relation or a 2-relation join -- not eligible for '' @
     ''this build'' @ [CHR 0x27] @ ''s distributed execution''"

text \<open>The choice of a strategy for a join of two relations: the arm, the context to train and the bandit.\<close>

definition choose_strategy ::
  "surroundings \<Rightarrow> physical_plan \<Rightarrow> physical_plan \<Rightarrow> bandit_model \<Rightarrow> string \<times> string \<times> bandit_model"
where
  "choose_strategy s l r bandit =
     (let c = node_table (unwrap_filter l) @ '':'' @ node_table (unwrap_filter r)
      in if rows_of l \<le> kBroadcastEligible \<or> rows_of r \<le> kBroadcastEligible then
           let (arm, bandit) = bandit_choose (sur_unit s) (sur_pick s) c [''broadcast'', ''shuffle''] bandit
           in case forced_strategy (sur_force s) of
                Some f \<Rightarrow> (f, [], bandit)
              | None \<Rightarrow> (arm, c, bandit)
         else (''shuffle'', c, bandit))"

definition prefer_broadcast_left :: "physical_plan \<Rightarrow> physical_plan \<Rightarrow> bool" where
  "prefer_broadcast_left l r \<longleftrightarrow>
     rows_of l \<le> kBroadcastEligible \<and> (\<not> rows_of r \<le> kBroadcastEligible \<or> rows_of l \<le> rows_of r)"

definition execute_distributed ::
  "surroundings \<Rightarrow> catalog \<Rightarrow> nat \<Rightarrow> physical_plan \<Rightarrow> recovery_context \<Rightarrow> bandit_model \<Rightarrow>
   (distributed_result \<times> string \<times> string \<times> bandit_model) result"
where
  "execute_distributed s cat n p ctx bandit =
     (let u = unwrap p; rt = sur_runtime s; http = sur_http s; full = local_full_database ctx
      in case u_core u of
           PJoin k i jt c l r \<Rightarrow>
             if \<not> is_single_relation l \<or> \<not> is_single_relation r then
               rbind (run_fallback rt p full join_too_deep) (\<lambda>res. Inr (res, [], [], bandit))
             else
               let (arm, context, bandit) = choose_strategy s l r bandit
               in rbind (if arm = ''broadcast'' then run_broadcast_join rt http n k jt c l r (prefer_broadcast_left l r) u ctx
                         else run_shuffle_join rt http n k jt c l r u cat ctx) (\<lambda>res. Inr (res, context, arm, bandit))
         | core \<Rightarrow>
             if is_single_relation core then
               rbind (run_distributed_single rt http n u ctx) (\<lambda>res. Inr (res\<lparr>join_strategy := ''single''\<rparr>, [], [], bandit))
             else rbind (run_fallback rt p full core_not_eligible) (\<lambda>res. Inr (res, [], [], bandit)))"

definition run_distributed_query ::
  "surroundings \<Rightarrow> planner_context \<Rightarrow> database \<Rightarrow> nat \<Rightarrow> cache_client \<Rightarrow> cache_versions \<Rightarrow> bandit_model \<Rightarrow> string \<Rightarrow>
   (distributed_result \<times> cache_client \<times> bandit_model) result"
where
  "run_distributed_query s pc full n cache versions bandit sql =
     (if n = 0 then Inl (RuntimeError ''distributed: no workers configured'')
      else
        rbind (plan_with_cache (sur_log2 s) (sur_set_order s) (sur_index_order s) pc (sur_network s) cache versions 300 sql) (\<lambda>(planned, cache).
        rbind (plan_of_struct (result_plan planned)) (\<lambda>p.
        rbind (execute_distributed s (pc_schemas pc) n p
            \<lparr>local_full_database = full, rc_catalog = pc_schemas pc, num_workers = n, recovered_workers = []\<rparr> bandit) (\<lambda>(res, context, arm, bandit).
          let res = res\<lparr>total_ms := sur_ms s\<rparr>;
              bandit = (if context \<noteq> [] \<and> arm \<noteq> [] then bandit_update context arm (dneg (total_ms res)) bandit else bandit)
          in Inr (res, cache, bandit)))))"

end
