(* ===== verification/Distribution.thy ===== *)
theory Distribution
  imports Coordinator
begin

text \<open>
  Distributed execution against execution on one node.  The rows that the coordinator gathers before it finishes a query
  are a permutation of the rows that the core of the plan has on the full database, whichever workers answer.
\<close>

section \<open>Workers that answer or fail\<close>

abbreviation part :: "recovery_context \<Rightarrow> nat \<Rightarrow> database" where
  "part ctx w \<equiv> filter_database_to_partition (local_full_database ctx) (rc_catalog ctx) w (num_workers ctx)"

abbreviation recovering :: "recovery_context \<Rightarrow> nat list \<Rightarrow> recovery_context" where
  "recovering ctx ws \<equiv> ctx\<lparr>recovered_workers := recovered_workers ctx @ ws\<rparr>"

text \<open>An answer with status 200 is what the worker computes; every call may fail instead.\<close>

definition faithful :: "runtime \<Rightarrow> http \<Rightarrow> recovery_context \<Rightarrow> bool" where
  "faithful rt http ctx \<longleftrightarrow>
     (\<forall>w < num_workers ctx. \<forall>body status text. http w body = Some (status, text) \<longrightarrow> status = 200 \<longrightarrow>
        worker_execute rt (part ctx w) body = Inr text)"

lemma faithful_recovering [simp]: "faithful rt http (recovering ctx ws) = faithful rt http ctx"
  by (simp add: faithful_def)

text \<open>A response that survives its trip, to a plan and rows that survive theirs.\<close>

definition answers :: "runtime \<Rightarrow> recovery_context \<Rightarrow> physical_plan \<Rightarrow> row_sets \<Rightarrow> nat \<Rightarrow> response \<Rightarrow> bool" where
  "answers rt ctx p ext w r \<longleftrightarrow>
     plan_storable (struct_of_plan p) \<and> sets_sendable ext \<and> execute_plan rt p (part ctx w) (map_of ext) = Inr r \<and>
     response_sendable r"

lemma answers_recovering [simp]: "answers rt (recovering ctx ws) p ext w r = answers rt ctx p ext w r"
  by (simp add: answers_def)

lemma call_answers:
  assumes "faithful rt http ctx" "w < num_workers ctx" "answers rt ctx p ext w r"
  shows "\<exists>ws. call_worker_or_recover rt http w p ext ctx = Inr (r, recovering ctx ws)"
proof -
  have p: "plan_storable (struct_of_plan p)" "sets_sendable ext" and run: "execute_plan rt p (part ctx w) (map_of ext) = Inr r"
    and ok: "response_sendable r" using assms(3) by (simp_all add: answers_def)
  let ?body = "to_json (request_json p ext)"
  have exec: "worker_execute rt (part ctx w) ?body = Inr (to_json (response_json r))"
    using worker_execute_request [OF p, of rt "part ctx w"] run by simp
  consider "call_worker_execute http w p ext = Inr None" | "call_worker_execute http w p ext = Inr (Some r)"
  proof (cases "http w ?body")
    case None
    then show ?thesis using that by (simp add: call_worker_execute_def worker_request_json(1) [OF p])
  next
    case (Some st)
    obtain status body where st: "st = (status, body)" by (cases st)
    show ?thesis
    proof (cases "status = 200")
      case False
      then show ?thesis using that Some st by (simp add: call_worker_execute_def worker_request_json(1) [OF p])
    next
      case True
      then have "body = to_json (response_json r)" using assms(1,2) Some st exec unfolding faithful_def by fastforce
      then show ?thesis
        using that(2) Some st True parse_json_written [OF response_json_ok [OF ok]] response_back [OF ok]
        by (simp add: call_worker_execute_def worker_request_json(1) [OF p])
    qed
  qed
  then show ?thesis
  proof cases
    case 1
    then show ?thesis using run by (intro exI [of _ "[w]"]) (simp add: call_worker_or_recover_def)
  next
    case 2
    then show ?thesis by (intro exI [of _ "[]"]) (simp add: call_worker_or_recover_def)
  qed
qed

lemma recovering_recovering [simp]: "recovering (recovering ctx ws) us = recovering ctx (ws @ us)"
  by simp

lemma ask_steps:
  assumes "faithful rt http ctx" "\<forall>w \<in> set ws. w < num_workers ctx \<and> answers rt ctx p (ext w) w (resp w)"
  shows "\<exists>us. rfold (ask_step rt http p ext) (acc, ctx) ws = Inr (acc @ map resp ws, recovering ctx us)"
  using assms
proof (induction ws arbitrary: acc ctx)
  case Nil
  then show ?case by (intro exI [of _ "[]"]) simp
next
  case (Cons w ws)
  obtain us where us: "call_worker_or_recover rt http w p (ext w) ctx = Inr (resp w, recovering ctx us)"
    using call_answers [OF Cons.prems(1), of w p "ext w" "resp w"] Cons.prems(2) by auto
  have "\<exists>vs. rfold (ask_step rt http p ext) (acc @ [resp w], recovering ctx us) ws =
      Inr ((acc @ [resp w]) @ map resp ws, recovering (recovering ctx us) vs)"
    by (rule Cons.IH) (use Cons.prems in auto)
  then show ?case using us by (auto simp: ask_step_def [of rt http p ext "(acc, ctx)" w])
qed

lemma ask_workers_cong:
  assumes "\<And>w. w < n \<Longrightarrow> ext w = ext' w"
  shows "ask_workers rt http n p ext ctx = ask_workers rt http n p ext' ctx"
proof -
  have "\<forall>w \<in> set ws. ext w = ext' w \<Longrightarrow> rfold (ask_step rt http p ext) st ws = rfold (ask_step rt http p ext') st ws" for ws st
  proof (induction ws arbitrary: st)
    case (Cons w ws)
    then have "ask_step rt http p ext st w = ask_step rt http p ext' st w" by (simp add: ask_step_def)
    with Cons show ?case by simp
  qed simp
  then show ?thesis using assms by (simp add: ask_workers_def)
qed

lemma ask_workers_answers:
  assumes "faithful rt http ctx" "\<And>w. w < num_workers ctx \<Longrightarrow> answers rt ctx p (ext w) w (resp w)"
  shows "\<exists>us. ask_workers rt http (num_workers ctx) p ext ctx = Inr (map resp [0 ..< num_workers ctx], recovering ctx us)"
  using ask_steps [OF assms(1), of "[0 ..< num_workers ctx]" p ext resp "[]"] assms(2) by (simp add: ask_workers_def)

section \<open>Runs of plans\<close>

definition runs :: "runtime \<Rightarrow> physical_plan \<Rightarrow> database \<Rightarrow> (nat \<rightharpoonup> row list) \<Rightarrow> row_schema \<Rightarrow> row list \<Rightarrow> bool" where
  "runs rt p db ext sch rows \<longleftrightarrow>
     (\<exists>x. build_executor p db ext = Inr x \<and> exec_schema x = sch \<and> rows_are rt x rows)"

lemma execute_plan_runs:
  "execute_plan rt p db ext = Inr (cols, rows) \<longleftrightarrow> (\<exists>sch. runs rt p db ext sch rows \<and> cols = qualified_names sch)"
proof -
  have "rbind (exec_rows rt x) (drained snoc []) = Inr rows \<longleftrightarrow> rows_are rt x rows" for x
    by (cases "exec_rows rt x"; cases "snd (projr (exec_rows rt x))") (auto simp: rows_are_def drained_snoc)
  then show ?thesis unfolding execute_plan_rows runs_def by (simp only: rbind_eq_Inr) blast
qed

lemma runs_unique: "runs rt p db ext sch rows \<Longrightarrow> runs rt p db ext sch' rows' \<Longrightarrow> sch' = sch \<and> rows' = rows"
  by (auto simp: runs_def rows_are_def)

section \<open>One relation\<close>

definition relation_table :: "physical_plan \<Rightarrow> string" where
  "relation_table p = node_table (unwrap_filter p)"

definition relation_schema :: "physical_plan \<Rightarrow> string list \<Rightarrow> row_schema" where
  "relation_schema p cols =
     scan_schema (relation_table p) (node_alias (unwrap_filter p)) \<lparr>table_columns = cols, table_rows = []\<rparr>"

lemma stream_bind_bind:
  "stream_bind f (fst (stream_bind g rs err)) (snd (stream_bind g rs err)) =
   stream_bind (\<lambda>r. stream_bind f (fst (g r)) (snd (g r))) rs err"
proof -
  have app: "stream_bind f (xs @ ys) e = stream_cons (stream_bind f xs None) (stream_bind f ys e)" for xs ys e
    by (induction xs) (auto simp: stream_cons_def split: option.split)
  have ne: "snd (stream_bind f xs (Some e)) \<noteq> None" for xs e
    by (induction xs) (auto simp: stream_cons_def split: option.split)
  have err: "stream_cons (stream_bind f xs (Some e)) b = stream_bind f xs (Some e)" for xs e b
    using ne [of xs e] by (auto simp: stream_cons_def)
  show ?thesis by (induction rs) (auto simp: app err stream_cons_def [of "g _"] split: option.split)
qed

text \<open>A single relation is read row by row; whether it opens does not depend on the rows.\<close>

lemma single_stream:
  "is_single_relation p \<Longrightarrow> \<exists>e f. \<forall>db ext tab. db_get db (relation_table p) = Some tab \<longrightarrow> table_columns tab = cols \<longrightarrow>
     (\<exists>x. build_executor p db ext = Inr x \<and> exec_schema x = relation_schema p cols \<and>
       exec_rows rt x = (case e of Some e \<Rightarrow> Inl e | None \<Rightarrow> Inr (stream_bind f (table_rows tab) None)))"
proof (induction p)
  case (SeqScan i t a cs)
  have "stream_bind (\<lambda>r. ([r], None)) rs None = (rs, None)" for rs by (induction rs) simp_all
  then show ?case
    by (intro exI [of _ None] exI [of _ "\<lambda>r. ([r], None)"])
      (simp add: relation_table_def relation_schema_def make_seq_scan_def scan_schema_def)
next
  case (IndexScan i t a cs c v)
  show ?case
  proof (cases "evaluate v [] empty_schema")
    case (Inl e)
    then show ?thesis
      by (intro exI [of _ "Some e"])
        (simp add: relation_table_def relation_schema_def make_index_scan_def scan_schema_def)
  next
    case (Inr probe)
    let ?sch = "scan_schema t a \<lparr>table_columns = cols, table_rows = []\<rparr>"
    show ?thesis
    proof (cases "resolve ?sch None c")
      case None
      then show ?thesis using Inr
        by (intro exI [of _ "Some (RuntimeError (''execution: index column '' @ [CHR 0x27] @ c @ [CHR 0x27] @ '' not found''))"])
          (simp add: relation_table_def relation_schema_def make_index_scan_def scan_schema_def)
    next
      case (Some col)
      then show ?thesis using Inr
        by (intro exI [of _ None] exI [of _ "index_row col probe"])
          (simp add: relation_table_def relation_schema_def make_index_scan_def scan_schema_def)
    qed
  qed
next
  case (PFilter i e p)
  have "is_single_relation p" using PFilter.prems by (simp add: is_single_relation_def)
  from PFilter.IH [OF this] obtain err f where x: "\<And>db ext tab. db_get db (relation_table p) = Some tab \<Longrightarrow> table_columns tab = cols \<Longrightarrow>
     (\<exists>x. build_executor p db ext = Inr x \<and> exec_schema x = relation_schema p cols \<and>
       exec_rows rt x = (case err of Some e \<Rightarrow> Inl e | None \<Rightarrow> Inr (stream_bind f (table_rows tab) None)))"
    by blast
  have same: "relation_table (PFilter i e p) = relation_table p" "relation_schema (PFilter i e p) cols = relation_schema p cols"
    by (simp_all add: relation_table_def relation_schema_def)
  let ?f = "\<lambda>r. stream_bind (filter_row e (relation_schema p cols)) (fst (f r)) (snd (f r))"
  show ?case
  proof (intro exI [of _ err] exI [of _ ?f] allI impI)
    fix db ext tab
    assume "db_get db (relation_table (PFilter i e p)) = Some tab" "table_columns tab = cols"
    from x [of db tab ext] this same obtain y where y: "build_executor p db ext = Inr y" "exec_schema y = relation_schema p cols"
      "exec_rows rt y = (case err of Some e \<Rightarrow> Inl e | None \<Rightarrow> Inr (stream_bind f (table_rows tab) None))" by auto
    then show "\<exists>x. build_executor (PFilter i e p) db ext = Inr x \<and> exec_schema x = relation_schema (PFilter i e p) cols \<and>
       exec_rows rt x = (case err of Some e \<Rightarrow> Inl e | None \<Rightarrow> Inr (stream_bind ?f (table_rows tab) None))"
      by (cases err) (simp_all add: same split_beta stream_bind_bind)
  qed
qed (simp_all add: is_single_relation_def)

lemma stream_bind_None:
  "stream_bind f rs None = (out, None) \<Longrightarrow> (\<forall>r \<in> set rs. f r = (fst (f r), None)) \<and> out = concat (map (fst \<circ> f) rs)"
proof (induction rs arbitrary: out)
  case (Cons r rs)
  then show ?case by (cases "f r"; cases "snd (f r)"; cases "stream_bind f rs None") (auto simp: stream_cons_def)
qed simp

lemma single_rows:
  assumes "is_single_relation p" "runs rt p db ext sch rows" "db_get db (relation_table p) = Some tab"
  shows "sch = relation_schema p (table_columns tab) \<and>
    (\<exists>g. rows = concat (map g (table_rows tab)) \<and>
      (\<forall>db' ext' tab'. db_get db' (relation_table p) = Some tab' \<longrightarrow> table_columns tab' = table_columns tab \<longrightarrow>
         set (table_rows tab') \<subseteq> set (table_rows tab) \<longrightarrow> runs rt p db' ext' sch (concat (map g (table_rows tab')))))"
proof -
  obtain e f where f: "\<And>db ext tab'. db_get db (relation_table p) = Some tab' \<Longrightarrow> table_columns tab' = table_columns tab \<Longrightarrow>
     (\<exists>x. build_executor p db ext = Inr x \<and> exec_schema x = relation_schema p (table_columns tab) \<and>
       exec_rows rt x = (case e of Some e \<Rightarrow> Inl e | None \<Rightarrow> Inr (stream_bind f (table_rows tab') None)))"
    using single_stream [OF assms(1), of "table_columns tab" rt] by blast
  from f [OF assms(3) refl, of ext] assms(2)
  have e: "e = None" and sch: "sch = relation_schema p (table_columns tab)" and out: "stream_bind f (table_rows tab) None = (rows, None)"
    by (auto simp: runs_def rows_are_def split: option.splits)
  from stream_bind_None [OF out] have rows: "\<forall>r \<in> set (table_rows tab). f r = (fst (f r), None)"
    "rows = concat (map (fst \<circ> f) (table_rows tab))" by simp_all
  have "runs rt p db' ext' sch (concat (map (fst \<circ> f) (table_rows tab')))"
    if "db_get db' (relation_table p) = Some tab'" "table_columns tab' = table_columns tab"
      "set (table_rows tab') \<subseteq> set (table_rows tab)" for db' ext' tab'
  proof -
    have "stream_bind f (table_rows tab') None = (concat (map (fst \<circ> f) (table_rows tab')), None)"
      by (rule stream_bind_total) (use rows(1) that(3) in auto)
    with f [OF that(1,2), of ext'] e sch show ?thesis by (auto simp: runs_def rows_are_def)
  qed
  with sch rows(2) show ?thesis by blast
qed

section \<open>The partitions of a relation\<close>

text \<open>A table that the workers share out completely: its rows have integers in the column \<^verbatim>\<open>id\<close>.\<close>

definition shared_out :: "table \<Rightarrow> bool" where
  "shared_out tab \<longleftrightarrow>
     (case position (\<lambda>c. c = ''id'') (table_columns tab) of None \<Rightarrow> False | Some c \<Rightarrow> list_all (has_id c) (table_rows tab))"

lemma fold_add_tables:
  "db_get (fold (\<lambda>name db. case db_get full name of None \<Rightarrow> db | Some t \<Rightarrow> add_table name (f t) db) names db) x =
     (if x \<in> set names \<and> db_get full x \<noteq> None then map_option f (db_get full x) else db_get db x)"
proof (induction names arbitrary: db)
  case (Cons name names)
  have "db_get (add_table name t db) x = (if x = name then Some t else db_get db x)" for t
    by (simp add: add_table_def db_get_def update_conv')
  with Cons show ?case by (cases "db_get full name") auto
qed simp

lemma part_get:
  "x \<in> set (table_names (rc_catalog ctx)) \<Longrightarrow> db_get (local_full_database ctx) x = Some tab \<Longrightarrow>
   db_get (part ctx w) x = Some (filter_table_to_partition tab w (num_workers ctx))"
  by (simp add: filter_database_to_partition_def fold_add_tables)

lemma shared_out_parts:
  assumes "shared_out tab" "0 < n"
  shows "mset (concat (map (\<lambda>w. table_rows (filter_table_to_partition tab w n)) [0 ..< n])) = mset (table_rows tab)"
proof -
  obtain c where c: "position (\<lambda>c. c = ''id'') (table_columns tab) = Some c" "\<forall>r \<in> set (table_rows tab). has_id c r"
    using assms(1) by (auto simp: shared_out_def list_all_iff split: option.splits)
  have "filter (has_id c) (table_rows tab) = table_rows tab" by (rule filter_True) (use c(2) in blast)
  with owned_rows [OF assms(2), of c "table_rows tab"] c(1) show ?thesis
    by (simp add: filter_table_to_partition_def del: has_id.simps)
qed

lemma part_rows: "set (table_rows (filter_table_to_partition tab w n)) \<subseteq> set (table_rows tab)"
  by (auto simp: filter_table_to_partition_def split: option.splits)

text \<open>A relation of the query, its rows on one node, and what they need to travel.\<close>

definition relation_ok :: "runtime \<Rightarrow> recovery_context \<Rightarrow> physical_plan \<Rightarrow> row_schema \<Rightarrow> row list \<Rightarrow> bool" where
  "relation_ok rt ctx p sch rows \<longleftrightarrow>
     is_single_relation p \<and> relation_table p \<in> set (table_names (rc_catalog ctx)) \<and>
     (\<exists>tab. db_get (local_full_database ctx) (relation_table p) = Some tab \<and> shared_out tab) \<and>
     runs rt p (local_full_database ctx) Map.empty sch rows \<and>
     plan_storable (struct_of_plan p) \<and> (\<forall>c \<in> set (qualified_names sch). plain c) \<and> rows_sendable rows \<and>
     fits sch rows \<and> (\<forall>e \<in> set (entries sch). CHR ''.'' \<notin> set (snd e))"

lemma relation_parts:
  assumes "relation_ok rt ctx p sch rows" "0 < num_workers ctx"
  obtains rs where "\<And>w ext. runs rt p (part ctx w) ext sch (rs w)"
    "mset (concat (map rs [0 ..< num_workers ctx])) = mset rows" "\<And>w. set (rs w) \<subseteq> set rows"
proof -
  let ?n = "num_workers ctx"
  obtain tab where tab: "db_get (local_full_database ctx) (relation_table p) = Some tab" "shared_out tab"
    using assms(1) by (auto simp: relation_ok_def)
  obtain g where g: "rows = concat (map g (table_rows tab))"
    "\<And>db' ext' tab'. db_get db' (relation_table p) = Some tab' \<Longrightarrow> table_columns tab' = table_columns tab \<Longrightarrow>
         set (table_rows tab') \<subseteq> set (table_rows tab) \<Longrightarrow> runs rt p db' ext' sch (concat (map g (table_rows tab')))"
    using single_rows [of p rt "local_full_database ctx" Map.empty sch rows tab] assms(1) tab(1) by (auto simp: relation_ok_def)
  let ?t = "\<lambda>w. filter_table_to_partition tab w ?n"
  show ?thesis
  proof
    show "runs rt p (part ctx w) ext sch (concat (map g (table_rows (?t w))))" for w ext
      by (rule g(2)) (use assms(1) tab(1) part_rows in \<open>auto simp: relation_ok_def part_get filter_table_columns\<close>)
    have "concat (map (\<lambda>w. concat (map g (table_rows (?t w)))) ws) =
        concat (map g (concat (map (\<lambda>w. table_rows (?t w)) ws)))" for ws by (induction ws) simp_all
    then show "mset (concat (map (\<lambda>w. concat (map g (table_rows (?t w)))) [0 ..< ?n])) = mset rows"
      using mset_concat_map_mset [OF shared_out_parts [OF tab(2) assms(2)], of g] g(1) by simp
    show "set (concat (map g (table_rows (?t w)))) \<subseteq> set rows" for w
      using part_rows [of tab w ?n] g(1) by auto
  qed
qed

lemma rows_sendable_mono: "rows_sendable rows \<Longrightarrow> set rs \<subseteq> set rows \<Longrightarrow> rows_sendable rs"
  by (auto simp: rows_sendable_def)

lemma relation_answers:
  assumes "relation_ok rt ctx p sch rows" "runs rt p (part ctx w) Map.empty sch rs" "set rs \<subseteq> set rows"
  shows "answers rt ctx p [] w (qualified_names sch, rs)"
proof -
  have "execute_plan rt p (part ctx w) Map.empty = Inr (qualified_names sch, rs)"
    using assms(2) execute_plan_runs by blast
  then show ?thesis using assms(1,3)
    by (auto simp: answers_def relation_ok_def sets_sendable_def response_sendable_def intro: rows_sendable_mono)
qed

lemma gather_relation:
  assumes "faithful rt http ctx" "relation_ok rt ctx p sch rows" "0 < num_workers ctx"
  obtains rs us where "ask_workers rt http (num_workers ctx) p (\<lambda>w. []) ctx =
      Inr (map (\<lambda>w. (qualified_names sch, rs w)) [0 ..< num_workers ctx], recovering ctx us)"
    "mset (concat (map rs [0 ..< num_workers ctx])) = mset rows" "\<And>w. set (rs w) \<subseteq> set rows"
proof -
  obtain rs where rs: "\<And>w ext. runs rt p (part ctx w) ext sch (rs w)"
    "mset (concat (map rs [0 ..< num_workers ctx])) = mset rows" "\<And>w. set (rs w) \<subseteq> set rows"
    using relation_parts [OF assms(2,3)] by metis
  have "answers rt ctx p [] w (qualified_names sch, rs w)" for w
    by (rule relation_answers [OF assms(2) rs(1,3)])
  from ask_workers_answers [OF assms(1) this] that rs show ?thesis by blast
qed

lemma last_columns_map: "0 < n \<Longrightarrow> last_columns (map (\<lambda>w. (cols, rs w)) [0 ..< n]) = cols"
  by (cases n) (simp_all add: last_columns_def)

lemma merge_plain:
  assumes "u_aggregate u = None" "0 < n"
  shows "merge_responses u (map (\<lambda>w. (cols, rs w)) [0 ..< n]) = Inr (cols, concat (map rs [0 ..< n]))"
  using assms last_columns_map [OF assms(2)] by (simp add: merge_responses_def comp_def)

section \<open>Rows sent along with a plan\<close>

lemma split_qualified_name: "CHR ''.'' \<notin> set c \<Longrightarrow> split_qualified (t @ ''.'' @ c) = (Some t, c)"
proof -
  assume c: "CHR ''.'' \<notin> set c"
  have "takeWhile (\<lambda>x. x \<noteq> CHR ''.'') (rev c @ CHR ''.'' # rev t) = rev c"
    "dropWhile (\<lambda>x. x \<noteq> CHR ''.'') (rev c @ CHR ''.'' # rev t) = CHR ''.'' # rev t"
    using c by (subst takeWhile_append2 dropWhile_append2; auto)+
  then show ?thesis by (simp add: split_qualified_def)
qed

lemma entries_fold_pairs: "fold (\<lambda>e. schema_add (fst e) (snd e)) es s = s\<lparr>entries := entries s @ es\<rparr>"
  by (induction es arbitrary: s) (simp_all add: schema_add_def)

lemma external_schema_back:
  assumes "agg_entries sch = []" "\<forall>e \<in> set (entries sch). fst e \<noteq> None \<and> CHR ''.'' \<notin> set (snd e)"
  shows "external_schema (qualified_names sch) 0 [] = sch"
proof -
  have split: "split_qualified (qualified_name sch i) = entries sch ! i" if "i < length (entries sch)" for i
  proof -
    obtain t c where e: "entries sch ! i = (Some t, c)" "CHR ''.'' \<notin> set c"
      using assms(2) nth_mem [OF \<open>i < length (entries sch)\<close>] by (cases "entries sch ! i") auto
    then show ?thesis using split_qualified_name [of c t] by (simp add: qualified_name_def)
  qed
  have "map split_qualified (qualified_names sch) = entries sch"
    by (rule nth_equalityI) (simp_all add: qualified_names_def split)
  moreover have "fold (\<lambda>c. schema_add (fst (split_qualified c)) (snd (split_qualified c))) cs s =
      fold (\<lambda>e. schema_add (fst e) (snd e)) (map split_qualified cs) s" for cs s
    by (induction cs arbitrary: s) simp_all
  ultimately show ?thesis using assms(1)
    by (simp add: external_schema_def entries_fold_pairs empty_schema_def)
qed

lemma relation_schema_external:
  assumes "relation_ok rt ctx p sch rows"
  shows "external_schema (qualified_names sch) 0 [] = sch"
proof -
  obtain tab where "db_get (local_full_database ctx) (relation_table p) = Some tab" using assms by (auto simp: relation_ok_def)
  with assms single_rows [of p rt "local_full_database ctx" Map.empty sch rows tab]
  have "sch = relation_schema p (table_columns tab)" by (simp add: relation_ok_def)
  moreover have "agg_entries (fold (schema_add q) cs s) = agg_entries s" for q cs s
    by (induction cs arbitrary: s) (simp_all add: schema_add_def)
  ultimately show ?thesis using assms
    by (intro external_schema_back)
      (auto simp: relation_ok_def relation_schema_def entries_scan_schema scan_schema_def Let_def empty_schema_def entries_fold_add)
qed

lemma external_runs:
  "external_schema cols 0 [] = sch \<Longrightarrow> ext slot = Some rows \<Longrightarrow> runs rt (make_external_rows name cols slot k) db ext sch rows"
  by (simp add: runs_def make_external_rows_def rows_are_def)

lemma storable_one: "storable (Fin False 1)"
  by code_simp

lemma storable_parts: "info_storable (make_info zero_cost k [] (Fin False 1)) = (k < 2 ^ 53)" "info_storable no_info"
  "expr_storable no_expr" "plain []" "literal_storable null_literal"
  by (simp_all add: info_storable_def no_info_def make_info_def zero_cost_def storable_one null_literal_def plain_def)

lemma external_storable:
  "plain name \<Longrightarrow> \<forall>c \<in> set cols. plain c \<Longrightarrow> slot < 2 ^ 53 \<Longrightarrow> k < 2 ^ 53 \<Longrightarrow>
   plan_storable (struct_of_plan (make_external_rows name cols slot k))"
  by (simp add: make_external_rows_def storable_parts)

lemma join_storable:
  "plan_storable (struct_of_plan l) \<Longrightarrow> plan_storable (struct_of_plan r) \<Longrightarrow> expr_storable (struct_of_expr c) \<Longrightarrow>
   plan_storable (struct_of_plan (PJoin k no_info jt c l r))"
  by (simp add: storable_parts)

lemma plain_node_table: "plan_storable (struct_of_plan p) \<Longrightarrow> plain (node_table p)"
  by (cases p) (simp_all add: plain_def)

lemma plain_Cons: "plain (c # s) \<longleftrightarrow> (32 \<le> code c \<or> c = CHR 0x0A \<or> c = CHR 0x09) \<and> plain s"
  by (auto simp: plain_def)

section \<open>Joins\<close>

text \<open>The rows that a pair of rows contributes to a join.\<close>

definition join_matches :: "join_algorithm \<Rightarrow> expression \<Rightarrow> row_schema \<Rightarrow> row_schema \<Rightarrow> row \<Rightarrow> row \<Rightarrow> row list" where
  "join_matches k c s t x y =
     (if k = HashJoin then
        (case hash_keys c s t of
           Inl e \<Rightarrow> []
         | Inr (lk, rk) \<Rightarrow>
             if literal_to_string (key_value lk s x) = literal_to_string (key_value rk t y) then [x @ y] else [])
      else if Equivalences.holds c (schema_extend s t) (x @ y) then [x @ y] else [])"

definition join_defined :: "join_algorithm \<Rightarrow> expression \<Rightarrow> row_schema \<Rightarrow> row_schema \<Rightarrow> row list \<Rightarrow> row list \<Rightarrow> bool" where
  "join_defined k c s t ls rs \<longleftrightarrow>
     (if k = HashJoin then \<exists>ks. hash_keys c s t = Inr ks else decides c (schema_extend s t) (set (joined ls rs)))"

lemma joined_mono: "set ls' \<subseteq> set ls \<Longrightarrow> set rs' \<subseteq> set rs \<Longrightarrow> set (joined ls' rs') \<subseteq> set (joined ls rs)"
  unfolding set_joined by blast

lemma join_defined_mono:
  "join_defined k c s t ls rs \<Longrightarrow> set ls' \<subseteq> set ls \<Longrightarrow> set rs' \<subseteq> set rs \<Longrightarrow> join_defined k c s t ls' rs'"
  unfolding join_defined_def using joined_mono decides_mono by metis

lemma nl_pairs: "filter P (joined ls rs) = pairwise_rows (\<lambda>x y. if P (x @ y) then [x @ y] else []) ls rs"
proof -
  have "filter P (map ((@) x) rs) = concat (map (\<lambda>y. if P (x @ y) then [x @ y] else []) rs)" for x
    by (induction rs) auto
  then show ?thesis by (simp add: filter_joined pairwise_rows_def)
qed

lemma join_runs:
  assumes rt: "runtime_ok rt" and l: "runs rt l db ext s ls" "fits s ls" and r: "runs rt r db ext t rs" "fits t rs"
    and "join_defined k c s t ls rs"
  shows "\<exists>out. runs rt (PJoin k i jt c l r) db ext (schema_extend s t) out \<and>
    mset out = mset (pairwise_rows (join_matches k c s t) ls rs)"
proof -
  obtain x y where x: "build_executor l db ext = Inr x" "exec_schema x = s" "rows_are rt x ls"
    and y: "build_executor r db ext = Inr y" "exec_schema y = t" "rows_are rt y rs" using l r by (auto simp: runs_def)
  show ?thesis
  proof (cases "k = HashJoin")
    case True
    then obtain lk rk where keys: "hash_keys c s t = Inr (lk, rk)" using assms(6) by (auto simp: join_defined_def)
    then have k: "is_key_of s lk" "is_key_of t rk" by (auto elim!: hash_keys.elims split: if_splits)
    let ?key = "\<lambda>v. literal_to_string (key_value rk t v)"
    let ?out = "concat (map (\<lambda>u. map ((@) u) (hash_lookup rt (map (\<lambda>v. (?key v, v)) rs) (literal_to_string (key_value lk s u)))) ls)"
    have "rows_are rt (HashJoinExec x y (schema_extend s t) lk rk [] None None) ?out"
      using hash_join_stream [of rt x ls y rs lk rk] x y l(2) r(2) k by simp
    then have "runs rt (PJoin k i jt c l r) db ext (schema_extend s t) ?out"
      using True x y keys by (simp add: runs_def make_hash_join_def)
    moreover have "mset ?out = mset (pairwise_rows (join_matches k c s t) ls rs)"
    proof -
      have "mset (map ((@) u) (hash_lookup rt (map (\<lambda>v. (?key v, v)) rs) (literal_to_string (key_value lk s u)))) =
          mset (concat (map (join_matches k c s t u) rs))" for u
      proof -
        have "concat (map (join_matches k c s t u) rs) =
            map ((@) u) (filter (\<lambda>v. ?key v = literal_to_string (key_value lk s u)) rs)"
          by (induction rs) (auto simp: join_matches_def True keys)
        then show ?thesis using mset_hash_lookup [OF rt, of ?key rs] by simp
      qed
      then show ?thesis unfolding pairwise_rows_def by (rule mset_concat_cong)
    qed
    ultimately show ?thesis by blast
  next
    case False
    let ?out = "filter (Equivalences.holds c (schema_extend s t)) (joined ls rs)"
    have "rows_are rt (make_nested_loop c x y) ?out"
      using make_nested_loop_rows [OF x(3) y(3)] x(2) y(2) assms(6) False by (simp add: join_defined_def)
    then have "runs rt (PJoin k i jt c l r) db ext (schema_extend s t) ?out"
      using False x y by (auto simp: runs_def make_nested_loop_def)
    moreover have "?out = pairwise_rows (join_matches k c s t) ls rs"
      unfolding nl_pairs using False by (simp add: join_matches_def [abs_def])
    ultimately show ?thesis by auto
  qed
qed

lemma pairwise_matches_set:
  "set (pairwise_rows (join_matches k c s t) ls rs) \<subseteq> {x @ y |x y. x \<in> set ls \<and> y \<in> set rs}"
  by (auto simp: pairwise_rows_def join_matches_def split: sum.splits prod.splits if_splits)

lemma joined_sendable:
  assumes "mset out = mset (pairwise_rows (join_matches k c s t) ls rs)" "rows_sendable ls" "rows_sendable rs"
  shows "rows_sendable out"
proof -
  have "set out = set (pairwise_rows (join_matches k c s t) ls rs)" by (rule mset_eq_setD [OF assms(1)])
  then have "set out \<subseteq> {x @ y |x y. x \<in> set ls \<and> y \<in> set rs}" using pairwise_matches_set by simp
  with assms(2,3) show ?thesis by (fastforce simp: rows_sendable_def)
qed

lemma qualified_names_extend: "qualified_names (schema_extend s t) = qualified_names s @ qualified_names t"
proof (rule nth_equalityI)
  fix i assume "i < length (qualified_names (schema_extend s t))"
  then show "qualified_names (schema_extend s t) ! i = (qualified_names s @ qualified_names t) ! i"
    by (auto simp: qualified_names_def qualified_name_def nth_append)
qed (simp add: qualified_names_def)

lemma fits_mono: "fits s rows \<Longrightarrow> set rs \<subseteq> set rows \<Longrightarrow> fits s rs"
  by (auto simp: fits_def)

text \<open>What each worker answers to a join plan, from what the two inputs of the plan deliver there.\<close>

lemma join_answers:
  assumes "runtime_ok rt" and l: "runs rt l (part ctx w) (map_of ext) s ls" "fits s ls" "rows_sendable ls" "plan_storable (struct_of_plan l)"
    and r: "runs rt r (part ctx w) (map_of ext) t rs" "fits t rs" "rows_sendable rs" "plan_storable (struct_of_plan r)"
    and "join_defined k c s t ls rs" "expr_storable (struct_of_expr c)" "sets_sendable ext"
    and "\<forall>c \<in> set (qualified_names s @ qualified_names t). plain c"
  shows "\<exists>out. answers rt ctx (PJoin k no_info jt c l r) ext w (qualified_names (schema_extend s t), out) \<and>
    mset out = mset (pairwise_rows (join_matches k c s t) ls rs)"
proof -
  obtain out where out: "runs rt (PJoin k no_info jt c l r) (part ctx w) (map_of ext) (schema_extend s t) out"
    "mset out = mset (pairwise_rows (join_matches k c s t) ls rs)"
    using join_runs [OF assms(1) l(1,2) r(1,2) assms(10)] by blast
  have "response_sendable (qualified_names (schema_extend s t), out)"
    using joined_sendable [OF out(2) l(3) r(3)] assms(13) by (simp add: response_sendable_def qualified_names_extend)
  moreover have "execute_plan rt (PJoin k no_info jt c l r) (part ctx w) (map_of ext) =
      Inr (qualified_names (schema_extend s t), out)" using out(1) execute_plan_runs by blast
  ultimately show ?thesis using out(2) join_storable [OF l(4) r(4) assms(11)] assms(12) unfolding answers_def by blast
qed

lemma relation_okD:
  assumes "relation_ok rt ctx p sch rows"
  shows "runs rt p (local_full_database ctx) Map.empty sch rows" "fits sch rows" "rows_sendable rows" "plan_storable (struct_of_plan p)"
    "\<forall>c \<in> set (qualified_names sch). plain c"
  using assms by (simp_all add: relation_ok_def)

lemma relation_ok_recovering [simp]: "relation_ok rt (recovering ctx us) p sch rows = relation_ok rt ctx p sch rows"
  by (simp add: relation_ok_def)

text \<open>
  A join whose inputs are spread over the workers: \<open>A w\<close> and \<open>B w\<close> are the rows that meet at worker \<open>w\<close>.  When the
  pairs that meet give the rows of the whole join, so does the merged answer.
\<close>

lemma exchanged_join:
  assumes rt: "runtime_ok rt" "faithful rt http ctx" "0 < num_workers ctx" and u: "u_aggregate u = None"
    and l: "relation_ok rt ctx l s ls" and r: "relation_ok rt ctx r t rs"
    and c: "join_defined k c s t ls rs" "expr_storable (struct_of_expr c)"
    and A: "\<And>w. runs rt l' (part ctx w) (map_of (ext w)) s (A w)" "\<And>w. set (A w) \<subseteq> set ls" "plan_storable (struct_of_plan l')"
    and B: "\<And>w. runs rt r' (part ctx w) (map_of (ext w)) t (B w)" "\<And>w. set (B w) \<subseteq> set rs" "plan_storable (struct_of_plan r')"
    and ext: "\<And>w. sets_sendable (ext w)"
    and all: "mset (concat (map (\<lambda>w. pairwise_rows (join_matches k c s t) (A w) (B w)) [0 ..< num_workers ctx])) =
      mset (pairwise_rows (join_matches k c s t) ls rs)"
  shows "\<exists>resps merged us. ask_workers rt http (num_workers ctx) (PJoin k no_info jt c l' r') ext ctx = Inr (resps, recovering ctx us) \<and>
    merge_responses u resps = Inr (qualified_names (schema_extend s t), merged) \<and>
    mset merged = mset (pairwise_rows (join_matches k c s t) ls rs)"
proof -
  let ?n = "num_workers ctx" and ?cols = "qualified_names (schema_extend s t)"
  have "\<exists>out. answers rt ctx (PJoin k no_info jt c l' r') (ext w) w (?cols, out) \<and>
      mset out = mset (pairwise_rows (join_matches k c s t) (A w) (B w))" for w
    by (rule join_answers [OF rt(1) A(1) fits_mono [OF relation_okD(2) [OF l] A(2)] rows_sendable_mono [OF relation_okD(3) [OF l] A(2)] A(3)
        B(1) fits_mono [OF relation_okD(2) [OF r] B(2)] rows_sendable_mono [OF relation_okD(3) [OF r] B(2)] B(3)
        join_defined_mono [OF c(1) A(2) B(2)] c(2) ext])
      (use relation_okD(5) [OF l] relation_okD(5) [OF r] in auto)
  then obtain out where out: "\<And>w. answers rt ctx (PJoin k no_info jt c l' r') (ext w) w (?cols, out w)"
    "\<And>w. mset (out w) = mset (pairwise_rows (join_matches k c s t) (A w) (B w))" by metis
  obtain us where "ask_workers rt http ?n (PJoin k no_info jt c l' r') ext ctx =
      Inr (map (\<lambda>w. (?cols, out w)) [0 ..< ?n], recovering ctx us)"
    using ask_workers_answers [OF rt(2) out(1)] by blast
  moreover have "mset (concat (map out [0 ..< ?n])) = mset (pairwise_rows (join_matches k c s t) ls rs)"
    unfolding all [symmetric] by (rule mset_concat_cong) (rule out(2))
  ultimately show ?thesis using merge_plain [OF u rt(3)] by blast
qed

section \<open>Broadcasting\<close>

text \<open>The broadcast side: the gathered rows as an input of the worker's plan.\<close>

lemma broadcast_side:
  assumes ok: "relation_ok rt ctx p sch rows" and bs: "mset bs = mset rows" and len: "length rows < 2 ^ 53"
  shows "runs rt (make_external_rows (''broadcast:'' @ node_table p) (qualified_names sch) 0 (length bs)) db [0 \<mapsto> bs] sch bs"
    "plan_storable (struct_of_plan (make_external_rows (''broadcast:'' @ node_table p) (qualified_names sch) 0 (length bs)))"
    "fits sch bs" "rows_sendable bs" "sets_sendable [(0, bs)]"
proof -
  have "set bs = set rows" by (rule mset_eq_setD [OF bs])
  then show "fits sch bs" "rows_sendable bs"
    using fits_mono [of sch rows bs] rows_sendable_mono [of rows bs] relation_okD(2,3) [OF ok] by auto
  then show "sets_sendable [(0, bs)]" by (simp add: sets_sendable_def)
  show "runs rt (make_external_rows (''broadcast:'' @ node_table p) (qualified_names sch) 0 (length bs)) db [0 \<mapsto> bs] sch bs"
    by (rule external_runs) (simp_all add: relation_schema_external [OF ok])
  show "plan_storable (struct_of_plan (make_external_rows (''broadcast:'' @ node_table p) (qualified_names sch) 0 (length bs)))"
    using plain_node_table [OF relation_okD(4) [OF ok]] relation_okD(5) [OF ok] len mset_eq_length [OF bs]
    by (intro external_storable) (simp_all add: plain_Cons)
qed

lemma broadcast_left:
  assumes rt: "runtime_ok rt" "faithful rt http ctx" "0 < num_workers ctx" and u: "u_aggregate u = None"
    and l: "relation_ok rt ctx l s ls" and r: "relation_ok rt ctx r t rs"
    and c: "join_defined k c s t ls rs" "expr_storable (struct_of_expr c)" and len: "length ls < 2 ^ 53"
  shows "\<exists>merged us. mset merged = mset (pairwise_rows (join_matches k c s t) ls rs) \<and>
    run_broadcast_join rt http (num_workers ctx) k jt c l r True u ctx =
      finish rt u (qualified_names (schema_extend s t)) merged (num_workers ctx) ''broadcast_left'' False (recovered_workers ctx @ us)"
proof -
  let ?n = "num_workers ctx"
  obtain bs us where bs: "ask_workers rt http ?n l (\<lambda>w. []) ctx = Inr (map (\<lambda>w. (qualified_names s, bs w)) [0 ..< ?n], recovering ctx us)"
    "mset (concat (map bs [0 ..< ?n])) = mset ls" by (rule gather_relation [OF rt(2) l rt(3)])
  define b where "b = concat (map bs [0 ..< ?n])"
  note side = broadcast_side [OF l bs(2) len, folded b_def]
  obtain q where q: "\<And>w ext. runs rt r (part ctx w) ext t (q w)" "mset (concat (map q [0 ..< ?n])) = mset rs" "\<And>w. set (q w) \<subseteq> set rs"
    using relation_parts [OF r rt(3)] by metis
  let ?ext = "make_external_rows (''broadcast:'' @ node_table l) (qualified_names s) 0 (length b)"
  have "set b = set ls" unfolding b_def by (rule mset_eq_setD [OF bs(2)])
  moreover have "mset (concat (map (\<lambda>w. pairwise_rows (join_matches k c s t) b (q w)) [0 ..< ?n])) =
      mset (pairwise_rows (join_matches k c s t) ls rs)"
    using pairwise_right_parts [of "join_matches k c s t" b "map q [0 ..< ?n]"] pairwise_mset [OF bs(2) q(2), of "join_matches k c s t"]
    by (simp add: comp_def b_def)
  ultimately obtain resps merged vs where
    "ask_workers rt http ?n (PJoin k no_info jt c ?ext r) (\<lambda>w. [(0, b)]) (recovering ctx us) = Inr (resps, recovering (recovering ctx us) vs)"
    "merge_responses u resps = Inr (qualified_names (schema_extend s t), merged)"
    "mset merged = mset (pairwise_rows (join_matches k c s t) ls rs)"
    using exchanged_join [of rt http "recovering ctx us" u l s ls r t rs k c ?ext "\<lambda>w. [(0, b)]" "\<lambda>w. b" r q jt]
      rt u l r c side q relation_okD(4) [OF r] by auto
  then show ?thesis
    using bs(1) last_columns_map [OF rt(3), of "qualified_names s" bs] u
    by (intro exI [of _ merged] exI [of _ "us @ vs"])
      (simp add: run_broadcast_join_def Let_def broadcast_plan_def partial_plan_def comp_def b_def)
qed

lemma broadcast_right:
  assumes rt: "runtime_ok rt" "faithful rt http ctx" "0 < num_workers ctx" and u: "u_aggregate u = None"
    and l: "relation_ok rt ctx l s ls" and r: "relation_ok rt ctx r t rs"
    and c: "join_defined k c s t ls rs" "expr_storable (struct_of_expr c)" and len: "length rs < 2 ^ 53"
  shows "\<exists>merged us. mset merged = mset (pairwise_rows (join_matches k c s t) ls rs) \<and>
    run_broadcast_join rt http (num_workers ctx) k jt c l r False u ctx =
      finish rt u (qualified_names (schema_extend s t)) merged (num_workers ctx) ''broadcast_right'' False (recovered_workers ctx @ us)"
proof -
  let ?n = "num_workers ctx"
  obtain bs us where bs: "ask_workers rt http ?n r (\<lambda>w. []) ctx = Inr (map (\<lambda>w. (qualified_names t, bs w)) [0 ..< ?n], recovering ctx us)"
    "mset (concat (map bs [0 ..< ?n])) = mset rs" by (rule gather_relation [OF rt(2) r rt(3)])
  define b where "b = concat (map bs [0 ..< ?n])"
  note side = broadcast_side [OF r bs(2) len, folded b_def]
  obtain q where q: "\<And>w ext. runs rt l (part ctx w) ext s (q w)" "mset (concat (map q [0 ..< ?n])) = mset ls" "\<And>w. set (q w) \<subseteq> set ls"
    using relation_parts [OF l rt(3)] by metis
  let ?ext = "make_external_rows (''broadcast:'' @ node_table r) (qualified_names t) 0 (length b)"
  have "set b = set rs" unfolding b_def by (rule mset_eq_setD [OF bs(2)])
  moreover have "mset (concat (map (\<lambda>w. pairwise_rows (join_matches k c s t) (q w) b) [0 ..< ?n])) =
      mset (pairwise_rows (join_matches k c s t) ls rs)"
    using pairwise_left_parts [of "join_matches k c s t" "map q [0 ..< ?n]" b] pairwise_mset [OF q(2) bs(2), of "join_matches k c s t"]
    by (simp add: comp_def b_def)
  ultimately obtain resps merged vs where
    "ask_workers rt http ?n (PJoin k no_info jt c l ?ext) (\<lambda>w. [(0, b)]) (recovering ctx us) = Inr (resps, recovering (recovering ctx us) vs)"
    "merge_responses u resps = Inr (qualified_names (schema_extend s t), merged)"
    "mset merged = mset (pairwise_rows (join_matches k c s t) ls rs)"
    using exchanged_join [of rt http "recovering ctx us" u l s ls r t rs k c l "\<lambda>w. [(0, b)]" q ?ext "\<lambda>w. b" jt]
      rt u l r c side q relation_okD(4) [OF l] by auto
  then show ?thesis
    using bs(1) last_columns_map [OF rt(3), of "qualified_names t" bs] u
    by (intro exI [of _ merged] exI [of _ "us @ vs"])
      (simp add: run_broadcast_join_def Let_def broadcast_plan_def partial_plan_def comp_def b_def)
qed

section \<open>Shuffling\<close>

definition key_target :: "expression \<Rightarrow> row_schema \<Rightarrow> nat \<Rightarrow> row \<Rightarrow> nat" where
  "key_target k sch n r = hash_partition_of (key_value k sch r) n"

lemma key_index_value:
  assumes "is_key_of sch k"
  obtains i where "key_index k sch = Some i" "\<And>r. length r = length (entries sch) \<Longrightarrow> row_at r i = Inr (key_value k sch r)"
proof -
  obtain t c i where k: "k = Column t c" "resolve sch t c = Some i" using assms by (cases k) auto
  then show ?thesis using that [of i] resolve_bounds [of sch t c i] by (auto simp: key_value_def row_at_def)
qed

lemma scatter_rows:
  assumes "\<And>r. length r = length (entries sch) \<Longrightarrow> row_at r i = Inr (key_value k sch r)" "0 < n"
  shows "fits sch rows \<Longrightarrow> rfold (scatter_row n i) (map (\<lambda>w. bucket (key_target k sch n) w acc) [0 ..< n]) rows =
    Inr (map (\<lambda>w. bucket (key_target k sch n) w (acc @ rows)) [0 ..< n])"
proof (induction rows arbitrary: acc)
  case (Cons r rows)
  let ?t = "key_target k sch n"
  have at: "row_at r i = Inr (key_value k sch r)" using Cons.prems assms(1) by (simp add: fits_def)
  have lt: "?t r < n" using hash_partition_of_lt [OF assms(2)] by (simp add: key_target_def)
  have "(map (\<lambda>w. bucket ?t w acc) [0 ..< n])[?t r := map (\<lambda>w. bucket ?t w acc) [0 ..< n] ! ?t r @ [r]] =
      map (\<lambda>w. bucket ?t w (acc @ [r])) [0 ..< n]"
    by (rule nth_equalityI) (use lt in \<open>auto simp: nth_list_update bucket_def\<close>)
  then have "scatter_row n i (map (\<lambda>w. bucket ?t w acc) [0 ..< n]) r = Inr (map (\<lambda>w. bucket ?t w (acc @ [r])) [0 ..< n])"
    using at by (simp add: scatter_row_def key_target_def)
  with Cons.IH [of "acc @ [r]"] Cons.prems show ?case by (simp add: fits_def)
qed simp

abbreviation shuffled :: "(row \<Rightarrow> nat) \<Rightarrow> (row \<Rightarrow> nat) \<Rightarrow> nat \<Rightarrow> row list \<Rightarrow> row list \<Rightarrow> string list \<Rightarrow> string list \<Rightarrow> shuffle_state" where
  "shuffled fl fr n xs ys lc rc \<equiv>
     \<lparr>left_by_target = map (\<lambda>w. bucket fl w xs) [0 ..< n], right_by_target = map (\<lambda>w. bucket fr w ys) [0 ..< n],
      left_columns = lc, right_columns = rc\<rparr>"

lemma shuffle_steps:
  assumes li: "\<And>x. length x = length (entries s) \<Longrightarrow> row_at x li = Inr (key_value lk s x)"
    and ri: "\<And>y. length y = length (entries t) \<Longrightarrow> row_at y ri = Inr (key_value rk t y)"
    and "n = num_workers ctx" "0 < n" "faithful rt http ctx"
    and "\<forall>w \<in> set ws. w < n \<and> answers rt ctx l [] w (lc, A w) \<and> fits s (A w) \<and> answers rt ctx r [] w (rc, B w) \<and> fits t (B w)"
  shows "\<exists>us. rfold (shuffle_step rt http n l r li ri) (shuffled (key_target lk s n) (key_target rk t n) n xs ys cl cr, ctx) ws =
    Inr (shuffled (key_target lk s n) (key_target rk t n) n (xs @ concat (map A ws)) (ys @ concat (map B ws))
      (if ws = [] then cl else lc) (if ws = [] then cr else rc), recovering ctx us)"
  using assms(3-6)
proof (induction ws arbitrary: xs ys cl cr ctx)
  case Nil
  then show ?case by (intro exI [of _ "[]"]) simp
next
  case (Cons w ws)
  let ?sh = "\<lambda>xs ys. shuffled (key_target lk s n) (key_target rk t n) n xs ys"
  have w: "w < num_workers ctx" "answers rt ctx l [] w (lc, A w)" "fits s (A w)" "answers rt ctx r [] w (rc, B w)" "fits t (B w)"
    using Cons.prems by auto
  obtain us where us: "call_worker_or_recover rt http w l [] ctx = Inr ((lc, A w), recovering ctx us)"
    using call_answers [OF Cons.prems(3) w(1,2)] by blast
  obtain vs where vs: "call_worker_or_recover rt http w r [] (recovering ctx us) = Inr ((rc, B w), recovering (recovering ctx us) vs)"
    using call_answers [of rt http "recovering ctx us" w r "[]" "(rc, B w)"] Cons.prems(3) w(1,4) by auto
  let ?ctx = "recovering ctx (us @ vs)"
  have step: "shuffle_step rt http n l r li ri (?sh xs ys cl cr, ctx) w = Inr (?sh (xs @ A w) (ys @ B w) lc rc, ?ctx)"
    using us vs scatter_rows [OF li Cons.prems(2) w(3), of xs] scatter_rows [OF ri Cons.prems(2) w(5), of ys]
    by (simp add: shuffle_step_def)
  have "\<exists>zs. rfold (shuffle_step rt http n l r li ri) (?sh (xs @ A w) (ys @ B w) lc rc, ?ctx) ws =
      Inr (?sh ((xs @ A w) @ concat (map A ws)) ((ys @ B w) @ concat (map B ws)) (if ws = [] then lc else lc) (if ws = [] then rc else rc),
        recovering ?ctx zs)"
    by (rule Cons.IH) (use Cons.prems in auto)
  then obtain zs where "rfold (shuffle_step rt http n l r li ri) (?sh (xs @ A w) (ys @ B w) lc rc, ?ctx) ws =
      Inr (?sh ((xs @ A w) @ concat (map A ws)) ((ys @ B w) @ concat (map B ws)) lc rc, recovering ?ctx zs)" by auto
  with step show ?case by (intro exI [of _ "(us @ vs) @ zs"]) simp
qed

lemma join_keys_agree:
  assumes "hash_keys c s t = Inr (lk, rk)" "schema_for_relation l cat = s" "schema_for_relation r cat = t"
  shows "resolve_join_keys c l r cat = Inr (lk, rk)" "is_key_of s lk" "is_key_of t rk"
proof -
  have "resolves e sch = is_key_of sch e" for e sch by (cases e) simp_all
  then show "resolve_join_keys c l r cat = Inr (lk, rk)"
    using assms by (auto elim!: hash_keys.elims split: if_splits simp: Let_def)
  show "is_key_of s lk" "is_key_of t rk" using assms(1) by (auto elim!: hash_keys.elims split: if_splits)
qed

text \<open>The shuffled side: the rows with the keys of one worker.\<close>

lemma shuffle_side:
  assumes ok: "relation_ok rt ctx p sch rows" and "set xs \<subseteq> set rows" "slot < 2 ^ 53" "ext slot = Some (bucket f w xs)"
  shows "runs rt (make_external_rows (''shuffle:'' @ relation_table p) (qualified_names sch) slot 0) db ext sch (bucket f w xs)"
    "plan_storable (struct_of_plan (make_external_rows (''shuffle:'' @ relation_table p) (qualified_names sch) slot 0))"
    "set (bucket f w xs) \<subseteq> set rows" "rows_sendable (bucket f w xs)"
proof -
  show sub: "set (bucket f w xs) \<subseteq> set rows" using assms(2) by (auto simp: bucket_def)
  then show "rows_sendable (bucket f w xs)" by (rule rows_sendable_mono [OF relation_okD(3) [OF ok]])
  show "runs rt (make_external_rows (''shuffle:'' @ relation_table p) (qualified_names sch) slot 0) db ext sch (bucket f w xs)"
    by (rule external_runs) (simp_all add: relation_schema_external [OF ok] assms(4))
  have "plan_storable (struct_of_plan p) \<Longrightarrow> plain (relation_table p)"
    unfolding relation_table_def by (induction p) (simp_all add: plain_def)
  then show "plan_storable (struct_of_plan (make_external_rows (''shuffle:'' @ relation_table p) (qualified_names sch) slot 0))"
    using relation_okD(4,5) [OF ok] assms(3) by (intro external_storable) (simp_all add: plain_Cons)
qed

lemma shuffled_join:
  assumes rt: "runtime_ok rt" "faithful rt http ctx" "0 < num_workers ctx" and u: "u_aggregate u = None"
    and l: "relation_ok rt ctx l s ls" "schema_for_relation l cat = s" and r: "relation_ok rt ctx r t rs" "schema_for_relation r cat = t"
    and c: "hash_keys c s t = Inr (lk, rk)" "expr_storable (struct_of_expr c)"
  shows "\<exists>merged us. mset merged = mset (pairwise_rows (join_matches HashJoin c s t) ls rs) \<and>
    run_shuffle_join rt http (num_workers ctx) HashJoin jt c l r u cat ctx =
      finish rt u (qualified_names (schema_extend s t)) merged (num_workers ctx) ''shuffle'' False (recovered_workers ctx @ us)"
proof -
  let ?n = "num_workers ctx" and ?g = "join_matches HashJoin c s t"
  note keys = join_keys_agree [OF c(1) l(2) r(2)]
  obtain li where li: "key_index lk s = Some li" "\<And>x. length x = length (entries s) \<Longrightarrow> row_at x li = Inr (key_value lk s x)"
    using key_index_value [OF keys(2)] by metis
  obtain ri where ri: "key_index rk t = Some ri" "\<And>y. length y = length (entries t) \<Longrightarrow> row_at y ri = Inr (key_value rk t y)"
    using key_index_value [OF keys(3)] by metis
  obtain A where A: "\<And>w ext. runs rt l (part ctx w) ext s (A w)" "mset (concat (map A [0 ..< ?n])) = mset ls" "\<And>w. set (A w) \<subseteq> set ls"
    using relation_parts [OF l(1) rt(3)] by metis
  obtain B where B: "\<And>w ext. runs rt r (part ctx w) ext t (B w)" "mset (concat (map B [0 ..< ?n])) = mset rs" "\<And>w. set (B w) \<subseteq> set rs"
    using relation_parts [OF r(1) rt(3)] by metis
  define xs where "xs = concat (map A [0 ..< ?n])"
  define ys where "ys = concat (map B [0 ..< ?n])"
  have sub: "set xs \<subseteq> set ls" "set ys \<subseteq> set rs" unfolding xs_def ys_def using mset_eq_setD [OF A(2)] mset_eq_setD [OF B(2)] by simp_all
  let ?tl = "key_target lk s ?n" and ?tr = "key_target rk t ?n"
  let ?sh = "shuffled ?tl ?tr ?n xs ys (qualified_names s) (qualified_names t)"
  have "shuffled ?tl ?tr ?n [] [] [] [] = \<lparr>left_by_target = replicate ?n [], right_by_target = replicate ?n [], left_columns = [], right_columns = []\<rparr>"
    by (simp add: bucket_def map_replicate_const)
  moreover have "\<forall>w \<in> set [0 ..< ?n]. w < ?n \<and> answers rt ctx l [] w (qualified_names s, A w) \<and> fits s (A w) \<and>
      answers rt ctx r [] w (qualified_names t, B w) \<and> fits t (B w)"
    using relation_answers [OF l(1) A(1,3)] relation_answers [OF r(1) B(1,3)] fits_mono [OF relation_okD(2) [OF l(1)] A(3)]
      fits_mono [OF relation_okD(2) [OF r(1)] B(3)] by simp
  ultimately obtain us where us: "rfold (shuffle_step rt http ?n l r li ri)
      (\<lparr>left_by_target = replicate ?n [], right_by_target = replicate ?n [], left_columns = [], right_columns = []\<rparr>, ctx) [0 ..< ?n] =
      Inr (?sh, recovering ctx us)"
    using shuffle_steps [OF li(2) ri(2) refl rt(3,2), of "[0 ..< ?n]" l "qualified_names s" A r "qualified_names t" B "[]" "[]" "[]" "[]"] rt(3)
    by (auto simp: xs_def ys_def)
  let ?l = "make_external_rows (''shuffle:'' @ relation_table l) (qualified_names s) 0 0"
  let ?r = "make_external_rows (''shuffle:'' @ relation_table r) (qualified_names t) 1 0"
  let ?ext = "\<lambda>w. [(0, bucket ?tl w xs), (1, bucket ?tr w ys)]"
  have L: "runs rt ?l (part ctx w) (map_of (?ext w)) s (bucket ?tl w xs)" "plan_storable (struct_of_plan ?l)"
    "set (bucket ?tl w xs) \<subseteq> set ls" "rows_sendable (bucket ?tl w xs)" for w
    using shuffle_side [OF l(1) sub(1), where slot = 0 and ext = "map_of (?ext w)" and f = ?tl and w = w] by simp_all
  have R: "runs rt ?r (part ctx w) (map_of (?ext w)) t (bucket ?tr w ys)" "plan_storable (struct_of_plan ?r)"
    "set (bucket ?tr w ys) \<subseteq> set rs" "rows_sendable (bucket ?tr w ys)" for w
    using shuffle_side [OF r(1) sub(2), where slot = 1 and ext = "map_of (?ext w)" and f = ?tr and w = w] by simp_all
  have same: "?g x y \<noteq> [] \<Longrightarrow> hash_partition_of (key_value lk s x) ?n = hash_partition_of (key_value rk t y) ?n" for x y
    by (simp add: join_matches_def c(1) hash_partition_of_def split: if_splits)
  have "mset (concat (map (\<lambda>w. pairwise_rows ?g (bucket ?tl w xs) (bucket ?tr w ys)) [0 ..< ?n])) = mset (pairwise_rows ?g ls rs)"
    using shuffle.colocated_pairs [where g = ?g and kl = "key_value lk s" and kr = "key_value rk t" and ls = xs and rs = ys, OF rt(3) same] pairwise_mset [OF A(2) B(2), of ?g]
    by (simp add: key_target_def [abs_def] xs_def ys_def)
  then obtain resps merged vs where out:
    "ask_workers rt http ?n (PJoin HashJoin no_info jt c ?l ?r) ?ext (recovering ctx us) = Inr (resps, recovering (recovering ctx us) vs)"
    "merge_responses u resps = Inr (qualified_names (schema_extend s t), merged)" "mset merged = mset (pairwise_rows ?g ls rs)"
    using exchanged_join [of rt http "recovering ctx us" u l s ls r t rs HashJoin c ?l ?ext "\<lambda>w. bucket ?tl w xs" ?r "\<lambda>w. bucket ?tr w ys" jt]
      rt u l(1) r(1) c L R by (auto simp: join_defined_def sets_sendable_def)
  have "ask_workers rt http ?n (PJoin HashJoin no_info jt c ?l ?r)
      (\<lambda>w. [(0, left_by_target ?sh ! w), (1, right_by_target ?sh ! w)]) (recovering ctx us) =
      ask_workers rt http ?n (PJoin HashJoin no_info jt c ?l ?r) ?ext (recovering ctx us)"
    by (rule ask_workers_cong) simp
  then show ?thesis
    using us out keys(1) li(1) ri(1) l(2) r(2) u
    by (intro exI [of _ merged] exI [of _ "us @ vs"])
      (simp add: run_shuffle_join_def Let_def shuffle_plan_def group_by_co_located_def relation_table_def)
qed

section \<open>Properties\<close>

text \<open>
  A distributed scan: the coordinator finishes the query on a permutation of the rows that the relation has on one node,
  whichever of the workers answer.
\<close>

theorem distributed_scan:
  assumes "faithful rt http ctx" "relation_ok rt ctx (u_core u) sch rows" "0 < num_workers ctx" "u_aggregate u = None"
  shows "\<exists>merged us. mset merged = mset rows \<and>
    run_distributed_single rt http (num_workers ctx) u ctx =
      finish rt u (qualified_names sch) merged (num_workers ctx) [] False (recovered_workers ctx @ us)"
proof -
  obtain rs us where rs: "ask_workers rt http (num_workers ctx) (u_core u) (\<lambda>w. []) ctx =
      Inr (map (\<lambda>w. (qualified_names sch, rs w)) [0 ..< num_workers ctx], recovering ctx us)"
    "mset (concat (map rs [0 ..< num_workers ctx])) = mset rows"
    by (rule gather_relation [OF assms(1,2,3)])
  then show ?thesis using merge_plain [OF assms(4,3)] assms(4)
    by (intro exI [of _ "concat (map rs [0 ..< num_workers ctx])"] exI [of _ us])
      (simp add: run_distributed_single_def partial_plan_def)
qed

text \<open>
  A broadcast join, whichever side is broadcast: the coordinator finishes the query on a permutation of the
  rows that the join has on one node, whichever of the workers answer.
\<close>

theorem distributed_broadcast:
  assumes "runtime_ok rt" "faithful rt http ctx" "0 < num_workers ctx" "u_aggregate u = None"
    and "relation_ok rt ctx l s ls" "relation_ok rt ctx r t rs"
    and "join_defined k c s t ls rs" "expr_storable (struct_of_expr c)" "length (if left then ls else rs) < 2 ^ 53"
  shows "\<exists>rows merged us. runs rt (PJoin k i jt c l r) (local_full_database ctx) Map.empty (schema_extend s t) rows \<and>
    mset merged = mset rows \<and>
    run_broadcast_join rt http (num_workers ctx) k jt c l r left u ctx =
      finish rt u (qualified_names (schema_extend s t)) merged (num_workers ctx)
        (if left then ''broadcast_left'' else ''broadcast_right'') False (recovered_workers ctx @ us)"
proof -
  obtain rows where "runs rt (PJoin k i jt c l r) (local_full_database ctx) Map.empty (schema_extend s t) rows"
    "mset rows = mset (pairwise_rows (join_matches k c s t) ls rs)"
    using join_runs [OF assms(1) relation_okD(1,2) [OF assms(5)] relation_okD(1,2) [OF assms(6)] assms(7)] by blast
  with broadcast_left [OF assms(1-8)] broadcast_right [OF assms(1-8)] assms(9) show ?thesis by (cases left) fastforce+
qed

text \<open>
  A shuffled hash join: the coordinator finishes the query on a permutation of the rows that the join has on one node, when
  the tables have their columns in the order of the catalog.
\<close>

theorem distributed_shuffle:
  assumes "runtime_ok rt" "faithful rt http ctx" "0 < num_workers ctx" "u_aggregate u = None"
    and "relation_ok rt ctx l s ls" "schema_for_relation l cat = s" "relation_ok rt ctx r t rs" "schema_for_relation r cat = t"
    and "hash_keys c s t = Inr (lk, rk)" "expr_storable (struct_of_expr c)"
  shows "\<exists>rows merged us. runs rt (PJoin HashJoin i jt c l r) (local_full_database ctx) Map.empty (schema_extend s t) rows \<and>
    mset merged = mset rows \<and>
    run_shuffle_join rt http (num_workers ctx) HashJoin jt c l r u cat ctx =
      finish rt u (qualified_names (schema_extend s t)) merged (num_workers ctx) ''shuffle'' False (recovered_workers ctx @ us)"
proof -
  have "join_defined HashJoin c s t ls rs" using assms(9) by (simp add: join_defined_def)
  then obtain rows where "runs rt (PJoin HashJoin i jt c l r) (local_full_database ctx) Map.empty (schema_extend s t) rows"
    "mset rows = mset (pairwise_rows (join_matches HashJoin c s t) ls rs)"
    using join_runs [OF assms(1) relation_okD(1,2) [OF assms(5)] relation_okD(1,2) [OF assms(7)]] by blast
  with shuffled_join [OF assms] show ?thesis by fastforce
qed

section \<open>A cluster of two workers, one of them down\<close>

definition sample_cluster :: recovery_context where
  "sample_cluster =
     \<lparr>local_full_database =
        [(''a'', \<lparr>table_columns = [''id'', ''x''], table_rows = [[Integer 1, Integer 7], [Integer 2, Integer 8], [Integer 3, Integer 7]]\<rparr>),
         (''b'', \<lparr>table_columns = [''id'', ''y''], table_rows = [[Integer 4, Integer 7], [Integer 5, Integer 9]]\<rparr>)],
      rc_catalog =
        [(''a'', \<lparr>schema_columns = [column ''id'' IntType False, column ''x'' IntType False],
                 schema_stats = \<lparr>row_count = 3, avg_row_bytes = 16\<rparr>, indexed_columns = []\<rparr>),
         (''b'', \<lparr>schema_columns = [column ''id'' IntType False, column ''y'' IntType False],
                 schema_stats = \<lparr>row_count = 2, avg_row_bytes = 16\<rparr>, indexed_columns = []\<rparr>)],
      num_workers = 2, recovered_workers = []\<rparr>"

definition half_down :: http where
  "half_down w body =
     (if w = 0 then sample_worker reference_runtime (local_full_database sample_cluster) (rc_catalog sample_cluster) 2 w body else None)"

lemma half_down_faithful: "faithful reference_runtime half_down sample_cluster"
  by (auto simp: faithful_def half_down_def sample_worker_def sample_cluster_def split: sum.splits if_splits)

definition scan_of :: "string \<Rightarrow> physical_plan" where
  "scan_of t = SeqScan no_info t None []"

definition sample_schema :: "string \<Rightarrow> string \<Rightarrow> row_schema" where
  "sample_schema t c = \<lparr>entries = [(Some t, ''id''), (Some t, c)], agg_entries = []\<rparr>"

lemma relation_okI:
  assumes "is_single_relation p" "relation_table p \<in> set (table_names (rc_catalog ctx))"
    and "db_get (local_full_database ctx) (relation_table p) = Some tab" "shared_out tab"
    and "build_executor p (local_full_database ctx) Map.empty = Inr x" "exec_schema x = sch" "exec_rows rt x = Inr (rows, None)"
    and "plan_storable (struct_of_plan p)" "\<forall>c \<in> set (qualified_names sch). plain c" "rows_sendable rows"
    and "fits sch rows" "\<forall>e \<in> set (entries sch). CHR ''.'' \<notin> set (snd e)"
  shows "relation_ok rt ctx p sch rows"
  using assms unfolding relation_ok_def runs_def rows_are_def by blast

abbreviation rows_a :: "row list" where
  "rows_a \<equiv> [[Integer 1, Integer 7], [Integer 2, Integer 8], [Integer 3, Integer 7]]"

abbreviation rows_b :: "row list" where
  "rows_b \<equiv> [[Integer 4, Integer 7], [Integer 5, Integer 9]]"

lemma sample_relations:
  "relation_ok reference_runtime sample_cluster (scan_of ''a'') (sample_schema ''a'' ''x'') rows_a"
  "relation_ok reference_runtime sample_cluster (scan_of ''b'') (sample_schema ''b'' ''y'') rows_b"
proof -
  let ?a = "\<lparr>table_columns = [''id'', ''x''], table_rows = rows_a\<rparr>"
  let ?b = "\<lparr>table_columns = [''id'', ''y''], table_rows = rows_b\<rparr>"
  show "relation_ok reference_runtime sample_cluster (scan_of ''a'') (sample_schema ''a'' ''x'') rows_a"
    by (rule relation_okI [where tab = ?a and x = "make_seq_scan ''a'' None ?a"]; code_simp)
  show "relation_ok reference_runtime sample_cluster (scan_of ''b'') (sample_schema ''b'' ''y'') rows_b"
    by (rule relation_okI [where tab = ?b and x = "make_seq_scan ''b'' None ?b"]; code_simp)
qed

abbreviation core_of :: "physical_plan \<Rightarrow> unwrap_result" where
  "core_of p \<equiv> \<lparr>post_ops = [], u_having = None, u_aggregate = None, u_core = p\<rparr>"

definition on_x_y :: expression where
  "on_x_y = BinaryOp (Column (Some ''a'') ''x'') Eq (Column (Some ''b'') ''y'')"

lemma cluster_workers [simp]: "num_workers sample_cluster = 2" "recovered_workers sample_cluster = []"
  by (simp_all add: sample_cluster_def)

theorem distributed_scan_witness:
  "\<exists>merged us. mset merged = mset rows_a \<and>
    run_distributed_single reference_runtime half_down 2 (core_of (scan_of ''a'')) sample_cluster =
      finish reference_runtime (core_of (scan_of ''a'')) [''a.id'', ''a.x''] merged 2 [] False us"
proof -
  have "qualified_names (sample_schema ''a'' ''x'') = [''a.id'', ''a.x'']" by code_simp
  then show ?thesis
    using distributed_scan [OF half_down_faithful, of "core_of (scan_of ''a'')" "sample_schema ''a'' ''x''" rows_a] sample_relations
    by simp
qed

theorem distributed_broadcast_witness:
  "\<exists>rows merged us. runs reference_runtime (PJoin HashJoin no_info Inner on_x_y (scan_of ''a'') (scan_of ''b''))
      (local_full_database sample_cluster) Map.empty (schema_extend (sample_schema ''a'' ''x'') (sample_schema ''b'' ''y'')) rows \<and>
    mset merged = mset rows \<and>
    run_broadcast_join reference_runtime half_down 2 HashJoin Inner on_x_y (scan_of ''a'') (scan_of ''b'') True
        (core_of (scan_of ''a'')) sample_cluster =
      finish reference_runtime (core_of (scan_of ''a''))
        (qualified_names (schema_extend (sample_schema ''a'' ''x'') (sample_schema ''b'' ''y''))) merged 2 ''broadcast_left'' False us"
proof -
  have "join_defined HashJoin on_x_y (sample_schema ''a'' ''x'') (sample_schema ''b'' ''y'') rows_a rows_b"
    unfolding join_defined_def by (simp add: on_x_y_def sample_schema_def resolve_def)
  moreover have "expr_storable (struct_of_expr on_x_y)" by code_simp
  ultimately show ?thesis
    using distributed_broadcast [OF reference_runtime_ok half_down_faithful _ _ sample_relations(1) sample_relations(2), of "core_of (scan_of ''a'')"
        HashJoin on_x_y True no_info Inner] by simp
qed

theorem distributed_shuffle_witness:
  "\<exists>rows merged us. runs reference_runtime (PJoin HashJoin no_info Inner on_x_y (scan_of ''a'') (scan_of ''b''))
      (local_full_database sample_cluster) Map.empty (schema_extend (sample_schema ''a'' ''x'') (sample_schema ''b'' ''y'')) rows \<and>
    mset merged = mset rows \<and>
    run_shuffle_join reference_runtime half_down 2 HashJoin Inner on_x_y (scan_of ''a'') (scan_of ''b'')
        (core_of (scan_of ''a'')) (rc_catalog sample_cluster) sample_cluster =
      finish reference_runtime (core_of (scan_of ''a''))
        (qualified_names (schema_extend (sample_schema ''a'' ''x'') (sample_schema ''b'' ''y''))) merged 2 ''shuffle'' False us"
proof -
  have "schema_for_relation (scan_of ''a'') (rc_catalog sample_cluster) = sample_schema ''a'' ''x''"
    "schema_for_relation (scan_of ''b'') (rc_catalog sample_cluster) = sample_schema ''b'' ''y''"
    "hash_keys on_x_y (sample_schema ''a'' ''x'') (sample_schema ''b'' ''y'') = Inr (Column (Some ''a'') ''x'', Column (Some ''b'') ''y'')"
    "expr_storable (struct_of_expr on_x_y)" by code_simp+
  then show ?thesis
    using distributed_shuffle [OF reference_runtime_ok half_down_faithful _ _ sample_relations(1) _ sample_relations(2), of "core_of (scan_of ''a'')"
        "rc_catalog sample_cluster" on_x_y "Column (Some ''a'') ''x''" "Column (Some ''b'') ''y''" no_info Inner] by simp
qed

end
