(* ===== verification/Aggregation.thy ===== *)
theory Aggregation
  imports Equivalences
begin

text \<open>
  What \<^verbatim>\<open>HashAggregateExec\<close> computes, stated without its incremental loop: every group folds its own
  rows, and the groups come in the order in which they were first seen.
\<close>

section \<open>Aggregation\<close>

text \<open>
  The reference: a row belongs to the group of its key string, the groups come in the order of their
  first row, and the accumulators of a group are those of its rows alone, in their order.
\<close>

definition row_key :: "expression list \<Rightarrow> row_schema \<Rightarrow> row \<Rightarrow> string result" where
  "row_key g sch r = rbind (rmap (\<lambda>e. evaluate e r sch) g) (\<lambda>key. Inr (group_key_string key))"

definition group_members :: "expression list \<Rightarrow> row_schema \<Rightarrow> string \<Rightarrow> row list \<Rightarrow> row list" where
  "group_members g sch k rs = filter (\<lambda>r. row_key g sch r = Inr k) rs"

definition fold_group :: "aggregate_expr list \<Rightarrow> row_schema \<Rightarrow> row list \<Rightarrow> agg_acc list result" where
  "fold_group as sch rs =
     rfold (\<lambda>accs row. rmap (acc_row sch row) (zip as accs)) (map (\<lambda>_. acc_init) as) rs"

definition first_seen :: "'a list \<Rightarrow> 'a list" where
  "first_seen xs = rev (remdups (rev xs))"

lemma first_seen_snoc: "first_seen (xs @ [x]) = (if x \<in> set xs then first_seen xs else first_seen xs @ [x])"
  by (simp add: first_seen_def)

lemma set_first_seen [simp]: "set (first_seen xs) = set xs" "distinct (first_seen xs)"
  by (simp_all add: first_seen_def)

definition groups_of :: "expression list \<Rightarrow> aggregate_expr list \<Rightarrow> row_schema \<Rightarrow> row list \<Rightarrow> groups \<Rightarrow> bool" where
  "groups_of g as sch rs gs \<longleftrightarrow>
     (\<exists>ks. rmap (row_key g sch) rs = Inr ks \<and> map fst gs = first_seen ks) \<and>
     (\<forall>k key accs. map_of gs k = Some (key, accs) \<longrightarrow>
        fold_group as sch (group_members g sch k rs) = Inr accs \<and>
        rmap (\<lambda>e. evaluate e (hd (group_members g sch k rs)) sch) g = Inr key)"

lemma group_members_empty:
  "rmap (row_key g sch) rs = Inr ks \<Longrightarrow> group_members g sch k rs = [] \<longleftrightarrow> k \<notin> set ks"
  by (induction rs arbitrary: ks) (auto simp: group_members_def)

lemma group_row_step:
  assumes inv: "groups_of g as sch rs gs" and step: "group_row g as sch gs r = Inr gs'"
  shows "groups_of g as sch (rs @ [r]) gs'"
proof -
  from inv obtain ks where ks: "rmap (row_key g sch) rs = Inr ks" "map fst gs = first_seen ks"
    by (auto simp: groups_of_def)
  from step obtain key where key: "rmap (\<lambda>e. evaluate e r sch) g = Inr key"
    by (auto simp: group_row_def)
  define k where "k = group_key_string key"
  obtain key0 accs where old: "(case map_of gs k of Some st \<Rightarrow> st | None \<Rightarrow> (key, map (\<lambda>_. acc_init) as)) = (key0, accs)"
    by (metis surj_pair)
  with step key obtain accs' where accs': "rmap (acc_row sch r) (zip as accs) = Inr accs'"
    and gs': "gs' = AList.update k (key0, accs') gs"
    by (auto simp: group_row_def k_def Let_def)
  have rk: "row_key g sch r = Inr k" by (simp add: row_key_def key k_def)
  have keys: "rmap (row_key g sch) (rs @ [r]) = Inr (ks @ [k])" by (simp add: rmap_append ks(1) rk)
  have names: "map fst gs' = first_seen (ks @ [k])"
    using ks(2) set_first_seen(1) [of ks] by (simp add: gs' update_keys first_seen_snoc flip: list.set_map)
  have mem: "group_members g sch k' (rs @ [r]) = (if k' = k then group_members g sch k rs @ [r] else group_members g sch k' rs)" for k'
    by (simp add: group_members_def rk)
  have known: "map_of gs k = None \<longleftrightarrow> group_members g sch k rs = []"
    using arg_cong [OF ks(2), of set] by (auto simp: group_members_empty [OF ks(1)] map_of_eq_None_iff)
  have old': "fold_group as sch (group_members g sch k rs) = Inr accs \<and>
      rmap (\<lambda>e. evaluate e (hd (group_members g sch k rs @ [r])) sch) g = Inr key0"
  proof (cases "map_of gs k")
    case None
    then show ?thesis using old key known by (simp add: fold_group_def)
  next
    case (Some st)
    then have st: "st = (key0, accs)" using old by simp
    with Some inv have "fold_group as sch (group_members g sch k rs) = Inr accs"
      "rmap (\<lambda>e. evaluate e (hd (group_members g sch k rs)) sch) g = Inr key0"
      by (auto simp: groups_of_def)
    moreover have "group_members g sch k rs \<noteq> []" using Some known by simp
    ultimately show ?thesis by simp
  qed
  have "fold_group as sch (group_members g sch k' (rs @ [r])) = Inr accs1 \<and>
      rmap (\<lambda>e. evaluate e (hd (group_members g sch k' (rs @ [r]))) sch) g = Inr key1"
    if "map_of gs' k' = Some (key1, accs1)" for k' key1 accs1
  proof (cases "k' = k")
    case True
    then have "key1 = key0" "accs1 = accs'" using that by (simp_all add: gs' update_conv')
    then show ?thesis using old' accs' True by (simp add: mem fold_group_def rfold_snoc)
  next
    case False
    then show ?thesis using that inv by (auto simp: gs' update_conv' mem groups_of_def)
  qed
  with keys names show ?thesis by (auto simp: groups_of_def)
qed

lemma group_rows:
  "rfold (group_row g as sch) [] rs = Inr gs \<Longrightarrow> groups_of g as sch rs gs"
proof (induction rs arbitrary: gs rule: rev_induct)
  case Nil
  then show ?case by (simp add: groups_of_def first_seen_def)
next
  case (snoc r rs)
  then show ?case by (auto simp: rfold_snoc intro: group_row_step)
qed

lemma aggregate_rows:
  assumes "exec_rows rt x = Inr (rs, None)" "exec_rows rt (HashAggregateExec g as x sch rows pos) = Inr (out, err)"
  shows "err = None \<and> (\<exists>gs. groups_of g as (exec_schema x) rs gs \<and> out = aggregate_results g as gs)"
  using assms by (auto simp: drained_def dest: group_rows)

text \<open>\<^verbatim>\<open>COUNT(*)\<close> without grouping counts the rows of the input.\<close>

lemma count_star_rows:
  assumes "exec_rows rt x = Inr (rs, None)"
    and "a = \<lparr>agg_func = ''COUNT'', agg_arg = Wildcard, agg_alias = al\<rparr>"
  shows "exec_rows rt (HashAggregateExec [] [a] x sch rows pos) = Inr ([[Integer (int (length rs))]], None)"
proof -
  have fold: "rfold (group_row [] [a] (exec_schema x)) [([], [], [acc])] ys =
      Inr [([], [], [acc\<lparr>acc_count := acc_count acc + length ys\<rparr>])]" for acc ys
    by (induction ys arbitrary: acc)
      (simp_all add: group_row_def group_key_string_def acc_row_def assms(2))
  have "rfold (group_row [] [a] (exec_schema x)) [] rs =
      Inr (if rs = [] then [] else [([], [], [acc_init\<lparr>acc_count := length rs\<rparr>])])"
  proof (cases rs)
    case (Cons r rs')
    then show ?thesis using fold [of "acc_init\<lparr>acc_count := 1\<rparr>" rs']
      by (simp add: group_row_def group_key_string_def acc_row_def assms(2) acc_init_def)
  qed simp
  then show ?thesis using assms by (simp add: drained_def aggregate_results_def agg_output_def empty_output_def)
qed

section \<open>Properties\<close>

definition count_star :: aggregate_expr where
  "count_star = \<lparr>agg_func = ''COUNT'', agg_arg = Wildcard, agg_alias = None\<rparr>"



text \<open>
  C32.  \<^verbatim>\<open>COUNT(*)\<close> without grouping returns one row with the number of input rows, also on an empty input.
\<close>

theorem count_star_counts:
  assumes "exec_rows rt x = Inr (rs, None)" "agg_func a = ''COUNT''" "agg_arg a = Wildcard"
  shows "exec_rows rt (HashAggregateExec [] [a] x sch rows pos) = Inr ([[Integer (int (length rs))]], None)"
  using assms count_star_rows [of rt x rs a "agg_alias a"] by simp

theorem count_star_counts_witness:
  "exec_rows reference_runtime (HashAggregateExec [] [count_star] (scan_o orders) empty_schema [] 0) =
     Inr ([[Integer 3]], None)"
  using count_star_counts [OF sample_rows(2) [unfolded rows_are_def], of count_star reference_runtime orders
      empty_schema "[]" 0]
  by (simp add: count_star_def orders_def)

end
