(* ===== verification/Merging.thy ===== *)
theory Merging
  imports Distribution Aggregation
begin

text \<open>
  Merging the partial aggregates of the workers: counts add up to the count on one node, averages are split into a
  sum and a count that the merge finds again, and what becomes of minima of empty partitions.
\<close>

section \<open>Counts\<close>

lemma dadd_nat:
  assumes "a + b < 2 ^ 53"
  shows "dadd (double_of_nat a) (double_of_nat b) = double_of_nat (a + b)"
proof -
  have "double_of_rat (of_nat a + of_nat b) = double_of_nat (a + b)" by (simp add: double_of_nat_def)
  then show ?thesis using assms double_of_nat_exact [of a] double_of_nat_exact [of b] double_of_nat_exact [OF assms]
    by (cases "a + b = 0") (auto simp: Doubles.signed_def simp flip: of_nat_add)
qed

lemma count_back: "n < 2 ^ 53 \<Longrightarrow> int64_of_double (double_of_nat n) = Inr (int n)"
  using int64_of_double_of_int [of "int n"] by (simp add: double_of_nat_def double_of_int_def)

text \<open>Partial counts: the key of a group with its count at one worker.\<close>

type_synonym partial_count = "row \<times> nat"

definition count_row :: "partial_count \<Rightarrow> row" where
  "count_row kc = fst kc @ [Integer (int (snd kc))]"

abbreviation count_key :: "partial_count \<Rightarrow> string" where
  "count_key kc \<equiv> group_key_string (fst kc)"

definition total_count :: "string \<Rightarrow> partial_count list \<Rightarrow> nat" where
  "total_count ks kcs = sum_list (map snd (filter (\<lambda>kc. count_key kc = ks) kcs))"

definition first_key :: "string \<Rightarrow> partial_count list \<Rightarrow> row" where
  "first_key ks kcs = fst (hd (filter (\<lambda>kc. count_key kc = ks) kcs))"

definition counted :: "partial_count list \<Rightarrow> string \<Rightarrow> string \<times> row \<times> merge_acc list" where
  "counted kcs ks = (ks, first_key ks kcs, [merge_init\<lparr>m_count := double_of_nat (total_count ks kcs)\<rparr>])"

lemma total_count_le: "total_count ks kcs \<le> sum_list (map snd kcs)"
  by (induction kcs) (auto simp: total_count_def)

lemma total_count_snoc: "total_count ks (kcs @ [kc]) = total_count ks kcs + (if count_key kc = ks then snd kc else 0)"
  by (simp add: total_count_def)

lemma split_count: "agg_func a = ''COUNT'' \<Longrightarrow> split_mapping (split_avg [a]) = [\<lparr>map_func = ''COUNT'', direct_idx = 0, sum_idx = - 1, count_idx = - 1\<rparr>]"
  by (simp add: split_avg_def split_step_def Let_def)

lemma map_of_counted: "distinct kss \<Longrightarrow> map_of (map (counted kcs) kss) ks = (if ks \<in> set kss then Some (snd (counted kcs ks)) else None)"
  by (induction kss) (auto simp: counted_def)

lemma update_counted:
  assumes "distinct kss" "\<And>x. x \<in> set kss \<Longrightarrow> x \<noteq> ks \<Longrightarrow> f x = g x" "\<And>x. fst (f x) = x" "\<And>x. fst (g x) = x"
  shows "AList.update ks (snd (g ks)) (map f kss) = map g (if ks \<in> set kss then kss else kss @ [ks])"
  using assms(1,2)
proof (induction kss)
  case Nil
  then show ?case using assms(4) [of ks] by (cases "g ks") simp
next
  case (Cons x xs)
  show ?case
  proof (cases "x = ks")
    case True
    then have "map f xs = map g xs" "g ks = (ks, snd (g ks))" using Cons.prems assms(4) [of ks] by (auto simp: prod_eq_iff)
    then show ?thesis using True assms(3) [of x] by simp
  next
    case False
    then show ?thesis using Cons assms(3) [of x] by auto
  qed
qed

lemma merge_count_rows:
  assumes "agg_func a = ''COUNT''" "\<forall>kc \<in> set kcs. length (fst kc) = gc" "gc < 2 ^ 63" "sum_list (map snd kcs) < 2 ^ 53"
  shows "rfold (merge_row gc [a] (split_avg [a])) [] (map count_row kcs) = Inr (map (counted kcs) (first_seen (map count_key kcs)))"
  using assms(2,4)
proof (induction kcs rule: rev_induct)
  case Nil
  then show ?case by (simp add: first_seen_def)
next
  case (snoc kc kcs)
  let ?ks = "count_key kc" and ?kss = "first_seen (map count_key kcs)"
  have len: "length (fst kc) = gc" using snoc.prems by simp
  have take: "take gc (count_row kc) = fst kc" and fits: "(length (count_row kc) < gc) = False" using len by (simp_all add: count_row_def)
  have idx: "nat (int gc mod 18446744073709551616) = gc" using assms(3) by simp
  have tot: "total_count ?ks kcs + snd kc < 2 ^ 53" using total_count_le [of ?ks kcs] snoc.prems(2) by simp
  have small: "snd kc < 2 ^ 53" using tot by simp
  have as_double: "literal_as_double (Integer (int (snd kc))) = Inr (double_of_nat (snd kc))"
    by (simp add: double_of_nat_def double_of_int_def)
  have slot: "slot_at (count_row kc) gc 0 = Inr (Integer (int (snd kc)))"
    using len idx by (simp add: slot_at_def row_at_def count_row_def nth_append)
  have old: "(case map_of (map (counted kcs) ?kss) ?ks of Some st \<Rightarrow> st | None \<Rightarrow> (fst kc, map (\<lambda>_. merge_init) [a])) =
      (first_key ?ks (kcs @ [kc]), [merge_init\<lparr>m_count := double_of_nat (total_count ?ks kcs)\<rparr>])"
  proof (cases "?ks \<in> set (map count_key kcs)")
    case True
    then have "filter (\<lambda>kc'. count_key kc' = ?ks) kcs \<noteq> []" by (fastforce simp: filter_empty_conv)
    then have "first_key ?ks (kcs @ [kc]) = first_key ?ks kcs" by (simp add: first_key_def)
    then show ?thesis using True by (simp add: map_of_counted) (simp add: counted_def)
  next
    case False
    then have "filter (\<lambda>kc'. count_key kc' = ?ks) kcs = []" unfolding filter_empty_conv by (metis (no_types, lifting) image_eqI set_map)
    then have "first_key ?ks (kcs @ [kc]) = fst kc" "total_count ?ks kcs = 0" by (simp_all add: first_key_def total_count_def)
    then show ?thesis using False by (simp add: map_of_counted merge_init_def double_of_nat_exact)
  qed
  have new: "merge_value (count_row kc) gc ((a, \<lparr>map_func = ''COUNT'', direct_idx = 0, sum_idx = - 1, count_idx = - 1\<rparr>),
        merge_init\<lparr>m_count := double_of_nat (total_count ?ks kcs)\<rparr>) =
      Inr (merge_init\<lparr>m_count := double_of_nat (total_count ?ks (kcs @ [kc]))\<rparr>)"
    using assms(1) slot as_double dadd_nat [OF tot] by (simp add: merge_value_def total_count_snoc del: literal_as_double.simps)
  have other: "counted (kcs @ [kc]) x = counted kcs x" if "x \<in> set ?kss" "x \<noteq> ?ks" for x
    using that by (simp add: counted_def total_count_snoc first_key_def)
  have "merge_row gc [a] (split_avg [a]) (map (counted kcs) ?kss) (count_row kc) =
      Inr (AList.update ?ks (snd (counted (kcs @ [kc]) ?ks)) (map (counted kcs) ?kss))"
    unfolding merge_row_def Let_def take split_count [OF assms(1)] by (simp only: fits if_False old prod.case) (simp add: new counted_def)
  also have "AList.update ?ks (snd (counted (kcs @ [kc]) ?ks)) (map (counted kcs) ?kss) =
      map (counted (kcs @ [kc])) (if ?ks \<in> set ?kss then ?kss else ?kss @ [?ks])"
    by (rule update_counted) (use other in \<open>auto simp: counted_def\<close>)
  finally show ?case using snoc by (simp add: rfold_snoc first_seen_snoc)
qed

lemma merge_count_partials:
  assumes "agg_func a = ''COUNT''" "concat worker_rows = map count_row kcs" "\<forall>kc \<in> set kcs. length (fst kc) = gc" "gc < 2 ^ 63"
    and "sum_list (map snd kcs) < 2 ^ 53"
  shows "merge_partial_aggregates worker_rows gc [a] (split_avg [a]) =
    Inr (map (\<lambda>ks. first_key ks kcs @ [Integer (int (total_count ks kcs))]) (first_seen (map count_key kcs)))"
proof -
  have "total_count ks kcs < 2 ^ 53" for ks using total_count_le [of ks kcs] assms(5) by simp
  then have out: "rmap merge_output (zip [a] (snd (snd (counted kcs ks)))) = Inr [[Integer (int (total_count ks kcs))]]" for ks
    using assms(1) by (simp add: counted_def merge_output_def count_back)
  have "rmap (\<lambda>(ks, key, accs). rbind (rmap merge_output (zip [a] accs)) (\<lambda>vs. Inr (key @ concat vs))) (map (counted kcs) kss) =
      Inr (map (\<lambda>ks. first_key ks kcs @ [Integer (int (total_count ks kcs))]) kss)" for kss
  proof (induction kss)
    case (Cons ks kss)
    then show ?case using out [of ks] by (simp add: counted_def)
  qed simp
  then show ?thesis
    using merge_count_rows [OF assms(1,3,4,5)] by (simp add: merge_partial_aggregates_def assms(2))
qed

section \<open>Counting over the workers\<close>

lemma count_split: "agg_func a = ''COUNT'' \<Longrightarrow> worker_aggregates (split_avg [a]) = [a]"
  by (simp add: split_avg_def split_step_def Let_def)

lemma count_schema_plain:
  assumes "agg_func a = ''COUNT''" "agg_storable (struct_of_aggregate a)" "c \<in> set (qualified_names (aggregate_schema [] [a]))"
  shows "plain c"
  using assms
  by (auto simp: aggregate_schema_def add_aggregate_def schema_add_def register_aggregate_def empty_schema_def qualified_names_def
      qualified_name_def struct_of_aggregate_def plain_Cons plain_show_nat split: option.splits)

lemma count_answers:
  assumes ok: "relation_ok rt ctx p sch rows" and a: "agg_func a = ''COUNT''" "agg_arg a = Wildcard" "agg_storable (struct_of_aggregate a)"
    and rs: "runs rt p (part ctx w) Map.empty sch rs" "length rs < 2 ^ 53"
  shows "answers rt ctx (HashAggregate no_info [] [a] p) [] w (qualified_names (aggregate_schema [] [a]), [[Integer (int (length rs))]])"
proof -
  obtain x where x: "build_executor p (part ctx w) Map.empty = Inr x" "exec_rows rt x = Inr (rs, None)"
    using rs by (auto simp: runs_def rows_are_def)
  have a': "a = \<lparr>agg_func = ''COUNT'', agg_arg = Wildcard, agg_alias = agg_alias a\<rparr>" using a(1,2) by simp
  have "runs rt (HashAggregate no_info [] [a] p) (part ctx w) Map.empty (aggregate_schema [] [a]) [[Integer (int (length rs))]]"
    using count_star_rows [OF x(2) a'] x(1) by (simp add: runs_def rows_are_def)
  then have "execute_plan rt (HashAggregate no_info [] [a] p) (part ctx w) (map_of []) =
      Inr (qualified_names (aggregate_schema [] [a]), [[Integer (int (length rs))]])" using execute_plan_runs by auto
  moreover have "response_sendable (qualified_names (aggregate_schema [] [a]), [[Integer (int (length rs))]])"
    using count_schema_plain [OF a(1,3)] rs(2) by (simp add: response_sendable_def rows_sendable_def)
  moreover have "plan_storable (struct_of_plan (HashAggregate no_info [] [a] p))"
    using relation_okD(4) [OF ok] a(3) by (simp add: storable_parts)
  ultimately show ?thesis by (simp add: answers_def sets_sendable_def)
qed

lemma sum_lengths: "mset (concat xss) = mset ys \<Longrightarrow> sum_list (map length xss) = length ys"
  using mset_eq_length [of "concat xss" ys] by (simp add: length_concat)

lemma first_seen_replicate: "0 < n \<Longrightarrow> first_seen (replicate n x) = [x]"
proof -
  have "0 < n \<Longrightarrow> remdups (replicate n x) = [x]" by (induction n) auto
  then show "0 < n \<Longrightarrow> first_seen (replicate n x) = [x]" by (simp add: first_seen_def)
qed

lemma count_partials:
  assumes "agg_func a = ''COUNT''" "0 < n" "mset (concat (map rs [0 ..< n])) = mset rows" "length rows < 2 ^ 53"
  shows "merge_partial_aggregates (map (\<lambda>w. [[Integer (int (length (rs w)))]]) [0 ..< n]) 0 [a] (split_avg [a]) =
    Inr [[Integer (int (length rows))]]"
proof -
  let ?kcs = "map (\<lambda>w. ([] :: row, length (rs w))) [0 ..< n]"
  have sum: "sum_list (map snd ?kcs) = length rows" using sum_lengths [OF assms(3)] by (simp add: comp_def)
  have keys: "map count_key ?kcs = replicate n []" by (simp add: group_key_string_def comp_def map_replicate_const)
  have all: "filter (\<lambda>kc. count_key kc = []) ?kcs = ?kcs" by (rule filter_True) (auto simp: group_key_string_def)
  have hd: "hd ?kcs = ([], length (rs 0))" using assms(2) by (simp add: hd_map upt_conv_Cons)
  have "first_key [] ?kcs = []" unfolding first_key_def all hd by simp
  moreover have "total_count [] ?kcs = length rows" unfolding total_count_def all by (rule sum)
  moreover have "concat (map (\<lambda>w. [[Integer (int (length (rs w)))]]) [0 ..< n]) = map count_row ?kcs"
    by (simp add: concat_map_singleton count_row_def comp_def)
  ultimately show ?thesis
    using merge_count_partials [OF assms(1), of _ ?kcs 0] sum assms(4) by (simp only: keys first_seen_replicate [OF assms(2)]) simp
qed

section \<open>Groups at one worker\<close>

text \<open>Values whose text does not contain the separator of group keys.\<close>

definition no_separator :: "row \<Rightarrow> bool" where
  "no_separator key \<longleftrightarrow> (\<forall>v \<in> set key. CHR 0x1F \<notin> set (literal_to_string v))"

lemma group_key_string_inject:
  assumes "length k = length k'" "no_separator k" "no_separator k'" "group_key_string k = group_key_string k'"
  shows "map literal_to_string k = map literal_to_string k'"
  using assms
proof (induction k k' rule: list_induct2)
  case (Cons x xs y ys)
  have eq: "literal_to_string x @ CHR 0x1F # group_key_string xs = literal_to_string y @ CHR 0x1F # group_key_string ys"
    using Cons.prems(3) by (simp add: group_key_string_def)
  have "takeWhile (\<lambda>c. c \<noteq> CHR 0x1F) (s @ CHR 0x1F # t) = s" if "CHR 0x1F \<notin> set s" for s t
    using that by (subst takeWhile_append2) auto
  then have "literal_to_string x = literal_to_string y"
    using Cons.prems(1,2) arg_cong [OF eq, of "takeWhile (\<lambda>c. c \<noteq> CHR 0x1F)"] by (simp add: no_separator_def)
  with eq Cons show ?case by (simp add: no_separator_def)
qed simp

lemma safe_key_member:
  assumes "partition_key_is_safe_for_group_by k g"
  shows "k \<in> set g"
proof -
  have "partition_key_matches k e \<Longrightarrow> e = k" for e by (cases k; cases e) auto
  then show ?thesis using assms by (auto simp: partition_key_is_safe_for_group_by_def list_ex_iff)
qed

section \<open>Properties\<close>

text \<open>
  Merged counts: every group key of the partial counts appears once, in the order of its first appearance, with the
  sum of its counts at the workers.
\<close>

theorem merge_counts:
  assumes "agg_func a = ''COUNT''" "concat worker_rows = map count_row kcs" "\<forall>kc \<in> set kcs. length (fst kc) = gc" "gc < 2 ^ 63"
    and "sum_list (map snd kcs) < 2 ^ 53"
  shows "merge_partial_aggregates worker_rows gc [a] (split_avg [a]) =
    Inr (map (\<lambda>ks. first_key ks kcs @ [Integer (int (total_count ks kcs))]) (first_seen (map count_key kcs)))"
  by (rule merge_count_partials [OF assms])

theorem merge_counts_witness:
  "merge_partial_aggregates [[[Str ''x'', Integer 2], [Str ''y'', Integer 1]], [[Str ''y'', Integer 4]]] 1 [count_star] (split_avg [count_star]) =
     Inr [[Str ''x'', Integer 2], [Str ''y'', Integer 5]]"
proof -
  let ?kcs = "[([Str ''x''], 2), ([Str ''y''], 1), ([Str ''y''], 4)] :: partial_count list"
  have "map (\<lambda>ks. first_key ks ?kcs @ [Integer (int (total_count ks ?kcs))]) (first_seen (map count_key ?kcs)) =
      [[Str ''x'', Integer 2], [Str ''y'', Integer 5]]" by code_simp
  then show ?thesis
    using merge_counts [of count_star "[[[Str ''x'', Integer 2], [Str ''y'', Integer 1]], [[Str ''y'', Integer 4]]]" ?kcs 1]
    by (simp add: count_star_def count_row_def)
qed

text \<open>
  C17. A distributed \<^verbatim>\<open>COUNT(*)\<close> over one relation: the coordinator finishes the query on the number of rows that the
  relation has on one node, whichever of the workers answer.
\<close>

theorem distributed_count:
  assumes "faithful rt http ctx" "relation_ok rt ctx (u_core u) sch rows" "0 < num_workers ctx" "length rows < 2 ^ 53"
    and "u_aggregate u = Some ([], [a])" "agg_func a = ''COUNT''" "agg_arg a = Wildcard" "agg_storable (struct_of_aggregate a)"
  shows "\<exists>us. run_distributed_single rt http (num_workers ctx) u ctx =
    finish rt u (aggregate_output_columns [] [a]) [[Integer (int (length rows))]] (num_workers ctx) [] False (recovered_workers ctx @ us)"
proof -
  let ?n = "num_workers ctx" and ?cols = "qualified_names (aggregate_schema [] [a])"
  obtain rs where rs: "\<And>w ext. runs rt (u_core u) (part ctx w) ext sch (rs w)" "mset (concat (map rs [0 ..< ?n])) = mset rows"
    using relation_parts [OF assms(2,3)] by metis
  have "length (rs w) < 2 ^ 53" if "w < ?n" for w
    using member_le_sum_list [of "length (rs w)" "map length (map rs [0 ..< ?n])"] sum_lengths [OF rs(2)] that assms(4) by auto
  then have "answers rt ctx (HashAggregate no_info [] [a] (u_core u)) [] w (?cols, [[Integer (int (length (rs w)))]])" if "w < ?n" for w
    using count_answers [OF assms(2,6,7,8) rs(1)] that by simp
  then obtain us where us: "ask_workers rt http ?n (HashAggregate no_info [] [a] (u_core u)) (\<lambda>w. []) ctx =
      Inr (map (\<lambda>w. (?cols, [[Integer (int (length (rs w)))]])) [0 ..< ?n], recovering ctx us)"
    using ask_workers_answers [OF assms(1), of "HashAggregate no_info [] [a] (u_core u)" "\<lambda>w. []" "\<lambda>w. (?cols, [[Integer (int (length (rs w)))]])"]
    by blast
  show ?thesis
    using us count_partials [OF assms(6,3) rs(2) assms(4)]
    by (intro exI [of _ us]) (simp add: run_distributed_single_def partial_plan_def merge_responses_def assms(5) count_split [OF assms(6)] comp_def)
qed

theorem distributed_count_witness:
  "\<exists>us. run_distributed_single reference_runtime half_down 2 ((core_of (scan_of ''a''))\<lparr>u_aggregate := Some ([], [count_star])\<rparr>) sample_cluster =
    finish reference_runtime ((core_of (scan_of ''a''))\<lparr>u_aggregate := Some ([], [count_star])\<rparr>) (aggregate_output_columns [] [count_star])
      [[Integer 3]] 2 [] False us"
  using distributed_count [OF half_down_faithful, of "(core_of (scan_of ''a''))\<lparr>u_aggregate := Some ([], [count_star])\<rparr>"
      "sample_schema ''a'' ''x''" rows_a count_star] sample_relations
  by (simp add: count_star_def struct_of_aggregate_def plain_Cons storable_parts)

text \<open>
  C34. The merge that a shuffle join skips is not needed: when the grouping contains the key that the rows were shuffled by, two rows
  of one group are at the same worker.
\<close>

theorem colocated_groups:
  assumes "partition_key_is_safe_for_group_by k g"
    and "rmap (\<lambda>e. evaluate e x sch) g = Inr kx" "rmap (\<lambda>e. evaluate e y sch) g = Inr ky" "no_separator kx" "no_separator ky"
    and "group_key_string kx = group_key_string ky"
  shows "key_target k sch n x = key_target k sch n y"
proof -
  have len: "length kx = length g" "length ky = length g" using assms(2,3) rmap_length by blast+
  then have eq: "map literal_to_string kx = map literal_to_string ky" using group_key_string_inject assms(4-6) by metis
  obtain i where i: "i < length g" "g ! i = k" using safe_key_member [OF assms(1)] by (auto simp: in_set_conv_nth)
  have "evaluate k x sch = Inr (kx ! i)" "evaluate k y sch = Inr (ky ! i)"
    using assms(2,3) i len by (auto simp: rmap_Inr_iff list_all2_conv_all_nth)
  moreover have "literal_to_string (kx ! i) = literal_to_string (ky ! i)"
    using eq i(1) len by (metis length_map nth_map)
  ultimately show ?thesis by (simp add: key_target_def key_value_def hash_partition_of_def)
qed

theorem colocated_groups_witness:
  "key_target (Column (Some ''a'') ''x'') (sample_schema ''a'' ''x'') 2 [Integer 1, Integer 7] =
   key_target (Column (Some ''a'') ''x'') (sample_schema ''a'' ''x'') 2 [Integer 3, Integer 7]"
  by (rule colocated_groups [where g = "[Column (Some ''a'') ''x'']" and kx = "[Integer 7]" and ky = "[Integer 7]"]; code_simp)

text \<open>
  C37. A minimum or maximum is lost when the first worker has no rows: its partial result is NULL, and the merge keeps it
  whatever the other workers report.
\<close>

theorem extremum_lost:
  assumes "agg_func a = ''MIN'' \<or> agg_func a = ''MAX''"
  shows "aggregate_results [] [a] [] = [[Null]] \<and>
    merge_partial_aggregates ([[Null]] # map (\<lambda>v. [[v]]) vs) 0 [a] (split_avg [a]) = Inr [[Null]]"
proof -
  let ?min = "merge_init\<lparr>m_min := Some Null\<rparr>" and ?max = "merge_init\<lparr>m_max := Some Null\<rparr>"
  have null: "literal_less v Null = Inr False" "literal_less Null v = Inr False" for v by (cases v; simp add: literal_is_null_def)+
  have mapping: "split_mapping (split_avg [a]) = [\<lparr>map_func = agg_func a, direct_idx = 0, sum_idx = - 1, count_idx = - 1\<rparr>]"
    using assms by (auto simp: split_avg_def split_step_def Let_def)
  let ?acc = "if agg_func a = ''MIN'' then ?min else ?max"
  have "merge_row 0 [a] (split_avg [a]) [([], [], [?acc])] [v] = Inr [([], [], [?acc])]" for v
    using assms by (elim disjE) (simp_all add: merge_row_def mapping group_key_string_def merge_value_def slot_at_def row_at_def null del: literal_less.simps)
  then have "rfold (merge_row 0 [a] (split_avg [a])) [([], [], [?acc])] (map (\<lambda>v. [v]) vs) = Inr [([], [], [?acc])]"
    by (induction vs) simp_all
  moreover have "merge_row 0 [a] (split_avg [a]) [] [Null] = Inr [([], [], [?acc])]"
    using assms by (auto simp: merge_row_def mapping group_key_string_def merge_value_def slot_at_def row_at_def merge_init_def)
  moreover have "concat ([[Null]] # map (\<lambda>v. [[v]]) vs) = [Null] # map (\<lambda>v. [v]) vs" by (simp add: concat_map_singleton)
  ultimately show ?thesis
    using assms by (auto simp: merge_partial_aggregates_def merge_output_def aggregate_results_def empty_output_def merge_init_def)
qed

theorem extremum_lost_witness:
  "merge_partial_aggregates [[[Null]], [[Integer 7]]] 0 [\<lparr>agg_func = ''MIN'', agg_arg = Column None ''x'', agg_alias = None\<rparr>]
     (split_avg [\<lparr>agg_func = ''MIN'', agg_arg = Column None ''x'', agg_alias = None\<rparr>]) = Inr [[Null]]"
  using extremum_lost [of "\<lparr>agg_func = ''MIN'', agg_arg = Column None ''x'', agg_alias = None\<rparr>" "[Integer 7]"] by simp

end
