(* ===== verification/Distributed_Query.thy ===== *)
theory Distributed_Query
  imports Merging
begin

text \<open>
  A whole distributed query against its execution on one node: the operators above the core run on the merged rows, and the
  strategy that the bandit picks does not matter.
\<close>

section \<open>Finishing with projections\<close>

fun is_project :: "physical_plan \<Rightarrow> bool" where
  "is_project (PProject i es p) = True"
| "is_project p = False"

lemma runs_project:
  "runs rt (PProject i es p) db ext sch out \<longleftrightarrow>
     sch = project_schema es \<and> (\<exists>s rows. runs rt p db ext s rows \<and>
       (\<forall>r \<in> set rows. \<exists>v. project_row es s r = Inr v) \<and> out = map (\<lambda>r. projr (project_row es s r)) rows)" (is "?l \<longleftrightarrow> ?r")
proof
  assume ?r
  then obtain s rows x where x: "build_executor p db ext = Inr x" "exec_schema x = s" "exec_rows rt x = Inr (rows, None)"
    and ok: "\<forall>r \<in> set rows. \<exists>v. project_row es s r = Inr v" and out: "out = map (\<lambda>r. projr (project_row es s r)) rows"
    and sch: "sch = project_schema es"
    by (auto simp: runs_def rows_are_def)
  have "stream_bind (\<lambda>r. stream_of (project_row es s r) (\<lambda>out. [out])) rows None =
      (concat (map (\<lambda>r. [projr (project_row es s r)]) rows), None)"
    by (rule stream_bind_total) (use ok in force)
  then show ?l using x out sch by (simp add: runs_def rows_are_def concat_map_singleton)
next
  assume ?l
  then obtain x rows err where x: "build_executor p db ext = Inr x" "exec_rows rt x = Inr (rows, err)" "sch = project_schema es"
    "stream_bind (\<lambda>r. stream_of (project_row es (exec_schema x) r) (\<lambda>out. [out])) rows err = (out, None)"
    by (auto simp: runs_def rows_are_def)
  let ?f = "\<lambda>r. stream_of (project_row es (exec_schema x) r) (\<lambda>out. [out])"
  have ne: "snd (stream_bind ?f rows (Some e)) \<noteq> None" for e
    by (induction rows) (auto simp: stream_cons_def split: option.split)
  have err: "err = None"
  proof (cases err)
    case (Some e)
    then show ?thesis using ne [of e] x(4) by simp
  qed
  have all: "\<forall>r \<in> set rows. ?f r = (fst (?f r), None)" "out = concat (map (fst \<circ> ?f) rows)"
    using stream_bind_None x(4) err by blast+
  have ok: "\<forall>r \<in> set rows. \<exists>v. project_row es (exec_schema x) r = Inr v"
  proof
    fix r
    assume "r \<in> set rows"
    then have "snd (?f r) = None" using all(1) by (metis snd_conv)
    then show "\<exists>v. project_row es (exec_schema x) r = Inr v" by (cases "project_row es (exec_schema x) r") simp_all
  qed
  then have "out = map (\<lambda>r. projr (project_row es (exec_schema x) r)) rows"
    unfolding all(2) by (induction rows) auto
  with x err ok show ?r by (auto simp: runs_def rows_are_def)
qed

text \<open>Projections of a permutation are a permutation of the projections.\<close>

lemma finish_projects:
  assumes "unwrap_ops p = (ops, core)" "list_all is_project ops"
    and "runs rt core db ext s rows" "runs rt cur db' ext' s merged" "mset merged = mset rows" "runs rt p db ext sch out"
  shows "\<exists>out'. runs rt (fold attach_op (rev ops) cur) db' ext' sch out' \<and> mset out' = mset out"
  using assms
proof (induction p arbitrary: ops sch out)
  case (PProject i es p)
  obtain ops' where ops: "unwrap_ops p = (ops', core)" "ops = PProject i es p # ops'"
    using PProject.prems(1) by (auto split: prod.splits)
  obtain s' rows' where inner: "runs rt p db ext s' rows'" "\<forall>r \<in> set rows'. \<exists>v. project_row es s' r = Inr v"
    "out = map (\<lambda>r. projr (project_row es s' r)) rows'" "sch = project_schema es"
    using PProject.prems(6) unfolding runs_project by blast
  obtain out' where out': "runs rt (fold attach_op (rev ops') cur) db' ext' s' out'" "mset out' = mset rows'"
    using PProject.IH [OF ops(1) _ PProject.prems(3-5) inner(1)] PProject.prems(2) ops(2) by auto
  have "set out' = set rows'" by (rule mset_eq_setD [OF out'(2)])
  then have "runs rt (fold attach_op (rev ops) cur) db' ext' sch (map (\<lambda>r. projr (project_row es s' r)) out')"
    using out'(1) inner(2,4) by (simp add: ops(2) runs_project) (blast intro: map_cong)
  moreover have "mset (map (\<lambda>r. projr (project_row es s' r)) out') = mset out" using out'(2) inner(3) by simp
  ultimately show ?case by blast
qed (use assms in \<open>auto split: prod.splits dest: runs_unique\<close>)

definition plain_query :: "physical_plan \<Rightarrow> physical_plan \<Rightarrow> bool" where
  "plain_query p core \<longleftrightarrow> (case unwrap_ops p of (ops, q) \<Rightarrow> list_all is_project ops \<and> q = core)"

lemma unwrap_plain:
  assumes "plain_query p core" "is_single_relation core \<or> (\<exists>k i jt c l r. core = PJoin k i jt c l r)"
  shows "unwrap p = \<lparr>post_ops = fst (unwrap_ops p), u_having = None, u_aggregate = None, u_core = core\<rparr>"
proof -
  have "unwrap_ops p = (fst (unwrap_ops p), core)" using assms(1) by (auto simp: plain_query_def split: prod.splits)
  moreover have "\<not> (\<exists>i e j g as q. core = PFilter i e (HashAggregate j g as q))" "\<not> (\<exists>j g as q. core = HashAggregate j g as q)"
    using assms(2) by (auto simp: is_single_relation_def)
  ultimately show ?thesis unfolding unwrap_def
    by (auto split: prod.split physical_plan.split)
qed

lemma finish_plain:
  assumes p: "plain_query p core" and u: "u = \<lparr>post_ops = fst (unwrap_ops p), u_having = None, u_aggregate = None, u_core = core\<rparr>"
    and "external_schema cols 0 [] = s" "runs rt core db ext s rows" "mset merged = mset rows" "runs rt p db ext sch out"
  shows "\<exists>out'. finish rt u cols merged n st skip rec =
      Inr \<lparr>out_columns = column_names sch, out_rows = out', distributed = True, fallback_reason = [],
            total_ms = dzero, workers_used = n, join_strategy = st, used_copartition_merge_skip = skip, out_recovered = rec\<rparr> \<and>
    mset out' = mset out"
proof -
  have ops: "unwrap_ops p = (fst (unwrap_ops p), core)" "list_all is_project (fst (unwrap_ops p))"
    using p by (auto simp: plain_query_def split: prod.splits)
  have "runs rt (make_external_rows ''merged'' cols 0 (length merged)) [] [0 \<mapsto> merged] s merged"
    by (rule external_runs) (simp_all add: assms(3))
  from finish_projects [OF ops assms(4) this assms(5,6)] obtain out' x where out':
    "build_executor (fold attach_op (rev (fst (unwrap_ops p))) (make_external_rows ''merged'' cols 0 (length merged))) [] [0 \<mapsto> merged] = Inr x"
    "exec_schema x = sch" "exec_rows rt x = Inr (out', None)" "mset out' = mset out"
    unfolding runs_def rows_are_def by blast
  then show ?thesis
    by (intro exI [of _ out']) (simp add: finish_def finish_plan_def merged_rows_node_def u run_result_rows drained_snoc)
qed

section \<open>Results against one node\<close>

text \<open>A distributed result with the columns of the run on one node and a permutation of its rows.\<close>

definition agrees :: "distributed_result \<Rightarrow> row_schema \<Rightarrow> row list \<Rightarrow> bool" where
  "agrees res sch out \<longleftrightarrow> distributed res \<and> out_columns res = column_names sch \<and> mset (out_rows res) = mset out"

lemma finish_agrees:
  assumes "plain_query p core" "u = \<lparr>post_ops = fst (unwrap_ops p), u_having = None, u_aggregate = None, u_core = core\<rparr>"
    and "external_schema cols 0 [] = s" "runs rt core db ext s rows" "mset merged = mset rows" "runs rt p db ext sch out"
  shows "\<exists>res. finish rt u cols merged n st skip rec = Inr res \<and> agrees res sch out"
  using finish_plain [OF assms, of n st skip rec] by (auto simp: agrees_def)

lemma extend_external:
  assumes "relation_ok rt ctx l s ls" "relation_ok rt ctx r t rs"
  shows "external_schema (qualified_names (schema_extend s t)) 0 [] = schema_extend s t"
proof -
  have "agg_entries sch = [] \<and> (\<forall>e \<in> set (entries sch). fst e \<noteq> None \<and> CHR ''.'' \<notin> set (snd e))"
    if ok: "relation_ok rt ctx p sch rows" for p sch rows
  proof -
    obtain tab where "db_get (local_full_database ctx) (relation_table p) = Some tab" using ok by (auto simp: relation_ok_def)
    with ok single_rows [of p rt "local_full_database ctx" Map.empty sch rows tab]
    have "sch = relation_schema p (table_columns tab)" by (simp add: relation_ok_def)
    moreover have "agg_entries (fold (schema_add q) cs x) = agg_entries x" for q cs x
      by (induction cs arbitrary: x) (simp_all add: schema_add_def)
    ultimately show ?thesis using ok
      by (auto simp: relation_ok_def relation_schema_def entries_scan_schema scan_schema_def Let_def empty_schema_def entries_fold_add)
  qed
  from this [OF assms(1)] this [OF assms(2)] show ?thesis
    by (intro external_schema_back) (auto simp: schema_extend_def)
qed

definition eligible :: "physical_plan \<Rightarrow> bool" where
  "eligible core \<longleftrightarrow>
     (case core of PJoin k i jt c l r \<Rightarrow> is_single_relation l \<and> is_single_relation r | _ \<Rightarrow> is_single_relation core)"

section \<open>Properties\<close>

text \<open>
  C13. A distributed query over one relation with projections: the result has the columns and, up to order, the rows of the execution
  on one node, whichever of the workers answer.
\<close>

theorem distributed_scan_agrees:
  assumes "faithful (sur_runtime s) (sur_http s) ctx" "0 < num_workers ctx"
    and "plain_query p core" "relation_ok (sur_runtime s) ctx core sch rows"
    and "runs (sur_runtime s) p (local_full_database ctx) Map.empty sch' out"
  shows "\<exists>res. execute_distributed s cat (num_workers ctx) p ctx bandit = Inr (res, [], [], bandit) \<and> agrees res sch' out"
proof -
  have single: "is_single_relation core" using assms(4) by (simp add: relation_ok_def)
  define u where "u = \<lparr>post_ops = fst (unwrap_ops p), u_having = None, u_aggregate = None, u_core = core\<rparr>"
  have u: "unwrap p = u" using unwrap_plain [OF assms(3)] single by (simp add: u_def)
  obtain merged us where merged: "mset merged = mset rows"
    "run_distributed_single (sur_runtime s) (sur_http s) (num_workers ctx) u ctx =
      finish (sur_runtime s) u (qualified_names sch) merged (num_workers ctx) [] False (recovered_workers ctx @ us)"
    using distributed_scan [OF assms(1), of u sch rows] assms(2,4) by (auto simp: u_def)
  obtain res where "finish (sur_runtime s) u (qualified_names sch) merged (num_workers ctx) [] False (recovered_workers ctx @ us) = Inr res"
    "agrees res sch' out"
    using finish_agrees [OF assms(3) u_def relation_schema_external [OF assms(4)] relation_okD(1) [OF assms(4)] merged(1) assms(5)] by blast
  moreover have "case u_core u of PJoin k i jt c l r \<Rightarrow> False | _ \<Rightarrow> True"
    using single by (cases core) (simp_all add: u_def is_single_relation_def)
  ultimately show ?thesis using single merged(2)
    by (intro exI [of _ "res\<lparr>join_strategy := ''single''\<rparr>"])
      (auto simp: execute_distributed_def Let_def u agrees_def u_def split: physical_plan.splits)
qed

text \<open>
  C2. A distributed hash join with projections: whichever strategy the bandit, the environment or the sizes choose and whichever
  of the workers answer, the result has the columns and, up to order, the rows of the execution on one node.
\<close>

theorem distributed_join_agrees:
  assumes "runtime_ok (sur_runtime s)" "faithful (sur_runtime s) (sur_http s) ctx" "0 < num_workers ctx"
    and "plain_query p (PJoin HashJoin i jt c l r)"
    and "relation_ok (sur_runtime s) ctx l sl ls" "schema_for_relation l cat = sl"
    and "relation_ok (sur_runtime s) ctx r sr rs" "schema_for_relation r cat = sr"
    and "hash_keys c sl sr = Inr (lk, rk)" "expr_storable (struct_of_expr c)" "length ls < 2 ^ 53" "length rs < 2 ^ 53"
    and "runs (sur_runtime s) p (local_full_database ctx) Map.empty sch' out"
  shows "\<exists>res context arm bandit'. execute_distributed s cat (num_workers ctx) p ctx bandit = Inr (res, context, arm, bandit') \<and>
    agrees res sch' out"
proof -
  let ?core = "PJoin HashJoin i jt c l r" and ?rt = "sur_runtime s" and ?n = "num_workers ctx"
  define u where "u = \<lparr>post_ops = fst (unwrap_ops p), u_having = None, u_aggregate = None, u_core = ?core\<rparr>"
  have u: "unwrap p = u" using unwrap_plain [OF assms(4)] by (simp add: u_def)
  have single: "is_single_relation l" "is_single_relation r" using assms(5,7) by (simp_all add: relation_ok_def)
  have none: "u_aggregate u = None" by (simp add: u_def)
  have ext: "external_schema (qualified_names (schema_extend sl sr)) 0 [] = schema_extend sl sr"
    by (rule extend_external [OF assms(5,7)])
  have defined: "join_defined HashJoin c sl sr ls rs" using assms(9) by (simp add: join_defined_def)
  obtain arm cx b where choice: "choose_strategy s l r bandit = (arm, cx, b)" by (metis surj_pair)
  let ?left = "prefer_broadcast_left l r"
  let ?run = "if arm = ''broadcast'' then run_broadcast_join ?rt (sur_http s) ?n HashJoin jt c l r ?left u ctx
    else run_shuffle_join ?rt (sur_http s) ?n HashJoin jt c l r u cat ctx"
  have "\<exists>rows merged st us. runs ?rt ?core (local_full_database ctx) Map.empty (schema_extend sl sr) rows \<and> mset merged = mset rows \<and>
      ?run = finish ?rt u (qualified_names (schema_extend sl sr)) merged ?n st False (recovered_workers ctx @ us)"
  proof (cases "arm = ''broadcast''")
    case True
    have "length (if ?left then ls else rs) < 2 ^ 53" using assms(11,12) by simp
    from distributed_broadcast [OF assms(1-3) none assms(5,7) defined assms(10) this, of i jt] True show ?thesis by auto
  next
    case False
    with distributed_shuffle [OF assms(1-3) none assms(5-10), of i jt] show ?thesis by auto
  qed
  then obtain rows merged st us where run: "runs ?rt ?core (local_full_database ctx) Map.empty (schema_extend sl sr) rows"
    "mset merged = mset rows" "?run = finish ?rt u (qualified_names (schema_extend sl sr)) merged ?n st False (recovered_workers ctx @ us)"
    by blast
  then obtain res where "?run = Inr res" "agrees res sch' out"
    using finish_agrees [OF assms(4) u_def ext run(1,2) assms(13)] by metis
  moreover have "u_core u = ?core" by (simp add: u_def)
  ultimately have "execute_distributed s cat ?n p ctx bandit = Inr (res, cx, arm, b)"
    unfolding execute_distributed_def Let_def u choice using single by (simp only: physical_plan.case choice prod.case) simp
  with \<open>agrees res sch' out\<close> show ?thesis by blast
qed

text \<open>
  A plan whose core is neither one relation nor a join of two relations runs on the coordinator: the result is the
  one of the execution on one node, in its order, no worker is used and the bandit is left alone.
\<close>

theorem fallback_exact:
  assumes "\<not> eligible (u_core (unwrap p))" "runs (sur_runtime s) p (local_full_database ctx) Map.empty sch out"
  shows "\<exists>res. execute_distributed s cat n p ctx bandit = Inr (res, [], [], bandit) \<and> out_rows res = out \<and>
    out_columns res = column_names sch \<and> \<not> distributed res \<and> workers_used res = 0 \<and> out_recovered res = []"
proof -
  obtain x where x: "build_executor p (local_full_database ctx) Map.empty = Inr x" "exec_schema x = sch"
    "exec_rows (sur_runtime s) x = Inr (out, None)" using assms(2) by (auto simp: runs_def rows_are_def)
  have run: "run_fallback (sur_runtime s) p (local_full_database ctx) reason =
      Inr \<lparr>out_columns = column_names sch, out_rows = out, distributed = False, fallback_reason = reason, total_ms = dzero,
        workers_used = 0, join_strategy = [], used_copartition_merge_skip = False, out_recovered = []\<rparr>" for reason
    using x by (simp add: run_fallback_def run_result_rows drained_snoc)
  show ?thesis
    using assms(1) by (auto simp: execute_distributed_def Let_def run eligible_def split: physical_plan.splits)
qed

section \<open>Sample queries\<close>

lemma runs_code:
  "runs rt p db ext sch rows \<longleftrightarrow>
     (case build_executor p db ext of Inl e \<Rightarrow> False | Inr x \<Rightarrow> exec_schema x = sch \<and> exec_rows rt x = Inr (rows, None))"
  by (auto simp: runs_def rows_are_def split: sum.split)

definition sample_surroundings :: surroundings where
  "sample_surroundings =
     \<lparr>sur_runtime = reference_runtime, sur_log2 = id, sur_set_order = sorted_list_of_set, sur_index_order = id,
      sur_network = (\<lambda>req. ([], [])), sur_http = half_down, sur_force = None, sur_unit = Fin False 1, sur_pick = 0, sur_ms = Fin False 2\<rparr>"

definition ids_of :: "physical_plan \<Rightarrow> physical_plan" where
  "ids_of p = PProject no_info [(Column (Some ''a'') ''id'', None)] p"

abbreviation sample_join :: physical_plan where
  "sample_join \<equiv> PJoin HashJoin no_info Inner on_x_y (scan_of ''a'') (scan_of ''b'')"

lemma sample_surroundings_simps [simp]: "sur_runtime sample_surroundings = reference_runtime" "sur_http sample_surroundings = half_down"
  by (simp_all add: sample_surroundings_def)

lemma sample_runs:
  "runs reference_runtime (ids_of (scan_of ''a'')) (local_full_database sample_cluster) Map.empty
     (project_schema [(Column (Some ''a'') ''id'', None)]) [[Integer 1], [Integer 2], [Integer 3]]"
  "runs reference_runtime (ids_of sample_join) (local_full_database sample_cluster) Map.empty
     (project_schema [(Column (Some ''a'') ''id'', None)]) [[Integer 1], [Integer 3]]"
  unfolding runs_code by code_simp+

theorem distributed_scan_agrees_witness:
  "\<exists>res. execute_distributed sample_surroundings [] 2 (ids_of (scan_of ''a'')) sample_cluster \<lparr>bm_epsilon = dzero, bm_stats = []\<rparr> =
      Inr (res, [], [], \<lparr>bm_epsilon = dzero, bm_stats = []\<rparr>) \<and>
    agrees res (project_schema [(Column (Some ''a'') ''id'', None)]) [[Integer 1], [Integer 2], [Integer 3]]"
proof -
  have "plain_query (ids_of (scan_of ''a'')) (scan_of ''a'')" by code_simp
  then show ?thesis
    using distributed_scan_agrees [of sample_surroundings sample_cluster "ids_of (scan_of ''a'')" "scan_of ''a''" "sample_schema ''a'' ''x''" rows_a]
      half_down_faithful sample_relations(1) sample_runs(1) by simp
qed

theorem distributed_join_agrees_witness:
  "\<exists>res context arm bandit'. execute_distributed sample_surroundings (rc_catalog sample_cluster) 2 (ids_of sample_join) sample_cluster
        \<lparr>bm_epsilon = dzero, bm_stats = []\<rparr> = Inr (res, context, arm, bandit') \<and>
    agrees res (project_schema [(Column (Some ''a'') ''id'', None)]) [[Integer 1], [Integer 3]]"
proof -
  have "plain_query (ids_of sample_join) sample_join"
    "schema_for_relation (scan_of ''a'') (rc_catalog sample_cluster) = sample_schema ''a'' ''x''"
    "schema_for_relation (scan_of ''b'') (rc_catalog sample_cluster) = sample_schema ''b'' ''y''"
    "hash_keys on_x_y (sample_schema ''a'' ''x'') (sample_schema ''b'' ''y'') = Inr (Column (Some ''a'') ''x'', Column (Some ''b'') ''y'')"
    "expr_storable (struct_of_expr on_x_y)" by code_simp+
  then show ?thesis
    using distributed_join_agrees [of sample_surroundings sample_cluster "ids_of sample_join" no_info Inner on_x_y "scan_of ''a''" "scan_of ''b''"
        "sample_schema ''a'' ''x''" rows_a "rc_catalog sample_cluster" "sample_schema ''b'' ''y''" rows_b] 
      reference_runtime_ok half_down_faithful sample_relations sample_runs(2) by simp
qed

theorem fallback_exact_witness:
  "\<exists>res. execute_distributed sample_surroundings [] 2 (PJoin HashJoin no_info Inner on_x_y (scan_of ''a'') (PLimit no_info 1 (scan_of ''b'')))
      sample_cluster \<lparr>bm_epsilon = dzero, bm_stats = []\<rparr> = Inr (res, [], [], \<lparr>bm_epsilon = dzero, bm_stats = []\<rparr>) \<and>
    out_rows res = [[Integer 1, Integer 7, Integer 4, Integer 7], [Integer 3, Integer 7, Integer 4, Integer 7]]"
proof -
  let ?p = "PJoin HashJoin no_info Inner on_x_y (scan_of ''a'') (PLimit no_info 1 (scan_of ''b''))"
  have "\<not> eligible (u_core (unwrap ?p))" by code_simp
  moreover have "runs (sur_runtime sample_surroundings) ?p (local_full_database sample_cluster) Map.empty
      (schema_extend (sample_schema ''a'' ''x'') (sample_schema ''b'' ''y''))
      [[Integer 1, Integer 7, Integer 4, Integer 7], [Integer 3, Integer 7, Integer 4, Integer 7]]"
    unfolding runs_code by code_simp
  ultimately show ?thesis
    using fallback_exact [where cat = "[]" and n = 2 and bandit = "\<lparr>bm_epsilon = dzero, bm_stats = []\<rparr>"] by fast
qed

end
