(* ===== verification/Http.thy ===== *)
theory Http
  imports Distribution "HOL-Library.Sublist"
begin

text \<open>
  HTTP between the coordinator and its workers: the client (\<^verbatim>\<open>distributed/http_client.cpp\<close>) and the server
  (\<^verbatim>\<open>web/http_server.cpp\<close>).  A connection is the list of chunks that \<^verbatim>\<open>recv\<close> returns, at most 4096 bytes each; an empty chunk
  or the end of the list is a closed or failed connection.
\<close>

section \<open>Reading a message\<close>

definition header_end :: string where
  "header_end = [CHR 0x0D, CHR 0x0A, CHR 0x0D, CHR 0x0A]"

text \<open>The text before and after the first blank line.\<close>

fun split_head :: "string \<Rightarrow> (string \<times> string) option" where
  "split_head s =
     (if take 4 s = header_end then Some ([], drop 4 s)
      else case s of [] \<Rightarrow> None | c # cs \<Rightarrow> map_option (\<lambda>(h, b). (c # h, b)) (split_head cs))"

declare split_head.simps [simp del]

fun read_head :: "string \<Rightarrow> string list \<Rightarrow> (string \<times> string \<times> string list) option" where
  "read_head buf [] = None"
| "read_head buf (c # cs) =
     (if c = [] then None
      else if 2 ^ 20 < length (buf @ c) then None
      else case split_head (buf @ c) of
             Some (h, b) \<Rightarrow> Some (h, b, cs)
           | None \<Rightarrow> read_head (buf @ c) cs)"

fun read_body :: "nat \<Rightarrow> string \<Rightarrow> string list \<Rightarrow> string option" where
  "read_body n body cs =
     (if n \<le> length body then Some (take n body)
      else case cs of
             [] \<Rightarrow> None
           | c # cs \<Rightarrow> if c = [] then None else read_body n (body @ c) cs)"

declare read_body.simps [simp del]

text \<open>\<^verbatim>\<open>std::getline\<close> until the end of the block; a carriage return at the end of a line is dropped.\<close>

function getlines :: "string \<Rightarrow> string list" where
  "getlines s =
     (if s = [] then []
      else takeWhile (\<lambda>c. c \<noteq> CHR 0x0A) s # getlines (tl (dropWhile (\<lambda>c. c \<noteq> CHR 0x0A) s)))"
  by pat_completeness auto
termination
proof (relation "measure length")
  fix s :: string
  assume "s \<noteq> []"
  then show "(tl (dropWhile (\<lambda>c. c \<noteq> CHR 0x0A) s), s) \<in> measure length"
    using length_dropWhile_le [of "\<lambda>c. c \<noteq> CHR 0x0A" s] by (cases s) (auto simp: less_Suc_eq_le)
qed simp

declare getlines.simps [simp del]

definition strip_cr :: "string \<Rightarrow> string" where
  "strip_cr l = (if l \<noteq> [] \<and> last l = CHR 0x0D then butlast l else l)"

text \<open>\<^verbatim>\<open>stream >> word\<close>\<close>

definition read_word :: "string \<Rightarrow> string \<times> string" where
  "read_word s =
     (let s = dropWhile isspace s in (takeWhile (\<lambda>c. \<not> isspace c) s, dropWhile (\<lambda>c. \<not> isspace c) s))"

text \<open>\<^verbatim>\<open>stream >> status\<close> for an \<^verbatim>\<open>int\<close>: zero when there is no number, the nearest bound when it does not fit.\<close>

definition read_int :: "string \<Rightarrow> int" where
  "read_int s =
     (let s = dropWhile isspace s;
          neg = (lex_peek s = Some CHR ''-'');
          s = (if neg \<or> lex_peek s = Some CHR ''+'' then tl s else s);
          ds = takeWhile isdigit s;
          v = (if ds = [] then 0 else if neg then - read_dec ds else read_dec ds)
      in max (- (2 ^ 31)) (min (2 ^ 31 - 1) v))"

definition tolower :: "char \<Rightarrow> char" where
  "tolower c = (if isupper c then char_of (code c + 32) else c)"

text \<open>A header line with a colon: the name in lower case and the value from its first character that is not a space.\<close>

definition split_header :: "string \<Rightarrow> (string \<times> string) option" where
  "split_header l =
     (if CHR '':'' \<in> set l
      then Some (map tolower (takeWhile (\<lambda>c. c \<noteq> CHR '':'') l),
                 dropWhile (\<lambda>c. c = CHR '' '') (tl (dropWhile (\<lambda>c. c \<noteq> CHR '':'') l)))
      else None)"

text \<open>The lines of a header block.\<close>

definition head_lines :: "string \<Rightarrow> string list" where
  "head_lines h = map strip_cr (getlines h)"

section \<open>The client\<close>

definition http_post_text :: "string \<Rightarrow> string \<Rightarrow> string \<Rightarrow> string" where
  "http_post_text host path body =
     ''POST '' @ path @ '' HTTP/1.1'' @ crlf @
     ''Host: '' @ host @ crlf @
     ''Content-Type: application/json'' @ crlf @
     ''Content-Length: '' @ show_nat (length body) @ crlf @
     ''Connection: close'' @ crlf @
     crlf @ body"

text \<open>The length that the headers announce: the last one counts, and one that is not a number ends the call.\<close>

fun client_length :: "string list \<Rightarrow> nat \<Rightarrow> nat option" where
  "client_length [] n = Some n"
| "client_length (l # ls) n =
     (case split_header l of
        Some (key, v) \<Rightarrow>
          if key = ''content-length''
          then (if v = [] then None
                else case stoul v of Inl e \<Rightarrow> None | Inr m \<Rightarrow> client_length ls m)
          else client_length ls n
      | None \<Rightarrow> client_length ls n)"

definition read_response :: "string list \<Rightarrow> (int \<times> string) option" where
  "read_response cs =
     (case read_head [] cs of
        None \<Rightarrow> None
      | Some (h, b, cs) \<Rightarrow>
          let ls = head_lines h; status = read_int (snd (read_word (if ls = [] then [] else hd ls)))
          in case client_length (tl ls) 0 of
               None \<Rightarrow> None
             | Some n \<Rightarrow> map_option (Pair status) (read_body n b cs))"

text \<open>The status as the coordinator compares it.\<close>

definition read_answer :: "string list \<Rightarrow> (nat \<times> string) option" where
  "read_answer cs = map_option (\<lambda>(status, body). (nat status, body)) (read_response cs)"

section \<open>The server\<close>

record http_request =
  req_method :: string
  req_path :: string
  req_query :: string
  req_headers :: "(string \<times> string) list"
  req_body :: string

record http_response =
  resp_status :: int
  content_type :: string
  resp_body :: string

definition json_response :: "string \<Rightarrow> int \<Rightarrow> http_response" where
  "json_response body status = \<lparr>resp_status = status, content_type = ''application/json'', resp_body = body\<rparr>"

definition text_response :: "string \<Rightarrow> int \<Rightarrow> string \<Rightarrow> http_response" where
  "text_response body status ct = \<lparr>resp_status = status, content_type = ct, resp_body = body\<rparr>"

definition add_header :: "string \<Rightarrow> (string \<times> string) list \<Rightarrow> (string \<times> string) list" where
  "add_header l hs = (case split_header l of None \<Rightarrow> hs | Some (key, v) \<Rightarrow> AList.update key v hs)"

definition parse_request_line :: "string \<Rightarrow> string \<times> string \<times> string" where
  "parse_request_line l =
     (let (meth, rest) = read_word l; full = fst (read_word rest)
      in if CHR ''?'' \<in> set full
         then (meth, takeWhile (\<lambda>c. c \<noteq> CHR ''?'') full, tl (dropWhile (\<lambda>c. c \<noteq> CHR ''?'') full))
         else (meth, full, []))"

definition read_request :: "string list \<Rightarrow> http_request option" where
  "read_request cs =
     (case read_head [] cs of
        None \<Rightarrow> None
      | Some (h, b, cs) \<Rightarrow>
          let ls = head_lines h; (meth, path, query) = parse_request_line (if ls = [] then [] else hd ls);
              headers = fold add_header (tl ls) []
          in case (case map_of headers ''content-length'' of None \<Rightarrow> Inr 0 | Some v \<Rightarrow> stoul v) of
               Inl e \<Rightarrow> None
             | Inr n \<Rightarrow>
                 map_option (\<lambda>body. \<lparr>req_method = meth, req_path = path, req_query = query, req_headers = headers, req_body = body\<rparr>)
                   (read_body n b cs))"

definition status_text :: "int \<Rightarrow> string" where
  "status_text s =
     (if s = 200 then ''OK''
      else if s = 400 then ''Bad Request''
      else if s = 404 then ''Not Found''
      else if s = 500 then ''Internal Server Error''
      else ''Unknown'')"

definition write_response :: "http_response \<Rightarrow> string" where
  "write_response r =
     ''HTTP/1.1 '' @ show_int (resp_status r) @ '' '' @ status_text (resp_status r) @ crlf @
     ''Content-Type: '' @ content_type r @ crlf @
     ''Content-Length: '' @ show_nat (length (resp_body r)) @ crlf @
     ''Connection: close'' @ crlf @
     crlf @ resp_body r"

type_synonym handler = "http_request \<Rightarrow> http_response result"

record http_server =
  server_routes :: "(string \<times> handler) list"
  server_fallback :: "handler option"

definition new_server :: http_server where
  "new_server = \<lparr>server_routes = [], server_fallback = None\<rparr>"

definition route :: "string \<Rightarrow> string \<Rightarrow> handler \<Rightarrow> http_server \<Rightarrow> http_server" where
  "route meth path h s = s\<lparr>server_routes := AList.update (meth @ '' '' @ path) h (server_routes s)\<rparr>"

definition set_fallback :: "handler \<Rightarrow> http_server \<Rightarrow> http_server" where
  "set_fallback h s = s\<lparr>server_fallback := Some h\<rparr>"

text \<open>Undefined behaviour and running out of fuel are not exceptions.\<close>

fun is_exception :: "error \<Rightarrow> bool" where
  "is_exception (UndefinedBehaviour s) = False"
| "is_exception OutOfFuel = False"
| "is_exception e = True"

text \<open>
  One connection: the bytes sent back, if any.  The text of an exception, \<^verbatim>\<open>what()\<close>, is an argument since that of a library
  exception is up to the library.
\<close>

definition handle_connection :: "(error \<Rightarrow> string) \<Rightarrow> http_server \<Rightarrow> string list \<Rightarrow> string option result" where
  "handle_connection what s cs =
     (case read_request cs of
        None \<Rightarrow> Inr None
      | Some req \<Rightarrow>
          (case (case map_of (server_routes s) (req_method req @ '' '' @ req_path req) of
                   Some h \<Rightarrow> h req
                 | None \<Rightarrow> (case server_fallback s of Some h \<Rightarrow> h req | None \<Rightarrow> Inr (text_response ''not found'' 404 ''text/plain''))) of
             Inr r \<Rightarrow> Inr (Some (write_response r))
           | Inl e \<Rightarrow>
               if is_exception e
               then Inr (Some (write_response (json_response (to_json (JObject [(''error'', JString (what e))])) 500)))
               else Inl e))"

definition register_worker_routes :: "runtime \<Rightarrow> database \<Rightarrow> http_server \<Rightarrow> http_server" where
  "register_worker_routes rt db =
     route ''POST'' ''/worker/execute''
       (\<lambda>req. rbind (worker_execute rt db (req_body req)) (\<lambda>body. Inr (json_response body 200)))"

text \<open>
  A call of a worker.  \<^term>\<open>up\<close> is what \<^verbatim>\<open>recv\<close> returns to the worker of what the client sends, \<^term>\<open>down\<close> what it returns to
  the client of what the worker sends; a connection that cannot be made delivers nothing.
\<close>

definition http_post_json ::
  "(error \<Rightarrow> string) \<Rightarrow> runtime \<Rightarrow> (nat \<Rightarrow> string) \<Rightarrow> (nat \<Rightarrow> database) \<Rightarrow>
   (nat \<Rightarrow> string \<Rightarrow> string list) \<Rightarrow> (nat \<Rightarrow> string \<Rightarrow> string list) \<Rightarrow> http"
where
  "http_post_json what rt host db up down w body =
     (case handle_connection what (register_worker_routes rt (db w) new_server)
             (up w (http_post_text (host w) ''/worker/execute'' body)) of
        Inl e \<Rightarrow> None
      | Inr None \<Rightarrow> read_answer []
      | Inr (Some out) \<Rightarrow> read_answer (down w out))"

section \<open>Reading a prefix of a message\<close>

lemma split_head_append: "split_head s = Some (h, b) \<Longrightarrow> split_head (s @ t) = Some (h, b @ t)"
proof (induction s arbitrary: h rule: split_head.induct)
  case (1 s)
  show ?case
  proof (cases "take 4 s = header_end")
    case True
    then have len: "4 \<le> length s" 
    proof -
      have "length (take 4 s) = 4" unfolding True by (simp add: header_end_def)
      then show ?thesis by simp
    qed
    then show ?thesis using "1.prems" True by (subst split_head.simps) (simp add: split_head.simps [of s])
  next
    case False
    with "1.prems" obtain c cs h' where s: "s = c # cs" "split_head cs = Some (h', b)" "h = c # h'"
      by (subst (asm) split_head.simps) (auto split: list.splits)
    have "take 4 (s @ t) \<noteq> header_end"
    proof (cases "4 \<le> length s")
      case True
      then show ?thesis using False by simp
    next
      case short: False
      have "split_head cs = None"
      proof -
        have "length x < 4 \<Longrightarrow> split_head x = None" for x :: string
          by (induction x) (auto simp: split_head.simps header_end_def)
        then show ?thesis using short s(1) by simp
      qed
      then show ?thesis using s(2) by simp
    qed
    then show ?thesis using "1.IH" [OF False s(1) s(2)] s by (subst split_head.simps) simp
  qed
qed

lemma read_head_prefix:
  assumes "split_head buf = None" "split_head (buf @ concat cs @ rest) = Some (h, b)" "read_head buf cs = Some (h', b', cs')"
  shows "h' = h \<and> b = b' @ concat cs' @ rest"
  using assms
proof (induction cs arbitrary: buf)
  case (Cons c cs)
  show ?case
  proof (cases "split_head (buf @ c)")
    case None
    then show ?thesis using Cons.IH [of "buf @ c"] Cons.prems by (simp split: if_splits)
  next
    case (Some hb)
    obtain h0 b0 where hb: "hb = (h0, b0)" by (cases hb)
    then show ?thesis using split_head_append [of "buf @ c" h0 b0 "concat cs @ rest"] Some Cons.prems by (auto split: if_splits)
  qed
qed simp

lemma read_body_prefix: "read_body n body cs = Some x \<Longrightarrow> x = take n (body @ concat cs @ rest)"
proof (induction n body cs rule: read_body.induct)
  case (1 n body cs)
  show ?case
  proof (cases "n \<le> length body")
    case True
    then show ?thesis using "1.prems" by (simp add: read_body.simps [of n body cs])
  next
    case False
    then obtain c cs' where "cs = c # cs'" "c \<noteq> []" "read_body n (body @ c) cs' = Some x"
      using "1.prems" by (auto simp: read_body.simps [of n body cs] split: list.splits if_splits)
    then show ?thesis using "1.IH" [OF False, of c cs'] by simp
  qed
qed

section \<open>Complete messages\<close>

lemma read_head_complete:
  assumes "split_head buf = None" "split_head (buf @ concat cs) = Some (h, b)" "\<forall>c \<in> set cs. c \<noteq> [] \<and> length c \<le> 4096"
    and "length h + 4100 \<le> 2 ^ 20" "length buf < length h + 4"
  shows "\<exists>b' cs'. read_head buf cs = Some (h, b', cs') \<and> b = b' @ concat cs' \<and> set cs' \<subseteq> set cs"
  using assms
proof (induction cs arbitrary: buf)
  case (Cons c cs)
  have size: "\<not> 2 ^ 20 < length (buf @ c)" using Cons.prems(3,4,5) by auto
  show ?case
  proof (cases "split_head (buf @ c)")
    case None
    have len: "length (buf @ c) < length h + 4"
    proof -
      have "split_head (x @ y) = Some (h, b) \<Longrightarrow> length h + 4 \<le> length x \<Longrightarrow> split_head x \<noteq> None" for x y
      proof (induction x arbitrary: h)
        case (Cons a x)
        then show ?case
          by (subst split_head.simps, subst (asm) split_head.simps) (cases "split_head (x @ y)"; auto simp: header_end_def split: if_splits)
      qed simp
      from this [of "buf @ c" "concat cs"] None Cons.prems(2) show ?thesis by fastforce
    qed
    with Cons.IH [of "buf @ c"] None Cons.prems size show ?thesis by auto
  next
    case (Some hb)
    obtain h0 b0 where hb: "hb = (h0, b0)" by (cases hb)
    then show ?thesis using split_head_append [of "buf @ c" h0 b0 "concat cs"] Some Cons.prems size by auto
  qed
qed simp

lemma read_body_complete:
  assumes "n \<le> length (body @ concat cs)" "[] \<notin> set cs"
  shows "read_body n body cs = Some (take n (body @ concat cs))"
  using assms
proof (induction n body cs rule: read_body.induct)
  case (1 n body cs)
  then show ?case by (subst read_body.simps) (cases cs; auto)
qed

section \<open>Header blocks\<close>

fun block :: "string list \<Rightarrow> string" where
  "block [] = []"
| "block [l] = l"
| "block (l # ls) = l @ crlf @ block ls"

definition clean :: "string \<Rightarrow> bool" where
  "clean l \<longleftrightarrow> l \<noteq> [] \<and> CHR 0x0D \<notin> set l \<and> CHR 0x0A \<notin> set l"

lemma getlines_line: "CHR 0x0A \<notin> set l \<Longrightarrow> getlines (l @ CHR 0x0A # r) = l # getlines r"
proof -
  assume l: "CHR 0x0A \<notin> set l"
  have "takeWhile (\<lambda>c. c \<noteq> CHR 0x0A) (l @ CHR 0x0A # r) = l" "dropWhile (\<lambda>c. c \<noteq> CHR 0x0A) (l @ CHR 0x0A # r) = CHR 0x0A # r"
    using l by (subst takeWhile_append2 dropWhile_append2; auto)+
  then show ?thesis by (subst getlines.simps) simp
qed

lemma getlines_last: "clean l \<Longrightarrow> getlines l = [l]"
proof -
  assume l: "clean l"
  have "takeWhile (\<lambda>c. c \<noteq> CHR 0x0A) l = l" and nil: "dropWhile (\<lambda>c. c \<noteq> CHR 0x0A) l = []"
    using l by (auto simp: clean_def takeWhile_eq_all_conv)
  then show ?thesis using l by (subst getlines.simps) (simp add: clean_def nil getlines.simps [of "[]"])
qed

lemma head_lines_block: "list_all clean ls \<Longrightarrow> head_lines (block ls) = ls"
proof (induction ls rule: block.induct)
  case 1
  then show ?case by (simp add: head_lines_def getlines.simps [of "[]"])
next
  case (2 l)
  then show ?case by (auto simp: head_lines_def getlines_last strip_cr_def clean_def dest: last_in_set)
next
  case (3 l l' ls)
  have "getlines (block (l # l' # ls)) = (l @ [CHR 0x0D]) # getlines (block (l' # ls))"
    using getlines_line [of "l @ [CHR 0x0D]" "block (l' # ls)"] 3 by (simp add: clean_def)
  with 3 show ?case by (simp add: head_lines_def strip_cr_def)
qed

lemma split_head_skip: "CHR 0x0D \<notin> set l \<Longrightarrow> split_head (l @ r) = map_option (\<lambda>(h, b). (l @ h, b)) (split_head r)"
proof (induction l)
  case Nil
  then show ?case by (cases "split_head r") auto
next
  case (Cons c l)
  have "take 4 (c # l @ r) \<noteq> header_end" using Cons.prems by (auto simp: header_end_def)
  with Cons show ?case by (subst append_Cons, subst split_head.simps) (cases "split_head r"; auto)
qed

lemma split_head_crlf:
  "c \<noteq> CHR 0x0D \<Longrightarrow> split_head (crlf @ c # r) = map_option (\<lambda>(h, b). (crlf @ h, b)) (split_head (c # r))"
  by (subst append_Cons, subst split_head.simps, subst append_Cons, subst split_head.simps)
    (cases "split_head (c # r)"; auto simp: header_end_def)

lemma split_head_block:
  "list_all clean ls \<Longrightarrow> ls \<noteq> [] \<Longrightarrow> split_head (block ls @ header_end @ b) = Some (block ls, b)"
proof (induction ls rule: block.induct)
  case (2 l)
  have "split_head (header_end @ b) = Some ([], b)" by (subst split_head.simps) (simp add: header_end_def)
  then show ?case using 2 split_head_skip [of l "header_end @ b"] by (simp add: clean_def)
next
  case (3 l l' ls)
  have ne: "block (l' # ls) \<noteq> [] \<and> hd (block (l' # ls)) \<noteq> CHR 0x0D"
    using 3(2) by (cases ls) (auto simp: clean_def neq_Nil_conv hd_append)
  then obtain c r where c: "block (l' # ls) = c # r" "c \<noteq> CHR 0x0D" by (cases "block (l' # ls)") auto
  have "split_head (c # r @ header_end @ b) = Some (c # r, b)" using 3 c(1) by simp
  then have "split_head (crlf @ c # r @ header_end @ b) = Some (crlf @ c # r, b)" using split_head_crlf [OF c(2)] by simp
  then show ?case using split_head_skip [of l "crlf @ c # r @ header_end @ b"] 3(2) c(1) by (simp add: clean_def)
qed simp

text \<open>A message is read as its lines and its body, from as many of its bytes as arrive.\<close>

lemma read_message:
  assumes "list_all clean ls" "ls \<noteq> []" "concat cs @ rest = block ls @ header_end @ body" "read_head [] cs = Some (h, b, cs')"
  shows "head_lines h = ls" "b @ concat cs' @ rest = body"
proof -
  have "split_head [] = None" by (simp add: split_head.simps header_end_def)
  then have "h = block ls \<and> body = b @ concat cs' @ rest"
    using read_head_prefix [of "[]" cs rest "block ls" body h b cs'] split_head_block [OF assms(1,2)] assms(3,4) by simp
  then show "head_lines h = ls" "b @ concat cs' @ rest = body" using head_lines_block [OF assms(1)] by simp_all
qed

lemma message_arrives:
  assumes "list_all clean ls" "ls \<noteq> []" "concat cs = block ls @ header_end @ body" "\<forall>c \<in> set cs. c \<noteq> [] \<and> length c \<le> 4096"
    and "length (block ls) + 4100 \<le> 2 ^ 20"
  shows "\<exists>h b cs'. read_head [] cs = Some (h, b, cs') \<and> [] \<notin> set cs'"
proof -
  have "split_head [] = None" by (simp add: split_head.simps header_end_def)
  then show ?thesis
    using read_head_complete [of "[]" cs "block ls" body] split_head_block [OF assms(1,2), of body] assms(3-5) by fastforce
qed

section \<open>Requests and responses\<close>

abbreviation request_lines :: "string \<Rightarrow> string \<Rightarrow> string \<Rightarrow> string list" where
  "request_lines host path body \<equiv>
     [''POST '' @ path @ '' HTTP/1.1'', ''Host: '' @ host, ''Content-Type: application/json'',
      ''Content-Length: '' @ show_nat (length body), ''Connection: close'']"

abbreviation response_lines :: "http_response \<Rightarrow> string list" where
  "response_lines r \<equiv>
     [''HTTP/1.1 '' @ show_int (resp_status r) @ '' '' @ status_text (resp_status r), ''Content-Type: '' @ content_type r,
      ''Content-Length: '' @ show_nat (length (resp_body r)), ''Connection: close'']"

lemma http_post_block: "http_post_text host path body = block (request_lines host path body) @ header_end @ body"
  by (simp add: http_post_text_def header_end_def)

lemma write_response_block: "write_response r = block (response_lines r) @ header_end @ resp_body r"
  by (simp add: write_response_def header_end_def)

definition one_line :: "string \<Rightarrow> bool" where
  "one_line s \<longleftrightarrow> CHR 0x0D \<notin> set s \<and> CHR 0x0A \<notin> set s"

lemma one_line_show_nat: "one_line (show_nat n)"
  using show_dec_digits [of "int n"] by (force simp: one_line_def show_nat_def isdigit_def)

definition path_ok :: "string \<Rightarrow> bool" where
  "path_ok p \<longleftrightarrow> p \<noteq> [] \<and> list_all (\<lambda>c. \<not> isspace c \<and> c \<noteq> CHR ''?'') p"

lemma path_one_line: "path_ok p \<Longrightarrow> one_line p"
proof -
  assume "path_ok p"
  moreover have "isspace CHR 0x0D" "isspace CHR 0x0A" by (simp_all add: isspace_def)
  ultimately show "one_line p" unfolding path_ok_def one_line_def list_all_iff by blast
qed

lemma request_lines_clean: "one_line host \<Longrightarrow> path_ok path \<Longrightarrow> list_all clean (request_lines host path body)"
  using one_line_show_nat [of "length body"] path_one_line [of path] by (simp add: clean_def one_line_def)

lemma read_word_path: "path_ok p \<Longrightarrow> read_word ('' '' @ p @ '' HTTP/1.1'') = (p, '' HTTP/1.1'')"
proof -
  assume p: "path_ok p"
  have "dropWhile isspace ('' '' @ p @ '' HTTP/1.1'') = p @ '' HTTP/1.1''"
    using p by (cases p) (auto simp: path_ok_def isspace_def)
  moreover have "takeWhile (\<lambda>c. \<not> isspace c) (p @ '' HTTP/1.1'') = p" "dropWhile (\<lambda>c. \<not> isspace c) (p @ '' HTTP/1.1'') = '' HTTP/1.1''"
    using p by (subst takeWhile_append2 dropWhile_append2; auto simp: path_ok_def list_all_iff isspace_def)+
  ultimately show ?thesis by (simp add: read_word_def)
qed

lemma parse_post_line: "path_ok p \<Longrightarrow> parse_request_line (''POST '' @ p @ '' HTTP/1.1'') = (''POST'', p, [])"
proof -
  assume p: "path_ok p"
  have "read_word (''POST '' @ p @ '' HTTP/1.1'') = (''POST'', '' '' @ p @ '' HTTP/1.1'')"
    by (simp add: read_word_def isspace_def)
  moreover have "CHR ''?'' \<notin> set p" using p by (auto simp: path_ok_def list_all_iff)
  ultimately show ?thesis using read_word_path [OF p] by (simp add: parse_request_line_def)
qed

lemma tolower_names:
  "map tolower ''Host'' = ''host''" "map tolower ''Content-Type'' = ''content-type''"
  "map tolower ''Content-Length'' = ''content-length''" "map tolower ''Connection'' = ''connection''"
  by code_simp+

lemma split_header_line: "CHR '':'' \<notin> set k \<Longrightarrow> split_header (k @ '': '' @ v) = Some (map tolower k, dropWhile (\<lambda>c. c = CHR '' '') v)"
proof -
  assume k: "CHR '':'' \<notin> set k"
  have "takeWhile (\<lambda>c. c \<noteq> CHR '':'') (k @ CHR '':'' # w) = k" "dropWhile (\<lambda>c. c \<noteq> CHR '':'') (k @ CHR '':'' # w) = CHR '':'' # w" for w
    using k by (subst takeWhile_append2 dropWhile_append2; auto)+
  from this [of "CHR '' '' # v"] show ?thesis by (simp add: split_header_def)
qed

lemma split_headers:
  "split_header (''Host: '' @ v) = Some (''host'', dropWhile (\<lambda>c. c = CHR '' '') v)"
  "split_header (''Content-Type: '' @ v) = Some (''content-type'', dropWhile (\<lambda>c. c = CHR '' '') v)"
  "split_header (''Content-Length: '' @ v) = Some (''content-length'', dropWhile (\<lambda>c. c = CHR '' '') v)"
  "split_header (''Connection: '' @ v) = Some (''connection'', dropWhile (\<lambda>c. c = CHR '' '') v)"
  using split_header_line [of "''Host''" v, unfolded tolower_names] split_header_line [of "''Content-Type''" v, unfolded tolower_names]
    split_header_line [of "''Content-Length''" v, unfolded tolower_names] split_header_line [of "''Connection''" v, unfolded tolower_names]
  by simp_all

lemma drop_spaces_nat: "dropWhile (\<lambda>c. c = CHR '' '') (show_nat n) = show_nat n"
proof -
  obtain c cs where "show_nat n = c # cs" "isdigit c"
    using show_dec_digits [of "int n"] show_dec_not_Nil [of "int n"] by (cases "show_nat n") (auto simp: show_nat_def)
  then show ?thesis by (auto simp: isdigit_def)
qed

text \<open>The server reads a request of the client, whatever part of it arrives, as it was sent.\<close>

lemma request_headers:
  "map_of (fold add_header (tl (request_lines host path body)) []) ''content-length'' = Some (show_nat (length body))"
proof -
  have "add_header (''Connection: close'') hs = AList.update ''connection'' ''close'' hs"
    "add_header (''Content-Type: application/json'') hs = AList.update ''content-type'' ''application/json'' hs" for hs
    using split_headers(4) [of "''close''"] split_headers(2) [of "''application/json''"] by (simp_all add: add_header_def)
  then show ?thesis
    by (simp add: add_header_def [of "CHR ''H'' # _"] add_header_def [of "CHR ''C'' # CHR ''o'' # CHR ''n'' # CHR ''t'' # CHR ''e'' # CHR ''n'' # CHR ''t'' # CHR ''-'' # CHR ''L'' # _"]
        split_headers [simplified] drop_spaces_nat update_conv')
qed

lemma read_request_lines:
  assumes "read_head [] cs = Some (h, b, cs')" "head_lines h = l # ls" "parse_request_line l = (m, p, q)"
    and "map_of (fold add_header ls []) ''content-length'' = Some v" "stoul v = Inr n"
  shows "read_request cs =
    map_option (\<lambda>body. \<lparr>req_method = m, req_path = p, req_query = q, req_headers = fold add_header ls [], req_body = body\<rparr>)
      (read_body n b cs')"
  using assms by (simp add: read_request_def Let_def)

lemma request_parsed:
  assumes "one_line host" "path_ok path" "length body < 2 ^ 64" "concat cs @ rest = http_post_text host path body" "read_head [] cs = Some (h, b, cs')"
  shows "\<exists>hs. read_request cs =
    map_option (\<lambda>x. \<lparr>req_method = ''POST'', req_path = path, req_query = [], req_headers = hs, req_body = x\<rparr>) (read_body (length body) b cs')"
    "b @ concat cs' @ rest = body"
proof -
  let ?ls = "request_lines host path body"
  have lines: "head_lines h = ?ls" and rest: "b @ concat cs' @ rest = body"
    using read_message [OF request_lines_clean [OF assms(1,2)] _ _ assms(5)] assms(4) http_post_block by auto
  show "b @ concat cs' @ rest = body" by (rule rest)
  show "\<exists>hs. read_request cs =
    map_option (\<lambda>x. \<lparr>req_method = ''POST'', req_path = path, req_query = [], req_headers = hs, req_body = x\<rparr>) (read_body (length body) b cs')"
    using read_request_lines [OF assms(5) lines parse_post_line [OF assms(2)] request_headers [where host = host and path = path and body = body, unfolded list.sel]
        stoul_show_nat [OF assms(3)]] by blast
qed

lemma request_read:
  assumes "one_line host" "path_ok path" "length body < 2 ^ 64" "concat cs @ rest = http_post_text host path body" "read_request cs = Some req"
  shows "req_method req = ''POST'' \<and> req_path req = path \<and> req_body req = body"
proof -
  obtain h b cs' where head: "read_head [] cs = Some (h, b, cs')" using assms(5) by (auto simp: read_request_def split: option.splits)
  note parsed = request_parsed [OF assms(1-4) head]
  obtain hs where hs: "read_request cs =
      map_option (\<lambda>x. \<lparr>req_method = ''POST'', req_path = path, req_query = [], req_headers = hs, req_body = x\<rparr>) (read_body (length body) b cs')"
    using parsed(1) by blast
  obtain x where "read_body (length body) b cs' = Some x" "req_method req = ''POST''" "req_path req = path" "req_body req = x"
    using assms(5) unfolding hs by auto
  then show ?thesis using read_body_prefix [of "length body" b cs' x rest] parsed(2) by simp
qed

lemma length_show_dec: "i < 10 ^ k \<Longrightarrow> 0 < k \<Longrightarrow> length (show_dec i) \<le> k"
proof (induction k arbitrary: i)
  case (Suc k)
  show ?case
  proof (cases "i < 10")
    case True
    then show ?thesis by (subst show_dec.simps) simp
  next
    case False
    have "i div 10 < 10 ^ k" using Suc.prems(1) by (simp add: div_less_iff_less_mult)
    moreover have "0 < k" using False Suc.prems(1) by (cases k) auto
    ultimately show ?thesis using Suc.IH False by (subst show_dec.simps) simp
  qed
qed simp

lemma length_show_nat: "n < 2 ^ 64 \<Longrightarrow> length (show_nat n) \<le> 20"
  using length_show_dec [of "int n" 20] by (simp add: show_nat_def)

lemma request_arrives:
  assumes "one_line host" "path_ok path" "length body < 2 ^ 64" "concat cs = http_post_text host path body"
    and "\<forall>c \<in> set cs. c \<noteq> [] \<and> length c \<le> 4096" "length host + length path < 2 ^ 19"
  shows "read_request cs \<noteq> None"
proof -
  have size: "length (block (request_lines host path body)) + 4100 \<le> 2 ^ 20" using length_show_nat [OF assms(3)] assms(6) by simp
  obtain h b cs' where head: "read_head [] cs = Some (h, b, cs')" "[] \<notin> set cs'"
    using message_arrives [OF request_lines_clean [OF assms(1,2)] _ _ assms(5) size] assms(4) http_post_block by auto
  note parsed = request_parsed [OF assms(1-3) _ head(1), of "[]"]
  have b: "b @ concat cs' = body" using parsed(2) assms(4) by simp
  have "read_body (length body) b cs' \<noteq> None" using read_body_complete [of "length body" b cs', unfolded b] head(2) by simp
  then show ?thesis using parsed(1) assms(4) by auto
qed

text \<open>The client reads a response of the server, whatever part of it arrives, as it was sent.\<close>

definition response_ok :: "http_response \<Rightarrow> bool" where
  "response_ok r \<longleftrightarrow> 0 \<le> resp_status r \<and> resp_status r < 2 ^ 31 \<and> one_line (content_type r) \<and> length (resp_body r) < 2 ^ 64 \<and>
     length (content_type r) < 2 ^ 19"

lemma one_line_status: "one_line (status_text s)"
  by (simp add: status_text_def one_line_def)

lemma response_lines_clean: "response_ok r \<Longrightarrow> list_all clean (response_lines r)"
proof -
  assume r: "response_ok r"
  have "one_line (show_int (resp_status r))"
    using r one_line_show_nat [of "nat (resp_status r)"] by (simp add: response_ok_def show_int_def show_nat_def)
  then show ?thesis using r one_line_show_nat [of "length (resp_body r)"] one_line_status [of "resp_status r"]
    by (simp add: clean_def one_line_def response_ok_def)
qed

lemma status_read:
  assumes "0 \<le> s" "s < 2 ^ 31"
  shows "read_int (snd (read_word (''HTTP/1.1 '' @ show_int s @ '' '' @ t))) = s"
proof -
  have word: "snd (read_word (''HTTP/1.1 '' @ show_int s @ '' '' @ t)) = '' '' @ show_dec s @ '' '' @ t"
    using assms(1) by (simp add: read_word_def isspace_def show_int_def)
  obtain c cs where c: "show_dec s = c # cs" "isdigit c"
    using show_dec_digits [OF assms(1)] show_dec_not_Nil [of s] by (cases "show_dec s") auto
  have c': "\<not> isspace c" "c \<noteq> CHR ''-''" "c \<noteq> CHR ''+''" using c(2) by (auto simp: isdigit_def isspace_def)
  have "isspace CHR '' ''" by (simp add: isspace_def)
  then have drop: "dropWhile isspace ('' '' @ show_dec s @ '' '' @ t) = show_dec s @ '' '' @ t" using c(1) c'(1) by simp
  have "\<not> isdigit CHR '' ''" by (simp add: isdigit_def)
  then have digits: "takeWhile isdigit (show_dec s @ '' '' @ t) = show_dec s"
    using show_dec_digits [OF assms(1)] by (subst takeWhile_append2) auto
  have "lex_peek (show_dec s @ '' '' @ t) = Some c" by (simp add: c(1))
  then show ?thesis
    unfolding word read_int_def Let_def drop using c' digits assms by simp
qed

lemma response_length: "client_length (tl (response_lines r)) 0 = (case stoul (show_nat (length (resp_body r))) of Inl e \<Rightarrow> None | Inr m \<Rightarrow> Some m)"
proof -
  have "split_header (''Connection: close'') = Some (''connection'', ''close'')" using split_headers(4) [of "''close''"] by simp
  moreover have "show_nat (length (resp_body r)) \<noteq> []" by (simp add: show_nat_def)
  ultimately show ?thesis by (simp add: split_headers [simplified] drop_spaces_nat split: sum.split)
qed

lemma read_response_lines:
  assumes "read_head [] cs = Some (h, b, cs')" "head_lines h = l # ls" "client_length ls 0 = Some n"
  shows "read_response cs = map_option (Pair (read_int (snd (read_word l)))) (read_body n b cs')"
  using assms by (simp add: read_response_def Let_def)

lemma response_parsed:
  assumes "response_ok r" "concat cs @ rest = write_response r" "read_head [] cs = Some (h, b, cs')"
  shows "read_response cs = map_option (Pair (resp_status r)) (read_body (length (resp_body r)) b cs')"
    "b @ concat cs' @ rest = resp_body r"
proof -
  have lines: "head_lines h = response_lines r" and rest: "b @ concat cs' @ rest = resp_body r"
    using read_message [OF response_lines_clean [OF assms(1)] _ _ assms(3)] assms(2) write_response_block by auto
  show "b @ concat cs' @ rest = resp_body r" by (rule rest)
  have "client_length (tl (response_lines r)) 0 = Some (length (resp_body r))"
    using response_length [of r] stoul_show_nat [of "length (resp_body r)"] assms(1) by (simp add: response_ok_def del: list.sel)
  then show "read_response cs = map_option (Pair (resp_status r)) (read_body (length (resp_body r)) b cs')"
    using read_response_lines [OF assms(3) lines] status_read [of "resp_status r"] assms(1)
    by (simp only: list.sel response_ok_def)
qed

lemma response_read:
  assumes "response_ok r" "concat cs @ rest = write_response r" "read_response cs = Some (s, body)"
  shows "s = resp_status r \<and> body = resp_body r"
proof -
  obtain h b cs' where head: "read_head [] cs = Some (h, b, cs')" using assms(3) by (auto simp: read_response_def split: option.splits)
  note parsed = response_parsed [OF assms(1,2) head]
  have "read_body (length (resp_body r)) b cs' = Some body" "s = resp_status r" using assms(3) unfolding parsed(1) by auto
  then show ?thesis using read_body_prefix [of "length (resp_body r)" b cs' body rest] parsed(2) by simp
qed

lemma response_arrives:
  assumes "response_ok r" "concat cs = write_response r" "\<forall>c \<in> set cs. c \<noteq> [] \<and> length c \<le> 4096"
  shows "read_response cs = Some (resp_status r, resp_body r)"
proof -
  have "length (show_int (resp_status r)) \<le> 20"
    using length_show_dec [of "resp_status r" 20] assms(1) by (simp add: response_ok_def show_int_def)
  moreover have "length (status_text (resp_status r)) \<le> 21" by (simp add: status_text_def)
  ultimately have size: "length (block (response_lines r)) + 4100 \<le> 2 ^ 20"
    using length_show_nat [of "length (resp_body r)"] assms(1) by (simp add: response_ok_def)
  obtain h b cs' where head: "read_head [] cs = Some (h, b, cs')" "[] \<notin> set cs'"
    using message_arrives [OF response_lines_clean [OF assms(1)] _ _ assms(3) size] assms(2) write_response_block by auto
  note parsed = response_parsed [OF assms(1) _ head(1), of "[]"]
  have b: "b @ concat cs' = resp_body r" using parsed(2) assms(2) by simp
  have "read_body (length (resp_body r)) b cs' = Some (resp_body r)"
    using read_body_complete [of "length (resp_body r)" b cs', unfolded b] head(2) by simp
  then show ?thesis using parsed(1) assms(2) by simp
qed

section \<open>Messages too long for their length\<close>

lemma stoul_too_long: "2 ^ 64 \<le> n \<Longrightarrow> \<exists>e. stoul (show_nat n) = Inl e"
proof -
  assume n: "2 ^ 64 \<le> n"
  have tw: "takeWhile isdigit (show_nat n) = show_nat n" using show_dec_digits [of "int n"] by (simp add: show_nat_def)
  obtain c cs where c: "show_nat n = c # cs" "isdigit c"
    using show_dec_digits [of "int n"] show_dec_not_Nil [of "int n"] by (cases "show_nat n") (auto simp: show_nat_def)
  have c': "\<not> isspace c" "c \<noteq> CHR ''-''" "c \<noteq> CHR ''+''" using c(2) by (auto simp: isdigit_def isspace_def)
  have "2 ^ 64 \<le> int n" using n by (metis of_nat_le_iff of_nat_numeral of_nat_power)
  moreover have "read_dec (show_nat n) = int n" by (simp add: show_nat_def)
  ultimately show ?thesis using tw c c' unfolding stoul_def by (simp add: Let_def del: takeWhile_eq_all_conv)
qed

lemma request_too_long:
  assumes "one_line host" "path_ok path" "2 ^ 64 \<le> length body" "concat cs @ rest = http_post_text host path body"
  shows "read_request cs = None"
proof (cases "read_head [] cs")
  case (Some x)
  obtain h b cs' where x: "x = (h, b, cs')" by (cases x)
  have "head_lines h = request_lines host path body"
    using read_message [OF request_lines_clean [OF assms(1,2)] _ _ Some [unfolded x]] assms(4) http_post_block by auto
  moreover obtain e where "stoul (show_nat (length body)) = Inl e" using stoul_too_long [OF assms(3)] by blast
  ultimately show ?thesis
    using Some x request_headers [where host = host and path = path and body = body]
    by (simp add: read_request_def Let_def split: prod.splits del: fold_simps)
qed (simp add: read_request_def)

lemma response_too_long:
  assumes "list_all clean (response_lines r)" "2 ^ 64 \<le> length (resp_body r)" "concat cs @ rest = write_response r"
  shows "read_response cs = None"
proof (cases "read_head [] cs")
  case (Some x)
  obtain h b cs' where x: "x = (h, b, cs')" by (cases x)
  have lines: "head_lines h = response_lines r"
    using read_message [OF assms(1) _ _ Some [unfolded x]] assms(3) write_response_block by auto
  obtain e where e: "stoul (show_nat (length (resp_body r))) = Inl e" using stoul_too_long [OF assms(2)] by blast
  have len: "client_length (tl (response_lines r)) 0 = None" unfolding response_length e by simp
  show ?thesis unfolding read_response_def Some x option.case prod.case Let_def lines len ..
qed (simp add: read_response_def)

section \<open>Calls\<close>

lemma json_response_ok: "0 \<le> s \<Longrightarrow> s < 2 ^ 31 \<Longrightarrow> response_ok (json_response body s) \<longleftrightarrow> length body < 2 ^ 64"
  by (simp add: response_ok_def json_response_def one_line_def)

lemma json_response_clean: "0 \<le> s \<Longrightarrow> s < 2 ^ 31 \<Longrightarrow> list_all clean (response_lines (json_response body s))"
proof -
  assume s: "0 \<le> s" "s < 2 ^ 31"
  have "list_all clean (response_lines (json_response [] s))" using response_lines_clean json_response_ok [OF s, of "[]"] by simp
  moreover have "clean (''Content-Length: '' @ show_nat (length body))" using one_line_show_nat [of "length body"] by (simp add: clean_def one_line_def)
  ultimately show ?thesis by (simp add: json_response_def)
qed

lemma json_answer_read:
  assumes "0 \<le> s" "s < 2 ^ 31" "concat cs @ rest = write_response (json_response body s)" "read_response cs = Some (s', body')"
  shows "s' = s \<and> body' = body"
proof -
  have "length body < 2 ^ 64"
    using response_too_long [OF json_response_clean [OF assms(1,2)] _ assms(3)] assms(4) by (fastforce simp: json_response_def)
  then have "response_ok (json_response body s)" using json_response_ok [OF assms(1,2)] by simp
  from response_read [OF this assms(3,4)] show ?thesis by (simp add: json_response_def)
qed

lemma worker_path_ok: "path_ok ''/worker/execute''"
  by (simp add: path_ok_def isspace_def)

lemma worker_route:
  assumes "one_line host" "concat cs @ rest = http_post_text host ''/worker/execute'' body"
  shows "handle_connection what (register_worker_routes rt db new_server) cs =
    (if read_request cs = None then Inr None
     else case worker_execute rt db body of
            Inr t \<Rightarrow> Inr (Some (write_response (json_response t 200)))
          | Inl e \<Rightarrow>
              if is_exception e
              then Inr (Some (write_response (json_response (to_json (JObject [(''error'', JString (what e))])) 500)))
              else Inl e)"
proof (cases "read_request cs")
  case (Some req)
  have "length body < 2 ^ 64" using request_too_long [OF assms(1) worker_path_ok _ assms(2)] Some by fastforce
  then have "req_method req = ''POST''" "req_path req = ''/worker/execute''" "req_body req = body"
    using request_read [OF assms(1) worker_path_ok _ assms(2) Some] by auto
  then show ?thesis
    by (simp add: handle_connection_def Some register_worker_routes_def route_def new_server_def split: sum.split)
qed (simp add: handle_connection_def)

text \<open>The direct call of the worker.\<close>

definition worker_answer :: "(error \<Rightarrow> string) \<Rightarrow> runtime \<Rightarrow> database \<Rightarrow> string \<Rightarrow> nat \<times> string" where
  "worker_answer what rt db body =
     (case worker_execute rt db body of
        Inr t \<Rightarrow> (200, t)
      | Inl e \<Rightarrow> (500, to_json (JObject [(''error'', JString (what e))])))"

text \<open>A connection that may break, and one that does not.\<close>

definition lossy :: "(nat \<Rightarrow> string \<Rightarrow> string list) \<Rightarrow> bool" where
  "lossy link \<longleftrightarrow> (\<forall>w s. \<exists>rest. concat (link w s) @ rest = s)"

definition complete_link :: "(string \<Rightarrow> string list) \<Rightarrow> bool" where
  "complete_link link \<longleftrightarrow> (\<forall>s. concat (link s) = s \<and> (\<forall>c \<in> set (link s). c \<noteq> [] \<and> length c \<le> 4096))"

text \<open>Chunks of a fixed size, the way a busy connection delivers them.\<close>

function chunks :: "nat \<Rightarrow> string \<Rightarrow> string list" where
  "chunks k s = (if s = [] \<or> k = 0 then [] else take k s # chunks k (drop k s))"
  by pat_completeness auto
termination by (relation "measure (length \<circ> snd)") auto

declare chunks.simps [simp del]

lemma chunks_delivers:
  assumes "0 < k" "k \<le> 4096"
  shows "complete_link (chunks k)"
proof -
  have "concat (chunks k s) = s \<and> (\<forall>c \<in> set (chunks k s). c \<noteq> [] \<and> length c \<le> 4096)" for s
    using assms
  proof (induction k s rule: chunks.induct)
    case (1 k s)
    show ?case
    proof (cases "s = []")
      case True
      then show ?thesis by (simp add: chunks.simps)
    next
      case False
      then have "chunks k s = take k s # chunks k (drop k s)" using 1(2) by (simp add: chunks.simps [of k s])
      moreover have "take k s \<noteq> []" "length (take k s) \<le> 4096" using False 1(2,3) by auto
      ultimately show ?thesis using 1 False by simp
    qed
  qed
  then show ?thesis by (simp add: complete_link_def)
qed

section \<open>Properties\<close>

text \<open>
  C14. Over connections that may break at any byte, a call of a worker answers with status 200 only what that worker computes
  for the body it was sent.
\<close>

theorem http_faithful:
  assumes "lossy up" "lossy down" "\<forall>w. one_line (host w)"
  shows "faithful rt (http_post_json what rt host (part ctx) up down) ctx"
  unfolding faithful_def
proof (intro allI impI)
  fix w body status t
  assume answer: "http_post_json what rt host (part ctx) up down w body = Some (status, t)" and ok: "status = 200"
  let ?sent = "http_post_text (host w) ''/worker/execute'' body"
  obtain rest where "concat (up w ?sent) @ rest = ?sent" using assms(1) unfolding lossy_def by blast
  note served = worker_route [of "host w" "up w ?sent" rest body what rt "part ctx w"]
  obtain out where out: "handle_connection what (register_worker_routes rt (part ctx w) new_server) (up w ?sent) = Inr (Some out)"
    and read: "read_answer (down w out) = Some (status, t)"
    using answer by (auto simp: http_post_json_def read_answer_def read_response_def split: sum.splits option.splits)
  obtain rest' where down: "concat (down w out) @ rest' = out" using assms(2) unfolding lossy_def by blast
  obtain s where s: "read_response (down w out) = Some (s, t)" "status = nat s" using read by (auto simp: read_answer_def)
  show "worker_execute rt (part ctx w) body = Inr t"
  proof (cases "worker_execute rt (part ctx w) body")
    case (Inr u)
    then have "out = write_response (json_response u 200)"
      using served \<open>concat (up w ?sent) @ rest = ?sent\<close> out assms(3) by (simp split: if_splits)
    then show ?thesis using json_answer_read [of 200 "down w out" rest' u s t] down s(1) Inr by simp
  next
    case (Inl e)
    then have "out = write_response (json_response (to_json (JObject [(''error'', JString (what e))])) 500)"
      using served \<open>concat (up w ?sent) @ rest = ?sent\<close> out assms(3) by (simp split: if_splits)
    then have "s = 500" using json_answer_read [of 500 "down w out" rest' _ s t] down s(1) by simp
    then show ?thesis using s(2) ok by simp
  qed
qed

text \<open>
  C15. Over connections that deliver what is sent, in whatever portions, a call of a worker is the direct call of its handler:
  status 200 with the result, or status 500 with the text of the exception.
\<close>

theorem http_serves:
  assumes "complete_link (up w)" "complete_link (down w)" "one_line (host w)" "length (host w) < 2 ^ 18" "length body < 2 ^ 64"
    and "length (snd (worker_answer what rt (db w) body)) < 2 ^ 64" "\<forall>e. worker_execute rt (db w) body = Inl e \<longrightarrow> is_exception e"
  shows "http_post_json what rt host db up down w body = Some (worker_answer what rt (db w) body)"
proof -
  let ?sent = "http_post_text (host w) ''/worker/execute'' body"
  have up: "concat (up w ?sent) = ?sent" "\<forall>c \<in> set (up w ?sent). c \<noteq> [] \<and> length c \<le> 4096"
    using assms(1) by (simp_all add: complete_link_def)
  have req: "read_request (up w ?sent) \<noteq> None"
    using request_arrives [OF assms(3) worker_path_ok assms(5) up] assms(4) by simp
  have served: "handle_connection what (register_worker_routes rt (db w) new_server) (up w ?sent) =
      Inr (Some (write_response (json_response (snd (worker_answer what rt (db w) body)) (int (fst (worker_answer what rt (db w) body))))))"
    using worker_route [of "host w" "up w ?sent" "[]" body what rt "db w", OF assms(3)] up(1) req assms(7)
    by (auto simp: worker_answer_def split: sum.split)
  have answer: "read_answer (down w (write_response (json_response x s))) = Some (nat s, x)"
    if "0 \<le> s" "s < 2 ^ 31" "length x < 2 ^ 64" for x s
    using response_arrives [of "json_response x s" "down w (write_response (json_response x s))"] assms(2) that
    by (simp add: json_response_ok complete_link_def read_answer_def) (simp add: json_response_def)
  have "int (fst (worker_answer what rt (db w) body)) < 2 ^ 31" by (simp add: worker_answer_def split: sum.split)
  then show ?thesis using answer [OF _ _ assms(6)] by (simp add: http_post_json_def served)
qed

section \<open>Witnesses\<close>

lemma delivers_lossy: "\<forall>w. link w = (\<lambda>_. []) \<or> complete_link (link w) \<Longrightarrow> lossy link"
  unfolding lossy_def complete_link_def by (metis append_Nil append_Nil2 concat.simps(1))

definition one_up :: "nat \<Rightarrow> string \<Rightarrow> string list" where
  "one_up w = (if w = 0 then chunks 1000 else (\<lambda>_. []))"

theorem http_faithful_witness:
  "faithful reference_runtime
     (http_post_json (\<lambda>_. ''error'') reference_runtime (\<lambda>_. ''127.0.0.1'') (part sample_cluster) one_up (\<lambda>_. chunks 4096)) sample_cluster"
proof -
  have "one_line ''127.0.0.1''" by (simp add: one_line_def)
  moreover have "lossy one_up" "lossy (\<lambda>_. chunks 4096)"
    by (rule delivers_lossy; simp add: one_up_def chunks_delivers)+
  ultimately show ?thesis using http_faithful [of one_up "\<lambda>_. chunks 4096" "\<lambda>_. ''127.0.0.1''"] by blast
qed

definition sample_body :: string where
  "sample_body = to_json (request_json (scan_of ''b'') [])"

definition sample_reply :: string where
  "sample_reply = to_json (response_json ([''b.id'', ''b.y''], rows_b))"

lemma sample_answer: "worker_execute reference_runtime (local_full_database sample_cluster) sample_body = Inr sample_reply"
proof -
  have names: "qualified_names (sample_schema ''b'' ''y'') = [''b.id'', ''b.y'']" by code_simp
  have "plan_storable (struct_of_plan (scan_of ''b''))" "sets_sendable []" by code_simp+
  moreover have "execute_plan reference_runtime (scan_of ''b'') (local_full_database sample_cluster) (map_of []) = Inr ([''b.id'', ''b.y''], rows_b)"
    unfolding execute_plan_runs map_of.simps using relation_okD(1) [OF sample_relations(2)] names by metis
  ultimately show ?thesis unfolding sample_body_def sample_reply_def by (simp only: worker_execute_request rbind_simps)
qed

theorem http_serves_witness:
  "http_post_json (\<lambda>_. ''error'') reference_runtime (\<lambda>_. ''127.0.0.1'') (\<lambda>_. local_full_database sample_cluster)
     one_up (\<lambda>_. chunks 4096) 0 sample_body = Some (200, sample_reply)"
proof -
  have "length sample_body < 2 ^ 64" "length sample_reply < 2 ^ 64" by code_simp+
  moreover have "one_line ''127.0.0.1''" by (simp add: one_line_def)
  ultimately show ?thesis
    using http_serves [of one_up 0 "\<lambda>_. chunks 4096" "\<lambda>_. ''127.0.0.1''" sample_body
        "\<lambda>_. ''error''" reference_runtime "\<lambda>_. local_full_database sample_cluster"]
    by (simp add: worker_answer_def sample_answer one_up_def chunks_delivers)
qed

end
