(* ===== verification/Statistics_Loader.thy ===== *)
theory Statistics_Loader
  imports Plan_Cache
begin

text \<open>
  Statistics files (\<^verbatim>\<open>statistics/statistics_loader.cpp\<close>) and the versions of the cache keys (\<^verbatim>\<open>integration/cache_key.cpp\<close>).
  A directory is what the file system reports of it: its entries in the order of the iteration, each with its name, whether it is
  a regular file, and its text unless it cannot be opened; \<^term>\<open>None\<close> is a path that is not a directory.
\<close>

section \<open>One file\<close>

definition number_field :: "json \<Rightarrow> string \<Rightarrow> double" where
  "number_field j key = (case json_find j key of None \<Rightarrow> dzero | Some v \<Rightarrow> as_number v)"

definition bucket_from_json :: "json \<Rightarrow> histogram_bucket" where
  "bucket_from_json b =
     \<lparr>bucket_lower = number_field b ''lower'', bucket_upper = number_field b ''upper'',
      bucket_frequency = number_field b ''frequency''\<rparr>"

definition histogram_from_json :: "json \<Rightarrow> histogram option" where
  "histogram_from_json cv =
     (case json_find cv ''histogram'' of
        None \<Rightarrow> None
      | Some h \<Rightarrow> (case json_find h ''buckets'' of Some (JArray bs) \<Rightarrow> Some (map bucket_from_json bs) | _ \<Rightarrow> None))"

definition column_stats_from_json :: "json \<Rightarrow> column_stats" where
  "column_stats_from_json cv =
     \<lparr>distinct_count = number_field cv ''distinct_count'', null_fraction = number_field cv ''null_fraction'',
      min_value = map_option as_number (json_find cv ''min''), max_value = map_option as_number (json_find cv ''max''),
      col_histogram = histogram_from_json cv\<rparr>"

definition table_stats_from_json :: "json \<Rightarrow> table_stats" where
  "table_stats_from_json doc =
     \<lparr>stats_row_count = number_field doc ''row_count'', stats_page_count = number_field doc ''page_count'',
      stats_columns =
        (case json_find doc ''columns'' of
           Some (JObject kvs) \<Rightarrow> fold (\<lambda>(name, v). AList.update name (column_stats_from_json v)) kvs []
         | _ \<Rightarrow> [])\<rparr>"

definition load_table_stats_from_file :: "string \<Rightarrow> string option \<Rightarrow> table_stats result" where
  "load_table_stats_from_file path file =
     (case file of
        None \<Rightarrow> Inl (RuntimeError (''statistics: could not open file: '' @ path))
      | Some content \<Rightarrow> rbind (parse_json content) (\<lambda>doc. Inr (table_stats_from_json doc)))"

section \<open>A directory\<close>

record dir_entry =
  entry_name :: string
  entry_regular :: bool
  entry_text :: "string option"

type_synonym directory = "dir_entry list option"

text \<open>
  \<^verbatim>\<open>path::stem\<close> and \<^verbatim>\<open>path::extension\<close> of a file name: the extension starts at the last period, unless that is the first character.
\<close>

definition name_parts :: "string \<Rightarrow> string \<times> string" where
  "name_parts name =
     (let ext = rev (takeWhile (\<lambda>c. c \<noteq> CHR ''.'') (rev name));
          stem = rev (tl (dropWhile (\<lambda>c. c \<noteq> CHR ''.'') (rev name)))
      in if CHR ''.'' \<notin> set name \<or> stem = [] \<or> name = ''..'' then (name, []) else (stem, CHR ''.'' # ext))"

definition entry_path :: "string \<Rightarrow> string \<Rightarrow> string" where
  "entry_path dir name = (if dir = [] \<or> last dir = CHR ''/'' then dir @ name else dir @ ''/'' @ name)"

definition is_stats_file :: "dir_entry \<Rightarrow> bool" where
  "is_stats_file e \<longleftrightarrow> entry_regular e \<and> snd (name_parts (entry_name e)) = ''.json''"

definition load_entry :: "string \<Rightarrow> statistics \<Rightarrow> dir_entry \<Rightarrow> statistics result" where
  "load_entry dir cat e =
     rbind (load_table_stats_from_file (entry_path dir (entry_name e)) (entry_text e)) (\<lambda>stats.
       Inr (register_stats (fst (name_parts (entry_name e))) stats cat))"

definition load_catalog_from_directory :: "string \<Rightarrow> directory \<Rightarrow> statistics result" where
  "load_catalog_from_directory dir listing =
     (case listing of
        None \<Rightarrow> Inl (RuntimeError (''statistics: not a directory: '' @ dir))
      | Some es \<Rightarrow> rfold (load_entry dir) [] (filter is_stats_file es))"

definition file_blob :: "string \<Rightarrow> dir_entry \<Rightarrow> string result" where
  "file_blob dir e =
     (case entry_text e of
        None \<Rightarrow> Inl (RuntimeError (''statistics: could not open file: '' @ entry_path dir (entry_name e)))
      | Some content \<Rightarrow> Inr (entry_name e @ [CHR 0x00] @ content @ [CHR 0x00]))"

definition stats_blob :: "string \<Rightarrow> dir_entry list \<Rightarrow> string result" where
  "stats_blob dir es =
     rbind (rmap (file_blob dir) (sort_key entry_name (filter is_stats_file es))) (\<lambda>bs. Inr (concat bs))"

definition fingerprint_stats_directory :: "string \<Rightarrow> directory \<Rightarrow> hash64 result" where
  "fingerprint_stats_directory dir listing =
     (case listing of
        None \<Rightarrow> Inl (RuntimeError (''statistics: not a directory: '' @ dir))
      | Some es \<Rightarrow> rbind (stats_blob dir es) (\<lambda>combined. Inr (fnv1a64 combined)))"

definition compute_versions :: "catalog \<Rightarrow> string \<Rightarrow> directory \<Rightarrow> cache_versions result" where
  "compute_versions cat dir listing =
     rbind (fingerprint_stats_directory dir listing) (\<lambda>v.
       Inr \<lparr>schema_version = compute_schema_version cat, stats_version = v\<rparr>)"

section \<open>File names\<close>

lemma stats_name: "snd (name_parts name) = ''.json'' \<Longrightarrow> name = fst (name_parts name) @ ''.json''"
proof -
  assume json: "snd (name_parts name) = ''.json''"
  let ?P = "\<lambda>c. c \<noteq> CHR ''.''"
  have dot: "CHR ''.'' \<in> set name" and parts: "fst (name_parts name) = rev (tl (dropWhile ?P (rev name)))"
    "snd (name_parts name) = CHR ''.'' # rev (takeWhile ?P (rev name))"
    using json by (auto simp: name_parts_def Let_def split: if_splits)
  obtain r where r: "dropWhile ?P (rev name) = CHR ''.'' # r"
    using dot hd_dropWhile [of ?P "rev name"] by (cases "dropWhile ?P (rev name)") auto
  have "name = rev (takeWhile ?P (rev name) @ dropWhile ?P (rev name))" by simp
  also have "\<dots> = rev r @ CHR ''.'' # rev (takeWhile ?P (rev name))" using r by simp
  finally show ?thesis using parts r json by simp
qed

lemma stems_distinct: "distinct (map entry_name es) \<Longrightarrow> distinct (map (fst \<circ> name_parts \<circ> entry_name) (filter is_stats_file es))"
proof (induction es)
  case (Cons e es)
  have "fst (name_parts (entry_name e)) \<noteq> fst (name_parts (entry_name f))" if "f \<in> set es" "is_stats_file e" "is_stats_file f" for f
  proof -
    have "entry_name e \<noteq> entry_name f" using Cons.prems that(1) by auto
    then show ?thesis using that(2,3) stats_name [of "entry_name e"] stats_name [of "entry_name f"] unfolding is_stats_file_def by metis
  qed
  with Cons show ?case by auto
qed simp

section \<open>The order of a listing\<close>

lemma sort_key_order:
  assumes "mset es = mset fs" "distinct (map entry_name es)"
  shows "sort_key entry_name es = sort_key entry_name fs"
proof -
  let ?es = "sort_key entry_name es" and ?fs = "sort_key entry_name fs"
  have same: "mset ?es = mset ?fs" using assms(1) by simp
  then have "mset (map entry_name ?es) = mset (map entry_name ?fs)" by (metis mset_map)
  then have names: "map entry_name ?es = map entry_name ?fs"
    by (metis properties_for_sort sorted_sort_key)
  have "inj_on entry_name (set ?es \<union> set ?fs)"
    using assms(2) mset_eq_setD [OF same] by (simp add: distinct_map)
  with names show ?thesis using inj_on_map_eq_map by blast
qed

lemma listing_files:
  assumes "mset es = mset fs" "distinct (map entry_name es)"
  shows "sort_key entry_name (filter is_stats_file es) = sort_key entry_name (filter is_stats_file fs)"
  using sort_key_order [of "filter is_stats_file es" "filter is_stats_file fs"] assms by (simp add: distinct_map_filter)

definition loaded_stats :: "string \<Rightarrow> dir_entry \<Rightarrow> table_stats result" where
  "loaded_stats dir e = load_table_stats_from_file (entry_path dir (entry_name e)) (entry_text e)"

abbreviation entry_table :: "dir_entry \<Rightarrow> string" where
  "entry_table e \<equiv> fst (name_parts (entry_name e))"

text \<open>What a catalog loaded from a list of files has for a table.\<close>

lemma load_entries:
  "rfold (load_entry dir) cat es = Inr out \<longleftrightarrow>
    (\<exists>ss. rmap (loaded_stats dir) es = Inr ss \<and> out = fold (\<lambda>(t, s). register_stats t s) (zip (map entry_table es) ss) cat)"
proof (induction es arbitrary: cat)
  case (Cons e es)
  then show ?case
    by (cases "loaded_stats dir e"; cases "rmap (loaded_stats dir) es") (auto simp: load_entry_def loaded_stats_def [symmetric])
qed auto

lemma register_all_get:
  "distinct (map fst kvs) \<Longrightarrow>
   stats_get (fold (\<lambda>(t, s). register_stats t s) kvs cat) t = (case map_of kvs t of Some s \<Rightarrow> Some s | None \<Rightarrow> stats_get cat t)"
proof (induction kvs arbitrary: cat)
  case (Cons kv kvs)
  obtain k s where kv: "kv = (k, s)" by (cases kv)
  have new: "map_of kvs k = None" using Cons.prems kv by (simp add: map_of_eq_None_iff)
  show ?case using Cons new
    by (auto simp: kv stats_get_def register_stats_def update_conv' split: option.split)
qed simp

lemma loaded_get:
  assumes "distinct (map entry_table es)" "rmap (loaded_stats dir) es = Inr ss"
  shows "map_of (zip (map entry_table es) ss) t = Some s \<longleftrightarrow> (\<exists>e \<in> set es. entry_table e = t \<and> loaded_stats dir e = Inr s)"
proof -
  have len: "length ss = length es" and all: "\<forall>i < length es. loaded_stats dir (es ! i) = Inr (ss ! i)"
    using assms(2) by (auto simp: rmap_Inr_iff list_all2_conv_all_nth)
  have "distinct (map fst (zip (map entry_table es) ss))" using assms(1) len by simp
  then have "map_of (zip (map entry_table es) ss) t = Some s \<longleftrightarrow> (t, s) \<in> set (zip (map entry_table es) ss)" by simp
  also have "\<dots> \<longleftrightarrow> (\<exists>i < length es. t = entry_table (es ! i) \<and> s = ss ! i)" using len by (auto simp: set_zip) (metis nth_map)
  also have "\<dots> \<longleftrightarrow> (\<exists>e \<in> set es. entry_table e = t \<and> loaded_stats dir e = Inr s)"
    unfolding Bex_def in_set_conv_nth using all by (metis Inr_inject)
  finally show ?thesis .
qed

lemma rmap_defined: "(\<exists>ys. rmap f xs = Inr ys) \<longleftrightarrow> (\<forall>x \<in> set xs. \<exists>y. f x = Inr y)"
  by (induction xs) auto

lemma load_catalog_spec:
  assumes "distinct (map entry_name es)"
  shows "(\<exists>cat. load_catalog_from_directory dir (Some es) = Inr cat) \<longleftrightarrow>
      (\<forall>e \<in> set es. is_stats_file e \<longrightarrow> (\<exists>s. loaded_stats dir e = Inr s))"
    and "load_catalog_from_directory dir (Some es) = Inr cat \<Longrightarrow>
      stats_get cat t = Some s \<longleftrightarrow> (\<exists>e \<in> set es. is_stats_file e \<and> entry_table e = t \<and> loaded_stats dir e = Inr s)"
proof -
  let ?es = "filter is_stats_file es"
  have tables: "distinct (map entry_table ?es)" using stems_distinct [OF assms] by (simp add: comp_def)
  show "(\<exists>cat. load_catalog_from_directory dir (Some es) = Inr cat) \<longleftrightarrow>
      (\<forall>e \<in> set es. is_stats_file e \<longrightarrow> (\<exists>s. loaded_stats dir e = Inr s))"
    using rmap_defined [of "loaded_stats dir" ?es] by (auto simp: load_catalog_from_directory_def load_entries)
  assume "load_catalog_from_directory dir (Some es) = Inr cat"
  then obtain ss where ss: "rmap (loaded_stats dir) ?es = Inr ss"
    "cat = fold (\<lambda>(t, s). register_stats t s) (zip (map entry_table ?es) ss) []"
    by (auto simp: load_catalog_from_directory_def load_entries)
  have "length ss = length ?es" using ss(1) rmap_length by blast
  then have "distinct (map fst (zip (map entry_table ?es) ss))" using tables by simp
  moreover have "(case x of Some s \<Rightarrow> Some s | None \<Rightarrow> stats_get [] t) = x" for x by (cases x) (simp_all add: stats_get_def)
  ultimately have "stats_get cat t = map_of (zip (map entry_table ?es) ss) t" unfolding ss(2) by (simp only: register_all_get)
  then show "stats_get cat t = Some s \<longleftrightarrow> (\<exists>e \<in> set es. is_stats_file e \<and> entry_table e = t \<and> loaded_stats dir e = Inr s)"
    using loaded_get [OF tables ss(1)] by auto
qed

section \<open>The combined text\<close>

text \<open>The files of a listing that count.\<close>

definition stats_files :: "dir_entry list \<Rightarrow> (string \<times> string option) set" where
  "stats_files es = (\<lambda>e. (entry_name e, entry_text e)) ` {e \<in> set es. is_stats_file e}"

definition no_nul :: "dir_entry \<Rightarrow> bool" where
  "no_nul e \<longleftrightarrow> CHR 0x00 \<notin> set (entry_name e) \<and> (\<forall>s. entry_text e = Some s \<longrightarrow> CHR 0x00 \<notin> set s)"

lemma nul_split: "CHR 0x00 \<notin> set a \<Longrightarrow> CHR 0x00 \<notin> set b \<Longrightarrow> a @ CHR 0x00 # s = b @ CHR 0x00 # t \<longleftrightarrow> a = b \<and> s = t"
proof (induction a arbitrary: b)
  case Nil
  then show ?case by (cases b) auto
next
  case (Cons c a)
  then show ?case by (cases b) auto
qed

lemma blobs_inject:
  assumes "rmap (file_blob dir) es = Inr bs" "rmap (file_blob dir) fs = Inr cs" "concat bs = concat cs" "list_all no_nul es" "list_all no_nul fs"
  shows "map (\<lambda>e. (entry_name e, entry_text e)) es = map (\<lambda>e. (entry_name e, entry_text e)) fs"
  using assms
proof (induction es arbitrary: fs bs cs)
  case Nil
  then show ?case by (cases fs) (auto simp: file_blob_def split: option.splits)
next
  case (Cons e es)
  obtain s bs' where e: "entry_text e = Some s" "rmap (file_blob dir) es = Inr bs'"
      "concat bs = entry_name e @ CHR 0x00 # s @ CHR 0x00 # concat bs'"
    using Cons.prems(1) by (auto simp: file_blob_def [of dir e] split: option.splits)
  then obtain f fs' where fs: "fs = f # fs'" using Cons.prems(2,3) by (cases fs) auto
  obtain t cs' where f: "entry_text f = Some t" "rmap (file_blob dir) fs' = Inr cs'"
      "concat cs = entry_name f @ CHR 0x00 # t @ CHR 0x00 # concat cs'"
    using Cons.prems(2) fs by (auto simp: file_blob_def [of dir f] split: option.splits)
  have "entry_name e = entry_name f \<and> s @ CHR 0x00 # concat bs' = t @ CHR 0x00 # concat cs'"
    using nul_split [of "entry_name e" "entry_name f"] Cons.prems(3-5) e(3) f(3) fs by (simp add: no_nul_def)
  moreover from this have "s = t \<and> concat bs' = concat cs'"
    using nul_split [of s t] Cons.prems(4,5) e(1) f(1) fs by (simp add: no_nul_def)
  ultimately show ?case using Cons.IH [OF e(2) f(2)] Cons.prems(4,5) e(1) f(1) fs by simp
qed

section \<open>Loaded numbers are doubles\<close>

fun numbers_ok :: "json \<Rightarrow> bool" where
  "numbers_ok (JNumber d) = is_double d"
| "numbers_ok (JArray vs) = (\<forall>v \<in> set vs. numbers_ok v)"
| "numbers_ok (JObject kvs) = (\<forall>kv \<in> set kvs. numbers_ok (snd kv))"
| "numbers_ok _ = True"

lemma object_set_numbers: "numbers_ok (JObject kvs) \<Longrightarrow> numbers_ok v \<Longrightarrow> numbers_ok (JObject (object_set k v kvs))"
  by (induction kvs) (auto simp: object_set_def)

lemma atom_numbers: "parse_atom n s = Inr (v, rest) \<Longrightarrow> numbers_ok v"
  by (auto simp: parse_atom_def parse_bool_def parse_null_def parse_number_def Let_def is_double_stod_field split: if_splits prod.splits)

lemma loops_numbers:
  assumes "\<And>s v rest. pv s = Inr (v, rest) \<Longrightarrow> numbers_ok v"
  shows "object_loop pv n k obj s = Inr (v, rest) \<Longrightarrow> numbers_ok (JObject obj) \<Longrightarrow> numbers_ok v"
    and "array_loop pv n k vs s = Inr (v, rest) \<Longrightarrow> numbers_ok (JArray vs) \<Longrightarrow> numbers_ok v"
proof -
  show "object_loop pv n k obj s = Inr (v, rest) \<Longrightarrow> numbers_ok (JObject obj) \<Longrightarrow> numbers_ok v"
  proof (induction k arbitrary: obj s)
    case (Suc k)
    obtain key s1 x s2 where "parse_key n s = Inr (key, s1)" "pv s1 = Inr (x, s2)" using Suc.prems(1) by auto
    moreover from this have "numbers_ok (JObject (object_set key x obj))" using object_set_numbers Suc.prems(2) assms by blast
    ultimately show ?case using Suc.IH Suc.prems(1) by (auto simp: Let_def simp del: numbers_ok.simps split: if_splits)
  qed simp
  show "array_loop pv n k vs s = Inr (v, rest) \<Longrightarrow> numbers_ok (JArray vs) \<Longrightarrow> numbers_ok v"
  proof (induction k arbitrary: vs s)
    case (Suc k)
    obtain x s1 where x: "pv s = Inr (x, s1)" using Suc.prems(1) by auto
    then have "numbers_ok (JArray (vs @ [x]))" using Suc.prems(2) assms by auto
    with x show ?case using Suc.IH Suc.prems(1) by (auto simp: Let_def simp del: numbers_ok.simps split: if_splits)
  qed simp
qed

lemma value_numbers: "parse_value n k s = Inr (v, rest) \<Longrightarrow> numbers_ok v"
proof (induction k arbitrary: s v rest)
  case (Suc k)
  note loops = loops_numbers [of "parse_value n k", OF Suc.IH]
  let ?s = "json_skip s"
  consider "parse_object (parse_value n k) n k ?s = Inr (v, rest)" | "parse_array (parse_value n k) n k ?s = Inr (v, rest)"
    | "parse_atom n ?s = Inr (v, rest)" using Suc.prems by (auto simp: Let_def split: if_splits)
  then show ?case
  proof cases
    case 1
    then obtain s' where "v = JObject [] \<or> object_loop (parse_value n k) n k [] s' = Inr (v, rest)"
      by (auto simp: parse_object_def Let_def split: if_splits)
    then show ?thesis using loops(1) by auto
  next
    case 2
    then obtain s' where "v = JArray [] \<or> array_loop (parse_value n k) n k [] s' = Inr (v, rest)"
      by (auto simp: parse_array_def Let_def split: if_splits)
    then show ?thesis using loops(2) by auto
  next
    case 3
    then show ?thesis by (rule atom_numbers)
  qed
qed simp

lemma number_field_double: "numbers_ok j \<Longrightarrow> is_double (number_field j key)"
proof -
  assume j: "numbers_ok j"
  have "numbers_ok v" if "json_find j key = Some v" for v
    using that j by (cases j) (force dest: map_of_SomeD)+
  moreover have "numbers_ok v \<Longrightarrow> is_double (as_number v)" for v by (cases v) simp_all
  ultimately show ?thesis by (auto simp: number_field_def split: option.split)
qed

lemma loaded_stats_doubles:
  assumes "loaded_stats dir e = Inr s"
  shows "is_double (stats_row_count s) \<and> is_double (stats_page_count s)"
proof -
  obtain content j where "parse_json content = Inr j" and s: "s = table_stats_from_json j"
    using assms by (auto simp: loaded_stats_def load_table_stats_from_file_def split: option.splits)
  then have "numbers_ok j" using value_numbers by (auto simp: parse_json_def simp del: parse_value.simps)
  then show ?thesis using number_field_double by (simp add: s table_stats_from_json_def)
qed

lemma counts_ok_register:
  assumes "counts_ok cat" "is_double (stats_row_count s)" "is_double (stats_page_count s)"
  shows "counts_ok (register_stats t s cat)"
proof -
  have "set (AList.update t s cat) \<subseteq> insert (t, s) (set cat)" by (induction cat) auto
  then show ?thesis using assms unfolding counts_ok_def register_stats_def by auto
qed

text \<open>Whatever the files contain, a catalog that loads has counts the planner can compute with.\<close>

lemma loaded_counts_ok: "load_catalog_from_directory dir listing = Inr cat \<Longrightarrow> counts_ok cat"
proof -
  assume "load_catalog_from_directory dir listing = Inr cat"
  then obtain es where "rfold (load_entry dir) [] es = Inr cat"
    by (auto simp: load_catalog_from_directory_def split: option.splits)
  then show ?thesis
  proof (rule rfold_invariant)
    show "counts_ok []" by (simp add: counts_ok_def)
    show "counts_ok b" if "load_entry dir a e = Inr b" "counts_ok a" for a b e
      using that loaded_stats_doubles [of dir e] counts_ok_register
      by (auto simp: load_entry_def loaded_stats_def)
  qed
qed

section \<open>The documented file format\<close>

text \<open>The shape of a file that \<^verbatim>\<open>statistics_loader.hpp\<close> documents.\<close>

definition bucket_json :: "histogram_bucket \<Rightarrow> json" where
  "bucket_json b =
     JObject [(''lower'', JNumber (bucket_lower b)), (''upper'', JNumber (bucket_upper b)), (''frequency'', JNumber (bucket_frequency b))]"

definition optional :: "string \<Rightarrow> json option \<Rightarrow> (string \<times> json) list" where
  "optional key v = (case v of None \<Rightarrow> [] | Some v \<Rightarrow> [(key, v)])"

definition column_json :: "column_stats \<Rightarrow> json" where
  "column_json c =
     JObject ([(''distinct_count'', JNumber (distinct_count c)), (''null_fraction'', JNumber (null_fraction c))] @
       optional ''min'' (map_option JNumber (min_value c)) @ optional ''max'' (map_option JNumber (max_value c)) @
       optional ''histogram'' (map_option (\<lambda>h. JObject [(''buckets'', JArray (map bucket_json h))]) (col_histogram c)))"

definition table_json :: "table_stats \<Rightarrow> json" where
  "table_json s =
     JObject [(''row_count'', JNumber (stats_row_count s)), (''page_count'', JNumber (stats_page_count s)),
       (''columns'', JObject (map (\<lambda>(name, c). (name, column_json c)) (stats_columns s)))]"

definition column_storable :: "column_stats \<Rightarrow> bool" where
  "column_storable c \<longleftrightarrow>
     storable (distinct_count c) \<and> storable (null_fraction c) \<and> pred_option storable (min_value c) \<and>
     pred_option storable (max_value c) \<and>
     pred_option (list_all (\<lambda>b. storable (bucket_lower b) \<and> storable (bucket_upper b) \<and> storable (bucket_frequency b))) (col_histogram c)"

definition stats_storable :: "table_stats \<Rightarrow> bool" where
  "stats_storable s \<longleftrightarrow>
     storable (stats_row_count s) \<and> storable (stats_page_count s) \<and> distinct (map fst (stats_columns s)) \<and>
     (\<forall>(name, c) \<in> set (stats_columns s). plain name \<and> column_storable c)"

lemma bucket_back: "bucket_from_json (bucket_json b) = b"
  by (simp add: bucket_from_json_def bucket_json_def number_field_def)

lemma column_back: "column_stats_from_json (column_json c) = c"
  by (cases "min_value c"; cases "max_value c"; cases "col_histogram c")
    (simp_all add: column_stats_from_json_def column_json_def number_field_def optional_def histogram_from_json_def bucket_back comp_def)

lemma columns_back:
  "distinct (map fst (acc @ cs)) \<Longrightarrow>
   fold (\<lambda>(name, v). AList.update name (column_stats_from_json v)) (map (\<lambda>(name, c). (name, column_json c)) cs) acc = acc @ cs"
proof (induction cs arbitrary: acc)
  case (Cons nc cs)
  obtain n c where nc: "nc = (n, c)" by (cases nc)
  have "AList.update n c acc = acc @ [(n, c)]" using Cons.prems nc by (induction acc) auto
  with Cons.IH [of "acc @ [nc]"] Cons.prems show ?case by (simp add: nc column_back)
qed simp

lemma column_json_ok: "column_storable c \<Longrightarrow> json_ok (column_json c)"
  by (cases "min_value c"; cases "max_value c"; cases "col_histogram c")
    (auto simp: column_storable_def column_json_def optional_def bucket_json_def list_all_iff plain_def)

lemma table_json_ok: "stats_storable s \<Longrightarrow> json_ok (table_json s)"
proof -
  assume s: "stats_storable s"
  have "map fst (map (\<lambda>(name, c). (name, column_json c)) (stats_columns s)) = map fst (stats_columns s)" by (simp add: split_beta comp_def)
  moreover have "\<forall>(k, v) \<in> set (map (\<lambda>(name, c). (name, column_json c)) (stats_columns s)). plain k \<and> json_ok v"
    using s column_json_ok by (auto simp: stats_storable_def)
  ultimately have "json_ok (JObject (map (\<lambda>(name, c). (name, column_json c)) (stats_columns s)))" using s
    by (simp only: json_ok.simps stats_storable_def)
  moreover have "plain ''row_count''" "plain ''page_count''" "plain ''columns''" by (simp_all add: plain_def)
  ultimately show ?thesis using s by (simp add: table_json_def stats_storable_def del: map_map)
qed

section \<open>Properties\<close>

text \<open>
  C29. The order in which the file system lists a directory does not matter: the fingerprint is the same, and so is what the loaded
  catalog says of every table.
\<close>

theorem stats_listing_order:
  assumes "mset es = mset fs" "distinct (map entry_name es)"
  shows "fingerprint_stats_directory dir (Some es) = fingerprint_stats_directory dir (Some fs) \<and>
    (\<forall>cat. load_catalog_from_directory dir (Some es) = Inr cat \<longrightarrow>
       (\<exists>cat'. load_catalog_from_directory dir (Some fs) = Inr cat' \<and> stats_get cat' = stats_get cat))"
proof (intro conjI allI impI)
  show "fingerprint_stats_directory dir (Some es) = fingerprint_stats_directory dir (Some fs)"
    by (simp add: fingerprint_stats_directory_def stats_blob_def listing_files [OF assms])
  have set: "set es = set fs" using assms(1) by (rule mset_eq_setD)
  have names: "distinct (map entry_name fs)" using assms by (metis mset_eq_imp_distinct_iff mset_map)
  fix cat
  assume cat: "load_catalog_from_directory dir (Some es) = Inr cat"
  then obtain cat' where cat': "load_catalog_from_directory dir (Some fs) = Inr cat'"
    using load_catalog_spec(1) [OF assms(2), of dir] load_catalog_spec(1) [OF names, of dir] set by auto
  have "stats_get cat' t = stats_get cat t" for t
    using load_catalog_spec(2) [OF assms(2) cat, of t] load_catalog_spec(2) [OF names cat', of t] set
    by (metis not_Some_eq)
  with cat' show "\<exists>cat'. load_catalog_from_directory dir (Some fs) = Inr cat' \<and> stats_get cat' = stats_get cat" by blast
qed

text \<open>
  C30. The fingerprint hashes a text that identifies the statistics files: directories whose files differ in a name or in a byte have
  different texts, when neither names nor contents have NUL characters.
\<close>

theorem fingerprint_separates:
  assumes "stats_blob dir es = Inr x" "stats_blob dir fs = Inr y" "list_all no_nul es" "list_all no_nul fs"
    and "stats_files es \<noteq> stats_files fs"
  shows "x \<noteq> y \<and> fingerprint_stats_directory dir (Some es) = Inr (fnv1a64 x) \<and>
    fingerprint_stats_directory dir (Some fs) = Inr (fnv1a64 y)"
proof
  show "fingerprint_stats_directory dir (Some es) = Inr (fnv1a64 x) \<and> fingerprint_stats_directory dir (Some fs) = Inr (fnv1a64 y)"
    using assms(1,2) by (simp add: fingerprint_stats_directory_def)
  let ?es = "sort_key entry_name (filter is_stats_file es)" and ?fs = "sort_key entry_name (filter is_stats_file fs)"
  have nul: "list_all no_nul ?es" "list_all no_nul ?fs" using assms(3,4) by (auto simp: list_all_iff)
  have files: "stats_files es = set (map (\<lambda>e. (entry_name e, entry_text e)) ?es)"
    "stats_files fs = set (map (\<lambda>e. (entry_name e, entry_text e)) ?fs)" by (auto simp: stats_files_def)
  show "x \<noteq> y"
  proof
    assume "x = y"
    then obtain bs cs where bs: "rmap (file_blob dir) ?es = Inr bs" "rmap (file_blob dir) ?fs = Inr cs" "concat bs = concat cs"
      using assms(1,2) by (auto simp: stats_blob_def)
    have "stats_files es = stats_files fs" unfolding files blobs_inject [OF bs nul] ..
    then show False using assms(5) by blast
  qed
qed

text \<open>Statistics in the documented format are loaded as they were written.\<close>

theorem stats_file_roundtrip:
  assumes "stats_storable s"
  shows "load_table_stats_from_file path (Some (to_json (table_json s))) = Inr s"
  using parse_json_written [OF table_json_ok [OF assms]] columns_back [of "[]" "stats_columns s"] assms
  by (simp add: load_table_stats_from_file_def table_stats_from_json_def table_json_def number_field_def stats_storable_def)

section \<open>Witnesses\<close>

definition sample_file_stats :: table_stats where
  "sample_file_stats =
     \<lparr>stats_row_count = Fin False 100, stats_page_count = Fin False 2,
      stats_columns = [(''id'', empty_column_stats\<lparr>distinct_count := Fin False 100, min_value := Some (Fin False 1),
        col_histogram := Some [\<lparr>bucket_lower = Fin False 1, bucket_upper = Fin False 100, bucket_frequency = Fin False 1\<rparr>]\<rparr>)]\<rparr>"

definition stats_entry :: "string \<Rightarrow> string \<Rightarrow> dir_entry" where
  "stats_entry name content = \<lparr>entry_name = name, entry_regular = True, entry_text = Some content\<rparr>"

theorem stats_listing_order_witness:
  "fingerprint_stats_directory ''stats'' (Some [stats_entry ''b.json'' ''{}'', stats_entry ''a.json'' ''[]'', stats_entry ''notes'' ''x'']) =
     fingerprint_stats_directory ''stats'' (Some [stats_entry ''a.json'' ''[]'', stats_entry ''notes'' ''x'', stats_entry ''b.json'' ''{}''])"
  using stats_listing_order [of "[stats_entry ''b.json'' ''{}'', stats_entry ''a.json'' ''[]'', stats_entry ''notes'' ''x'']"
      "[stats_entry ''a.json'' ''[]'', stats_entry ''notes'' ''x'', stats_entry ''b.json'' ''{}'']" "''stats''"]
  by (simp add: stats_entry_def)

theorem fingerprint_separates_witness:
  "\<exists>x y. stats_blob ''stats'' [stats_entry ''a.json'' ''{}''] = Inr x \<and> stats_blob ''stats'' [stats_entry ''b.json'' ''{}''] = Inr y \<and> x \<noteq> y"
proof -
  let ?a = "[stats_entry ''a.json'' ''{}'']" and ?b = "[stats_entry ''b.json'' ''{}'']"
  have "is_stats_file (stats_entry ''a.json'' ''{}'')" "is_stats_file (stats_entry ''b.json'' ''{}'')" by code_simp+
  then have "{e \<in> set ?a. is_stats_file e} = set ?a" "{e \<in> set ?b. is_stats_file e} = set ?b" by auto
  then have "stats_files ?a \<noteq> stats_files ?b" unfolding stats_files_def by (simp add: stats_entry_def)
  moreover have "list_all no_nul ?a" "list_all no_nul ?b" by (simp_all add: no_nul_def stats_entry_def)
  moreover have "stats_blob ''stats'' ?a = Inr (''a.json'' @ [CHR 0x00] @ ''{}'' @ [CHR 0x00])"
    "stats_blob ''stats'' ?b = Inr (''b.json'' @ [CHR 0x00] @ ''{}'' @ [CHR 0x00])" by code_simp+
  ultimately show ?thesis using fingerprint_separates [of "''stats''" ?a _ ?b] by blast
qed

theorem stats_file_roundtrip_witness:
  "load_table_stats_from_file ''a.json'' (Some (to_json (table_json sample_file_stats))) = Inr sample_file_stats"
  by (rule stats_file_roundtrip) code_simp

end
