(* ===== verification/Reports.thy ===== *)
theory Reports
  imports Http Statistics_Loader
begin

text \<open>
  What the programs print and log of a query: the EXPLAIN text (\<^verbatim>\<open>optimizer/explain.cpp\<close>), EXPLAIN ANALYZE
  (\<^verbatim>\<open>execution/query_runner.cpp\<close>), the plan for the browser (\<^verbatim>\<open>web/plan_json.cpp\<close>) and the metrics log
  (\<^verbatim>\<open>metrics/query_metrics.cpp\<close>).  An output stream has its text and the two settings that matter for doubles, which stay as they
  are until they are set again.
\<close>

section \<open>Output streams\<close>

record ostream =
  os_text :: string
  os_precision :: nat
  os_fixed :: bool

definition new_stream :: ostream where
  "new_stream = \<lparr>os_text = [], os_precision = 6, os_fixed = False\<rparr>"

text \<open>A double in fixed notation; the program only asks for a positive number of digits.\<close>

fun show_f :: "nat \<Rightarrow> double \<Rightarrow> string" where
  "show_f p NaN = ''nan''"
| "show_f p (Inf s) = sign_prefix s @ ''inf''"
| "show_f p (Fin s m) =
     (let n = rne (m * 10 ^ p)
      in sign_prefix s @ show_dec (n div 10 ^ p) @ ''.'' @ show_fixed p (n mod 10 ^ p))"

datatype item = Text string | Number double | Fixed nat | Defaultfloat

fun put :: "item \<Rightarrow> ostream \<Rightarrow> ostream" where
  "put (Text s) os = os\<lparr>os_text := os_text os @ s\<rparr>"
| "put (Number d) os =
     os\<lparr>os_text := os_text os @ (if os_fixed os then show_f (os_precision os) d else show_g (os_precision os) d)\<rparr>"
| "put (Fixed p) os = os\<lparr>os_fixed := True, os_precision := p\<rparr>"
| "put Defaultfloat os = os\<lparr>os_fixed := False\<rparr>"

definition emit :: "item list \<Rightarrow> ostream \<Rightarrow> ostream" where
  "emit = fold put"

abbreviation newline :: string where
  "newline \<equiv> [CHR 0x0A]"

definition indent :: "nat \<Rightarrow> string" where
  "indent depth = replicate (depth * 2) CHR '' ''"

section \<open>EXPLAIN\<close>

fun scan_label :: "physical_plan \<Rightarrow> string" where
  "scan_label (SeqScan i t a cs) = ''('' @ t @ '')''"
| "scan_label (IndexScan i t a cs c v) = ''('' @ t @ '')''"
| "scan_label (ExternalRows i t cs n g a) = ''('' @ t @ '')''"
| "scan_label _ = []"

fun info_of :: "physical_plan \<Rightarrow> plan_info" where
  "info_of (SeqScan i t a cs) = i"
| "info_of (IndexScan i t a cs c v) = i"
| "info_of (PFilter i e p) = i"
| "info_of (PJoin k i jt c l r) = i"
| "info_of (HashAggregate i g a p) = i"
| "info_of (PProject i es p) = i"
| "info_of (PSort i ob p) = i"
| "info_of (PLimit i n p) = i"
| "info_of (ExternalRows i t cs n g a) = i"

definition explain_node :: "physical_plan \<Rightarrow> nat \<Rightarrow> item list" where
  "explain_node p depth =
     (let pad = indent depth; i = info_of p; c = est_cost i
      in [Text (pad @ kind_name p @ scan_label p @ newline),
          Text (pad @ ''  estimated rows: '' @ show_nat (est_rows i) @ newline),
          Text (pad @ ''  cost: cpu=''), Number (cpu c), Text '' io='', Number (io c), Text '' memory='', Number (memory c),
          Text '' total='', Number (cost_total c), Text newline] @
         (if reasoning i = [] then []
          else [Text (pad @ ''  source: '' @ reasoning i @ '' (confidence ''), Number (confidence i), Text ('')'' @ newline)]))"

lemma size_plan_child [termination_simp]: "q \<in> set (plan_children p) \<Longrightarrow> size q < size p"
  by (cases p) auto

fun explain_plan :: "physical_plan \<Rightarrow> nat \<Rightarrow> ostream \<Rightarrow> ostream" where
  "explain_plan p depth os =
     fold (\<lambda>q. explain_plan q (Suc depth)) (plan_children p) (emit (explain_node p depth) os)"

declare explain_plan.simps [simp del]

section \<open>EXPLAIN ANALYZE\<close>

text \<open>
  What an executor reports after a run: its name, the rows it produced and its time.  The counters and the clock are not part of the
  operators of the model; a report is an argument of what prints it.
\<close>

datatype report = Report (operator_name: string) (rows_produced: nat) (report_ms: double) (report_children: "report list")

fun timing_of :: "report \<Rightarrow> timing" where
  "timing_of (Report name n ms rs) = Timing ms (map timing_of rs)"

definition node_lines :: "physical_plan \<Rightarrow> report \<Rightarrow> nat \<Rightarrow> item list" where
  "node_lines p r depth =
     [Text (indent depth @ operator_name r @ newline),
      Text (indent depth @ ''  rows:  estimated '' @ show_nat (est_rows (info_of p)) @ ''   actual '' @ show_nat (rows_produced r) @ newline),
      Text (indent depth @ ''  cost:  estimated ''), Number (cost_total (est_cost (info_of p))), Text ''   actual '',
      Fixed 3, Number (report_ms r), Text '' ms'', Defaultfloat, Text newline]"

fun print_node :: "physical_plan \<Rightarrow> report \<Rightarrow> nat \<Rightarrow> ostream \<Rightarrow> ostream" where
  "print_node p r depth os =
     fold (\<lambda>(q, u). print_node q u (Suc depth)) (zip (plan_children p) (report_children r)) (emit (node_lines p r depth) os)"

declare print_node.simps [simp del]

text \<open>\<^verbatim>\<open>explain_analyze\<close> after \<^verbatim>\<open>run_to_completion\<close>, which returned \<^term>\<open>rows\<close>.\<close>

definition explain_analyze :: "physical_plan \<Rightarrow> row list \<Rightarrow> report \<Rightarrow> ostream \<Rightarrow> ostream" where
  "explain_analyze p rows r os =
     print_node p r 0
       (emit [Text (''Executed: '' @ show_nat (length rows) @ '' rows in ''), Fixed 3, Number (report_ms r), Text '' ms'', Defaultfloat,
              Text (newline @ newline)] os)"

section \<open>The plan for the browser\<close>

definition child_reports :: "report option \<Rightarrow> nat \<Rightarrow> report option list" where
  "child_reports r n = (case r of None \<Rightarrow> replicate n None | Some r \<Rightarrow> take n (map Some (report_children r) @ replicate n None))"

lemma length_child_reports [simp]: "length (child_reports r n) = n"
  by (auto simp: child_reports_def split: option.split)

fun plan_table_name :: "physical_plan \<Rightarrow> string" where
  "plan_table_name (SeqScan i t a cs) = t"
| "plan_table_name (IndexScan i t a cs c v) = t"
| "plan_table_name (ExternalRows i t cs n g a) = t"
| "plan_table_name _ = []"

fun plan_to_json_tree :: "physical_plan \<Rightarrow> report option \<Rightarrow> json" where
  "plan_to_json_tree p r =
     JObject ([(''operator'', JString (kind_name p)), (''estimated_rows'', JNumber (double_of_nat (est_rows (info_of p)))),
        (''estimated_cost'', JNumber (cost_total (est_cost (info_of p)))), (''reasoning'', JString (reasoning (info_of p)))] @
       (if plan_table_name p = [] then [] else [(''table'', JString (plan_table_name p))]) @
       (case r of
          None \<Rightarrow> []
        | Some r \<Rightarrow> [(''actual_rows'', JNumber (double_of_nat (rows_produced r))), (''actual_time_ms'', JNumber (report_ms r))]) @
       [(''children'', JArray (map (\<lambda>(q, u). plan_to_json_tree q u) (zip (plan_children p) (child_reports r (length (plan_children p))))))])"

declare plan_to_json_tree.simps [simp del]

section \<open>Metrics\<close>

record query_metrics =
  m_query_id :: nat
  m_sql :: string
  m_parse_ms :: double
  m_cache_lookup_ms :: double
  m_plan_ms :: double
  m_cache_store_ms :: double
  m_cache_hit :: bool
  m_execution_ms :: double
  m_executed :: bool
  m_actual_rows :: nat
  m_estimated_rows :: nat
  m_estimated_cost :: double

definition metrics_json :: "query_metrics \<Rightarrow> json" where
  "metrics_json m =
     JObject [(''query_id'', JNumber (double_of_nat (m_query_id m))), (''sql'', JString (m_sql m)),
       (''parse_ms'', JNumber (m_parse_ms m)), (''cache_lookup_ms'', JNumber (m_cache_lookup_ms m)),
       (''plan_ms'', JNumber (m_plan_ms m)), (''cache_store_ms'', JNumber (m_cache_store_ms m)),
       (''cache_hit'', JBool (m_cache_hit m)), (''execution_ms'', JNumber (m_execution_ms m)), (''executed'', JBool (m_executed m)),
       (''actual_rows'', JNumber (double_of_nat (m_actual_rows m))), (''estimated_rows'', JNumber (double_of_nat (m_estimated_rows m))),
       (''estimated_cost'', JNumber (m_estimated_cost m))]"

definition metrics_to_json :: "query_metrics \<Rightarrow> string" where
  "metrics_to_json m = to_json (metrics_json m)"

text \<open>A log file is the text of the file, \<^term>\<open>None\<close> when it cannot be opened for appending.\<close>

definition append_metrics :: "string \<Rightarrow> string option \<Rightarrow> query_metrics \<Rightarrow> string result" where
  "append_metrics path file m =
     (case file of
        None \<Rightarrow> Inl (RuntimeError (''metrics: could not open file for append: '' @ path))
      | Some content \<Rightarrow> Inr (content @ metrics_to_json m @ newline))"

section \<open>One line per query\<close>

lemma join_with_no_newline: "CHR 0x0A \<notin> set sep \<Longrightarrow> \<forall>x \<in> set xs. CHR 0x0A \<notin> set x \<Longrightarrow> CHR 0x0A \<notin> set (join_with sep xs)"
  by (induction sep xs rule: join_with.induct) auto

lemma escaped_no_newline: "CHR 0x0A \<notin> set (write_escaped_string s)"
proof -
  have hex: "CHR 0x0A \<noteq> hex_digit d" if "d < 16" for d
  proof -
    have "hex_digit d \<in> set ''0123456789abcdef''" using that unfolding hex_digit_def by (intro nth_mem) simp
    then show ?thesis by auto
  qed
  have "CHR 0x0A \<notin> set (escape_char c)" for c using hex by (simp add: escape_char_def)
  then show ?thesis by (simp add: write_escaped_string_def)
qed

lemma show_dec_no_newline: "0 \<le> i \<Longrightarrow> CHR 0x0A \<notin> set (show_dec i)"
  using show_dec_digits [of i] by (force simp: isdigit_def)

lemma show_fixed_no_newline: "CHR 0x0A \<notin> set (show_fixed w n)"
proof (induction w arbitrary: n)
  case (Suc w)
  have "code (digit_char (n mod 10)) \<noteq> code CHR 0x0A" by simp
  then have "digit_char (n mod 10) \<noteq> CHR 0x0A" by metis
  with Suc show ?case by auto
qed simp

lemma strip_frac_no_newline: "CHR 0x0A \<notin> set ds \<Longrightarrow> CHR 0x0A \<notin> set (strip_frac ds)"
  using set_dropWhileD [of "CHR 0x0A" "\<lambda>c. c = CHR ''0''" "rev ds"] by (auto simp: strip_frac_def Let_def)

lemma show_g_no_newline: "CHR 0x0A \<notin> set (show_g P d)"
proof -
  have "CHR 0x0A \<notin> set (show_exp x)" for x using show_dec_no_newline [of "\<bar>x\<bar>"] by (simp add: show_exp_def)
  moreover have "CHR 0x0A \<notin> set (take k (show_fixed w n))" "CHR 0x0A \<notin> set (drop k (show_fixed w n))" for k w n
    using show_fixed_no_newline [of w n] by (auto dest: in_set_takeD in_set_dropD)
  ultimately have "CHR 0x0A \<notin> set (show_g_mag P m)" for m
    using show_fixed_no_newline by (simp add: show_g_mag_def Let_def strip_frac_no_newline)
  then show ?thesis by (cases d) (simp_all add: sign_prefix_def)
qed

lemma write_json_no_newline: "CHR 0x0A \<notin> set (write_json v)"
proof (induction v)
  case (JArray vs)
  then show ?case using join_with_no_newline [of "'',''" "map write_json vs"] by simp
next
  case (JObject kvs)
  have "CHR 0x0A \<notin> set (write_escaped_string k @ '':'' @ write_json v)" if "(k, v) \<in> set kvs" for k v
    using JObject [of "(k, v)" v] that escaped_no_newline by simp
  then show ?case using join_with_no_newline [of "'',''" "map (\<lambda>(k, v). write_escaped_string k @ '':'' @ write_json v) kvs"] by fastforce
qed (simp_all add: show_g_no_newline escaped_no_newline)

lemma getlines_log: "\<forall>l \<in> set ls. CHR 0x0A \<notin> set l \<Longrightarrow> getlines (concat (map (\<lambda>l. l @ newline) ls)) = ls"
proof (induction ls)
  case Nil
  show ?case by (simp add: getlines.simps)
next
  case (Cons l ls)
  then show ?case using getlines_line [of l "concat (map (\<lambda>l. l @ newline) ls)"] by simp
qed

definition metrics_storable :: "query_metrics \<Rightarrow> bool" where
  "metrics_storable m \<longleftrightarrow> json_ok (metrics_json m)"

lemma append_log:
  "rfold (\<lambda>f. append_metrics path (Some f)) pre ms = Inr (pre @ concat (map (\<lambda>m. metrics_to_json m @ newline) ms))"
  by (induction ms arbitrary: pre) (simp_all add: append_metrics_def)

section \<open>The settings of a stream\<close>

lemma emit_settings:
  "list_all (\<lambda>x. case x of Text s \<Rightarrow> True | Number d \<Rightarrow> True | _ \<Rightarrow> False) xs \<Longrightarrow>
   os_precision (emit xs os) = os_precision os \<and> os_fixed (emit xs os) = os_fixed os"
proof (induction xs arbitrary: os)
  case (Cons x xs)
  then show ?case by (cases x) (simp_all add: emit_def)
qed (simp add: emit_def)

definition default3 :: "ostream \<Rightarrow> bool" where
  "default3 os \<longleftrightarrow> os_precision os = 3 \<and> \<not> os_fixed os"

lemma print_node_settings: "default3 (print_node p r depth os)"
proof (induction p r depth os rule: print_node.induct)
  case (1 p r depth os)
  have "default3 (emit (node_lines p r depth) os)" by (simp add: node_lines_def emit_def default3_def)
  moreover have "default3 (fold (\<lambda>(q, u). print_node q u (Suc depth)) qs o')"
    if "default3 o'" "set qs \<subseteq> set (zip (plan_children p) (report_children r))" for qs o'
    using that 1 by (induction qs arbitrary: o') auto
  ultimately show ?case by (subst print_node.simps) blast
qed

section \<open>Properties\<close>


text \<open>
  EXPLAIN ANALYZE leaves the stream with three significant digits, since the precision is never set back: a cost of
  1234 that EXPLAIN prints in full is printed as 1.23e+03 by the EXPLAIN after it.
\<close>

theorem explain_precision_lost:
  "os_precision (explain_analyze p rows r os) = 3 \<and> \<not> os_fixed (explain_analyze p rows r os) \<and>
   os_text (put (Number (Fin False 1234)) new_stream) = ''1234'' \<and>
   os_text (put (Number (Fin False 1234)) (explain_analyze p rows r os)) = os_text (explain_analyze p rows r os) @ ''1.23e+03''"
proof -
  have "default3 (explain_analyze p rows r os)" by (simp add: explain_analyze_def print_node_settings)
  moreover have "show_g 6 (Fin False 1234) = ''1234''" "show_g 3 (Fin False 1234) = ''1.23e+03''" by code_simp+
  ultimately show ?thesis by (simp add: default3_def new_stream_def)
qed

definition sample_metrics :: query_metrics where
  "sample_metrics =
     \<lparr>m_query_id = 1, m_sql = ''SELECT * FROM a'', m_parse_ms = Fin False 2, m_cache_lookup_ms = dzero, m_plan_ms = Fin False 3,
      m_cache_store_ms = dzero, m_cache_hit = False, m_execution_ms = dzero, m_executed = False, m_actual_rows = 0,
      m_estimated_rows = 5, m_estimated_cost = Fin False 7\<rparr>"


end
