(* ===== verification/Cli.thy ===== *)
theory Cli
  imports Reports
begin

text \<open>
  The interactive program (\<^verbatim>\<open>cmd/cli/main.cpp\<close>) as a state machine.  What happens outside while a line runs is part of the input: the
  network, the measured times, the report of the executor, and whether the two log files can be written.
\<close>

section \<open>State\<close>

record cli_env =
  env_catalog :: catalog
  env_database :: database
  env_runtime :: runtime
  env_log2 :: "double \<Rightarrow> double"
  env_set_order :: "string set \<Rightarrow> string list"
  env_index_order :: "nat list \<Rightarrow> nat list"
  env_what :: "error \<Rightarrow> string"
  env_data_dir :: string
  env_metrics_log :: string
  env_calibration_log :: string

record cli_input =
  in_line :: string
  in_network :: network
  in_parse_ms :: double
  in_lookup_ms :: double
  in_plan_ms :: double
  in_store_ms :: double
  in_report :: report
  in_log_writable :: bool
  in_calibration_writable :: bool

record cli_state =
  cli_stats :: statistics
  cli_versions :: cache_versions
  stats_epoch :: nat
  next_query_id :: nat
  cli_calibration :: calibration
  cli_cache :: cache_client
  cli_out :: ostream
  metrics_log :: string
  calibration_log :: "string option"

definition say :: "item list \<Rightarrow> cli_state \<Rightarrow> cli_state" where
  "say xs s = s\<lparr>cli_out := emit xs (cli_out s)\<rparr>"

section \<open>Lines\<close>

definition is_blank :: "char \<Rightarrow> bool" where
  "is_blank c \<longleftrightarrow> c = CHR '' '' \<or> c = CHR 0x09 \<or> c = CHR 0x0D \<or> c = CHR 0x0A"

definition trim :: "string \<Rightarrow> string" where
  "trim s = rev (dropWhile is_blank (rev (dropWhile is_blank s)))"

definition starts_with_ci :: "string \<Rightarrow> string \<Rightarrow> bool" where
  "starts_with_ci s pre \<longleftrightarrow> length pre \<le> length s \<and> to_upper (take (length pre) s) = pre"

definition drop_semicolons :: "string \<Rightarrow> string" where
  "drop_semicolons s = rev (dropWhile (\<lambda>c. c = CHR '';'') (rev s))"

section \<open>Commands that only print\<close>

definition help_text :: string where
  "help_text = concat (map (\<lambda>l. l @ newline)
     [''Commands:'',
      ''  <sql statement>       plan (using the cache), execute against data/, print the result rows'',
      ''  EXPLAIN <sql>         print the full annotated physical plan, without executing'',
      ''  EXPLAIN ANALYZE <sql> execute and print estimated vs. actual rows/time per operator'',
      ''  ANALYZE               regenerate statistics by scanning data/ instead of stats/*.json'',
      ''  SHOW STATS            print loaded schema + statistics'',
      ''  SHOW CACHE            print plan cache INFO'',
      ''  SHOW CALIBRATION      print the learned cost-unit -> ms correction per operator kind'',
      ''  SHOW WORKERS          not applicable -- single-node only'',
      ''  HELP                  this message'',
      ''  EXIT / QUIT           leave the REPL'',
      ''Every planned/executed query'' @ [CHR 0x27] @ ''s timing is logged to metrics/query_log.jsonl.''])"

definition stats_lines :: "catalog \<Rightarrow> statistics \<Rightarrow> string \<Rightarrow> string result" where
  "stats_lines cat stats name =
     (case catalog_get cat name of
        None \<Rightarrow> Inl (UndefinedBehaviour ''null pointer'')
      | Some sch \<Rightarrow>
          rbind (case stats_get stats name of
                   Some ts \<Rightarrow> rbind (int64_of_double (stats_row_count ts)) (\<lambda>n. Inr (show_int n))
                 | None \<Rightarrow> Inr ''(no statistics loaded for this table)'') (\<lambda>count.
            Inr (name @ newline @ ''  columns: '' @ join_with '', '' (map col_name (schema_columns sch)) @ newline @
              (if indexed_columns sch = [] then [] else ''  indexed: '' @ join_with '', '' (indexed_columns sch) @ newline) @
              ''  row_count: '' @ count @ newline)))"

definition show_stats :: "cli_env \<Rightarrow> cli_state \<Rightarrow> cli_state result" where
  "show_stats env s =
     rbind (rmap (stats_lines (env_catalog env) (cli_stats s)) (table_names (env_catalog env))) (\<lambda>ls.
       Inr (say [Text (concat ls)] s))"

definition show_cache :: "cli_input \<Rightarrow> cli_state \<Rightarrow> cli_state" where
  "show_cache inp s =
     (if \<not> fd_open (cli_cache s) then say [Text (''Cache not connected.'' @ newline)] s
      else let (r, c) = send_command (in_network inp) (cli_cache s) [''INFO'']; s = s\<lparr>cli_cache := c\<rparr>
        in case r of
             Some (RBulk b) \<Rightarrow> say [Text (b @ newline)] s
           | _ \<Rightarrow> say [Text (''Cache did not respond to INFO as expected.'' @ newline)] s)"

definition fit_line :: "string \<times> fit \<Rightarrow> item list" where
  "fit_line = (\<lambda>(kind, f).
     [Text (kind @ '': '' @ show_nat (fit_n f) @ '' sample(s)'')] @
     (if 3 \<le> fit_n f
      then [Fixed 4, Text '', ms ~= '', Number (fit_scale f), Text '' * cost + '', Number (fit_bias f), Defaultfloat]
      else [Text '' (need 3+ to fit a line -- using raw cost units for now)'']) @
     [Text newline])"

definition show_calibration :: "cli_state \<Rightarrow> cli_state" where
  "show_calibration s =
     (if cli_calibration s = []
      then say [Text (''No calibration data yet -- run EXPLAIN ANALYZE a few times first.'' @ newline)] s
      else say (concat (map fit_line (cli_calibration s))) s)"

section \<open>Queries\<close>

text \<open>
  A query command returns the exception that ends it, if any, with the state it leaves: what was printed and sent before the
  exception stays.
\<close>

fun plan_struct_info :: "plan_struct \<Rightarrow> plan_info" where
  "plan_struct_info (PlanStruct k i t a cs ic ip pr inp jt cond l r g ags es ob n) = i"

definition cli_plan :: "cli_env \<Rightarrow> cli_input \<Rightarrow> cli_state \<Rightarrow> string \<Rightarrow> (cached_plan_result \<times> cache_client) result" where
  "cli_plan env inp s sql =
     plan_with_cache (env_log2 env) (env_set_order env) (env_index_order env)
       \<lparr>pc_schemas = env_catalog env, pc_stats = cli_stats s\<rparr> (in_network inp) (cli_cache s) (cli_versions s) 300 sql"

text \<open>The connection after an exception of the planner, which comes after the look-up.\<close>

definition client_after_failure :: "cli_input \<Rightarrow> cli_state \<Rightarrow> string \<Rightarrow> cache_client" where
  "client_after_failure inp s sql =
     (case parse_sql sql of
        Inl e \<Rightarrow> cli_cache s
      | Inr st \<Rightarrow> snd (cache_get (in_network inp) (cli_cache s) (build_cache_key st (cli_versions s))))"

definition metrics_from_plan :: "cli_input \<Rightarrow> nat \<Rightarrow> string \<Rightarrow> cached_plan_result \<Rightarrow> query_metrics" where
  "metrics_from_plan inp qid sql r =
     \<lparr>m_query_id = qid, m_sql = sql, m_parse_ms = in_parse_ms inp, m_cache_lookup_ms = in_lookup_ms inp,
      m_plan_ms = (if cache_hit r then dzero else in_plan_ms inp), m_cache_store_ms = (if cache_hit r then dzero else in_store_ms inp),
      m_cache_hit = cache_hit r, m_execution_ms = dzero, m_executed = False, m_actual_rows = 0,
      m_estimated_rows = est_rows (plan_struct_info (result_plan r)), m_estimated_cost = cost_total (est_cost (plan_struct_info (result_plan r)))\<rparr>"

definition print_and_log_metrics :: "cli_env \<Rightarrow> cli_input \<Rightarrow> query_metrics \<Rightarrow> cli_state \<Rightarrow> cli_state" where
  "print_and_log_metrics env inp m s =
     (let s = say ([Text (''  [Query #'' @ show_nat (m_query_id m) @ ''] parse ''), Fixed 3, Number (m_parse_ms m), Text '' ms, cache lookup '',
                    Number (m_cache_lookup_ms m), Text '' ms''] @
                   (if m_cache_hit m then []
                    else [Text '', plan '', Number (m_plan_ms m), Text '' ms, cache store '', Number (m_cache_store_ms m), Text '' ms'']) @
                   (if m_executed m then [Text '', execution '', Number (m_execution_ms m), Text '' ms''] else []) @
                   [Defaultfloat, Text newline]) s
      in case append_metrics (env_metrics_log env) (if in_log_writable inp then Some (metrics_log s) else None) m of
           Inr file \<Rightarrow> s\<lparr>metrics_log := file\<rparr>
         | Inl e \<Rightarrow> say [Text (''  (warning: could not log metrics: '' @ env_what env e @ '')'' @ newline)] s)"

definition table_row :: "string list \<Rightarrow> string" where
  "table_row xs = join_with '' | '' xs @ newline"

definition result_table :: "row_schema \<Rightarrow> row list \<Rightarrow> string" where
  "result_table sch rows = table_row (column_names sch) @ concat (map (\<lambda>r. table_row (map literal_to_string r)) rows)"

definition cli_execute :: "cli_env \<Rightarrow> plan_struct \<Rightarrow> (physical_plan \<times> row_schema \<times> row list) result" where
  "cli_execute env ps =
     rbind (plan_of_struct ps) (\<lambda>p.
     rbind (build_executor p (env_database env) Map.empty) (\<lambda>x.
     rbind (run_result (env_runtime env) x) (\<lambda>rows. Inr (p, exec_schema x, rows))))"

definition plan_cache_line :: "cached_plan_result \<Rightarrow> string" where
  "plan_cache_line r = ''Plan cache: '' @ (if cache_hit r then ''HIT'' else ''MISS'')"

definition executed_metrics :: "cli_input \<Rightarrow> row list \<Rightarrow> query_metrics \<Rightarrow> query_metrics" where
  "executed_metrics inp rows m = m\<lparr>m_executed := True, m_execution_ms := report_ms (in_report inp), m_actual_rows := length rows\<rparr>"

definition run_bare_query :: "cli_env \<Rightarrow> cli_input \<Rightarrow> nat \<Rightarrow> string \<Rightarrow> cli_state \<Rightarrow> error option \<times> cli_state" where
  "run_bare_query env inp qid sql s =
     (case cli_plan env inp s sql of
        Inl e \<Rightarrow> (Some e, s\<lparr>cli_cache := client_after_failure inp s sql\<rparr>)
      | Inr (r, c) \<Rightarrow>
          let s = say [Text (plan_cache_line r @ newline)] (s\<lparr>cli_cache := c\<rparr>); i = plan_struct_info (result_plan r)
          in case cli_execute env (result_plan r) of
               Inl e \<Rightarrow> (Some e, s)
             | Inr (p, sch, rows) \<Rightarrow>
                 (None, print_and_log_metrics env inp (executed_metrics inp rows (metrics_from_plan inp qid sql r))
                   (say [Text (result_table sch rows), Text (''('' @ show_nat (length rows) @ '' rows, ''), Fixed 3, Number (report_ms (in_report inp)),
                         Text ('' ms, plan estimated '' @ show_nat (est_rows i) @ '' rows, cost ''), Number (cost_total (est_cost i)), Text '')'',
                         Defaultfloat, Text newline] s)))"

definition run_explain :: "cli_env \<Rightarrow> cli_input \<Rightarrow> nat \<Rightarrow> string \<Rightarrow> cli_state \<Rightarrow> error option \<times> cli_state" where
  "run_explain env inp qid sql s =
     (case cli_plan env inp s sql of
        Inl e \<Rightarrow> (Some e, s\<lparr>cli_cache := client_after_failure inp s sql\<rparr>)
      | Inr (r, c) \<Rightarrow>
          let s = say [Text (plan_cache_line r @ newline @ newline)] (s\<lparr>cli_cache := c\<rparr>)
          in case plan_of_struct (result_plan r) of
               Inl e \<Rightarrow> (Some e, s)
             | Inr p \<Rightarrow>
                 (None, print_and_log_metrics env inp (metrics_from_plan inp qid sql r) (s\<lparr>cli_out := explain_plan p 0 (cli_out s)\<rparr>)))"

definition run_explain_analyze :: "cli_env \<Rightarrow> cli_input \<Rightarrow> nat \<Rightarrow> string \<Rightarrow> cli_state \<Rightarrow> error option \<times> cli_state" where
  "run_explain_analyze env inp qid sql s =
     (case cli_plan env inp s sql of
        Inl e \<Rightarrow> (Some e, s\<lparr>cli_cache := client_after_failure inp s sql\<rparr>)
      | Inr (r, c) \<Rightarrow>
          let s = say [Text (plan_cache_line r @ newline @ newline)] (s\<lparr>cli_cache := c\<rparr>)
          in case cli_execute env (result_plan r) of
               Inl e \<Rightarrow> (Some e, s)
             | Inr (p, sch, rows) \<Rightarrow>
                 let s = s\<lparr>cli_out := explain_analyze p rows (in_report inp) (cli_out s),
                           cli_calibration := record_plan_observations p (timing_of (in_report inp)) (cli_calibration s)\<rparr>;
                     s = (if in_calibration_writable inp then s\<lparr>calibration_log := Some (save_calibration (cli_calibration s))\<rparr>
                          else say [Text (''  (warning: could not save calibration: '' @
                            env_what env (RuntimeError (''adaptive: could not open calibration state file for write: '' @ env_calibration_log env)) @
                            '')'' @ newline)] s)
                 in (None, print_and_log_metrics env inp (executed_metrics inp rows (metrics_from_plan inp qid sql r)) s))"

section \<open>ANALYZE\<close>

definition epoch_version :: "nat \<Rightarrow> hash64" where
  "epoch_version n = fnv1a64 (''cli-analyze-epoch:'' @ show_nat n)"

definition analyzed_line :: "statistics \<Rightarrow> string \<Rightarrow> string result" where
  "analyzed_line stats name =
     (case stats_get stats name of
        None \<Rightarrow> Inr (''  '' @ name @ '': no data loaded, statistics unchanged'' @ newline)
      | Some ts \<Rightarrow> rbind (int64_of_double (stats_row_count ts)) (\<lambda>n. Inr (''  '' @ name @ '': '' @ show_int n @ '' rows'' @ newline)))"

definition run_analyze :: "cli_env \<Rightarrow> cli_state \<Rightarrow> error option \<times> cli_state" where
  "run_analyze env s =
     (case analyze_database (env_database env) (env_catalog env) of
        Inl e \<Rightarrow> (Some e, s)
      | Inr stats \<Rightarrow>
          let epoch = (stats_epoch s + 1) mod 2 ^ 64;
              s = say [Text (''Statistics regenerated from '' @ env_data_dir env @ '':'' @ newline)]
                    (s\<lparr>cli_stats := stats, stats_epoch := epoch, cli_versions := (cli_versions s)\<lparr>stats_version := epoch_version epoch\<rparr>\<rparr>)
          in case rmap (analyzed_line stats) (table_names (env_catalog env)) of
               Inl e \<Rightarrow> (Some e, s)
             | Inr ls \<Rightarrow> (None, say [Text (concat ls)] s))"

section \<open>The loop\<close>

text \<open>A command inside its \<^verbatim>\<open>try\<close>: the program goes on after an exception, and not after undefined behaviour.\<close>

definition guarded :: "cli_env \<Rightarrow> error option \<times> cli_state \<Rightarrow> (bool \<times> cli_state) result" where
  "guarded env out =
     (case out of
        (None, s) \<Rightarrow> Inr (True, s)
      | (Some e, s) \<Rightarrow> if is_exception e then Inr (True, say [Text (''Error: '' @ env_what env e @ newline)] s) else Inl e)"

definition next_id :: "cli_state \<Rightarrow> cli_state" where
  "next_id s = s\<lparr>next_query_id := (next_query_id s + 1) mod 2 ^ 64\<rparr>"

definition command_of :: "string \<Rightarrow> string" where
  "command_of line = trim (drop_semicolons (trim line))"

definition not_applicable :: string where
  "not_applicable = ''Not applicable -- this build is single-node only (no distributed execution yet).'' @ newline"

datatype command =
    Blank | Quit | Help | Show_Stats | Show_Cache | Show_Calibration | Show_Workers | Analyze
  | Usage string | Explain_Analyze string | Explain string | Query string

text \<open>The conditions of the loop in their order.\<close>

definition read_command :: "string \<Rightarrow> command" where
  "read_command line =
     (let cmd = command_of line; upper = to_upper cmd
      in if cmd = [] then Blank
         else if upper = ''EXIT'' \<or> upper = ''QUIT'' then Quit
         else if upper = ''HELP'' then Help
         else if upper = ''SHOW STATS'' then Show_Stats
         else if upper = ''SHOW CACHE'' then Show_Cache
         else if upper = ''SHOW CALIBRATION'' then Show_Calibration
         else if upper = ''SHOW WORKERS'' then Show_Workers
         else if upper = ''ANALYZE'' then Analyze
         else if starts_with_ci cmd ''EXPLAIN ANALYZE'' then
           (let sql = trim (drop 15 cmd) in if sql = [] then Usage ''EXPLAIN ANALYZE'' else Explain_Analyze sql)
         else if starts_with_ci cmd ''EXPLAIN'' then
           (let sql = trim (drop 7 cmd) in if sql = [] then Usage ''EXPLAIN'' else Explain sql)
         else Query cmd)"

definition cli_line :: "cli_env \<Rightarrow> cli_input \<Rightarrow> cli_state \<Rightarrow> (bool \<times> cli_state) result" where
  "cli_line env inp s =
     (case read_command (in_line inp) of
        Blank \<Rightarrow> Inr (True, s)
      | Quit \<Rightarrow> Inr (False, s)
      | Help \<Rightarrow> Inr (True, say [Text help_text] s)
      | Show_Stats \<Rightarrow> rbind (show_stats env s) (\<lambda>s. Inr (True, s))
      | Show_Cache \<Rightarrow> Inr (True, show_cache inp s)
      | Show_Calibration \<Rightarrow> Inr (True, show_calibration s)
      | Show_Workers \<Rightarrow> Inr (True, say [Text not_applicable] s)
      | Analyze \<Rightarrow> guarded env (run_analyze env s)
      | Usage cmd \<Rightarrow> Inr (True, say [Text (''Usage: '' @ cmd @ '' <sql statement>'' @ newline)] s)
      | Explain_Analyze sql \<Rightarrow> guarded env (run_explain_analyze env inp (next_query_id s) sql (next_id s))
      | Explain sql \<Rightarrow> guarded env (run_explain env inp (next_query_id s) sql (next_id s))
      | Query sql \<Rightarrow> guarded env (run_bare_query env inp (next_query_id s) sql (next_id s)))"

text \<open>The prompt, the line and the next round; the end of the input ends the loop.\<close>

fun cli_loop :: "cli_env \<Rightarrow> cli_input list \<Rightarrow> cli_state \<Rightarrow> cli_state result" where
  "cli_loop env inps s =
     (let s = say [Text ''sql> ''] s
      in case inps of
           [] \<Rightarrow> Inr (say [Text (newline @ ''Goodbye.'' @ newline)] s)
         | inp # inps \<Rightarrow>
             rbind (cli_line env inp s) (\<lambda>(go, s).
               if go then cli_loop env inps s else Inr (say [Text (newline @ ''Goodbye.'' @ newline)] s)))"

section \<open>Start\<close>

definition cache_port :: "string \<Rightarrow> int result" where
  "cache_port addr =
     (if CHR '':'' \<in> set addr then stoi (tl (dropWhile (\<lambda>c. c \<noteq> CHR '':'') addr)) else Inr 6380)"

definition cli_start ::
  "cli_env \<Rightarrow> string \<Rightarrow> directory \<Rightarrow> (string \<Rightarrow> string option) \<Rightarrow> string option \<Rightarrow> string \<Rightarrow> string \<Rightarrow> bool \<Rightarrow>
   (cli_env \<times> cli_state) result"
where
  "cli_start env stats_dir listing files calibration_file metrics_file addr up =
     (let (stats, warning) =
            (case load_catalog_from_directory stats_dir listing of
               Inr stats \<Rightarrow> (stats, [])
             | Inl e \<Rightarrow> ([], [Text (''Warning: failed to load statistics: '' @ env_what env e @ newline)]))
      in rbind (compute_versions (env_catalog env) stats_dir listing) (\<lambda>versions.
         rbind (load_database_from_directory files (env_data_dir env) (env_catalog env)) (\<lambda>database.
         rbind (load_calibration calibration_file) (\<lambda>calibration.
         rbind (cache_port addr) (\<lambda>port.
           Inr (env\<lparr>env_database := database\<rparr>,
                \<lparr>cli_stats = stats, cli_versions = versions, stats_epoch = 0, next_query_id = 1, cli_calibration = calibration,
                 cli_cache = \<lparr>fd_open = up\<rparr>,
                 cli_out = emit (warning @ [Text (''SQL Query Optimizer -- interactive CLI'' @ newline),
                   Text (''Cache: '' @ (if up then ''connected at '' @ addr else ''unavailable at '' @ addr @ '' (running standalone)'') @ newline),
                   Text (''Type HELP for commands.'' @ newline @ newline)]) new_stream,
                 metrics_log = metrics_file, calibration_log = calibration_file\<rparr>))))))"

section \<open>Sessions\<close>

text \<open>
  The cache server as a session sees it: it answers a look-up only with a value that was stored under the key, and it may
  forget values or fail at any time.
\<close>

type_synonym store = "string \<rightharpoonup> string"

definition honest :: "network \<Rightarrow> store \<Rightarrow> bool" where
  "honest net st \<longleftrightarrow> (\<forall>c key v c'. cache_get net c key = (Some v, c') \<longrightarrow> st key = Some v)"

text \<open>The SQL text that a line plans.\<close>

fun planned_sql :: "command \<Rightarrow> string option" where
  "planned_sql (Explain_Analyze sql) = Some sql"
| "planned_sql (Explain sql) = Some sql"
| "planned_sql (Query sql) = Some sql"
| "planned_sql _ = None"

definition line_sql :: "string \<Rightarrow> string option" where
  "line_sql line = planned_sql (read_command line)"

text \<open>What the server may hold after a line: a miss stores the plan that it computed.\<close>

definition stored :: "cli_env \<Rightarrow> cli_input \<Rightarrow> cli_state \<Rightarrow> store \<Rightarrow> store" where
  "stored env inp s st =
     (case line_sql (in_line inp) of
        None \<Rightarrow> st
      | Some sql \<Rightarrow>
          (case (parse_sql sql, cli_plan env inp s sql) of
             (Inr stmt, Inr (r, c)) \<Rightarrow>
               if cache_hit r then st else st(build_cache_key stmt (cli_versions s) \<mapsto> serialize_plan (result_plan r))
           | _ \<Rightarrow> st))"

text \<open>
  The states that a session reaches after a number of lines, with the statistics it has had under each version and what the server may
  hold; \<^term>\<open>S\<close> has the statements asked.
\<close>

inductive session ::
  "cli_env \<Rightarrow> statement set \<Rightarrow> cli_state \<Rightarrow> nat \<Rightarrow> (hash64 \<times> statistics) set \<Rightarrow> store \<Rightarrow> cli_state \<Rightarrow> bool"
  for env :: cli_env and S :: "statement set" and s0 :: cli_state
where
  opened: "stats_epoch s0 = 0 \<Longrightarrow> session env S s0 0 {(stats_version (cli_versions s0), cli_stats s0)} Map.empty s0"
| line: "session env S s0 n h st s \<Longrightarrow> honest (in_network inp) st \<Longrightarrow>
    (\<And>sql stmt. line_sql (in_line inp) = Some sql \<Longrightarrow> parse_sql sql = Inr stmt \<Longrightarrow> stmt \<in> S) \<Longrightarrow>
    cli_line env inp (say [Text ''sql> ''] s) = Inr (go, s') \<Longrightarrow>
    session env S s0 (Suc n) (insert (stats_version (cli_versions s'), cli_stats s') h) (stored env inp s st) s'"

abbreviation computed :: "cli_env \<Rightarrow> statistics \<Rightarrow> statement \<Rightarrow> physical_plan result" where
  "computed env stats stmt \<equiv>
     compute_plan (env_log2 env) (env_set_order env) (env_index_order env) \<lparr>pc_schemas = env_catalog env, pc_stats = stats\<rparr> stmt"

text \<open>Every stored text is a plan that the session computed for the statement, with the statistics of the version, of its key.\<close>

definition entry_ok :: "cli_env \<Rightarrow> statement set \<Rightarrow> hash64 \<Rightarrow> (hash64 \<times> statistics) set \<Rightarrow> string \<Rightarrow> string \<Rightarrow> bool" where
  "entry_ok env S sv h key v \<longleftrightarrow>
     (\<exists>stmt ver stats p. stmt \<in> S \<and> (ver, stats) \<in> h \<and> key = build_cache_key stmt \<lparr>schema_version = sv, stats_version = ver\<rparr> \<and>
        computed env stats stmt = Inr p \<and> v = serialize_plan (struct_of_plan p))"

definition coherent :: "cli_env \<Rightarrow> statement set \<Rightarrow> hash64 \<Rightarrow> (hash64 \<times> statistics) set \<Rightarrow> store \<Rightarrow> bool" where
  "coherent env S sv h st \<longleftrightarrow> (\<forall>key v. st key = Some v \<longrightarrow> entry_ok env S sv h key v)"

section \<open>What a line leaves alone\<close>

definition same_versions :: "cli_state \<Rightarrow> cli_state \<Rightarrow> bool" where
  "same_versions s s' \<longleftrightarrow> cli_versions s' = cli_versions s \<and> cli_stats s' = cli_stats s \<and> stats_epoch s' = stats_epoch s"

named_theorems keeps_versions

lemma same_refl [keeps_versions]: "same_versions s s"
  by (simp add: same_versions_def)

lemma same_say [keeps_versions]: "same_versions s s' \<Longrightarrow> same_versions s (say xs s')"
  by (simp add: same_versions_def say_def)

lemma same_next [keeps_versions]: "same_versions (next_id s) s' = same_versions s s'"
  by (simp add: same_versions_def next_id_def)

lemma same_fields [keeps_versions]:
  "same_versions s (s'\<lparr>cli_cache := c\<rparr>) = same_versions s s'" "same_versions s (s'\<lparr>metrics_log := l\<rparr>) = same_versions s s'"
  "same_versions s (s'\<lparr>cli_out := out\<rparr>) = same_versions s s'" "same_versions s (s'\<lparr>cli_calibration := m\<rparr>) = same_versions s s'"
  "same_versions s (s'\<lparr>calibration_log := k\<rparr>) = same_versions s s'"
  by (simp_all add: same_versions_def)

lemma same_metrics [keeps_versions]: "same_versions s s' \<Longrightarrow> same_versions s (print_and_log_metrics env inp m s')"
  by (simp add: print_and_log_metrics_def Let_def keeps_versions split: sum.split)

lemma same_queries [keeps_versions]:
  "same_versions s (snd (run_bare_query env inp qid sql s))"
  "same_versions s (snd (run_explain env inp qid sql s))"
  "same_versions s (snd (run_explain_analyze env inp qid sql s))"
  by (simp_all add: run_bare_query_def run_explain_def run_explain_analyze_def Let_def keeps_versions split: sum.split prod.split)

lemma same_guarded: "guarded env out = Inr (go, s') \<Longrightarrow> same_versions s (snd out) \<Longrightarrow> same_versions s s'"
  by (auto simp: guarded_def keeps_versions split: prod.splits option.splits if_splits)

lemma same_shows [keeps_versions]:
  "show_stats env s = Inr s' \<Longrightarrow> same_versions s s'" "same_versions s (show_cache inp s)" "same_versions s (show_calibration s)"
  by (auto simp: show_stats_def show_cache_def show_calibration_def Let_def keeps_versions split: prod.split option.split reply.split)

lemma line_versions:
  assumes "cli_line env inp s = Inr (go, s')"
  shows "same_versions s s' \<or> guarded env (run_analyze env s) = Inr (go, s')"
proof -
  have query: "guarded env out = Inr (go, s') \<Longrightarrow> same_versions (next_id s) (snd out) \<Longrightarrow> same_versions s s'" for out
    using same_guarded [of env out go s' "next_id s"] by (simp add: same_next)
  show ?thesis
    using assms query [OF _ same_queries(1)] query [OF _ same_queries(2)] query [OF _ same_queries(3)]
    by (cases "read_command (in_line inp)") (auto simp: cli_line_def keeps_versions)
qed

definition analyzed_state :: "cli_env \<Rightarrow> cli_state \<Rightarrow> cli_state \<Rightarrow> bool" where
  "analyzed_state env s s' \<longleftrightarrow>
     analyze_database (env_database env) (env_catalog env) = Inr (cli_stats s') \<and> stats_epoch s' \<le> Suc (stats_epoch s) \<and>
     cli_versions s' = \<lparr>schema_version = schema_version (cli_versions s), stats_version = epoch_version (stats_epoch s')\<rparr>"

lemma guarded_analyze: "guarded env (run_analyze env s) = Inr (go, s') \<Longrightarrow> same_versions s s' \<or> analyzed_state env s s'"
  by (cases "cli_versions s")
    (auto simp: guarded_def run_analyze_def Let_def say_def same_versions_def analyzed_state_def split: sum.splits prod.splits option.splits if_splits)

lemma line_outcome: "cli_line env inp (say xs s) = Inr (go, s') \<Longrightarrow> same_versions s s' \<or> analyzed_state env s s'"
  using line_versions [of env inp "say xs s" go s'] guarded_analyze [of env "say xs s" go s']
  by (auto simp: same_versions_def analyzed_state_def say_def)

lemma outcome_schema: "same_versions s s' \<or> analyzed_state env s s' \<Longrightarrow> schema_version (cli_versions s') = schema_version (cli_versions s)"
  by (auto simp: same_versions_def analyzed_state_def)

section \<open>The store stays coherent\<close>

lemma plan_with_cache_cases:
  assumes "plan_with_cache lg iter iter' ctx net c v ttl sql = Inr (r, c')"
  obtains (hit) st cached where "parse_sql sql = Inr st" "fst (cache_get net c (build_cache_key st v)) = Some cached"
      "deserialize_plan cached = Inr (result_plan r)" "cache_hit r"
    | (miss) st p where "parse_sql sql = Inr st" "compute_plan lg iter iter' ctx st = Inr p" "result_plan r = struct_of_plan p" "\<not> cache_hit r"
  using assms by (auto simp: plan_with_cache_def Let_def split_beta split: option.splits prod.splits)

lemma coherent_mono: "coherent env S sv h st \<Longrightarrow> h \<subseteq> h' \<Longrightarrow> coherent env S sv h' st"
  unfolding coherent_def entry_ok_def by blast

lemma coherent_stored:
  assumes "coherent env S (schema_version (cli_versions s)) h st" "(stats_version (cli_versions s), cli_stats s) \<in> h"
    and "\<And>sql stmt. line_sql (in_line inp) = Some sql \<Longrightarrow> parse_sql sql = Inr stmt \<Longrightarrow> stmt \<in> S"
  shows "coherent env S (schema_version (cli_versions s)) h (stored env inp s st)"
proof (cases "stored env inp s st = st")
  case False
  then obtain sql stmt r c where sql: "line_sql (in_line inp) = Some sql" "parse_sql sql = Inr stmt" "cli_plan env inp s sql = Inr (r, c)"
      "\<not> cache_hit r" "stored env inp s st = st(build_cache_key stmt (cli_versions s) \<mapsto> serialize_plan (result_plan r))"
    unfolding stored_def by (auto split: option.splits sum.splits prod.splits if_splits)
  obtain p where "computed env (cli_stats s) stmt = Inr p" "result_plan r = struct_of_plan p"
    using plan_with_cache_cases [OF sql(3) [unfolded cli_plan_def]] sql(2,4) by (metis Inr_inject)
  moreover have "stmt \<in> S" by (rule assms(3) [OF sql(1,2)])
  moreover have "cli_versions s = \<lparr>schema_version = schema_version (cli_versions s), stats_version = stats_version (cli_versions s)\<rparr>" by simp
  ultimately have "entry_ok env S (schema_version (cli_versions s)) h (build_cache_key stmt (cli_versions s)) (serialize_plan (result_plan r))"
    using assms(2) unfolding entry_ok_def by metis
  then show ?thesis using assms(1) unfolding sql(5) coherent_def by simp
qed (use assms(1) in simp)

lemma same_plan: "same_versions s s' \<Longrightarrow> cli_cache s' = cli_cache s \<Longrightarrow> cli_plan env inp s' sql = cli_plan env inp s sql"
  by (simp add: cli_plan_def same_versions_def)

lemma session_coherent:
  assumes "session env S s0 n h st s"
  shows "(stats_version (cli_versions s), cli_stats s) \<in> h \<and> coherent env S (schema_version (cli_versions s)) h st"
  using assms
proof (induction rule: session.induct)
  case opened
  then show ?case by (simp add: coherent_def)
next
  case (line n h st s inp go s')
  have "schema_version (cli_versions s') = schema_version (cli_versions s)"
    by (rule outcome_schema [OF line_outcome [OF line.hyps(4)]])
  moreover have "coherent env S (schema_version (cli_versions s)) h (stored env inp s st)"
    by (rule coherent_stored) (use line in auto)
  ultimately show ?case using coherent_mono [of env S _ h "stored env inp s st" "insert (stats_version (cli_versions s'), cli_stats s') h"] by auto
qed

text \<open>The statistics of a session: those of its start, and those of the data under the version of an epoch.\<close>

definition had :: "cli_env \<Rightarrow> cli_state \<Rightarrow> nat \<Rightarrow> hash64 \<Rightarrow> statistics \<Rightarrow> bool" where
  "had env s0 n v a \<longleftrightarrow> (v = stats_version (cli_versions s0) \<and> a = cli_stats s0) \<or>
     (v \<in> epoch_version ` {..n} \<and> analyze_database (env_database env) (env_catalog env) = Inr a)"

lemma had_Suc: "had env s0 n v a \<Longrightarrow> had env s0 (Suc n) v a"
  by (auto simp: had_def)

lemma had_functional:
  "had env s0 n v a \<Longrightarrow> had env s0 n v b \<Longrightarrow> stats_version (cli_versions s0) \<notin> epoch_version ` {..n} \<Longrightarrow> a = b"
  unfolding had_def by (metis Inr_inject)

lemma session_history:
  assumes "session env S s0 n h st s"
  shows "stats_epoch s \<le> n \<and> (\<forall>va \<in> h. had env s0 n (fst va) (snd va))"
  using assms
proof (induction rule: session.induct)
  case opened
  then show ?case by (simp add: had_def)
next
  case (line n h st s inp go s')
  have now: "had env s0 n (stats_version (cli_versions s)) (cli_stats s)"
    using line.IH session_coherent [OF line.hyps(1)] by force
  have "had env s0 (Suc n) (stats_version (cli_versions s')) (cli_stats s') \<and> stats_epoch s' \<le> Suc n"
    using line_outcome [OF line.hyps(4)]
  proof
    assume "same_versions s s'"
    then show ?thesis using had_Suc [OF now] line.IH by (simp add: same_versions_def)
  next
    assume "analyzed_state env s s'"
    then show ?thesis using line.IH by (simp add: analyzed_state_def had_def)
  qed
  with line.IH had_Suc show ?case by auto
qed

lemma session_functional:
  assumes "session env S s0 n h st s" "\<forall>k \<le> n. epoch_version k \<noteq> stats_version (cli_versions s0)" "(v, a) \<in> h" "(v, b) \<in> h"
  shows "a = b"
proof -
  have "had env s0 n v a" "had env s0 n v b" using session_history [OF assms(1)] assms(3,4) by force+
  moreover have "stats_version (cli_versions s0) \<notin> epoch_version ` {..n}" using assms(2) by force
  ultimately show ?thesis by (rule had_functional)
qed

text \<open>Statements that the keys tell apart.\<close>

definition hashes_apart :: "statement set \<Rightarrow> bool" where
  "hashes_apart S \<longleftrightarrow> inj_on (\<lambda>stmt. fnv1a64 (to_canonical_sql stmt)) S"

lemma analyzed_absent:
  "analyze_tables db cat names acc = Inr out \<Longrightarrow> db_get db t = None \<Longrightarrow> stats_get acc t = None \<Longrightarrow> stats_get out t = None"
proof (induction names arbitrary: acc)
  case (Cons name names)
  show ?case
  proof (cases "\<exists>tab sch. db_get db name = Some tab \<and> catalog_get cat name = Some sch")
    case True
    then obtain tab sch ts where "db_get db name = Some tab" "analyze_tables db cat names (register_stats name ts acc) = Inr out"
      using Cons.prems(1) by auto
    moreover from this have "name \<noteq> t" using Cons.prems(2) by auto
    then have "stats_get (register_stats name ts acc) t = None"
      using Cons.prems(3) by (simp add: stats_get_def register_stats_def update_conv')
    ultimately show ?thesis using Cons.IH Cons.prems(2) by blast
  next
    case False
    then have "analyze_tables db cat names acc = Inr out" using Cons.prems(1) by (auto split: option.splits)
    then show ?thesis using Cons.IH Cons.prems(2,3) by blast
  qed
qed simp

section \<open>Properties\<close>


text \<open>
  C38. ANALYZE does not tell sessions apart: the first ANALYZE of every session sets the same version of the statistics, whatever the
  data, so that a session finds the plans which another one computed and stored from other data.
\<close>

theorem analyze_epoch_shared:
  assumes "stats_epoch s = 0" "stats_epoch t = 0" "run_analyze env s = (None, s')" "run_analyze env' t = (None, t')"
    and "schema_version (cli_versions s) = schema_version (cli_versions t)"
  shows "build_cache_key stmt (cli_versions s') = build_cache_key stmt (cli_versions t')"
proof -
  have "stats_version (cli_versions u') = epoch_version 1 \<and> schema_version (cli_versions u') = schema_version (cli_versions u)"
    if "stats_epoch u = 0" "run_analyze e u = (None, u')" for e u u'
    using that by (auto simp: run_analyze_def Let_def say_def split: sum.splits)
  then show ?thesis using assms by (simp add: cache_key_segments)
qed

text \<open>
  ANALYZE forgets the statistics of a table without data, although it prints that they are unchanged.
\<close>

theorem analyze_forgets:
  assumes "run_analyze env s = (None, s')" "db_get (env_database env) t = None"
  shows "stats_get (cli_stats s') t = None"
proof -
  obtain stats where "analyze_database (env_database env) (env_catalog env) = Inr stats" "cli_stats s' = stats"
    using assms(1) by (auto simp: run_analyze_def Let_def say_def split: sum.splits)
  then show ?thesis using analyzed_absent [OF _ assms(2)] by (auto simp: analyze_database_def stats_get_def)
qed

text \<open>
  Without a statistics directory the program prints its warning and then ends with an exception: computing the versions
  of the cache keys needs the directory too.
\<close>

theorem start_needs_statistics:
  "cli_start env dir None files cal met addr up = Inl (RuntimeError (''statistics: not a directory: '' @ dir))"
  by (simp add: cli_start_def compute_versions_def fingerprint_stats_directory_def load_catalog_from_directory_def)

section \<open>Witnesses\<close>

definition sample_env :: cli_env where
  "sample_env =
     \<lparr>env_catalog = [], env_database = [], env_runtime = reference_runtime, env_log2 = five, env_set_order = sorted_list_of_set,
      env_index_order = id, env_what = (\<lambda>_. ''error''), env_data_dir = ''data'', env_metrics_log = ''metrics'', env_calibration_log = ''cal''\<rparr>"

definition sample_input :: "string \<Rightarrow> network \<Rightarrow> cli_input" where
  "sample_input l net =
     \<lparr>in_line = l, in_network = net, in_parse_ms = dzero, in_lookup_ms = dzero, in_plan_ms = dzero, in_store_ms = dzero,
      in_report = Report ''SeqScan(a)'' 0 dzero [], in_log_writable = True, in_calibration_writable = True\<rparr>"

definition sample_start :: cli_state where
  "sample_start =
     \<lparr>cli_stats = pc_stats sample_context, cli_versions = sample_versions, stats_epoch = 0, next_query_id = 1, cli_calibration = [],
      cli_cache = \<lparr>fd_open = True\<rparr>, cli_out = new_stream, metrics_log = [], calibration_log = None\<rparr>"

abbreviation sample_key :: string where
  "sample_key \<equiv> build_cache_key sample_statement sample_versions"

text \<open>A server that holds one value.\<close>

definition store_server :: "string \<Rightarrow> string \<Rightarrow> network" where
  "store_server key v req = (if req = encode_command [''GET'', key] then text_server v req else null_server req)"

lemma null_honest: "honest null_server st"
  unfolding honest_def using null_server_get cache_get_closed by (metis option.distinct(1) prod.inject)

lemma store_server_get:
  assumes "fd_open c" "int (length v) \<le> kMaxBulkLength"
  shows "cache_get (store_server key v) c k = (if k = key then Some v else None, c)"
proof (cases "k = key")
  case True
  have "holds (store_server key v) key v" using text_server_holds [of v key] by (simp add: holds_def store_server_def)
  then show ?thesis using cache_get_holds [OF assms(1) _ assms(2)] True by simp
next
  case False
  then have "encode_command [''GET'', k] \<noteq> encode_command [''GET'', key]"
    using encode_command_framed [of "[''GET'', k]" "[]" "[''GET'', key]" "[]"] by auto
  then have "cache_get (store_server key v) c k = cache_get null_server c k"
    by (simp add: cache_get_def send_command_def store_server_def)
  then show ?thesis using null_server_get [OF assms(1)] False by simp
qed

lemma store_honest: "int (length v) \<le> kMaxBulkLength \<Longrightarrow> honest (store_server key v) [key \<mapsto> v]"
proof -
  assume v: "int (length v) \<le> kMaxBulkLength"
  have "[key \<mapsto> v] k = Some w" if "cache_get (store_server key v) c k = (Some w, c')" for c k w c'
    using that store_server_get [OF _ v, of c key k] cache_get_closed [of c "store_server key v" k]
    by (cases "fd_open c") (auto split: if_splits)
  then show ?thesis unfolding honest_def by blast
qed

lemma sample_command: "read_command ''EXPLAIN SELECT * FROM a x;'' = Explain sample_sql"
  by code_simp

lemma sample_computes: "computed sample_env (cli_stats sample_start) sample_statement = Inr sample_stored"
  using sample_computed by (simp add: sample_env_def sample_start_def sample_context_def)

lemma null_server_send: "fd_open c \<Longrightarrow> send_command null_server c args = (Some RNull, c)"
  using socket_reader.reads_reply [of "([], [write_resp RNull])" RNull "[]"]
  by (auto simp: send_command_def null_server_def send_all_length socket_valid_def socket_pending_def)

lemma sample_miss:
  "cli_plan sample_env (sample_input l null_server) (next_id (say xs sample_start)) sample_sql =
     Inr (\<lparr>result_plan = struct_of_plan sample_stored, cache_hit = False\<rparr>, \<lparr>fd_open = True\<rparr>)"
proof -
  have "cache_get null_server \<lparr>fd_open = True\<rparr> sample_key = (None, \<lparr>fd_open = True\<rparr>)" by (rule null_server_get) simp
  moreover have "snd (cache_set null_server \<lparr>fd_open = True\<rparr> k v n) = \<lparr>fd_open = True\<rparr>" for k v n
    by (simp add: cache_set_def null_server_send)
  ultimately show ?thesis
    using plan_with_cache_miss [OF sample_parsed, of null_server "\<lparr>fd_open = True\<rparr>" sample_versions] sample_computes
    by (simp add: cli_plan_def sample_input_def next_id_def say_def sample_start_def sample_env_def)
qed

lemma cache_metrics: "cli_cache (print_and_log_metrics env inp m s) = cli_cache s"
  by (simp add: print_and_log_metrics_def Let_def say_def split: sum.split)

lemma cache_say: "cli_cache (say xs s) = cli_cache s"
  by (simp add: say_def)

text \<open>The first line of a session: it stores the plan it explains.\<close>

lemma sample_explained:
  defines "inp \<equiv> sample_input ''EXPLAIN SELECT * FROM a x;'' null_server"
  obtains s where "session sample_env {sample_statement} sample_start 1 {(2, pc_stats sample_context)} [sample_key \<mapsto> serialize_plan (struct_of_plan sample_stored)] s"
    "same_versions sample_start s" "fd_open (cli_cache s)"
proof -
  let ?s0 = "say [Text ''sql> ''] sample_start" and ?h = "{(2, pc_stats sample_context)}"
  have cmd: "read_command (in_line inp) = Explain sample_sql" by (simp add: inp_def sample_input_def sample_command)
  have plan: "cli_plan sample_env inp (next_id ?s0) sample_sql = Inr (\<lparr>result_plan = struct_of_plan sample_stored, cache_hit = False\<rparr>, \<lparr>fd_open = True\<rparr>)"
    unfolding inp_def by (rule sample_miss)
  define s where "s = snd (run_explain sample_env inp (next_query_id ?s0) sample_sql (next_id ?s0))"
  have none: "run_explain sample_env inp (next_query_id ?s0) sample_sql (next_id ?s0) = (None, s)" and "fd_open (cli_cache s)"
    by (simp_all add: s_def run_explain_def plan plan_of_struct_of_plan cache_metrics cache_say Let_def)
  have run: "cli_line sample_env inp ?s0 = Inr (True, s)" by (simp add: cli_line_def cmd none guarded_def)
  have same: "same_versions sample_start s"
    using same_queries(2) [of "next_id ?s0" sample_env inp "next_query_id ?s0" sample_sql] none
    by (simp add: same_versions_def next_id_def say_def)
  have sql: "line_sql (in_line inp) = Some sample_sql" by (simp add: line_sql_def cmd)
  have "cli_plan sample_env inp sample_start sample_sql = cli_plan sample_env inp (next_id ?s0) sample_sql"
    by (simp add: cli_plan_def next_id_def say_def)
  then have stored: "stored sample_env inp sample_start Map.empty = [sample_key \<mapsto> serialize_plan (struct_of_plan sample_stored)]"
    by (simp add: stored_def sql sample_parsed plan) (simp add: sample_start_def)
  have "session sample_env {sample_statement} sample_start 0 ?h Map.empty sample_start"
    using session.opened [of sample_start sample_env "{sample_statement}"] by (simp add: sample_start_def sample_versions_def)
  then have "session sample_env {sample_statement} sample_start (Suc 0) (insert (stats_version (cli_versions s), cli_stats s) ?h)
      (stored sample_env inp sample_start Map.empty) s"
    by (rule session.line [OF _ _ _ run]) (use sql sample_parsed null_honest in \<open>auto simp: inp_def sample_input_def\<close>)
  moreover have "insert (stats_version (cli_versions s), cli_stats s) ?h = ?h" using same
    by (simp add: same_versions_def sample_start_def sample_versions_def)
  ultimately show ?thesis using that same \<open>fd_open (cli_cache s)\<close> stored by simp
qed


lemma run_analyze_done:
  assumes "analyze_database (env_database env) (env_catalog env) = Inr stats" "rmap (analyzed_line stats) (table_names (env_catalog env)) = Inr ls"
  obtains s' where "run_analyze env s = (None, s')" "cli_stats s' = stats"
  using assms by (simp add: run_analyze_def Let_def say_def)

theorem analyze_forgets_witness:
  "\<exists>s'. run_analyze sample_env sample_start = (None, s') \<and> stats_get (cli_stats s') ''a'' = None"
proof -
  obtain s' where "run_analyze sample_env sample_start = (None, s')"
    by (rule run_analyze_done [of sample_env "[]" "[]"]) (simp_all add: sample_env_def analyze_database_def table_names_def)
  then show ?thesis using analyze_forgets [of sample_env sample_start s' "''a''"] by (simp add: sample_env_def db_get_def)
qed

definition names_catalog :: catalog where
  "names_catalog = [(''a'', \<lparr>schema_columns = [column ''name'' TextType False],
     schema_stats = \<lparr>row_count = 1, avg_row_bytes = 16\<rparr>, indexed_columns = []\<rparr>)]"

definition names_env :: "database \<Rightarrow> cli_env" where
  "names_env db = sample_env\<lparr>env_catalog := names_catalog, env_database := db\<rparr>"

definition analyzed :: "database \<Rightarrow> double option result" where
  "analyzed db =
     rbind (analyze_database db names_catalog) (\<lambda>stats.
     rbind (rmap (analyzed_line stats) (table_names names_catalog)) (\<lambda>ls. Inr (map_option stats_row_count (stats_get stats ''a''))))"

lemma analyzedD:
  assumes "analyzed db = Inr n"
  obtains s' where "run_analyze (names_env db) s = (None, s')" "map_option stats_row_count (stats_get (cli_stats s') ''a'') = n"
proof -
  obtain stats ls where st: "analyze_database db names_catalog = Inr stats" "rmap (analyzed_line stats) (table_names names_catalog) = Inr ls"
    "map_option stats_row_count (stats_get stats ''a'') = n"
    using assms unfolding analyzed_def by auto
  obtain s' where "run_analyze (names_env db) s = (None, s')" "cli_stats s' = stats"
    by (rule run_analyze_done [of "names_env db" stats ls]) (use st in \<open>simp_all add: names_env_def\<close>)
  then show ?thesis using that st(3) by simp
qed

theorem analyze_epoch_shared_witness:
  "\<exists>s t. run_analyze (names_env []) sample_start = (None, s) \<and>
     run_analyze (names_env [(''a'', \<lparr>table_columns = [''name''], table_rows = []\<rparr>)]) sample_start = (None, t) \<and> cli_stats s \<noteq> cli_stats t \<and>
     build_cache_key sample_statement (cli_versions s) = build_cache_key sample_statement (cli_versions t)"
proof -
  have counts: "analyzed [] = Inr None" "analyzed [(''a'', \<lparr>table_columns = [''name''], table_rows = []\<rparr>)] = Inr (Some (Fin False 0))"
    by code_simp+
  obtain s where s: "run_analyze (names_env []) sample_start = (None, s)" "map_option stats_row_count (stats_get (cli_stats s) ''a'') = None"
    by (rule analyzedD [OF counts(1)])
  obtain t where t: "run_analyze (names_env [(''a'', \<lparr>table_columns = [''name''], table_rows = []\<rparr>)]) sample_start = (None, t)"
      "map_option stats_row_count (stats_get (cli_stats t) ''a'') = Some (Fin False 0)" by (rule analyzedD [OF counts(2)])
  have "cli_stats s \<noteq> cli_stats t" using s(2) t(2) by auto
  then show ?thesis using s(1) t(1) analyze_epoch_shared [OF _ _ s(1) t(1)] by (simp add: sample_start_def)
qed

end
