(* ===== verification/Web_Api.thy ===== *)
theory Web_Api
  imports Cli
begin

text \<open>
  The routes of the browser interface (\<^verbatim>\<open>web/api_handlers.cpp\<close>): the schema, queries, and the files of the front end.  The state is
  the counter of query identifiers and the metrics log, both shared by all requests.
\<close>

section \<open>State\<close>

record api_env = cli_env +
  api_stats :: statistics
  api_versions :: cache_versions
  frontend_dir :: string

record api_input = cli_input +
  in_connected :: bool

record api_state =
  g_next_query_id :: nat
  api_log :: string

section \<open>The schema\<close>

definition table_entry :: "catalog \<Rightarrow> statistics \<Rightarrow> string \<Rightarrow> json result" where
  "table_entry cat stats name =
     (case catalog_get cat name of
        None \<Rightarrow> Inl (UndefinedBehaviour ''null pointer'')
      | Some sch \<Rightarrow>
          Inr (JObject [(''name'', JString name), (''columns'', JArray (map (JString \<circ> col_name) (schema_columns sch))),
            (''row_count'', JNumber (case stats_get stats name of Some ts \<Rightarrow> stats_row_count ts | None \<Rightarrow> dzero))]))"

definition api_schema :: "'a api_env_scheme \<Rightarrow> http_request \<Rightarrow> http_response result" where
  "api_schema env req =
     rbind (rmap (table_entry (env_catalog env) (api_stats env)) (table_names (env_catalog env))) (\<lambda>tables.
       Inr (json_response (to_json (JObject [(''tables'', JArray tables)])) 200))"

section \<open>Queries\<close>

definition missing_sql :: http_response where
  "missing_sql = json_response (to_json (JObject [(''error'', JString (''missing '' @ [CHR 0x27] @ ''sql'' @ [CHR 0x27] @ '' field''))])) 400"

definition log_metrics_best_effort :: "'a api_env_scheme \<Rightarrow> 'b api_input_scheme \<Rightarrow> query_metrics \<Rightarrow> api_state \<Rightarrow> api_state" where
  "log_metrics_best_effort env inp m s =
     (case append_metrics (env_metrics_log env) (if in_log_writable inp then Some (api_log s) else None) m of
        Inr file \<Rightarrow> s\<lparr>api_log := file\<rparr>
      | Inl e \<Rightarrow> s)"

definition run_if :: "bool \<Rightarrow> 'a api_env_scheme \<Rightarrow> plan_struct \<Rightarrow> (physical_plan \<times> row list option) result" where
  "run_if execute env ps =
     rbind (plan_of_struct ps) (\<lambda>p.
       if execute
       then rbind (build_executor p (env_database env) Map.empty) (\<lambda>x. rbind (run_result (env_runtime env) x) (\<lambda>rows. Inr (p, Some rows)))
       else Inr (p, None))"

definition api_metrics :: "'b api_input_scheme \<Rightarrow> nat \<Rightarrow> string \<Rightarrow> cached_plan_result \<Rightarrow> row list option \<Rightarrow> query_metrics" where
  "api_metrics inp qid sql r rows =
     \<lparr>m_query_id = qid, m_sql = sql, m_parse_ms = in_parse_ms inp, m_cache_lookup_ms = in_lookup_ms inp,
      m_plan_ms = (if cache_hit r then dzero else in_plan_ms inp), m_cache_store_ms = (if cache_hit r then dzero else in_store_ms inp),
      m_cache_hit = cache_hit r,
      m_execution_ms = (case rows of None \<Rightarrow> dzero | Some rs \<Rightarrow> report_ms (in_report inp)), m_executed = (rows \<noteq> None),
      m_actual_rows = (case rows of None \<Rightarrow> 0 | Some rs \<Rightarrow> length rs),
      m_estimated_rows = est_rows (plan_struct_info (result_plan r)), m_estimated_cost = cost_total (est_cost (plan_struct_info (result_plan r)))\<rparr>"

definition query_json :: "'b api_input_scheme \<Rightarrow> nat \<Rightarrow> cached_plan_result \<Rightarrow> physical_plan \<Rightarrow> row list option \<Rightarrow> json" where
  "query_json inp qid r p rows =
     JObject ([(''cache_hit'', JBool (cache_hit r)), (''cache_connected'', JBool (in_connected inp)),
        (''timing'', JObject ([(''parse_ms'', JNumber (in_parse_ms inp)), (''cache_lookup_ms'', JNumber (in_lookup_ms inp)),
           (''plan_ms'', JNumber (if cache_hit r then dzero else in_plan_ms inp)),
           (''cache_store_ms'', JNumber (if cache_hit r then dzero else in_store_ms inp))] @
           (case rows of None \<Rightarrow> [] | Some rs \<Rightarrow> [(''execution_ms'', JNumber (report_ms (in_report inp)))])))] @
       (case rows of None \<Rightarrow> [] | Some rs \<Rightarrow> [(''row_count'', JNumber (double_of_nat (length rs)))]) @
       [(''plan'', plan_to_json_tree p (case rows of None \<Rightarrow> None | Some rs \<Rightarrow> Some (in_report inp))),
        (''query_id'', JNumber (double_of_nat qid))])"

definition answer_query ::
  "'a api_env_scheme \<Rightarrow> 'b api_input_scheme \<Rightarrow> string \<Rightarrow> bool \<Rightarrow> api_state \<Rightarrow> (http_response \<times> api_state) result"
where
  "answer_query env inp sql execute s =
     rbind (plan_with_cache (env_log2 env) (env_set_order env) (env_index_order env)
         \<lparr>pc_schemas = env_catalog env, pc_stats = api_stats env\<rparr> (in_network inp) \<lparr>fd_open = in_connected inp\<rparr> (api_versions env) 300 sql)
       (\<lambda>(r, c). rbind (run_if execute env (result_plan r)) (\<lambda>(p, rows).
          let qid = g_next_query_id s; s = s\<lparr>g_next_query_id := (qid + 1) mod 2 ^ 64\<rparr>
          in Inr (json_response (to_json (query_json inp qid r p rows)) 200,
               log_metrics_best_effort env inp (api_metrics inp qid sql r rows) s)))"

definition api_query ::
  "'a api_env_scheme \<Rightarrow> 'b api_input_scheme \<Rightarrow> http_request \<Rightarrow> api_state \<Rightarrow> (http_response \<times> api_state) result"
where
  "api_query env inp req s =
     rbind (parse_json (req_body req)) (\<lambda>body.
       case json_find body ''sql'' of
         Some (JString sql) \<Rightarrow>
           answer_query env inp sql (case json_find body ''execute'' of Some v \<Rightarrow> as_bool v | None \<Rightarrow> False) s
       | _ \<Rightarrow> Inr (missing_sql, s))"

section \<open>Files\<close>

definition ends_with :: "string \<Rightarrow> string \<Rightarrow> bool" where
  "ends_with path suf \<longleftrightarrow> length suf \<le> length path \<and> drop (length path - length suf) path = suf"

definition content_type_for :: "string \<Rightarrow> string" where
  "content_type_for path =
     (if ends_with path ''.html'' then ''text/html''
      else if ends_with path ''.js'' then ''application/javascript''
      else if ends_with path ''.css'' then ''text/css''
      else ''application/octet-stream'')"

definition static_path :: "'a api_env_scheme \<Rightarrow> http_request \<Rightarrow> string option" where
  "static_path env req =
     (let rel = (if req_path req = ''/'' then ''/index.html'' else req_path req)
      in if sublist ''..'' rel then None else Some (frontend_dir env @ rel))"

definition static_file :: "'a api_env_scheme \<Rightarrow> (string \<Rightarrow> string option) \<Rightarrow> http_request \<Rightarrow> http_response result" where
  "static_file env files req =
     (case static_path env req of
        None \<Rightarrow> Inr (text_response ''bad path'' 400 ''text/plain'')
      | Some path \<Rightarrow>
          (case files path of
             Some content \<Rightarrow> Inr (text_response content 200 (content_type_for path))
           | None \<Rightarrow> Inr (text_response ''not found'' 404 ''text/plain'')))"

definition register_routes ::
  "'a api_env_scheme \<Rightarrow> 'b api_input_scheme \<Rightarrow> (string \<Rightarrow> string option) \<Rightarrow> api_state \<Rightarrow> http_server \<Rightarrow> http_server"
where
  "register_routes env inp files s srv =
     set_fallback (static_file env files)
       (route ''POST'' ''/api/query'' (\<lambda>req. rbind (api_query env inp req s) (\<lambda>(resp, s). Inr resp))
         (route ''GET'' ''/api/schema'' (api_schema env) srv))"

section \<open>Paths\<close>

text \<open>Following a path from a stack of directories, the way the file system does.\<close>

fun walk :: "string list \<Rightarrow> string list \<Rightarrow> string list" where
  "walk dirs [] = dirs"
| "walk dirs (c # cs) = (if c = [] \<or> c = ''.'' then walk dirs cs else if c = ''..'' then walk (butlast dirs) cs else walk (dirs @ [c]) cs)"

fun split_on :: "char \<Rightarrow> string \<Rightarrow> string list" where
  "split_on sep [] = [[]]"
| "split_on sep (c # s) =
     (if c = sep then [] # split_on sep s
      else case split_on sep s of [] \<Rightarrow> [[c]] | w # ws \<Rightarrow> (c # w) # ws)"

definition resolve_path :: "string \<Rightarrow> string list" where
  "resolve_path path = walk [] (split_on CHR ''/'' path)"

lemma split_on_not_Nil [simp]: "split_on sep s \<noteq> []"
  by (induction s) (auto split: list.split)

lemma split_on_append: "split_on sep (s @ sep # t) = split_on sep s @ split_on sep t"
proof (induction s)
  case (Cons c s)
  obtain u us where "split_on sep s = u # us" by (cases "split_on sep s") auto
  with Cons show ?case by simp
qed simp

lemma split_on_head: "split_on sep s = u # us \<Longrightarrow> prefix u s"
proof (induction s arbitrary: u us)
  case (Cons c s)
  then show ?case by (auto split: if_splits list.splits)
qed simp

lemma split_on_pieces: "w \<in> set (split_on sep s) \<Longrightarrow> sublist w s"
proof (induction s arbitrary: w)
  case (Cons c s)
  obtain u us where u: "split_on sep s = u # us" by (cases "split_on sep s") auto
  consider "w = []" | "w = c # u" | "w \<in> set (split_on sep s)" using Cons.prems u by (auto split: if_splits)
  then show ?case
  proof cases
    case 2
    then show ?thesis using split_on_head [OF u] by (auto intro: prefix_imp_sublist)
  next
    case 3
    then have "sublist w s" by (rule Cons.IH)
    then show ?thesis by (simp add: sublist_Cons_right)
  qed simp
qed simp

lemma walk_append: "walk dirs (xs @ ys) = walk (walk dirs xs) ys"
  by (induction xs arbitrary: dirs) auto

lemma walk_down: "''..'' \<notin> set cs \<Longrightarrow> prefix dirs (walk dirs cs)"
proof (induction cs arbitrary: dirs)
  case (Cons c cs)
  have "prefix dirs (walk (dirs @ [c]) cs)" using Cons.IH [of "dirs @ [c]"] Cons.prems by (auto dest: append_prefixD)
  then show ?case using Cons by auto
qed simp

section \<open>Requests in sequence\<close>

definition api_step ::
  "'a api_env_scheme \<Rightarrow> http_response list \<times> api_state \<Rightarrow> 'b api_input_scheme \<times> http_request \<Rightarrow> (http_response list \<times> api_state) result"
where
  "api_step env acc x =
     rbind (api_query env (fst x) (snd x) (snd acc)) (\<lambda>(resp, s). Inr (fst acc @ [resp], s))"

definition ok_count :: "http_response list \<Rightarrow> nat" where
  "ok_count rs = length (filter (\<lambda>r. resp_status r = 200) rs)"

abbreviation log_lines :: "query_metrics list \<Rightarrow> string" where
  "log_lines ms \<equiv> concat (map (\<lambda>m. metrics_to_json m @ newline) ms)"

lemma answer_query_logs:
  assumes "answer_query env inp sql execute s = Inr (resp, s')" "in_log_writable inp"
  shows "\<exists>m. resp_status resp = 200 \<and> m_query_id m = g_next_query_id s \<and>
    s' = \<lparr>g_next_query_id = (g_next_query_id s + 1) mod 2 ^ 64, api_log = api_log s @ metrics_to_json m @ newline\<rparr>"
proof -
  let ?s = "s\<lparr>g_next_query_id := (g_next_query_id s + 1) mod 2 ^ 64\<rparr>" and ?id = "g_next_query_id s"
  obtain r p rows where "resp = json_response (to_json (query_json inp ?id r p rows)) 200"
      "s' = log_metrics_best_effort env inp (api_metrics inp ?id sql r rows) ?s"
    using assms(1) unfolding answer_query_def Let_def case_prod_unfold rbind_eq_Inr by blast
  then show ?thesis using assms(2)
    by (intro exI [of _ "api_metrics inp ?id sql r rows"])
      (simp add: json_response_def log_metrics_best_effort_def append_metrics_def api_metrics_def)
qed

lemma api_query_cases:
  assumes "api_query env inp req s = Inr (resp, s')" "in_log_writable inp"
  shows "(resp_status resp = 400 \<and> s' = s) \<or>
    (\<exists>m. resp_status resp = 200 \<and> m_query_id m = g_next_query_id s \<and>
       s' = \<lparr>g_next_query_id = (g_next_query_id s + 1) mod 2 ^ 64, api_log = api_log s @ metrics_to_json m @ newline\<rparr>)"
proof -
  have "resp_status missing_sql = 400" by (simp add: missing_sql_def json_response_def)
  moreover have "(resp = missing_sql \<and> s' = s) \<or> (\<exists>sql execute. answer_query env inp sql execute s = Inr (resp, s'))"
    using assms(1) unfolding api_query_def rbind_eq_Inr by (elim exE conjE) (simp split: option.splits json.splits; blast)
  ultimately show ?thesis using answer_query_logs [OF _ assms(2)] by blast
qed

section \<open>Properties\<close>

text \<open>
  C32. A request whose path begins with a slash is answered with a file below the directory of the front end: however the path is
  written, following it from that directory never leaves it.
\<close>

theorem static_path_confined:
  assumes "static_path env req = Some path" "req_path req = CHR ''/'' # rest"
  shows "prefix (resolve_path (frontend_dir env)) (resolve_path path)"
proof -
  obtain r where r: "path = frontend_dir env @ CHR ''/'' # r" "\<not> sublist ''..'' r"
    using assms by (auto simp: static_path_def Let_def sublist_Cons_right split: if_splits)
  have "''..'' \<notin> set (split_on CHR ''/'' r)" using r(2) split_on_pieces by blast
  then show ?thesis by (simp add: r(1) resolve_path_def split_on_append walk_append walk_down)
qed



section \<open>Witnesses\<close>

definition sample_api :: api_env where
  "sample_api = cli_env.extend sample_env \<lparr>api_stats = pc_stats sample_context, api_versions = sample_versions, frontend_dir = ''/srv/frontend''\<rparr>"

definition sample_request :: "string \<Rightarrow> string \<Rightarrow> http_request" where
  "sample_request path body = \<lparr>req_method = ''GET'', req_path = path, req_query = [], req_headers = [], req_body = body\<rparr>"

theorem static_path_confined_witness:
  "static_path sample_api (sample_request ''/a/../../x'' []) = None \<and> static_path sample_api (sample_request ''/a/./b.js'' []) = Some ''/srv/frontend/a/./b.js'' \<and>
   prefix (resolve_path ''/srv/frontend'') (resolve_path ''/srv/frontend/a/./b.js'')"
proof -
  have dir: "frontend_dir sample_api = ''/srv/frontend''" by (simp add: sample_api_def cli_env.extend_def)
  have "sublist ''..'' ''/a/../../x''" "\<not> sublist ''..'' ''/a/./b.js''" by code_simp+
  then have "static_path sample_api (sample_request ''/a/../../x'' []) = None" 
    and path: "static_path sample_api (sample_request ''/a/./b.js'' []) = Some ''/srv/frontend/a/./b.js''"
    by (simp_all add: static_path_def sample_request_def dir)
  moreover have "prefix (resolve_path ''/srv/frontend'') (resolve_path ''/srv/frontend/a/./b.js'')"
    using static_path_confined [OF path, of "''a/./b.js''"] by (simp add: sample_request_def dir)
  ultimately show ?thesis by blast
qed


definition api_sample_input :: api_input where
  "api_sample_input = cli_input.extend (sample_input [] null_server) \<lparr>in_connected = False\<rparr>"

definition sample_query :: http_request where
  "sample_query = sample_request ''/api/query'' (to_json (JObject [(''sql'', JString sample_sql)]))"

lemma sample_api_query:
  "\<exists>resp s'. api_query sample_api api_sample_input sample_query s = Inr (resp, s') \<and> resp_status resp = 200"
proof -
  have "json_ok (JObject [(''sql'', JString sample_sql)])" by code_simp
  then have "parse_json (req_body sample_query) = Inr (JObject [(''sql'', JString sample_sql)])"
    by (simp add: sample_query_def sample_request_def parse_json_written)
  moreover have "\<lparr>pc_schemas = [], pc_stats = pc_stats sample_context\<rparr> = sample_context" by (simp add: sample_context_def)
  then have "plan_with_cache (env_log2 sample_api) (env_set_order sample_api) (env_index_order sample_api)
      \<lparr>pc_schemas = env_catalog sample_api, pc_stats = api_stats sample_api\<rparr> (in_network api_sample_input) \<lparr>fd_open = in_connected api_sample_input\<rparr>
      (api_versions sample_api) 300 sample_sql = Inr (\<lparr>result_plan = struct_of_plan sample_stored, cache_hit = False\<rparr>, \<lparr>fd_open = False\<rparr>)"
    using plan_without_cache [of "\<lparr>fd_open = False\<rparr>" five sorted_list_of_set id sample_context null_server sample_versions 300 sample_sql]
    by (simp add: sample_computed sample_parsed api_sample_input_def sample_api_def cli_env.extend_def cli_input.extend_def
        sample_env_def sample_input_def)
  ultimately show ?thesis
    by (simp add: api_query_def answer_query_def run_if_def plan_of_struct_of_plan json_response_def Let_def)
qed


end
