(* ===== verification/Spec2Isabelle.thy ===== *)
theory Spec2Isabelle
  imports Sorting Distributed_Query Web_Api
begin

text \<open>
  A verification development of the SQL query optimizer and of its execution engine.

  \<^bold>\<open>The program.\<close>  A SELECT statement is lexed and parsed (\<^verbatim>\<open>parser/\<close>), turned into a logical plan and
  rewritten by rules (\<^verbatim>\<open>logical/\<close>), and turned into a physical plan with a cost model, statistics and a
  dynamic-programming join search (\<^verbatim>\<open>physical/\<close>, \<^verbatim>\<open>optimizer/\<close>, \<^verbatim>\<open>statistics/\<close>).  The physical plan is run by
  pull-based operators over tables loaded from CSV files (\<^verbatim>\<open>execution/\<close>, \<^verbatim>\<open>storage/\<close>).  Plans are cached in a
  separate server (\<^verbatim>\<open>integration/\<close>), and a coordinator can spread the execution over workers that own partitions of the
  tables (\<^verbatim>\<open>distributed/\<close>), choosing its join strategy by experience (\<^verbatim>\<open>adaptive/\<close>).

  \<^bold>\<open>Conventions.\<close>  \<^theory_text>\<open>Prelude\<close> has the error type: a C++ exception, or an undefined behaviour the code can run
  into, is the left summand of \<open>error + 'a\<close>, with \<open>rbind\<close>, \<open>rmap\<close> and \<open>rfold\<close> for sequencing.  \<^verbatim>\<open>int64_t\<close> values
  are integers whose range is checked where the code computes (signed overflow is undefined behaviour),
  \<^verbatim>\<open>size_t\<close> values are naturals with their wrap-around written out, \<^verbatim>\<open>uint64_t\<close> masks are 64-bit words.
  \<^theory_text>\<open>Doubles\<close> models IEEE binary64 arithmetic with round-to-nearest-even, its comparisons, and the renderings
  of \<^verbatim>\<open>operator<<\<close> and \<^verbatim>\<open>std::to_string\<close>.  Hash maps are association lists with one entry per key.  What the
  C++ standard leaves open is a parameter: the iteration order of hash sets and multimaps, the result of
  \<^verbatim>\<open>std::sort\<close> (any sorted permutation, for a strict weak order), and \<^verbatim>\<open>std::log2\<close>.

  \<^bold>\<open>Front end.\<close>  \<^theory_text>\<open>Ast\<close> (tokens, expressions, statements), \<^theory_text>\<open>Lexer\<close>, \<^theory_text>\<open>Parser\<close> and \<^theory_text>\<open>Sql_Printer\<close>: the functions of
  the C++ files under their own names.  The recursive descent carries fuel, the number of tokens plus one;
  \<open>Parser.parse_sql_returns\<close> shows that it never runs out.  The lemmas show that tokens and parsed
  statements are well formed and that parsing inverts the canonical printer.

  \<^bold>\<open>Logical planning.\<close>  \<^theory_text>\<open>Schema\<close> (catalog), \<^theory_text>\<open>Logical_Planner\<close> and \<^theory_text>\<open>Logical_Optimizer\<close> (predicate pushdown,
  projection pushdown, greedy join reordering).  The lemmas say which relations, conjuncts and conditions
  each rewriting keeps; \<^theory_text>\<open>Pushdown\<close> shows on the execution semantics that pushdown keeps the rows.

  \<^bold>\<open>Statistics and estimates.\<close>  \<^theory_text>\<open>Statistics\<close> (histograms, ANALYZE), \<^theory_text>\<open>Selectivity\<close>, \<^theory_text>\<open>Cardinality_Estimator\<close>,
  \<^theory_text>\<open>Cost\<close>, \<^theory_text>\<open>Physical_Plan\<close> (plans and the recomputed cost).  The lemmas are bounds: selectivities are
  fractions, estimates stay between one row and the input, costs are never negative or NaN.

  \<^bold>\<open>Physical planning.\<close>  \<^theory_text>\<open>Join_Graph\<close>, \<^theory_text>\<open>Access_Paths\<close>, \<^theory_text>\<open>Join_Enumerator\<close> (the search over relation masks) and
  \<^theory_text>\<open>Physical_Planner\<close>.  The lemmas show that no relation or predicate is lost on the way into the join
  graph, what plans the search returns, for which graphs it finds one, and that each memo entry is the
  cheapest of its candidates.

  \<^bold>\<open>Execution.\<close>  \<^theory_text>\<open>Values\<close> (value operations, row schemas, evaluation), \<^theory_text>\<open>Storage\<close> (CSV, tables), \<^theory_text>\<open>Operators\<close> (the
  iterators as state machines with the locale \<open>row_source\<close> for what an operator assumes of its input),
  \<^theory_text>\<open>Executor\<close> (the operators on plan trees, which interpret the locale, and the stream semantics \<open>exec_rows\<close>
  that running them refines).  \<^theory_text>\<open>Equivalences\<close>, \<^theory_text>\<open>Sorting\<close> and \<^theory_text>\<open>Aggregation\<close> state what joins, sorts and
  aggregations compute; \<^theory_text>\<open>Reference_Runtime\<close> is one concrete choice of the standard library's freedom, for
  evaluating examples.

  \<^bold>\<open>Plan cache.\<close>  \<^theory_text>\<open>Decimal\<close> shows that \<^verbatim>\<open>std::stod\<close> inverts \<^verbatim>\<open>%.17g\<close>.  \<^theory_text>\<open>Json\<close> (\<^verbatim>\<open>util/json.cpp\<close>) is the parser, whose fuel is the
  length of the text plus one and never runs out, and the writer; \<^theory_text>\<open>Plan_Serializer\<close> has the C++ structs field by
  field and their JSON form; \<^theory_text>\<open>Resp\<close> is the protocol and the client, with the locale \<open>byte_reader\<close> for what \<^verbatim>\<open>ByteReader\<close>
  promises, interpreted on the string reader and on the socket reader; \<^theory_text>\<open>Plan_Cache\<close> has hashes, keys and
  \<^verbatim>\<open>plan_with_cache\<close>.  The lemmas are round trips, the framing of the protocol, and that a cached plan is the
  computed one.

  \<^bold>\<open>Distributed execution.\<close>  \<^theory_text>\<open>Exchange\<close> has the locale \<open>exchange\<close>: rows with a target below the number of workers, and what
  follows for the buckets and for joins of buckets.  \<^theory_text>\<open>Partition\<close> (\<^verbatim>\<open>distributed/partition.cpp\<close>) interprets it on the static partitioning
  by identifier, \<^theory_text>\<open>Coordinator\<close> on the hash of a join key.  \<^theory_text>\<open>Worker\<close> (\<^verbatim>\<open>row_json.cpp\<close>, \<^verbatim>\<open>worker_service.cpp\<close>) is the worker's handler and
  the coordinator's call of it, with the recomputation when it does not answer; \<^theory_text>\<open>Coordinator\<close> is all of \<^verbatim>\<open>coordinator.cpp\<close> and
  \<^verbatim>\<open>properties.hpp\<close>.  \<^theory_text>\<open>Distribution\<close> shows that scans, broadcast joins and shuffle joins gather the rows of the single-node
  execution whichever workers answer, \<^theory_text>\<open>Merging\<close> what merged aggregates are (and where they are wrong), \<^theory_text>\<open>Distributed_Query\<close> that
  whole queries agree with the execution on one node.  What the coordinator asks of a connection is \<open>faithful\<close>; \<^theory_text>\<open>Http\<close>
  (\<^verbatim>\<open>http_client.cpp\<close>, \<^verbatim>\<open>web/http_server.cpp\<close>) shows it of HTTP over connections that may break at any byte.

  \<^bold>\<open>Adaptive models.\<close>  \<^theory_text>\<open>Adaptive\<close> has the epsilon-greedy bandit that chooses the join strategy, the calibration of estimated against
  measured costs, and their files.  Random draws are arguments.

  \<^bold>\<open>Programs.\<close>  \<^theory_text>\<open>Statistics_Loader\<close> reads statistics files and computes the versions of the cache keys; \<^theory_text>\<open>Reports\<close> has EXPLAIN, EXPLAIN ANALYZE,
  the plan for the browser and the metrics log, on streams whose precision stays as it was set; \<^theory_text>\<open>Cli\<close> (\<^verbatim>\<open>cmd/cli/main.cpp\<close>) is the interactive
  program as a state machine, with the inductive relation \<open>session\<close> of the states it reaches over a plan cache that may forget and fail;
  \<^theory_text>\<open>Web_Api\<close> (\<^verbatim>\<open>web/api_handlers.cpp\<close>) has the routes of the browser interface.  The lemmas show that the order of a directory does not
  matter, that a session never plans with outdated statistics, and where two sessions do.

  \<^bold>\<open>Not modelled.\<close>  Connecting, binding, accepting and threads are input and output; the other command-line programs
  (\<^verbatim>\<open>cmd/demo\<close>, \<^verbatim>\<open>cmd/benchmark\<close>, \<^verbatim>\<open>cmd/coordinator\<close>, \<^verbatim>\<open>cmd/web\<close>, \<^verbatim>\<open>cmd/worker\<close>) only wire the modelled parts together and print; times and the
  row counters of executors are arguments of what prints them; the Go cache server under \<^verbatim>\<open>cache/\<close> is a separate program.
\<close>

section \<open>From a statement to its physical plan\<close>

text \<open>
  C7.  The whole planning pipeline reads the tables of the statement: whatever the logical rewrites, the
  join search and the choice of access paths do, the physical plan of a SELECT scans exactly the tables
  of its FROM and JOIN clauses, each as often as it is named and under its alias, with usable estimates.
\<close>

theorem statement_plan_reads:
  assumes "log2_ok lg" "iter_ok iter" "counts_ok (pc_stats ctx)"
    and "generate_physical_plan lg iter ctx (optimize siter cat (fst (plan_statement m s))) = Inr p"
  shows "mset (plan_scans p) = mset (table_ident (from_table s) # map (table_ident \<circ> join_table) (joins s)) \<and>
    rows_ok p \<and> cost_ok (cost_of p)"
proof -
  have "planned (optimize siter cat (fst (plan_statement m s))) p"
    using plan_node_ok [OF assms(1-3)] assms(4) by (simp add: generate_physical_plan_def)
  then show ?thesis
    by (simp add: planned_def estimates_ok_def optimize_def reorder_joins_keeps push_projections_keeps
        push_predicates_keeps scans_plan_statement)
qed

definition single_table :: select_statement where
  "single_table =
     \<lparr>columns = [SelectWildcard], from_table = \<lparr>ref_table_name = ''a'', ref_alias = Some ''x''\<rparr>, joins = [],
      where_clause = None, group_by = [], having = None, order_by = [], limit = None\<rparr>"

theorem statement_plan_reads_witness:
  "\<exists>p. generate_physical_plan five id sample_context
        (optimize sorted_list_of_set [] (fst (plan_statement [] single_table))) = Inr p \<and>
     mset (plan_scans p) = {#(''a'', Some ''x'')#} \<and> rows_ok p \<and> cost_ok (cost_of p)"
proof -
  let ?lp = "optimize sorted_list_of_set [] (fst (plan_statement [] single_table))"
  have lp: "?lp = Scan ''a'' (Some ''x'') []"
    by (simp add: single_table_def plan_statement_def optimize_def scan_ref_def)
  have "\<exists>p. generate_physical_plan five id sample_context ?lp = Inr p"
    by (simp add: lp generate_physical_plan_def plan_scan_def estimate_scan_def sample_context_def stats_get_def
        Let_def make_estimate_def rows_to_size_one)
  then obtain p where p: "generate_physical_plan five id sample_context ?lp = Inr p" by blast
  from statement_plan_reads [OF five_ok iter_id sample_counts_ok p] p show ?thesis
    by (auto simp: single_table_def)
qed

end
